(* ===== verification/Rust_Prelude.thy ===== *)
theory Rust_Prelude
  imports Main "HOL-Library.Word" "HOL-Library.AList" "HOL-Library.Char_ord"
    "HOL-Library.List_Lexorder" "HOL-Library.Multiset"
begin

text \<open>
  The vocabulary the components share: the fragment of the Rust standard library that the
  modelled code calls (results, \<^verbatim>\<open>iter().find\<close>, \<^verbatim>\<open>iter_mut().find\<close>, \<^verbatim>\<open>retain\<close>,
  \<^verbatim>\<open>HashMap\<close>, string splitting, integer parsing and printing), with the lemmas the component
  proofs use.

  Strings are \<^typ>\<open>string\<close>, lists of bytes: Rust strings are UTF-8 byte sequences, and the
  functions below read them byte by byte. Where Rust's functions are Unicode aware
  (\<^verbatim>\<open>trim\<close>, \<^verbatim>\<open>split_whitespace\<close>) the model follows them on ASCII text, which is what host
  names, addresses, ports and rule text are.

  A \<^verbatim>\<open>HashMap\<close> is an association list with distinct keys; its order stands for the map's
  iteration order, which Rust leaves unspecified, so a theorem about every association list
  holds for every iteration order.
\<close>

named_theorems rust_simps \<open>equations of the Rust library functions\<close>
named_theorems rust_eval \<open>equations that evaluate the library functions on closed text\<close>
named_theorems keys_simps \<open>how operations act on the keys of a store\<close>

type_synonym u8 = "8 word"
type_synonym u16 = "16 word"
type_synonym u32 = "32 word"
type_synonym u64 = "64 word"
type_synonym u128 = "128 word"

type_synonym ('k, 'v) hashmap = "('k \<times> 'v) list"

section \<open>Results\<close>

text \<open>\<^verbatim>\<open>Result<T, E>\<close> is \<open>'e + 'a\<close>: \<^term>\<open>Inl\<close> is \<^verbatim>\<open>Err\<close> and \<^term>\<open>Inr\<close> is \<^verbatim>\<open>Ok\<close>.\<close>

abbreviation Err :: "'e \<Rightarrow> 'e + 'a" where "Err \<equiv> Inl"
abbreviation Ok :: "'a \<Rightarrow> 'e + 'a" where "Ok \<equiv> Inr"

definition res_bind :: "'e + 'a \<Rightarrow> ('a \<Rightarrow> 'e + 'b) \<Rightarrow> 'e + 'b" where
  "res_bind r f = (case r of Inl e \<Rightarrow> Inl e | Inr a \<Rightarrow> f a)"

definition map_err :: "('e \<Rightarrow> 'f) \<Rightarrow> 'e + 'a \<Rightarrow> 'f + 'a" where
  "map_err f r = (case r of Inl e \<Rightarrow> Inl (f e) | Inr a \<Rightarrow> Inr a)"

definition is_ok :: "'e + 'a \<Rightarrow> bool" where
  "is_ok r = (case r of Inl _ \<Rightarrow> False | Inr _ \<Rightarrow> True)"

definition ok :: "'e + 'a \<Rightarrow> 'a option" where
  "ok r = (case r of Inl _ \<Rightarrow> None | Inr a \<Rightarrow> Some a)"

definition ok_or :: "'e \<Rightarrow> 'a option \<Rightarrow> 'e + 'a" where
  "ok_or e x = (case x of None \<Rightarrow> Inl e | Some a \<Rightarrow> Inr a)"

definition unwrap_or :: "'a \<Rightarrow> 'a option \<Rightarrow> 'a" where
  "unwrap_or d x = (case x of None \<Rightarrow> d | Some a \<Rightarrow> a)"

definition get_or_insert :: "'a \<Rightarrow> 'a option \<Rightarrow> 'a option" where
  "get_or_insert d x = Some (unwrap_or d x)"

lemma res_bind_simps [simp, rust_simps]:
  "res_bind (Inl e) f = Inl e" "res_bind (Inr a) f = f a"
  by (simp_all add: res_bind_def)

lemma res_bind_Inr_iff: "res_bind r f = Inr b \<longleftrightarrow> (\<exists>a. r = Inr a \<and> f a = Inr b)"
  by (cases r) auto

lemma res_bind_assoc: "res_bind (res_bind r f) g = res_bind r (\<lambda>x. res_bind (f x) g)"
  by (cases r) auto

lemma res_bind_Ok [simp]: "res_bind r (\<lambda>x. Inr x) = r"
  by (cases r) auto

lemma map_err_simps [simp, rust_simps]:
  "map_err f (Inl e) = Inl (f e)" "map_err f (Inr a) = Inr a"
  by (simp_all add: map_err_def)

lemma map_err_Inr_iff [simp]: "map_err f r = Inr a \<longleftrightarrow> r = Inr a"
  by (cases r) auto

lemma is_ok_simps [simp, rust_simps]: "is_ok (Inl e) = False" "is_ok (Inr a) = True"
  by (simp_all add: is_ok_def)

lemma ok_simps [simp, rust_simps]: "ok (Inl e) = None" "ok (Inr a) = Some a"
  by (simp_all add: ok_def)

lemma ok_eq_Some_iff: "ok r = Some a \<longleftrightarrow> r = Inr a"
  by (cases r) auto

lemma ok_or_simps [simp, rust_simps]: "ok_or e None = Inl e" "ok_or e (Some a) = Inr a"
  by (simp_all add: ok_or_def)

lemma ok_or_Inr_iff [simp]: "ok_or e x = Inr a \<longleftrightarrow> x = Some a"
  by (cases x) auto

lemma unwrap_or_simps [simp, rust_simps]: "unwrap_or d None = d" "unwrap_or d (Some a) = a"
  by (simp_all add: unwrap_or_def)

section \<open>Vectors\<close>

text \<open>
  \<^verbatim>\<open>if let Some(x) = v.iter_mut().find(p) { *x = f(x) }\<close>: the first element that satisfies
  \<open>p\<close> is replaced, the others are left alone.
\<close>

fun update_first :: "('a \<Rightarrow> bool) \<Rightarrow> ('a \<Rightarrow> 'a) \<Rightarrow> 'a list \<Rightarrow> 'a list" where
  "update_first p f [] = []"
| "update_first p f (x # xs) = (if p x then f x # xs else x # update_first p f xs)"

text \<open>\<^verbatim>\<open>v.remove(v.iter().position(p)?)\<close>: the first element that satisfies \<open>p\<close> is taken out.\<close>

fun remove_first :: "('a \<Rightarrow> bool) \<Rightarrow> 'a list \<Rightarrow> 'a list" where
  "remove_first p [] = []"
| "remove_first p (x # xs) = (if p x then xs else x # remove_first p xs)"

lemma length_update_first [simp]: "length (update_first p f xs) = length xs"
  by (induction xs) auto

lemma update_first_id: "find p xs = None \<Longrightarrow> update_first p f xs = xs"
  by (induction xs) (auto split: if_splits)

lemma find_SomeD: "find p xs = Some x \<Longrightarrow> x \<in> set xs \<and> p x"
  by (induction xs) (auto split: if_splits)

lemma find_None_filter: "find p xs = None \<longleftrightarrow> (\<forall>x \<in> set xs. \<not> p x)"
  by (auto simp: find_None_iff)

lemma map_update_first [keys_simps]:
  "(\<And>x. k (f x) = k x) \<Longrightarrow> map k (update_first p f xs) = map k xs"
  by (induction xs) auto

lemma map_update_first_const:
  "(\<And>x. x \<in> set xs \<Longrightarrow> p x \<Longrightarrow> k y = k x) \<Longrightarrow> map k (update_first p (\<lambda>_. y) xs) = map k xs"
  by (induction xs) auto

lemma set_update_first_subset:
  "set (update_first p f xs) \<subseteq> set xs \<union> f ` {x \<in> set xs. p x}"
  by (induction xs) auto

lemma update_first_not:
  "x \<in> set xs \<Longrightarrow> \<not> p x \<Longrightarrow> x \<in> set (update_first p f xs)"
  by (induction xs) auto

lemma update_first_hit:
  "find p xs = Some x \<Longrightarrow> f x \<in> set (update_first p f xs)"
  by (induction xs) (auto split: if_splits)

lemma find_update_first:
  "find p xs = Some x \<Longrightarrow> p (f x) \<Longrightarrow> find p (update_first p f xs) = Some (f x)"
  by (induction xs) (auto split: if_splits)

lemma set_remove_first_subset: "set (remove_first p xs) \<subseteq> set xs"
  by (induction xs) auto

lemma map_filter_update_first:
  "(\<And>x. p x \<Longrightarrow> \<not> q x) \<Longrightarrow> (\<And>x. p x \<Longrightarrow> \<not> q (f x)) \<Longrightarrow>
   filter q (update_first p f xs) = filter q xs"
  by (induction xs) auto

lemma in_set_map_filter: "y \<in> set (List.map_filter f xs) \<longleftrightarrow> (\<exists>x \<in> set xs. f x = Some y)"
  by (induction xs) (auto simp: map_filter_simps split: option.splits)

text \<open>With distinct keys the element a key finds is the only one with that key.\<close>

lemma find_distinct_key:
  "distinct (map k xs) \<Longrightarrow> x \<in> set xs \<Longrightarrow> find (\<lambda>y. k y = k x) xs = Some x"
  by (induction xs) (auto simp: image_iff)

lemma distinct_map_filter_key: "distinct (map k xs) \<Longrightarrow> distinct (map k (filter p xs))"
  by (rule distinct_map_filter)

lemma distinct_key_eq:
  "distinct (map k xs) \<Longrightarrow> x \<in> set xs \<Longrightarrow> y \<in> set xs \<Longrightarrow> k x = k y \<Longrightarrow> x = y"
  by (auto simp: distinct_map dest: inj_onD)

lemma distinct_remove_first: "distinct (map k xs) \<Longrightarrow> distinct (map k (remove_first p xs))"
  by (induction xs) (auto dest: set_remove_first_subset [THEN subsetD])

lemma remove_first_distinct_key:
  "distinct (map k xs) \<Longrightarrow> remove_first (\<lambda>x. k x = a) xs = filter (\<lambda>x. k x \<noteq> a) xs"
proof (induction xs)
  case (Cons x xs)
  then show ?case
    by (auto simp: image_iff intro!: filter_True [symmetric])
qed simp

section \<open>Strings\<close>

text \<open>ASCII character classes, as \<^verbatim>\<open>char::is_ascii_digit\<close> and its kin.\<close>

definition is_ascii_digit :: "char \<Rightarrow> bool" where
  "is_ascii_digit c = (48 \<le> (of_char c :: nat) \<and> (of_char c :: nat) \<le> 57)"

definition is_ascii_lower :: "char \<Rightarrow> bool" where
  "is_ascii_lower c = (97 \<le> (of_char c :: nat) \<and> (of_char c :: nat) \<le> 122)"

definition is_ascii_upper :: "char \<Rightarrow> bool" where
  "is_ascii_upper c = (65 \<le> (of_char c :: nat) \<and> (of_char c :: nat) \<le> 90)"

definition is_ascii_alphanumeric :: "char \<Rightarrow> bool" where
  "is_ascii_alphanumeric c = (is_ascii_digit c \<or> is_ascii_lower c \<or> is_ascii_upper c)"

definition is_ws :: "char \<Rightarrow> bool" where
  "is_ws c = ((of_char c :: nat) = 32 \<or> (9 \<le> (of_char c :: nat) \<and> (of_char c :: nat) \<le> 13))"

definition is_control :: "char \<Rightarrow> bool" where
  "is_control c = ((of_char c :: nat) < 32 \<or> (of_char c :: nat) = 127)"

definition to_ascii_lower :: "char \<Rightarrow> char" where
  "to_ascii_lower c = (if is_ascii_upper c then char_of ((of_char c :: nat) + 32) else c)"

definition eq_ignore_ascii_case :: "string \<Rightarrow> string \<Rightarrow> bool" where
  "eq_ignore_ascii_case a b = (map to_ascii_lower a = map to_ascii_lower b)"

definition nl :: char where "nl = CHR 0x0A"

definition trim_start :: "string \<Rightarrow> string" where
  "trim_start s = dropWhile is_ws s"

definition trim :: "string \<Rightarrow> string" where
  "trim s = rev (dropWhile is_ws (rev (dropWhile is_ws s)))"

lemma dropWhile_rev_dropWhile:
  "dropWhile p (rev (dropWhile p (rev (dropWhile p s)))) = rev (dropWhile p (rev (dropWhile p s)))"
proof (cases "dropWhile p s")
  case (Cons x xs)
  then have "\<not> p x" by (metis dropWhile_eq_Cons_conv)
  then have "dropWhile p (ys @ [x]) = dropWhile p ys @ [x]" for ys by (induction ys) auto
  with Cons \<open>\<not> p x\<close> show ?thesis by simp
next
  case Nil
  show ?thesis unfolding Nil by simp
qed

lemma trim_idem [simp]: "trim (trim s) = trim s"
  by (simp add: trim_def dropWhile_rev_dropWhile dropWhile_idem)

lemma trim_no_ws:
  assumes "\<forall>c \<in> set s. \<not> is_ws c"
  shows "trim s = s"
proof -
  have "dropWhile is_ws t = t" if "\<forall>c \<in> set t. \<not> is_ws c" for t
    using that by (cases t) auto
  from this [of s] this [of "rev s"] assms show ?thesis by (simp add: trim_def)
qed

text \<open>\<^verbatim>\<open>split_once(c)\<close> splits at the first \<open>c\<close>, \<^verbatim>\<open>rsplit_once(c)\<close> at the last.\<close>

fun split_once :: "char \<Rightarrow> string \<Rightarrow> (string \<times> string) option" where
  "split_once c [] = None"
| "split_once c (x # xs) =
     (if x = c then Some ([], xs)
      else map_option (\<lambda>(a, b). (x # a, b)) (split_once c xs))"

fun rsplit_once :: "char \<Rightarrow> string \<Rightarrow> (string \<times> string) option" where
  "rsplit_once c [] = None"
| "rsplit_once c (x # xs) =
     (case rsplit_once c xs of
        Some (a, b) \<Rightarrow> Some (x # a, b)
      | None \<Rightarrow> if x = c then Some ([], xs) else None)"

text \<open>\<^verbatim>\<open>split(c)\<close>: the pieces between separators, one more piece than separators.\<close>

fun split_char :: "char \<Rightarrow> string \<Rightarrow> string list" where
  "split_char c [] = [[]]"
| "split_char c (x # xs) =
     (if x = c then [] # split_char c xs
      else (case split_char c xs of [] \<Rightarrow> [[x]] | w # ws \<Rightarrow> (x # w) # ws))"

definition replace_char :: "char \<Rightarrow> char \<Rightarrow> string \<Rightarrow> string" where
  "replace_char a b s = map (\<lambda>c. if c = a then b else c) s"

fun split_by :: "('a \<Rightarrow> bool) \<Rightarrow> 'a list \<Rightarrow> 'a list list" where
  "split_by p [] = [[]]"
| "split_by p (x # xs) =
     (if p x then [] # split_by p xs
      else (case split_by p xs of [] \<Rightarrow> [[x]] | w # ws \<Rightarrow> (x # w) # ws))"

text \<open>\<^verbatim>\<open>split_whitespace\<close>: the non-empty runs of characters that are not white space.\<close>

definition split_whitespace :: "string \<Rightarrow> string list" where
  "split_whitespace s = filter (\<lambda>w. w \<noteq> []) (split_by is_ws s)"

text \<open>
  \<^verbatim>\<open>lines()\<close>: split at newlines, without the empty piece after a final newline. A trailing
  carriage return is dropped from each line.
\<close>

definition strip_cr :: "string \<Rightarrow> string" where
  "strip_cr l = (if l \<noteq> [] \<and> last l = CHR 0x0D then butlast l else l)"

definition lines :: "string \<Rightarrow> string list" where
  "lines s = (let ps = split_char nl s in
     map strip_cr (if last ps = [] then butlast ps else ps))"

fun join :: "string \<Rightarrow> string list \<Rightarrow> string" where
  "join sep [] = []"
| "join sep [x] = x"
| "join sep (x # xs) = x @ sep @ join sep xs"

definition starts_with :: "string \<Rightarrow> string \<Rightarrow> bool" where
  "starts_with pre s = (take (length pre) s = pre)"

definition strip_prefix :: "string \<Rightarrow> string \<Rightarrow> string option" where
  "strip_prefix pre s = (if starts_with pre s then Some (drop (length pre) s) else None)"

text \<open>\<^verbatim>\<open>contains\<close> and \<^verbatim>\<open>find\<close> with a string pattern: \<^term>\<open>after\<close> is what follows the first hit.\<close>

fun after :: "string \<Rightarrow> string \<Rightarrow> string option" where
  "after pat [] = (if pat = [] then Some [] else None)"
| "after pat (x # xs) =
     (if starts_with pat (x # xs) then Some (drop (length pat) (x # xs)) else after pat xs)"

definition contains :: "string \<Rightarrow> string \<Rightarrow> bool" where
  "contains pat s = (after pat s \<noteq> None)"

text \<open>
  \<^verbatim>\<open>&s[..n]\<close>: the first \<open>n\<close> bytes. Rust panics when \<open>n\<close> is past the end or inside a UTF-8
  character, that is, before a continuation byte (128 to 191).
\<close>

definition is_continuation :: "char \<Rightarrow> bool" where
  "is_continuation c = (128 \<le> (of_char c :: nat) \<and> (of_char c :: nat) < 192)"

definition str_slice_to :: "nat \<Rightarrow> string \<Rightarrow> string option" where
  "str_slice_to n s =
     (if n = length s \<or> (n < length s \<and> \<not> is_continuation (s ! n)) then Some (take n s) else None)"

definition quoted :: "string \<Rightarrow> string" where
  "quoted s = CHR 0x27 # s @ [CHR 0x27]"

definition em_dash :: string where "em_dash = [CHR 0xE2, CHR 0x80, CHR 0x94]"

subsection \<open>Numbers in text\<close>

definition digit_val :: "char \<Rightarrow> nat" where
  "digit_val c = of_char c - 48"

definition dec_val :: "string \<Rightarrow> nat" where
  "dec_val s = foldl (\<lambda>n c. 10 * n + digit_val c) 0 s"

text \<open>
  \<^verbatim>\<open>str::parse::<uN>()\<close>: an optional plus sign, then at least one digit and nothing else; a
  value above the type's maximum is an error.
\<close>

definition parse_uint :: "nat \<Rightarrow> string \<Rightarrow> nat option" where
  "parse_uint maxv s =
     (let ds = (case s of CHR ''+'' # r \<Rightarrow> r | _ \<Rightarrow> s) in
      if ds \<noteq> [] \<and> list_all is_ascii_digit ds \<and> dec_val ds \<le> maxv then Some (dec_val ds) else None)"

definition digit_char :: "nat \<Rightarrow> char" where
  "digit_char d = char_of (48 + d)"

text \<open>\<^verbatim>\<open>Display\<close> of an unsigned integer: decimal digits without leading zeros.\<close>

fun show_nat :: "nat \<Rightarrow> string" where
  "show_nat n = (if n < 10 then [digit_char n] else show_nat (n div 10) @ [digit_char (n mod 10)])"

declare show_nat.simps [simp del]

definition show_int :: "int \<Rightarrow> string" where
  "show_int i = (if i < 0 then CHR ''-'' # show_nat (nat (- i)) else show_nat (nat i))"

lemma is_ascii_digit_digit_char [simp]: "d < 10 \<Longrightarrow> is_ascii_digit (digit_char d)"
  by (simp add: is_ascii_digit_def digit_char_def)

lemma digit_val_digit_char [simp]: "d < 10 \<Longrightarrow> digit_val (digit_char d) = d"
  by (simp add: digit_val_def digit_char_def)

lemma digit_char_eq_zero: "d < 10 \<Longrightarrow> digit_char d = CHR ''0'' \<longleftrightarrow> d = 0"
proof -
  assume "d < 10"
  then have "(of_char (digit_char d) :: nat) = 48 + d"
    by (simp add: digit_char_def)
  moreover have "(of_char (CHR ''0'') :: nat) = 48" by simp
  ultimately show ?thesis by (metis add.right_neutral add_left_cancel of_char_eq_iff)
qed

lemma dec_val_Nil [simp]: "dec_val [] = 0"
  by (simp add: dec_val_def)

lemma dec_val_snoc [simp]: "dec_val (s @ [c]) = 10 * dec_val s + digit_val c"
  by (simp add: dec_val_def)

lemma show_nat_neq_Nil [simp]: "show_nat n \<noteq> []"
  by (subst show_nat.simps) simp

lemma show_nat_digits: "list_all is_ascii_digit (show_nat n)"
proof (induction n rule: show_nat.induct)
  case (1 n)
  then show ?case by (subst show_nat.simps) simp
qed

lemma dec_val_show_nat [simp]: "dec_val (show_nat n) = n"
proof (induction n rule: show_nat.induct)
  case (1 n)
  show ?case
  proof (cases "n < 10")
    case True
    then show ?thesis by (subst show_nat.simps) (simp add: dec_val_def)
  next
    case False
    with 1 show ?thesis by (subst show_nat.simps) simp
  qed
qed

lemma show_nat_inj: "show_nat m = show_nat n \<Longrightarrow> m = n"
  by (metis dec_val_show_nat)

lemma show_nat_hd_zero: "hd (show_nat n) = CHR ''0'' \<Longrightarrow> n = 0"
proof (induction n rule: show_nat.induct)
  case (1 n)
  show ?case
  proof (cases "n < 10")
    case True
    with "1.prems" show ?thesis by (subst (asm) show_nat.simps) (simp add: digit_char_eq_zero)
  next
    case False
    with "1.prems" have "hd (show_nat (n div 10)) = CHR ''0''"
      by (subst (asm) show_nat.simps) simp
    with "1.IH" False have "n div 10 = 0" by simp
    with False show ?thesis by simp
  qed
qed

lemma length_show_nat_le:
  "n < 10 ^ k \<Longrightarrow> 0 < k \<Longrightarrow> length (show_nat n) \<le> k"
proof (induction k arbitrary: n)
  case (Suc k)
  show ?case
  proof (cases "n < 10")
    case True
    then show ?thesis by (subst show_nat.simps) simp
  next
    case False
    with Suc.prems have "n div 10 < 10 ^ k" and "0 < k"
      by (auto intro: Nat.gr0I)
    with Suc.IH have "length (show_nat (n div 10)) \<le> k" by blast
    with False show ?thesis by (subst show_nat.simps) simp
  qed
qed simp

lemma digit_char_digit_val: "is_ascii_digit c \<Longrightarrow> digit_char (digit_val c) = c \<and> digit_val c < 10"
  by (auto simp: is_ascii_digit_def digit_char_def digit_val_def)

text \<open>A digit string without a superfluous leading zero is the decimal form of its value.\<close>

lemma show_nat_dec_val:
  "list_all is_ascii_digit ds \<Longrightarrow> ds \<noteq> [] \<Longrightarrow> (hd ds = CHR ''0'' \<longrightarrow> length ds = 1) \<Longrightarrow>
   show_nat (dec_val ds) = ds"
proof (induction ds rule: rev_induct)
  case (snoc c ds)
  from snoc.prems have c: "digit_char (digit_val c) = c" "digit_val c < 10"
    using digit_char_digit_val by auto
  show ?case
  proof (cases "ds = []")
    case True
    with c show ?thesis by (simp add: dec_val_def show_nat.simps)
  next
    case False
    with snoc.prems have "hd ds \<noteq> CHR ''0''" by (cases ds) auto
    with snoc False have IH: "show_nat (dec_val ds) = ds" by simp
    have pos: "dec_val ds \<noteq> 0"
    proof
      assume "dec_val ds = 0"
      with IH have "ds = [CHR ''0'']" using digit_char_eq_zero [of 0]
        by (simp add: show_nat.simps)
      with \<open>hd ds \<noteq> CHR ''0''\<close> show False by simp
    qed
    have "show_nat (10 * dec_val ds + digit_val c) = show_nat (dec_val ds) @ [c]"
      using pos c by (subst show_nat.simps) simp
    with IH show ?thesis by simp
  qed
qed simp

lemma digits_not_char:
  "list_all is_ascii_digit s \<Longrightarrow> \<not> is_ascii_digit c \<Longrightarrow> c \<notin> set s"
  by (auto simp: list_all_iff)

lemma not_digit_chars [simp]:
  "\<not> is_ascii_digit (CHR ''.'')" "\<not> is_ascii_digit (CHR '':'')" "\<not> is_ascii_digit (CHR ''-'')"
  "\<not> is_ascii_digit (CHR ''/'')" "\<not> is_ascii_digit (CHR ''+'')" "\<not> is_ascii_digit (CHR '','')"
  "\<not> is_ascii_digit (CHR '' '')"
  by (simp_all add: is_ascii_digit_def)

lemma parse_uint_show_nat: "n \<le> m \<Longrightarrow> parse_uint m (show_nat n) = Some n"
proof -
  assume le: "n \<le> m"
  have "CHR ''+'' \<notin> set (show_nat n)"
    using digits_not_char [OF show_nat_digits] by simp
  then have "(case show_nat n of CHR ''+'' # r \<Rightarrow> r | _ \<Rightarrow> show_nat n) = show_nat n"
    by (cases "show_nat n") (auto split: char.splits bool.splits)
  with le show ?thesis
    by (simp add: parse_uint_def show_nat_digits Let_def)
qed

lemma parse_uint_le: "parse_uint m s = Some n \<Longrightarrow> n \<le> m"
  by (auto simp: parse_uint_def Let_def split: if_splits)

subsection \<open>Splitting\<close>

lemma split_once_append:
  "c \<notin> set a \<Longrightarrow> split_once c (a @ c # b) = Some (a, b)"
  by (induction a) auto

lemma split_once_SomeD: "split_once c s = Some (a, b) \<Longrightarrow> s = a @ c # b \<and> c \<notin> set a"
  by (induction s arbitrary: a) (auto split: if_splits)

lemma split_once_None_iff [simp]: "split_once c s = None \<longleftrightarrow> c \<notin> set s"
  by (induction s) auto

lemma rsplit_once_None_iff [simp]: "rsplit_once c s = None \<longleftrightarrow> c \<notin> set s"
  by (induction s) (auto split: option.splits)

lemma rsplit_once_append:
  "c \<notin> set b \<Longrightarrow> rsplit_once c (a @ c # b) = Some (a, b)"
proof (induction a)
  case Nil
  then have "rsplit_once c b = None" by simp
  then show ?case by (simp del: rsplit_once_None_iff)
qed simp

lemma split_char_neq_Nil [simp]: "split_char c s \<noteq> []"
  by (cases s) (auto split: list.splits)

lemma split_char_no_sep: "c \<notin> set s \<Longrightarrow> split_char c s = [s]"
  by (induction s) auto

lemma split_char_append:
  "c \<notin> set a \<Longrightarrow> split_char c (a @ c # b) = a # split_char c b"
  by (induction a) auto

lemma split_char_join:
  "xs \<noteq> [] \<Longrightarrow> \<forall>x \<in> set xs. c \<notin> set x \<Longrightarrow> split_char c (join [c] xs) = xs"
proof (induction xs rule: induct_list012)
  case (2 x)
  then show ?case by (simp add: split_char_no_sep)
next
  case (3 x y xs)
  then have "split_char c (x @ c # join [c] (y # xs)) = x # split_char c (join [c] (y # xs))"
    by (intro split_char_append) simp
  with 3 show ?case by simp
qed simp

lemma split_by_append: "list_all (\<lambda>c. \<not> p c) w \<Longrightarrow> p c \<Longrightarrow> split_by p (w @ c # r) = w # split_by p r"
  by (induction w) simp_all

lemma starts_with_append [simp]: "starts_with p (p @ s)"
  by (simp add: starts_with_def)

lemma starts_with_iff: "starts_with p s \<longleftrightarrow> (\<exists>t. s = p @ t)"
  by (metis append_eq_conv_conj append_take_drop_id starts_with_append starts_with_def)

subsection \<open>Evaluating closed text\<close>

lemma digit_char_table [rust_eval]:
  "digit_char 0 = CHR ''0''" "digit_char (Suc 0) = CHR ''1''" "digit_char 1 = CHR ''1''"
  "digit_char 2 = CHR ''2''" "digit_char 3 = CHR ''3''" "digit_char 4 = CHR ''4''"
  "digit_char 5 = CHR ''5''" "digit_char 6 = CHR ''6''" "digit_char 7 = CHR ''7''"
  "digit_char 8 = CHR ''8''" "digit_char 9 = CHR ''9''"
  by code_simp+

lemmas [rust_eval] = is_ascii_digit_def is_ascii_lower_def is_ascii_upper_def
  is_ascii_alphanumeric_def is_ws_def is_control_def digit_val_def dec_val_def parse_uint_def
  trim_def starts_with_def nl_def Let_def show_nat.simps split_whitespace_def strip_prefix_def
  contains_def replace_char_def

end
