(* ===== verification/Ip_Addr.thy ===== *)
theory Ip_Addr
  imports Rust_Prelude
begin

text \<open>
  The part of \<^verbatim>\<open>std::net\<close> the network components call: \<^verbatim>\<open>Ipv4Addr\<close>, \<^verbatim>\<open>Ipv6Addr\<close> and
  \<^verbatim>\<open>IpAddr\<close> with \<^verbatim>\<open>FromStr\<close>, \<^verbatim>\<open>Display\<close> for IPv4, and the prefix masks computed with shifts.
  An IPv4 address is the \<^typ>\<open>u32\<close> that \<^verbatim>\<open>u32::from(addr)\<close> gives, an IPv6 address the
  \<^typ>\<open>u128\<close>. The parser follows the standard library's hand-written one: digit groups are
  read greedily, a decimal group has at most three digits and no leading zero, an IPv6 group at
  most four hex digits, and the last 32 bits of an IPv6 address may be in dotted form.
\<close>

unbundle bit_operations_syntax

datatype ip_addr = V4 u32 | V6 u128

section \<open>Parsing\<close>

definition dec_digit :: "char \<Rightarrow> nat option" where
  "dec_digit c = (if is_ascii_digit c then Some (digit_val c) else None)"

definition hex_digit :: "char \<Rightarrow> nat option" where
  "hex_digit c =
     (if is_ascii_digit c then Some (digit_val c)
      else if 97 \<le> (of_char c :: nat) \<and> (of_char c :: nat) \<le> 102 then Some (of_char c - 87)
      else if 65 \<le> (of_char c :: nat) \<and> (of_char c :: nat) \<le> 70 then Some (of_char c - 55)
      else None)"

definition read_number ::
    "nat \<Rightarrow> (char \<Rightarrow> nat option) \<Rightarrow> nat \<Rightarrow> bool \<Rightarrow> nat \<Rightarrow> string \<Rightarrow> (nat \<times> string) option" where
  "read_number radix dig max_digits allow_zero_prefix maxv s =
     (let ds = takeWhile (\<lambda>c. dig c \<noteq> None) s;
          v = foldl (\<lambda>n c. radix * n + the (dig c)) 0 ds
      in if ds = [] \<or> max_digits < length ds then None
         else if \<not> allow_zero_prefix \<and> hd ds = CHR ''0'' \<and> 1 < length ds then None
         else if maxv < v then None
         else Some (v, dropWhile (\<lambda>c. dig c \<noteq> None) s))"

definition read_separator ::
    "char \<Rightarrow> nat \<Rightarrow> (string \<Rightarrow> ('a \<times> string) option) \<Rightarrow> string \<Rightarrow> ('a \<times> string) option" where
  "read_separator sep i f s =
     (if i = 0 then f s
      else (case s of [] \<Rightarrow> None | c # r \<Rightarrow> if c = sep then f r else None))"

definition read_octet :: "string \<Rightarrow> (nat \<times> string) option" where
  "read_octet s = read_number 10 dec_digit 3 False 255 s"

definition ipv4_of_octets :: "nat \<Rightarrow> nat \<Rightarrow> nat \<Rightarrow> nat \<Rightarrow> u32" where
  "ipv4_of_octets a b c d = of_nat (((a * 256 + b) * 256 + c) * 256 + d)"

definition read_ipv4_addr :: "string \<Rightarrow> (u32 \<times> string) option" where
  "read_ipv4_addr s =
     (case read_separator CHR ''.'' 0 read_octet s of None \<Rightarrow> None | Some (a, s1) \<Rightarrow>
     (case read_separator CHR ''.'' 1 read_octet s1 of None \<Rightarrow> None | Some (b, s2) \<Rightarrow>
     (case read_separator CHR ''.'' 2 read_octet s2 of None \<Rightarrow> None | Some (c, s3) \<Rightarrow>
     (case read_separator CHR ''.'' 3 read_octet s3 of None \<Rightarrow> None | Some (d, s4) \<Rightarrow>
        Some (ipv4_of_octets a b c d, s4)))))"

text \<open>\<^verbatim>\<open>Ipv4Addr::from_str\<close>: at most 15 bytes, all of them consumed.\<close>

definition parse_ipv4 :: "string \<Rightarrow> u32 option" where
  "parse_ipv4 s =
     (if 15 < length s then None
      else (case read_ipv4_addr s of Some (a, []) \<Rightarrow> Some a | _ \<Rightarrow> None))"

text \<open>
  The groups of an IPv6 address: \<open>limit\<close> is how many may still be read, \<open>i\<close> how many have
  been. The flag says that an embedded IPv4 address ended the sequence.
\<close>

fun read_groups :: "nat \<Rightarrow> nat \<Rightarrow> string \<Rightarrow> nat list \<times> bool \<times> string" where
  "read_groups 0 i s = ([], False, s)"
| "read_groups (Suc limit) i s =
     (case (if 0 < limit then read_separator CHR '':'' i read_ipv4_addr s else None) of
        Some (a, r) \<Rightarrow> ([unat a div 65536, unat a mod 65536], True, r)
      | None \<Rightarrow>
          (case read_separator CHR '':'' i (read_number 16 hex_digit 4 True 65535) s of
             None \<Rightarrow> ([], False, s)
           | Some (g, r) \<Rightarrow>
               (case read_groups limit (Suc i) r of (gs, v4, r') \<Rightarrow> (g # gs, v4, r'))))"

definition ipv6_of_groups :: "nat list \<Rightarrow> u128" where
  "ipv6_of_groups gs = of_nat (foldl (\<lambda>n g. n * 65536 + g) 0 gs)"

definition read_ipv6_addr :: "string \<Rightarrow> (u128 \<times> string) option" where
  "read_ipv6_addr s =
     (case read_groups 8 0 s of (head, head_ipv4, r) \<Rightarrow>
        if length head = 8 then Some (ipv6_of_groups head, r)
        else if head_ipv4 then None
        else (case r of CHR '':'' # CHR '':'' # r2 \<Rightarrow>
                (case read_groups (8 - (length head + 1)) 0 r2 of (tail, _, r3) \<Rightarrow>
                   Some (ipv6_of_groups
                     (head @ replicate (8 - length head - length tail) 0 @ tail), r3))
              | _ \<Rightarrow> None))"

text \<open>\<^verbatim>\<open>IpAddr::from_str\<close>: IPv4 is tried first, and whatever is read must be the whole text.\<close>

definition parse_ip_addr :: "string \<Rightarrow> ip_addr option" where
  "parse_ip_addr s =
     (case read_ipv4_addr s of
        Some (a, r) \<Rightarrow> if r = [] then Some (V4 a) else None
      | None \<Rightarrow> (case read_ipv6_addr s of Some (a, []) \<Rightarrow> Some (V6 a) | _ \<Rightarrow> None))"

section \<open>Printing\<close>

definition octets :: "u32 \<Rightarrow> nat \<times> nat \<times> nat \<times> nat" where
  "octets a = (let n = unat a in
     (n div 16777216, n div 65536 mod 256, n div 256 mod 256, n mod 256))"

definition show_ipv4 :: "u32 \<Rightarrow> string" where
  "show_ipv4 addr =
     (case octets addr of (a, b, c, d) \<Rightarrow>
        show_nat a @ ''.'' @ show_nat b @ ''.'' @ show_nat c @ ''.'' @ show_nat d)"

section \<open>Masks\<close>

text \<open>\<^verbatim>\<open>if prefix == 0 { 0 } else { !0u32 << (32 - prefix) }\<close>, for a prefix of at most 32.\<close>

definition mask_v4 :: "nat \<Rightarrow> u32" where
  "mask_v4 prefix = (if prefix = 0 then 0 else push_bit (32 - prefix) (NOT 0))"

definition mask_v6 :: "nat \<Rightarrow> u128" where
  "mask_v6 prefix = (if prefix = 0 then 0 else push_bit (128 - prefix) (NOT 0))"

section \<open>Round trip of the IPv4 text form\<close>

lemma takeWhile_digits:
  assumes "list_all is_ascii_digit ds" and "r = [] \<or> \<not> is_ascii_digit (hd r)"
  shows "takeWhile (\<lambda>c. dec_digit c \<noteq> None) (ds @ r) = ds"
    and "dropWhile (\<lambda>c. dec_digit c \<noteq> None) (ds @ r) = r"
  using assms by (induction ds; cases r; auto simp: dec_digit_def)+

lemma dec_fold:
  "list_all is_ascii_digit ds \<Longrightarrow>
   foldl (\<lambda>n c. 10 * n + the (dec_digit c)) 0 ds = dec_val ds"
proof (induction ds rule: rev_induct)
  case (snoc c ds)
  then show ?case by (simp add: dec_digit_def)
qed simp

lemma read_octet_show:
  assumes n: "n \<le> 255" and r: "r = [] \<or> \<not> is_ascii_digit (hd r)"
  shows "read_octet (show_nat n @ r) = Some (n, r)"
proof -
  have len: "length (show_nat n) \<le> 3"
    using n by (intro length_show_nat_le) auto
  have zero: "\<not> (hd (show_nat n) = CHR ''0'' \<and> 1 < length (show_nat n))"
    using show_nat_hd_zero [of n] by (auto simp: show_nat.simps [of 0])
  note tw = takeWhile_digits [OF show_nat_digits r]
  show ?thesis
    unfolding read_octet_def read_number_def Let_def tw dec_fold [OF show_nat_digits]
    using n len zero by simp
qed

lemma octets_range:
  assumes "octets x = (a, b, c, d)"
  shows "a \<le> 255" "b \<le> 255" "c \<le> 255" "d \<le> 255"
proof -
  have "unat x < 4294967296" using unsigned_less [of x] by simp
  with assms show "a \<le> 255" "b \<le> 255" "c \<le> 255" "d \<le> 255"
    by (auto simp: octets_def Let_def)
qed

lemma base_256_digits:
  fixes n :: nat
  shows "((n div 16777216 * 256 + n div 65536 mod 256) * 256 + n div 256 mod 256) * 256 + n mod 256 = n"
proof -
  have "n div 65536 = n div 256 div 256" and "n div 16777216 = n div 256 div 256 div 256"
    by (simp_all flip: div_mult2_eq)
  then show ?thesis by (simp only: div_mult_mod_eq)
qed

lemma ipv4_of_octets_octets:
  assumes "octets x = (a, b, c, d)"
  shows "ipv4_of_octets a b c d = x"
proof -
  have "((a * 256 + b) * 256 + c) * 256 + d = unat x"
    using assms base_256_digits [of "unat x"] by (simp only: octets_def Let_def prod.inject)
  then show ?thesis by (simp add: ipv4_of_octets_def)
qed

lemma read_ipv4_show: "read_ipv4_addr (show_ipv4 x) = Some (x, [])"
proof -
  obtain a b c d where o: "octets x = (a, b, c, d)" by (cases "octets x") auto
  note rng = octets_range [OF o]
  show ?thesis
    by (simp add: show_ipv4_def o read_ipv4_addr_def read_separator_def read_octet_show rng
        read_octet_show [where r = "[]", simplified] ipv4_of_octets_octets [OF o])
qed

lemma length_show_ipv4: "length (show_ipv4 x) \<le> 15"
proof -
  obtain a b c d where o: "octets x = (a, b, c, d)" by (cases "octets x") auto
  have "n \<le> 255 \<Longrightarrow> length (show_nat n) \<le> 3" for n
    by (rule length_show_nat_le) auto
  from this [OF octets_range(1) [OF o]] this [OF octets_range(2) [OF o]]
    this [OF octets_range(3) [OF o]] this [OF octets_range(4) [OF o]]
  show ?thesis by (simp add: show_ipv4_def o)
qed

lemma parse_ipv4_show [simp]: "parse_ipv4 (show_ipv4 x) = Some x"
  using length_show_ipv4 [of x] by (simp add: parse_ipv4_def read_ipv4_show)

lemma parse_ip_addr_show [simp]: "parse_ip_addr (show_ipv4 x) = Some (V4 x)"
  by (simp add: parse_ip_addr_def read_ipv4_show)

lemma parse_ipv4_imp_ip_addr: "parse_ipv4 s = Some a \<Longrightarrow> parse_ip_addr s = Some (V4 a)"
  by (auto simp: parse_ipv4_def parse_ip_addr_def split: if_splits option.splits list.splits)

lemma show_ipv4_inj: "show_ipv4 x = show_ipv4 y \<Longrightarrow> x = y"
  by (metis option.inject parse_ipv4_show)

text \<open>The text form of an IPv4 address is unique: only the printed form parses.\<close>

lemma read_octet_SomeD:
  assumes "read_octet s = Some (n, r)"
  shows "s = show_nat n @ r"
proof -
  let ?ds = "takeWhile (\<lambda>c. dec_digit c \<noteq> None) s"
  have digs: "list_all is_ascii_digit ?ds"
    by (auto simp: list_all_iff dec_digit_def dest: set_takeWhileD split: if_splits)
  from assms have "?ds \<noteq> []" and "\<not> (hd ?ds = CHR ''0'' \<and> 1 < length ?ds)"
    and n: "n = dec_val ?ds" and r: "r = dropWhile (\<lambda>c. dec_digit c \<noteq> None) s"
    unfolding read_octet_def read_number_def Let_def dec_fold [OF digs]
    by (simp_all split: if_splits)
  then have "show_nat n = ?ds"
    using show_nat_dec_val [OF digs] by (cases ?ds) auto
  with r show ?thesis by (metis takeWhile_dropWhile_id)
qed

lemma read_octet_le: "read_octet s = Some (n, r) \<Longrightarrow> n \<le> 255"
  by (auto simp: read_octet_def read_number_def Let_def split: if_splits)

lemma octets_of_octets:
  assumes "a \<le> 255" "b \<le> 255" "c \<le> 255" "d \<le> 255"
  shows "octets (ipv4_of_octets a b c d) = (a, b, c, d)"
proof -
  let ?n = "((a * 256 + b) * 256 + c) * 256 + d"
  have "?n < 2 ^ LENGTH(32)" using assms by simp
  then have "unat (ipv4_of_octets a b c d) = ?n"
    by (simp only: ipv4_of_octets_def unat_of_nat mod_less)
  moreover have "?n div 256 = (a * 256 + b) * 256 + c" "?n mod 256 = d"
    using assms by (simp_all only: mod_mult_self3) simp_all
  moreover have "?n div 65536 = a * 256 + b" "?n div 16777216 = a" using assms by simp_all
  moreover have "((a * 256 + b) * 256 + c) mod 256 = c" "(a * 256 + b) mod 256 = b"
    using assms by (simp_all only: mod_mult_self3) simp_all
  ultimately show ?thesis by (simp only: octets_def Let_def)
qed

lemma read_separator_0 [simp]: "read_separator c 0 f s = f s"
  by (simp add: read_separator_def)

lemma read_separator_SomeD:
  "read_separator c i f s = Some x \<Longrightarrow> 0 < i \<Longrightarrow> \<exists>r. s = c # r \<and> f r = Some x"
  by (auto simp: read_separator_def split: if_splits list.splits)

lemma read_ipv4_SomeD:
  assumes "read_ipv4_addr s = Some (x, r)"
  shows "s = show_ipv4 x @ r"
proof -
  from assms obtain a b c d s1 s2 s3 where
    *: "read_octet s = Some (a, CHR ''.'' # s1)" "read_octet s1 = Some (b, CHR ''.'' # s2)"
      "read_octet s2 = Some (c, CHR ''.'' # s3)" "read_octet s3 = Some (d, r)"
    and x: "x = ipv4_of_octets a b c d"
    unfolding read_ipv4_addr_def
    by (auto split: option.splits dest!: read_separator_SomeD)
  from * [THEN read_octet_SomeD] have
    "s = show_nat a @ ''.'' @ show_nat b @ ''.'' @ show_nat c @ ''.'' @ show_nat d @ r" by simp
  moreover from * [THEN read_octet_le] have "octets x = (a, b, c, d)"
    unfolding x by (rule octets_of_octets)
  ultimately show ?thesis by (simp add: show_ipv4_def)
qed

lemma parse_ipv4_canonical: "parse_ipv4 s = Some a \<longleftrightarrow> s = show_ipv4 a"
proof
  assume "parse_ipv4 s = Some a"
  then have "read_ipv4_addr s = Some (a, [])"
    by (auto simp: parse_ipv4_def split: if_splits option.splits list.splits)
  then show "s = show_ipv4 a" by (auto dest: read_ipv4_SomeD)
qed simp

section \<open>Masks and ranges of addresses\<close>

lemma unat_Suc_less:
  fixes n m :: "'a::len word"
  assumes "n < m"
  shows "unat (n + 1) = Suc (unat n)"
proof -
  have "Suc (unat n) \<le> unat m" using assms by (simp add: word_less_nat_alt)
  also have "unat m < 2 ^ LENGTH('a)" by simp
  finally show ?thesis by (simp add: unat_word_ariths)
qed

lemma bit_mask_v4: "bit (mask_v4 p) i \<longleftrightarrow> p \<noteq> 0 \<and> 32 - p \<le> i \<and> i < 32"
  by (auto simp: mask_v4_def bit_simps)

lemma not_mask_v4:
  assumes "p \<le> 32"
  shows "NOT (mask_v4 p) = mask (32 - p)"
  by (rule bit_word_eqI) (use assms in \<open>auto simp: bit_simps bit_mask_v4\<close>)

lemma and_mask_v4:
  assumes "p \<le> 32"
  shows "a AND mask_v4 p = push_bit (32 - p) (drop_bit (32 - p) a)"
  by (rule bit_word_eqI) (use assms in \<open>auto simp: bit_simps bit_mask_v4\<close>)

lemma unat_net:
  fixes a :: u32
  assumes "p \<le> 32"
  shows "unat (a AND mask_v4 p) = unat a div 2 ^ (32 - p) * 2 ^ (32 - p)"
proof -
  have "unat a div 2 ^ (32 - p) * 2 ^ (32 - p) \<le> unat a"
    by (simp add: div_times_less_eq_dividend)
  also have lt: "unat a < 2 ^ 32" using unsigned_less [of a] by simp
  finally have "take_bit 32 (unat a div 2 ^ (32 - p) * 2 ^ (32 - p)) = unat a div 2 ^ (32 - p) * 2 ^ (32 - p)"
    by (rule take_bit_nat_eq_self)
  then show ?thesis
    unfolding and_mask_v4 [OF assms] unsigned_push_bit_eq unsigned_drop_bit_eq
    by (simp add: push_bit_eq_mult drop_bit_eq_div take_bit_nat_eq_self [OF lt])
qed

lemma unat_mask_u32: "k \<le> 32 \<Longrightarrow> unat (mask k :: u32) = 2 ^ k - 1"
proof -
  assume k: "k \<le> 32"
  then have "(2::nat) ^ k \<le> 2 ^ LENGTH(32)" by (intro power_increasing) auto
  then have less: "(2::nat) ^ k - 1 < 2 ^ LENGTH(32)"
    by (rule less_le_trans [rotated]) simp
  have "(mask k :: u32) = of_nat (2 ^ k - 1)"
    by (simp add: mask_eq_exp_minus_1)
  with less show ?thesis by (simp only: unat_of_nat mod_less)
qed

lemma unat_bcast:
  fixes a :: u32
  assumes p: "p \<le> 32"
  shows "unat ((a AND mask_v4 p) OR NOT (mask_v4 p)) =
    unat a div 2 ^ (32 - p) * 2 ^ (32 - p) + (2 ^ (32 - p) - 1)"
proof -
  let ?k = "32 - p" and ?net = "a AND mask_v4 p"
  have disj: "?net AND mask ?k = 0"
    by (rule bit_word_eqI) (use p in \<open>auto simp: bit_simps bit_mask_v4\<close>)
  have mk: "unat (mask ?k :: u32) = 2 ^ ?k - 1"
    using p by (simp add: unat_mask_u32)
  have "unat a div 2 ^ ?k * 2 ^ ?k + (2 ^ ?k - 1) < 2 ^ 32"
  proof -
    have "unat a < 2 ^ (p + ?k)" using unsigned_less [of a] p by simp
    then have "unat a div 2 ^ ?k < 2 ^ p"
      by (simp add: less_mult_imp_div_less power_add)
    then have "(unat a div 2 ^ ?k + 1) * 2 ^ ?k \<le> 2 ^ p * 2 ^ ?k"
      by (intro mult_right_mono) auto
    also have "2 ^ p * 2 ^ ?k = (2 ^ 32 :: nat)" using p by (simp flip: power_add)
    moreover have "0 < (2::nat) ^ ?k" by simp
    ultimately show ?thesis by (simp only: distrib_right mult_1)
  qed
  moreover have "?net OR NOT (mask_v4 p) = ?net + mask ?k"
    by (simp add: not_mask_v4 [OF p] disjunctive_add_eq_or [OF disj])
  ultimately show ?thesis
    by (simp add: unat_word_ariths unat_net [OF p] mk)
qed

lemma div_block_iff:
  fixes K :: nat
  assumes K: "0 < K"
  shows "a div K * K = n div K * K \<longleftrightarrow> n div K * K \<le> a \<and> a \<le> n div K * K + (K - 1)"
proof
  assume eq: "a div K * K = n div K * K"
  have "a = a div K * K + a mod K" by (rule div_mult_mod_eq [symmetric])
  moreover have "a mod K < K" using K by (rule mod_less_divisor)
  ultimately show "n div K * K \<le> a \<and> a \<le> n div K * K + (K - 1)"
    using eq by linarith
next
  assume b: "n div K * K \<le> a \<and> a \<le> n div K * K + (K - 1)"
  have "a div K = n div K"
  proof (rule div_nat_eqI)
    show "K * (n div K) \<le> a" using b by (simp add: mult.commute)
    have "K * Suc (n div K) = n div K * K + K" by (simp add: mult.commute)
    with b K show "a < K * Suc (n div K)" by linarith
  qed
  then show "a div K * K = n div K * K" by simp
qed

text \<open>
  An address belongs to the network \<open>n AND mask\<close> exactly when it lies between the network
  address and the broadcast address.
\<close>

lemma in_net_iff:
  fixes a n :: u32
  assumes p: "p \<le> 32"
  shows "a AND mask_v4 p = n AND mask_v4 p \<longleftrightarrow>
    n AND mask_v4 p \<le> a \<and> a \<le> (n AND mask_v4 p) OR NOT (mask_v4 p)"
  by (simp only: word_unat_eq_iff word_le_nat_alt unat_net [OF p] unat_bcast [OF p]
      div_block_iff [of "2 ^ (32 - p)"] zero_less_power zero_less_numeral)

lemmas [rust_eval] = parse_ipv4_def read_ipv4_addr_def read_separator_def read_octet_def
  read_number_def dec_digit_def hex_digit_def ipv4_of_octets_def parse_ip_addr_def octets_def
  show_ipv4_def mask_v4_def mask_eq_exp_minus_1

end
