(* ===== verification/Vlan.thy ===== *)
theory Vlan
  imports Ip_Addr
begin

text \<open>
  VLAN attachments and their address plan, from \<^verbatim>\<open>networking/vlan.rs\<close>: the provider rules, the
  interface name of a VLAN, the validation of attachments, the \<^verbatim>\<open>VlanStore\<close> operations and
  the picker for the next free address. Errors are the constructors of \<open>vlan_error\<close>, one per
  message of the source; \<open>VCtx\<close> is a message with a prefix (\<^verbatim>\<open>map_err(|e| format!(..))\<close>).
  UUIDs, the SHA-256 digest and the current time come from outside and are arguments.
\<close>

unbundle bit_operations_syntax

section \<open>Data\<close>

datatype vlan_provider = Hetzner | Ovh | Equinix | VCustom

datatype target_kind = LxcNative | LxcProxmox | TDocker | VmProxmox | VmNative | Manual

record ip_allocation =
  al_ip :: string
  al_kind :: target_kind
  al_target :: string
  al_label :: string
  al_created_at :: string

record external_reservation =
  er_spec :: string
  er_note :: string

record route_entry =
  re_destination :: string
  re_via :: string

record vlan_attachment =
  va_id :: string
  va_name :: string
  va_provider :: vlan_provider
  va_parent_iface :: string
  va_vlan_id :: u32
  va_mtu :: u32
  va_bridge_name :: string
  va_subnet :: string
  va_self_ip :: string
  va_routes :: "route_entry list"
  va_allocations :: "ip_allocation list"
  va_external_reservations :: "external_reservation list"
  va_notes :: string

record public_ip_attachment =
  pi_id :: string
  pi_name :: string
  pi_provider :: vlan_provider
  pi_ip :: string
  pi_container_internal_ip :: string
  pi_egress_iface :: string

record vlan_store =
  vs_vlans :: "vlan_attachment list"
  vs_public_ips :: "public_ip_attachment list"

datatype vlan_error =
    NameRequired
  | VlanIdRange u32
  | HetznerRange u32
  | MtuRange u32
  | BadParent string
  | BadBridge string
  | BridgeTooLong string nat
  | SelfIpNeedsSubnet
  | RoutesNeedSelfIp
  | NotAnIp string
  | NotACidr string
  | BadPrefix string
  | PrefixTooLong nat nat
  | VCtx string vlan_error
  | SelfIpOutside string string
  | RouteViaOutside string string
  | EgressRequired
  | FamilyMismatch
  | VlanExists u32 string
  | PublicIpTaken string
  | VlanNotFound string
  | IpNotInSubnet string string
  | IpAllocated string string
  | RangeStart string
  | RangeEnd string
  | RangeReversed string
  | RangeTooBig string
  | NotAnIpv4 string

section \<open>Provider rules and interface names\<close>

definition default_mtu :: "vlan_provider \<Rightarrow> u32" where
  "default_mtu p =
     (case p of Hetzner \<Rightarrow> 1400 | Ovh \<Rightarrow> 1500 | Equinix \<Rightarrow> 1500 | VCustom \<Rightarrow> 1500)"

definition validate_vlan_id :: "vlan_provider \<Rightarrow> u32 \<Rightarrow> vlan_error + unit" where
  "validate_vlan_id p i =
     (if \<not> (1 \<le> i \<and> i \<le> 4094) then Err (VlanIdRange i)
      else (case p of
              Hetzner \<Rightarrow> if \<not> (4000 \<le> i \<and> i \<le> 4091) then Err (HetznerRange i) else Ok ()
            | Ovh \<Rightarrow> Ok () | Equinix \<Rightarrow> Ok () | VCustom \<Rightarrow> Ok ()))"

definition target_label :: "target_kind \<Rightarrow> string" where
  "target_label k = (case k of
       LxcNative \<Rightarrow> ''LXC (native)''
     | LxcProxmox \<Rightarrow> ''LXC (Proxmox)''
     | TDocker \<Rightarrow> ''Docker''
     | VmProxmox \<Rightarrow> ''VM (Proxmox)''
     | VmNative \<Rightarrow> ''VM (libvirt/native)''
     | Manual \<Rightarrow> ''Manual reservation'')"

definition IFNAME_MAX :: nat where "IFNAME_MAX = 15"

definition hex_char :: "nat \<Rightarrow> char" where
  "hex_char d = (if d < 10 then char_of (48 + d) else char_of (87 + d))"

text \<open>\<^verbatim>\<open>format!("{:02x}", b)\<close>\<close>

definition hex2 :: "u8 \<Rightarrow> string" where
  "hex2 b = [hex_char (unat b div 16), hex_char (unat b mod 16)]"

definition vlan_ifname :: "(string \<Rightarrow> u8 list) \<Rightarrow> string \<Rightarrow> u32 \<Rightarrow> string" where
  "vlan_ifname sha256 parent vid =
     (let suffix = ''.'' @ show_nat (unat vid);
          natural = parent @ suffix
      in if length natural \<le> IFNAME_MAX then natural
         else
           (let digest = sha256 parent;
                tag = hex2 (digest ! 0) @ hex2 (digest ! 1);
                room = IFNAME_MAX - (length suffix + length tag)
            in take room parent @ tag @ suffix))"

section \<open>Addresses and subnets\<close>

definition parse_ip :: "string \<Rightarrow> vlan_error + ip_addr" where
  "parse_ip s = ok_or (NotAnIp s) (parse_ip_addr s)"

definition parse_cidr :: "string \<Rightarrow> vlan_error + (ip_addr \<times> nat)" where
  "parse_cidr s =
     res_bind (ok_or (NotACidr s) (rsplit_once CHR ''/'' s)) (\<lambda>(ip_part, prefix_part).
     res_bind (parse_ip ip_part) (\<lambda>ip.
     res_bind (ok_or (BadPrefix s) (parse_uint 255 prefix_part)) (\<lambda>pfx.
       let mx = (case ip of V4 _ \<Rightarrow> 32 | V6 _ \<Rightarrow> 128)
       in if mx < pfx then Err (PrefixTooLong pfx mx) else Ok (ip, pfx))))"

definition ip_in_cidr :: "string \<Rightarrow> string \<Rightarrow> vlan_error + bool" where
  "ip_in_cidr ip cidr =
     res_bind (parse_ip ip) (\<lambda>parsed.
     res_bind (parse_cidr cidr) (\<lambda>(net, pfx).
       case (parsed, net) of
         (V4 a, V4 n) \<Rightarrow> Ok (a AND mask_v4 pfx = n AND mask_v4 pfx)
       | (V6 a, V6 n) \<Rightarrow> Ok (a AND mask_v6 pfx = n AND mask_v6 pfx)
       | _ \<Rightarrow> Err FamilyMismatch))"

definition range_incl :: "u32 \<Rightarrow> u32 \<Rightarrow> u32 list" where
  "range_incl lo hi = map of_nat [unat lo ..< Suc (unat hi)]"

definition expand_reservation :: "string \<Rightarrow> vlan_error + u32 list" where
  "expand_reservation spec =
     (let s = trim spec in
      case split_once CHR ''-'' s of
        Some (lo_s, hi_s) \<Rightarrow>
          res_bind (ok_or (RangeStart (trim lo_s)) (parse_ipv4 (trim lo_s))) (\<lambda>lo.
          res_bind (ok_or (RangeEnd (trim hi_s)) (parse_ipv4 (trim hi_s))) (\<lambda>hi.
            if hi < lo then Err (RangeReversed spec)
            else if hi - lo > 65535 then Err (RangeTooBig spec)
            else Ok (range_incl lo hi)))
      | None \<Rightarrow> res_bind (ok_or (NotAnIpv4 s) (parse_ipv4 s)) (\<lambda>ip. Ok [ip]))"

section \<open>The picker for the next free address\<close>

text \<open>\<^verbatim>\<open>for n in first..=last { if !used.contains(&n) { return Some(n) } }\<close>\<close>

function scan_free :: "u32 list \<Rightarrow> u32 \<Rightarrow> u32 \<Rightarrow> u32 option" where
  "scan_free used n hi =
     (if hi < n then None
      else if n \<notin> set used then Some n
      else if n = hi then None
      else scan_free used (n + 1) hi)"
  by pat_completeness auto
termination
proof (relation "measure (\<lambda>(used, n, hi). unat hi - unat n)", goal_cases)
  case (2 used n hi)
  then have "n < hi" by simp
  then show ?case by (simp add: unat_Suc_less word_less_nat_alt)
qed simp

declare scan_free.simps [simp del]

definition alloc_addrs :: "ip_allocation list \<Rightarrow> u32 list" where
  "alloc_addrs as = List.map_filter (\<lambda>a. parse_ipv4 (al_ip a)) as"

definition reserved_addrs :: "external_reservation list \<Rightarrow> u32 list" where
  "reserved_addrs rs = concat (List.map_filter (\<lambda>r. ok (expand_reservation (er_spec r))) rs)"

definition used_addrs :: "vlan_attachment \<Rightarrow> string list \<Rightarrow> u32 \<Rightarrow> u32 \<Rightarrow> u32 list" where
  "used_addrs v cluster_used net_addr bcast_addr =
     (let self_n = parse_ipv4 (va_self_ip v);
          conventional_gw = net_addr + 1
      in [net_addr, bcast_addr]
         @ (case self_n of Some n \<Rightarrow> [n] | None \<Rightarrow> [])
         @ (if self_n \<noteq> Some conventional_gw then [conventional_gw] else [])
         @ alloc_addrs (va_allocations v)
         @ reserved_addrs (va_external_reservations v)
         @ List.map_filter parse_ipv4 cluster_used)"

definition next_available_ip :: "vlan_attachment \<Rightarrow> string list \<Rightarrow> string option" where
  "next_available_ip v cluster_used =
     (case parse_cidr (va_subnet v) of
        Inr (V4 net, pfx) \<Rightarrow>
          (let host_bits = 32 - pfx in
           if host_bits < 2 then None
           else
             (let net_addr = net AND mask_v4 pfx;
                  bcast_addr = net_addr OR NOT (mask_v4 pfx);
                  used = used_addrs v cluster_used net_addr bcast_addr
              in map_option show_ipv4 (scan_free used (net_addr + 1) (bcast_addr - 1))))
      | _ \<Rightarrow> None)"

section \<open>Validation\<close>

definition ifname_ok :: "string \<Rightarrow> bool" where
  "ifname_ok s = (s \<noteq> [] \<and>
     list_all (\<lambda>c. is_ascii_alphanumeric c \<or> c = CHR ''_'' \<or> c = CHR ''.'' \<or> c = CHR ''-'') s)"

fun validate_routes :: "string \<Rightarrow> route_entry list \<Rightarrow> vlan_error + unit" where
  "validate_routes subnet [] = Ok ()"
| "validate_routes subnet (r # rs) =
     res_bind (map_err (VCtx ''route destination: '') (parse_cidr (re_destination r))) (\<lambda>_.
     res_bind (map_err (VCtx ''route via: '') (parse_ip (re_via r))) (\<lambda>_.
     res_bind (ip_in_cidr (re_via r) subnet) (\<lambda>inside.
       if \<not> inside then Err (RouteViaOutside (re_via r) subnet) else validate_routes subnet rs)))"

definition validate_vlan_attachment :: "vlan_attachment \<Rightarrow> vlan_error + unit" where
  "validate_vlan_attachment v =
     (if trim (va_name v) = [] then Err NameRequired else
      res_bind (validate_vlan_id (va_provider v) (va_vlan_id v)) (\<lambda>_.
      if \<not> (576 \<le> va_mtu v \<and> va_mtu v \<le> 9216) then Err (MtuRange (va_mtu v))
      else if \<not> ifname_ok (va_parent_iface v) then Err (BadParent (va_parent_iface v))
      else if \<not> ifname_ok (va_bridge_name v) then Err (BadBridge (va_bridge_name v))
      else if 15 < length (va_bridge_name v)
        then Err (BridgeTooLong (va_bridge_name v) (length (va_bridge_name v)))
      else
        (let subnet_empty = (va_subnet v = []); self_ip_empty = (va_self_ip v = []) in
         if subnet_empty \<and> \<not> self_ip_empty then Err SelfIpNeedsSubnet
         else if self_ip_empty \<and> va_routes v \<noteq> [] then Err RoutesNeedSelfIp
         else if subnet_empty then Ok ()
         else
           res_bind (map_err (VCtx ''subnet: '') (parse_cidr (va_subnet v))) (\<lambda>_.
           if self_ip_empty then Ok ()
           else
             res_bind (map_err (VCtx ''self_ip: '') (parse_ip (va_self_ip v))) (\<lambda>_.
             res_bind (ip_in_cidr (va_self_ip v) (va_subnet v)) (\<lambda>inside.
             if \<not> inside then Err (SelfIpOutside (va_self_ip v) (va_subnet v))
             else validate_routes (va_subnet v) (va_routes v)))))))"

definition validate_public_ip_attachment :: "public_ip_attachment \<Rightarrow> vlan_error + unit" where
  "validate_public_ip_attachment p =
     (if trim (pi_name p) = [] then Err NameRequired else
      res_bind (map_err (VCtx ''public ip: '') (parse_ip (pi_ip p))) (\<lambda>_.
      res_bind (map_err (VCtx ''container internal ip: '') (parse_ip (pi_container_internal_ip p))) (\<lambda>_.
      if pi_egress_iface p = [] then Err EgressRequired else Ok ())))"

section \<open>The store\<close>

definition get_vlan :: "string \<Rightarrow> vlan_store \<Rightarrow> vlan_attachment option" where
  "get_vlan i s = find (\<lambda>v. va_id v = i) (vs_vlans s)"

definition get_public_ip :: "string \<Rightarrow> vlan_store \<Rightarrow> public_ip_attachment option" where
  "get_public_ip i s = find (\<lambda>p. pi_id p = i) (vs_public_ips s)"

definition upsert_vlan ::
    "string \<Rightarrow> vlan_attachment \<Rightarrow> vlan_store \<Rightarrow> (vlan_error + string) \<times> vlan_store" where
  "upsert_vlan uuid v0 s =
     (case validate_vlan_attachment v0 of
        Inl e \<Rightarrow> (Err e, s)
      | Inr _ \<Rightarrow>
          (let v = (if va_id v0 = [] then v0\<lparr>va_id := ''vlan-'' @ take 8 uuid\<rparr> else v0) in
           if find (\<lambda>x. va_id x = va_id v) (vs_vlans s) \<noteq> None
           then (Ok (va_id v),
                 s\<lparr>vs_vlans := update_first (\<lambda>x. va_id x = va_id v) (\<lambda>_. v) (vs_vlans s)\<rparr>)
           else if list_ex (\<lambda>x. va_parent_iface x = va_parent_iface v \<and> va_vlan_id x = va_vlan_id v)
                     (vs_vlans s)
           then (Err (VlanExists (va_vlan_id v) (va_parent_iface v)), s)
           else (Ok (va_id v), s\<lparr>vs_vlans := vs_vlans s @ [v]\<rparr>)))"

definition remove_vlan :: "string \<Rightarrow> vlan_store \<Rightarrow> bool \<times> vlan_store" where
  "remove_vlan i s =
     (let kept = filter (\<lambda>v. va_id v \<noteq> i) (vs_vlans s)
      in (length (vs_vlans s) \<noteq> length kept, s\<lparr>vs_vlans := kept\<rparr>))"

definition upsert_public_ip ::
    "string \<Rightarrow> public_ip_attachment \<Rightarrow> vlan_store \<Rightarrow> (vlan_error + string) \<times> vlan_store" where
  "upsert_public_ip uuid p0 s =
     (case validate_public_ip_attachment p0 of
        Inl e \<Rightarrow> (Err e, s)
      | Inr _ \<Rightarrow>
          (let p = (if pi_id p0 = [] then p0\<lparr>pi_id := ''pip-'' @ take 8 uuid\<rparr> else p0) in
           if find (\<lambda>x. pi_id x = pi_id p) (vs_public_ips s) \<noteq> None
           then (Ok (pi_id p),
                 s\<lparr>vs_public_ips := update_first (\<lambda>x. pi_id x = pi_id p) (\<lambda>_. p) (vs_public_ips s)\<rparr>)
           else if list_ex (\<lambda>x. pi_ip x = pi_ip p) (vs_public_ips s)
           then (Err (PublicIpTaken (pi_ip p)), s)
           else (Ok (pi_id p), s\<lparr>vs_public_ips := vs_public_ips s @ [p]\<rparr>)))"

definition remove_public_ip :: "string \<Rightarrow> vlan_store \<Rightarrow> bool \<times> vlan_store" where
  "remove_public_ip i s =
     (let kept = filter (\<lambda>p. pi_id p \<noteq> i) (vs_public_ips s)
      in (length (vs_public_ips s) \<noteq> length kept, s\<lparr>vs_public_ips := kept\<rparr>))"

text \<open>The body of \<^verbatim>\<open>allocate_ip\<close> once the VLAN is found, on that VLAN.\<close>

definition allocate_on ::
    "string \<Rightarrow> target_kind \<Rightarrow> string \<Rightarrow> string \<Rightarrow> string \<Rightarrow> vlan_attachment
      \<Rightarrow> vlan_error + vlan_attachment" where
  "allocate_on ip kind target lbl now v =
     res_bind (ip_in_cidr ip (va_subnet v)) (\<lambda>inside.
       if \<not> inside then Err (IpNotInSubnet ip (va_subnet v))
       else if list_ex (\<lambda>a. al_ip a = ip) (va_allocations v) then Err (IpAllocated ip (va_name v))
       else Ok (v\<lparr>va_allocations := va_allocations v @
                   [\<lparr>al_ip = ip, al_kind = kind, al_target = target, al_label = lbl,
                     al_created_at = now\<rparr>]\<rparr>))"

definition allocate_ip ::
    "string \<Rightarrow> string \<Rightarrow> target_kind \<Rightarrow> string \<Rightarrow> string \<Rightarrow> string \<Rightarrow> vlan_store
      \<Rightarrow> (vlan_error + unit) \<times> vlan_store" where
  "allocate_ip vlan_id ip kind target lbl now s =
     (case find (\<lambda>v. va_id v = vlan_id) (vs_vlans s) of
        None \<Rightarrow> (Err (VlanNotFound vlan_id), s)
      | Some v \<Rightarrow>
          (case allocate_on ip kind target lbl now v of
             Inl e \<Rightarrow> (Err e, s)
           | Inr v' \<Rightarrow>
               (Ok (), s\<lparr>vs_vlans := update_first (\<lambda>x. va_id x = vlan_id) (\<lambda>_. v') (vs_vlans s)\<rparr>)))"

definition deallocate_ip :: "string \<Rightarrow> string \<Rightarrow> vlan_store \<Rightarrow> bool \<times> vlan_store" where
  "deallocate_ip vlan_id ip s =
     (case find (\<lambda>v. va_id v = vlan_id) (vs_vlans s) of
        None \<Rightarrow> (False, s)
      | Some v \<Rightarrow>
          (let kept = filter (\<lambda>a. al_ip a \<noteq> ip) (va_allocations v)
           in (length (va_allocations v) \<noteq> length kept,
               s\<lparr>vs_vlans := update_first (\<lambda>x. va_id x = vlan_id)
                   (\<lambda>x. x\<lparr>va_allocations := kept\<rparr>) (vs_vlans s)\<rparr>)))"

definition target_free :: "target_kind \<Rightarrow> string \<Rightarrow> ip_allocation \<Rightarrow> bool" where
  "target_free kind target a = (\<not> (al_kind a = kind \<and> al_target a = target))"

definition deallocate_target :: "target_kind \<Rightarrow> string \<Rightarrow> vlan_store \<Rightarrow> nat \<times> vlan_store" where
  "deallocate_target kind target s =
     (foldl (\<lambda>n v. n + (length (va_allocations v) -
                        length (filter (target_free kind target) (va_allocations v)))) 0 (vs_vlans s),
      s\<lparr>vs_vlans := map (\<lambda>v. v\<lparr>va_allocations :=
          filter (target_free kind target) (va_allocations v)\<rparr>) (vs_vlans s)\<rparr>)"

text \<open>
  \<^verbatim>\<open>release_target_allocations\<close> on the stored file: the new contents are written only when
  something was released and the write succeeds.
\<close>

definition release_target_allocations ::
    "target_kind \<Rightarrow> string \<Rightarrow> bool \<Rightarrow> vlan_store \<Rightarrow> nat \<times> vlan_store" where
  "release_target_allocations kind target save_ok disk =
     (case deallocate_target kind target disk of
        (n, store) \<Rightarrow> (n, if 0 < n \<and> save_ok then store else disk))"

section \<open>The picker is correct\<close>

lemma word_le_Suc:
  fixes n b hi :: u32
  assumes "n < hi" and "n \<le> b" and "n \<noteq> b"
  shows "n + 1 \<le> b"
  using assms unat_Suc_less [of n hi] by (simp add: word_le_nat_alt word_less_nat_alt word_unat_eq_iff)

lemma scan_free_Some:
  "scan_free used n hi = Some a \<Longrightarrow>
     n \<le> a \<and> a \<le> hi \<and> a \<notin> set used \<and> (\<forall>b. n \<le> b \<and> b < a \<longrightarrow> b \<in> set used)"
proof (induction used n hi rule: scan_free.induct)
  case (1 used n hi)
  show ?case
  proof (cases "hi < n \<or> n \<notin> set used \<or> n = hi")
    case True
    with "1.prems" show ?thesis by (subst (asm) scan_free.simps) (auto split: if_splits)
  next
    case False
    with "1.prems" have rec: "scan_free used (n + 1) hi = Some a"
      by (subst (asm) scan_free.simps) auto
    from False have lt: "n < hi" by auto
    from "1.IH" [OF _ _ _ rec] False have IH: "n + 1 \<le> a" "a \<le> hi" "a \<notin> set used"
      "\<forall>b. n + 1 \<le> b \<and> b < a \<longrightarrow> b \<in> set used" by auto
    have "n \<le> a" using IH(1) unat_Suc_less [OF lt] by (simp add: word_le_nat_alt)
    moreover have "b \<in> set used" if "n \<le> b" "b < a" for b
      using that False IH(4) word_le_Suc [OF lt, of b] by (cases "n = b") auto
    ultimately show ?thesis using IH by blast
  qed
qed

lemma scan_free_None:
  "scan_free used n hi = None \<Longrightarrow> n \<le> b \<Longrightarrow> b \<le> hi \<Longrightarrow> b \<in> set used"
proof (induction used n hi rule: scan_free.induct)
  case (1 used n hi)
  show ?case
  proof (cases "n = hi")
    case True
    with "1.prems" show ?thesis by (subst (asm) scan_free.simps) (auto split: if_splits)
  next
    case False
    with "1.prems"(2,3) have lt: "n < hi" by auto
    with "1.prems"(1) False have "n \<in> set used" and rec: "scan_free used (n + 1) hi = None"
      by (subst (asm) scan_free.simps, auto split: if_splits)+
    with "1.IH" [OF _ _ False rec _ "1.prems"(3)] lt word_le_Suc [OF lt "1.prems"(2)]
    show ?thesis by (cases "n = b") auto
  qed
qed

text \<open>The addresses a guest may take on a VLAN, and those that are already spoken for.\<close>

definition host_addrs :: "vlan_attachment \<Rightarrow> u32 set" where
  "host_addrs v =
     (case parse_cidr (va_subnet v) of
        Inr (V4 net, pfx) \<Rightarrow>
          if 30 < pfx then {}
          else {a. net AND mask_v4 pfx < a \<and> a < (net AND mask_v4 pfx) OR NOT (mask_v4 pfx)}
      | _ \<Rightarrow> {})"

definition taken_addrs :: "vlan_attachment \<Rightarrow> string list \<Rightarrow> u32 set" where
  "taken_addrs v cluster_used =
     (case parse_cidr (va_subnet v) of
        Inr (V4 net, pfx) \<Rightarrow>
          set (used_addrs v cluster_used (net AND mask_v4 pfx)
                 ((net AND mask_v4 pfx) OR NOT (mask_v4 pfx)))
      | _ \<Rightarrow> {})"

lemma parse_cidr_V4_le: "parse_cidr s = Inr (V4 n, p) \<Longrightarrow> p \<le> 32"
  by (auto simp: parse_cidr_def res_bind_Inr_iff Let_def split: if_splits ip_addr.splits)

text \<open>With at least two host bits the network address and the broadcast address are three apart.\<close>

lemma net_bcast_gap:
  fixes n :: u32
  assumes "p \<le> 30"
  shows "unat (n AND mask_v4 p) + 3 \<le> unat ((n AND mask_v4 p) OR NOT (mask_v4 p))"
proof -
  have p: "p \<le> 32" using assms by simp
  have "(2::nat) ^ 2 \<le> 2 ^ (32 - p)" using assms by (intro power_increasing) auto
  then show ?thesis by (simp add: unat_net [OF p] unat_bcast [OF p])
qed

lemma between_iff:
  fixes net bc a :: u32
  assumes "unat net + 3 \<le> unat bc"
  shows "net + 1 \<le> a \<and> a \<le> bc - 1 \<longleftrightarrow> net < a \<and> a < bc"
proof -
  from assms have "net < bc" by (simp add: word_less_nat_alt)
  then have "unat (net + 1) = Suc (unat net)" by (rule unat_Suc_less)
  moreover have "unat (bc - 1) = unat bc - 1"
    using assms by (intro unat_minus_one) auto
  ultimately show ?thesis
    using assms by (auto simp: word_le_nat_alt word_less_nat_alt)
qed

lemma next_available_ip_scan:
  assumes "parse_cidr (va_subnet v) = Inr (V4 n, p)" and "p \<le> 30"
  shows "next_available_ip v cu =
    map_option show_ipv4 (scan_free (used_addrs v cu (n AND mask_v4 p) ((n AND mask_v4 p) OR NOT (mask_v4 p)))
      ((n AND mask_v4 p) + 1) (((n AND mask_v4 p) OR NOT (mask_v4 p)) - 1))"
proof -
  have "\<not> 32 - p < 2" using assms(2) by simp
  then show ?thesis by (simp add: next_available_ip_def Let_def assms(1))
qed

lemma next_available_ip_none:
  "(\<nexists>n p. parse_cidr (va_subnet v) = Inr (V4 n, p) \<and> p \<le> 30) \<Longrightarrow> next_available_ip v cu = None"
  by (auto simp: next_available_ip_def Let_def split: sum.splits ip_addr.splits)

lemma next_available_ip_Some_iff:
  "next_available_ip v cu = Some s \<longleftrightarrow>
     (\<exists>a. s = show_ipv4 a \<and> a \<in> host_addrs v \<and> a \<notin> taken_addrs v cu \<and>
          (\<forall>b \<in> host_addrs v. b < a \<longrightarrow> b \<in> taken_addrs v cu))"
proof (cases "\<exists>n p. parse_cidr (va_subnet v) = Inr (V4 n, p) \<and> p \<le> 30")
  case False
  then have "host_addrs v = {}"
    by (auto simp: host_addrs_def split: sum.splits ip_addr.splits)
  with next_available_ip_none [OF False] show ?thesis by simp
next
  case True
  then obtain n p where c: "parse_cidr (va_subnet v) = Inr (V4 n, p)" and p: "p \<le> 30" by blast
  let ?net = "n AND mask_v4 p" and ?bc = "(n AND mask_v4 p) OR NOT (mask_v4 p)"
  let ?used = "used_addrs v cu ?net ?bc"
  have host: "host_addrs v = {a. ?net + 1 \<le> a \<and> a \<le> ?bc - 1}"
    using p by (simp add: host_addrs_def c between_iff [OF net_bcast_gap [OF p]])
  have taken: "taken_addrs v cu = set ?used" by (simp add: taken_addrs_def c)
  have scan: "scan_free ?used (?net + 1) (?bc - 1) = Some a \<longleftrightarrow>
      a \<in> host_addrs v \<and> a \<notin> taken_addrs v cu \<and>
      (\<forall>b \<in> host_addrs v. b < a \<longrightarrow> b \<in> taken_addrs v cu)" for a
  proof
    assume "scan_free ?used (?net + 1) (?bc - 1) = Some a"
    from scan_free_Some [OF this] show "a \<in> host_addrs v \<and> a \<notin> taken_addrs v cu \<and>
      (\<forall>b \<in> host_addrs v. b < a \<longrightarrow> b \<in> taken_addrs v cu)"
      unfolding host taken by blast
  next
    assume R: "a \<in> host_addrs v \<and> a \<notin> taken_addrs v cu \<and>
      (\<forall>b \<in> host_addrs v. b < a \<longrightarrow> b \<in> taken_addrs v cu)"
    show "scan_free ?used (?net + 1) (?bc - 1) = Some a"
    proof (cases "scan_free ?used (?net + 1) (?bc - 1)")
      case None
      from scan_free_None [OF this] R show ?thesis unfolding host taken by blast
    next
      case (Some b)
      from scan_free_Some [OF this] have b: "b \<in> host_addrs v" "b \<notin> taken_addrs v cu"
        "\<forall>x \<in> host_addrs v. x < b \<longrightarrow> x \<in> taken_addrs v cu"
        unfolding host taken by blast+
      with R have "a = b" by (meson linorder_neqE)
      with Some show ?thesis by simp
    qed
  qed
  show ?thesis
    unfolding next_available_ip_scan [OF c p] by (auto simp: scan [symmetric])
qed

lemma next_available_ip_None_iff:
  "next_available_ip v cu = None \<longleftrightarrow> host_addrs v \<subseteq> taken_addrs v cu"
proof
  assume "host_addrs v \<subseteq> taken_addrs v cu"
  then show "next_available_ip v cu = None"
    using next_available_ip_Some_iff [of v cu] by (cases "next_available_ip v cu") auto
next
  assume none: "next_available_ip v cu = None"
  show "host_addrs v \<subseteq> taken_addrs v cu"
  proof (rule ccontr)
    assume "\<not> host_addrs v \<subseteq> taken_addrs v cu"
    then have ne: "\<exists>n. \<exists>a. unat a = n \<and> a \<in> host_addrs v \<and> a \<notin> taken_addrs v cu" by blast
    obtain a where a: "a \<in> host_addrs v" "a \<notin> taken_addrs v cu"
      and least: "\<And>b. b \<in> host_addrs v \<Longrightarrow> b \<notin> taken_addrs v cu \<Longrightarrow> unat a \<le> unat b"
      using LeastI_ex [OF ne] Least_le [of "\<lambda>n. \<exists>a. unat a = n \<and> a \<in> host_addrs v \<and> a \<notin> taken_addrs v cu"]
      by (metis (mono_tags, lifting))
    have "next_available_ip v cu = Some (show_ipv4 a)"
      unfolding next_available_ip_Some_iff
      using a least by (auto simp: word_less_nat_alt intro!: exI [of _ a] dest: leD)
    with none show False by simp
  qed
qed

section \<open>Picking and claiming: the interface between picker and store\<close>

text \<open>
  What the attach handlers rely on: the picker offers a usable address nobody holds, the store
  accepts every such address, and from then on it counts as held. Drawing addresses one after
  the other then never yields an address twice and goes on until the pool is exhausted.
\<close>

locale address_pool =
  fixes pick :: "'s \<Rightarrow> 'a option"
    and claim :: "'a \<Rightarrow> 's \<Rightarrow> 's option"
    and usable :: "'s \<Rightarrow> 'a set"
    and held :: "'s \<Rightarrow> 'a set"
  assumes pick_sound: "pick s = Some a \<Longrightarrow> a \<in> usable s \<and> a \<notin> held s"
    and pick_complete: "pick s = None \<Longrightarrow> usable s \<subseteq> held s"
    and claim_free: "a \<in> usable s \<Longrightarrow> a \<notin> held s \<Longrightarrow> claim a s \<noteq> None"
    and claim_usable: "a \<in> usable s \<Longrightarrow> claim a s = Some s' \<Longrightarrow> usable s' = usable s"
    and claim_held: "a \<in> usable s \<Longrightarrow> claim a s = Some s' \<Longrightarrow> held s' = insert a (held s)"
begin

fun draw :: "nat \<Rightarrow> 's \<Rightarrow> 'a list \<times> 's" where
  "draw 0 s = ([], s)"
| "draw (Suc n) s =
     (case pick s of
        None \<Rightarrow> ([], s)
      | Some a \<Rightarrow>
          (case claim a s of
             None \<Rightarrow> ([], s)
           | Some s' \<Rightarrow> (case draw n s' of (as, s'') \<Rightarrow> (a # as, s''))))"

lemma draw_step:
  assumes "pick s = Some a"
  obtains s' where "claim a s = Some s'" "usable s' = usable s" "held s' = insert a (held s)"
    "a \<in> usable s" "a \<notin> held s"
proof -
  from pick_sound [OF assms] have a: "a \<in> usable s" "a \<notin> held s" by auto
  with claim_free obtain s' where "claim a s = Some s'" by fastforce
  with a claim_usable [OF a(1)] claim_held [OF a(1)] show thesis by (intro that) auto
qed

lemma draw_fresh:
  "draw n s = (as, s') \<Longrightarrow>
     distinct as \<and> set as \<subseteq> usable s - held s \<and> usable s' = usable s \<and> held s' = held s \<union> set as"
proof (induction n arbitrary: s as)
  case (Suc n)
  show ?case
  proof (cases "pick s")
    case None
    with Suc.prems show ?thesis by simp
  next
    case (Some a)
    then obtain t where t: "claim a s = Some t" "usable t = usable s" "held t = insert a (held s)"
      "a \<in> usable s" "a \<notin> held s" by (rule draw_step)
    obtain bs where bs: "draw n t = (bs, s')" "as = a # bs"
      using Suc.prems Some t(1) by (auto split: prod.splits)
    from Suc.IH [OF bs(1)] t bs(2) show ?thesis by auto
  qed
qed simp

lemma draw_exhausts:
  "draw n s = (as, s') \<Longrightarrow> length as < n \<Longrightarrow> usable s \<subseteq> held s \<union> set as"
proof (induction n arbitrary: s as)
  case (Suc n)
  show ?case
  proof (cases "pick s")
    case None
    with Suc.prems pick_complete show ?thesis by auto
  next
    case (Some a)
    then obtain t where t: "claim a s = Some t" "usable t = usable s" "held t = insert a (held s)"
      by (rule draw_step)
    obtain bs where bs: "draw n t = (bs, s')" "as = a # bs"
      using Suc.prems Some t(1) by (auto split: prod.splits)
    from Suc.IH [OF bs(1)] Suc.prems(2) t bs(2) show ?thesis by auto
  qed
qed simp

end

lemma in_alloc_addrs: "a \<in> set (alloc_addrs as) \<longleftrightarrow> show_ipv4 a \<in> al_ip ` set as"
  by (force simp: alloc_addrs_def in_set_map_filter parse_ipv4_canonical image_iff)

lemma in_reserved_addrs:
  "a \<in> set (reserved_addrs rs) \<longleftrightarrow>
     (\<exists>r \<in> set rs. \<exists>as. expand_reservation (er_spec r) = Inr as \<and> a \<in> set as)"
  by (simp add: reserved_addrs_def Bex_def in_set_map_filter ok_eq_Some_iff) blast

lemma in_parsed: "a \<in> set (List.map_filter parse_ipv4 cu) \<longleftrightarrow> show_ipv4 a \<in> set cu"
  by (auto simp: in_set_map_filter parse_ipv4_canonical)

lemma taken_addrs_iff:
  assumes "parse_cidr (va_subnet v) = Inr (V4 n, p)"
  shows "a \<in> taken_addrs v cu \<longleftrightarrow>
    a = n AND mask_v4 p \<or> a = (n AND mask_v4 p) OR NOT (mask_v4 p) \<or>
    parse_ipv4 (va_self_ip v) = Some a \<or> a = (n AND mask_v4 p) + 1 \<and> parse_ipv4 (va_self_ip v) \<noteq> Some a \<or>
    show_ipv4 a \<in> al_ip ` set (va_allocations v) \<or> show_ipv4 a \<in> set cu \<or>
    (\<exists>r \<in> set (va_external_reservations v). \<exists>as. expand_reservation (er_spec r) = Inr as \<and> a \<in> set as)"
  by (auto simp: taken_addrs_def assms used_addrs_def Let_def in_alloc_addrs in_reserved_addrs in_parsed
      split: option.splits if_splits)

lemma host_addrs_cidr:
  assumes "a \<in> host_addrs v"
  obtains n p where "parse_cidr (va_subnet v) = Inr (V4 n, p)" "p \<le> 30"
    "n AND mask_v4 p < a" "a < (n AND mask_v4 p) OR NOT (mask_v4 p)"
    "a AND mask_v4 p = n AND mask_v4 p"
proof -
  from assms obtain n p where c: "parse_cidr (va_subnet v) = Inr (V4 n, p)" and p: "p \<le> 30"
    and a: "n AND mask_v4 p < a" "a < (n AND mask_v4 p) OR NOT (mask_v4 p)"
    by (auto simp: host_addrs_def split: sum.splits ip_addr.splits if_splits)
  from in_net_iff [OF parse_cidr_V4_le [OF c], of a n] a
  have "a AND mask_v4 p = n AND mask_v4 p" by auto
  with c p a that show thesis by blast
qed

lemma host_in_cidr:
  assumes "a \<in> host_addrs v"
  shows "ip_in_cidr (show_ipv4 a) (va_subnet v) = Inr True"
  using assms by (elim host_addrs_cidr) (simp add: ip_in_cidr_def parse_ip_def)

lemma alloc_taken:
  assumes "a \<in> host_addrs v" and "show_ipv4 a \<in> al_ip ` set (va_allocations v)"
  shows "a \<in> taken_addrs v cu"
  using assms by (elim host_addrs_cidr) (simp add: taken_addrs_iff)

lemma host_addrs_allocations [simp]: "host_addrs (v\<lparr>va_allocations := as\<rparr>) = host_addrs v"
  by (simp add: host_addrs_def)

lemma taken_addrs_snoc:
  assumes "a \<in> host_addrs v" and "al_ip x = show_ipv4 a"
  shows "taken_addrs (v\<lparr>va_allocations := va_allocations v @ [x]\<rparr>) cu = insert a (taken_addrs v cu)"
proof -
  from assms(1) obtain n p where c: "parse_cidr (va_subnet v) = Inr (V4 n, p)" by (rule host_addrs_cidr)
  then have c': "parse_cidr (va_subnet (v\<lparr>va_allocations := va_allocations v @ [x]\<rparr>)) = Inr (V4 n, p)"
    by simp
  show ?thesis
    using assms(2)
    by (intro set_eqI) (auto simp: taken_addrs_iff [OF c] taken_addrs_iff [OF c'] dest: show_ipv4_inj)
qed

lemma allocate_on_host:
  assumes "a \<in> host_addrs v"
  shows "allocate_on (show_ipv4 a) kind target lbl now v =
    (if show_ipv4 a \<in> al_ip ` set (va_allocations v) then Inl (IpAllocated (show_ipv4 a) (va_name v))
     else Inr (v\<lparr>va_allocations := va_allocations v @
        [\<lparr>al_ip = show_ipv4 a, al_kind = kind, al_target = target, al_label = lbl, al_created_at = now\<rparr>]\<rparr>))"
  by (force simp: allocate_on_def host_in_cidr [OF assms] list_ex_iff image_iff)

interpretation vlan_pool: address_pool
  "\<lambda>v. Option.bind (next_available_ip v cu) parse_ipv4"
  "\<lambda>a v. ok (allocate_on (show_ipv4 a) kind target lbl now v)"
  host_addrs
  "\<lambda>v. taken_addrs v cu"
  for cu kind target lbl now
proof (unfold_locales, goal_cases)
  case (1 v a)
  then show ?case by (auto simp: next_available_ip_Some_iff bind_eq_Some_conv)
next
  case (2 v)
  show ?case
  proof (cases "next_available_ip v cu")
    case None
    then show ?thesis by (simp add: next_available_ip_None_iff)
  next
    case (Some ip)
    then obtain a where "ip = show_ipv4 a" using next_available_ip_Some_iff [of v cu ip] by blast
    with 2 Some show ?thesis by simp
  qed
next
  case (3 a v)
  then show ?case using alloc_taken [of a v cu] by (auto simp: allocate_on_host)
next
  case (4 a v v')
  then show ?case by (auto simp: allocate_on_host ok_eq_Some_iff split: if_splits)
next
  case (5 a v v')
  then show ?case
    by (clarsimp simp: allocate_on_host ok_eq_Some_iff taken_addrs_snoc split: if_splits)
qed

section \<open>Invariants of the store\<close>

definition vlan_store_ok :: "vlan_store \<Rightarrow> bool" where
  "vlan_store_ok s =
     (distinct (map va_id (vs_vlans s)) \<and> distinct (map pi_id (vs_public_ips s)) \<and>
      (\<forall>v \<in> set (vs_vlans s). validate_vlan_attachment v = Inr ()) \<and>
      (\<forall>p \<in> set (vs_public_ips s). validate_public_ip_attachment p = Inr ()))"

lemma validate_ignores_allocations [simp]:
  "validate_vlan_attachment (v\<lparr>va_allocations := as\<rparr>) = validate_vlan_attachment v"
  "validate_vlan_attachment (v\<lparr>va_id := i\<rparr>) = validate_vlan_attachment v"
  by (simp_all add: validate_vlan_attachment_def Let_def cong: if_cong)

lemma validate_public_ignores_id [simp]:
  "validate_public_ip_attachment (p\<lparr>pi_id := i\<rparr>) = validate_public_ip_attachment p"
  by (simp add: validate_public_ip_attachment_def)

lemma upsert_vlan_keeps_ok: "vlan_store_ok s \<Longrightarrow> vlan_store_ok (snd (upsert_vlan uuid v s))"
  by (auto simp: upsert_vlan_def vlan_store_ok_def Let_def map_update_first_const find_None_iff
      split: sum.splits dest!: set_update_first_subset [THEN subsetD])

lemma upsert_public_ip_keeps_ok:
  "vlan_store_ok s \<Longrightarrow> vlan_store_ok (snd (upsert_public_ip uuid p s))"
  by (auto simp: upsert_public_ip_def vlan_store_ok_def Let_def map_update_first_const find_None_iff
      split: sum.splits dest!: set_update_first_subset [THEN subsetD])

lemma remove_keeps_ok:
  "vlan_store_ok s \<Longrightarrow> vlan_store_ok (snd (remove_vlan i s))"
  "vlan_store_ok s \<Longrightarrow> vlan_store_ok (snd (remove_public_ip i s))"
  by (auto simp: remove_vlan_def remove_public_ip_def vlan_store_ok_def Let_def distinct_map_filter_key)

lemma allocate_on_frame:
  "allocate_on ip kind target lbl now v = Inr v' \<Longrightarrow>
     va_id v' = va_id v \<and> va_subnet v' = va_subnet v \<and>
     validate_vlan_attachment v' = validate_vlan_attachment v"
  by (auto simp: allocate_on_def res_bind_Inr_iff split: if_splits)

lemma allocate_ip_keeps_ok:
  assumes "vlan_store_ok s"
  shows "vlan_store_ok (snd (allocate_ip i ip kind target lbl now s))"
proof (cases "find (\<lambda>v. va_id v = i) (vs_vlans s)")
  case None
  with assms show ?thesis by (simp add: allocate_ip_def)
next
  case (Some v)
  note v = find_SomeD [OF Some]
  show ?thesis
  proof (cases "allocate_on ip kind target lbl now v")
    case (Inl e)
    with Some assms show ?thesis by (simp add: allocate_ip_def)
  next
    case (Inr v')
    with v allocate_on_frame [OF Inr] assms show ?thesis
      by (auto simp: allocate_ip_def Some vlan_store_ok_def map_update_first_const
          dest!: set_update_first_subset [THEN subsetD])
  qed
qed

lemma deallocate_ip_keeps_ok:
  "vlan_store_ok s \<Longrightarrow> vlan_store_ok (snd (deallocate_ip i ip s))"
  by (auto simp: deallocate_ip_def vlan_store_ok_def Let_def map_update_first
      split: option.splits dest!: set_update_first_subset [THEN subsetD])

lemma deallocate_target_keeps_ok:
  "vlan_store_ok s \<Longrightarrow> vlan_store_ok (snd (deallocate_target kind target s))"
  by (auto simp: deallocate_target_def vlan_store_ok_def comp_def)

text \<open>The operations the API handlers perform on the store, as a step relation.\<close>

inductive vlan_step :: "vlan_store \<Rightarrow> vlan_store \<Rightarrow> bool" where
  step_upsert_vlan: "vlan_step s (snd (upsert_vlan uuid v s))"
| step_remove_vlan: "vlan_step s (snd (remove_vlan i s))"
| step_upsert_public_ip: "vlan_step s (snd (upsert_public_ip uuid p s))"
| step_remove_public_ip: "vlan_step s (snd (remove_public_ip i s))"
| step_allocate_ip: "vlan_step s (snd (allocate_ip i ip kind target lbl now s))"
| step_deallocate_ip: "vlan_step s (snd (deallocate_ip i ip s))"
| step_deallocate_target: "vlan_step s (snd (deallocate_target kind target s))"

lemmas vlan_keeps_ok = upsert_vlan_keeps_ok upsert_public_ip_keeps_ok remove_keeps_ok
  allocate_ip_keeps_ok deallocate_ip_keeps_ok deallocate_target_keeps_ok

lemma vlan_step_ok: "vlan_step s s' \<Longrightarrow> vlan_store_ok s \<Longrightarrow> vlan_store_ok s'"
  by (induction rule: vlan_step.induct) (rule vlan_keeps_ok, assumption)+

definition empty_store :: vlan_store where
  "empty_store = \<lparr>vs_vlans = [], vs_public_ips = []\<rparr>"

lemma vlan_reach_ok: "vlan_step\<^sup>*\<^sup>* s s' \<Longrightarrow> vlan_store_ok s \<Longrightarrow> vlan_store_ok s'"
  by (induction rule: rtranclp_induct) (auto dest: vlan_step_ok)

lemma empty_store_ok: "vlan_store_ok empty_store"
  by (simp add: vlan_store_ok_def empty_store_def)

lemma validate_facts:
  assumes "validate_vlan_attachment v = Inr ()"
  shows "1 \<le> va_vlan_id v" "va_vlan_id v \<le> 4094" "576 \<le> va_mtu v" "va_mtu v \<le> 9216"
    "length (va_bridge_name v) \<le> 15" "va_bridge_name v \<noteq> []"
    "va_provider v = Hetzner \<Longrightarrow> 4000 \<le> va_vlan_id v \<and> va_vlan_id v \<le> 4091"
    "va_self_ip v \<noteq> [] \<Longrightarrow> ip_in_cidr (va_self_ip v) (va_subnet v) = Inr True"
  using assms
  by (auto simp: validate_vlan_attachment_def validate_vlan_id_def ifname_ok_def Let_def
      res_bind_Inr_iff split: if_splits vlan_provider.splits)

lemma validate_routes_facts:
  "validate_routes sn rs = Inr () \<Longrightarrow> r \<in> set rs \<Longrightarrow> ip_in_cidr (re_via r) sn = Inr True"
  by (induction rs) (auto simp: res_bind_Inr_iff split: if_splits)

lemma validate_route_via:
  assumes "validate_vlan_attachment v = Inr ()" and "r \<in> set (va_routes v)"
  shows "ip_in_cidr (re_via r) (va_subnet v) = Inr True"
proof -
  from assms have "validate_routes (va_subnet v) (va_routes v) = Inr ()"
    by (auto simp: validate_vlan_attachment_def Let_def res_bind_Inr_iff split: if_splits)
  then show ?thesis using assms(2) by (rule validate_routes_facts)
qed

section \<open>A concrete VLAN for the witnesses\<close>

definition demo_vlan :: vlan_attachment where
  "demo_vlan = \<lparr>va_id = ''v1'', va_name = ''lab'', va_provider = VCustom, va_parent_iface = ''eno1'',
     va_vlan_id = 40, va_mtu = 1500, va_bridge_name = ''vmbr40'', va_subnet = ''10.0.0.0/29'',
     va_self_ip = ''10.0.0.2'', va_routes = [], va_allocations = [],
     va_external_reservations = [\<lparr>er_spec = ''10.0.0.3-10.0.0.4'', er_note = []\<rparr>], va_notes = []\<rparr>"

lemma demo_cidr: "parse_cidr ''10.0.0.0/29'' = Inr (V4 167772160, 29)"
  by (simp add: parse_cidr_def parse_ip_def rust_eval)

lemma demo_reservation: "expand_reservation ''10.0.0.3-10.0.0.4'' = Inr [167772163, 167772164]"
  by (simp add: expand_reservation_def rust_eval range_incl_def upt_rec)

lemmas demo_eval = next_available_ip_def demo_vlan_def demo_cidr used_addrs_def alloc_addrs_def
  reserved_addrs_def demo_reservation scan_free.simps rust_eval

lemma demo_pick: "next_available_ip demo_vlan [''10.0.0.5''] = Some ''10.0.0.6''"
  by (simp add: demo_eval)

lemma demo_full: "next_available_ip demo_vlan [''10.0.0.5'', ''10.0.0.6''] = None"
  by (simp add: demo_eval)

lemma demo_valid: "validate_vlan_attachment demo_vlan = Inr ()"
  by (simp add: demo_vlan_def validate_vlan_attachment_def validate_vlan_id_def ifname_ok_def
      ip_in_cidr_def demo_cidr parse_ip_def rust_eval)

section \<open>Properties\<close>

text \<open>
  C24 (picker, soundness). The address the picker returns is in canonical form, lies in the
  subnet, is neither its network nor its broadcast address, is not the host's own address, and
  is not named by any allocation, by the peers' list or by any reservation.
\<close>

theorem next_available_ip_free:
  assumes "next_available_ip v cu = Some ip"
  shows "\<exists>n p a. parse_cidr (va_subnet v) = Inr (V4 n, p) \<and> ip = show_ipv4 a \<and>
     a AND mask_v4 p = n AND mask_v4 p \<and>
     a \<noteq> n AND mask_v4 p \<and> a \<noteq> (n AND mask_v4 p) OR NOT (mask_v4 p) \<and>
     parse_ipv4 (va_self_ip v) \<noteq> Some a \<and>
     ip \<notin> al_ip ` set (va_allocations v) \<and> ip \<notin> set cu \<and>
     (\<forall>r \<in> set (va_external_reservations v). \<forall>as.
        expand_reservation (er_spec r) = Inr as \<longrightarrow> a \<notin> set as)"
proof -
  from assms obtain a where a: "ip = show_ipv4 a" "a \<in> host_addrs v" "a \<notin> taken_addrs v cu"
    unfolding next_available_ip_Some_iff by blast
  from a(2) obtain n p where c: "parse_cidr (va_subnet v) = Inr (V4 n, p)"
    and bd: "n AND mask_v4 p < a" "a < (n AND mask_v4 p) OR NOT (mask_v4 p)"
    and net: "a AND mask_v4 p = n AND mask_v4 p" by (rule host_addrs_cidr)
  from a(3) have "parse_ipv4 (va_self_ip v) \<noteq> Some a" "ip \<notin> al_ip ` set (va_allocations v)"
    "ip \<notin> set cu" "\<forall>r \<in> set (va_external_reservations v). \<forall>as.
        expand_reservation (er_spec r) = Inr as \<longrightarrow> a \<notin> set as"
    unfolding taken_addrs_iff [OF c] a(1) by blast+
  with c a(1) net bd show ?thesis by (intro exI [of _ n] exI [of _ p] exI [of _ a]) auto
qed

theorem next_available_ip_free_witness:
  "next_available_ip demo_vlan [''10.0.0.5''] = Some ''10.0.0.6'' \<and>
   ''10.0.0.6'' \<notin> al_ip ` set (va_allocations demo_vlan) \<and> ''10.0.0.6'' \<notin> set [''10.0.0.5'']"
  using next_available_ip_free [OF demo_pick] demo_pick by blast


text \<open>
  When the picker finds nothing in a subnet with at least two host
  bits, every host address is accounted for: it is the host's own address, the conventional
  gateway, allocated, listed by a peer, or inside a reservation.
\<close>

theorem next_available_ip_exhausted:
  assumes "next_available_ip v cu = None"
    and "parse_cidr (va_subnet v) = Inr (V4 n, p)" and "p \<le> 30"
    and "a AND mask_v4 p = n AND mask_v4 p"
    and "a \<noteq> n AND mask_v4 p" and "a \<noteq> (n AND mask_v4 p) OR NOT (mask_v4 p)"
  shows "parse_ipv4 (va_self_ip v) = Some a \<or> a = (n AND mask_v4 p) + 1 \<or>
    show_ipv4 a \<in> al_ip ` set (va_allocations v) \<or> show_ipv4 a \<in> set cu \<or>
    (\<exists>r \<in> set (va_external_reservations v). \<exists>as. expand_reservation (er_spec r) = Inr as \<and> a \<in> set as)"
proof -
  from in_net_iff [OF parse_cidr_V4_le [OF assms(2)], of a n] assms(4-6)
  have "a \<in> host_addrs v" using assms(2,3) by (auto simp: host_addrs_def)
  with assms(1) have "a \<in> taken_addrs v cu" by (auto simp: next_available_ip_None_iff)
  with assms(5,6) show ?thesis
    unfolding taken_addrs_iff [OF assms(2)] by blast
qed

theorem next_available_ip_exhausted_witness:
  "next_available_ip demo_vlan [''10.0.0.5'', ''10.0.0.6''] = None \<and>
   (parse_ipv4 (va_self_ip demo_vlan) = Some 167772166 \<or> 167772166 = (167772160 AND mask_v4 29) + 1 \<or>
    show_ipv4 167772166 \<in> al_ip ` set (va_allocations demo_vlan) \<or>
    show_ipv4 167772166 \<in> set [''10.0.0.5'', ''10.0.0.6''] \<or>
    (\<exists>r \<in> set (va_external_reservations demo_vlan). \<exists>as.
       expand_reservation (er_spec r) = Inr as \<and> 167772166 \<in> set as))"
proof -
  have c: "parse_cidr (va_subnet demo_vlan) = Inr (V4 167772160, 29)"
    by (simp add: demo_vlan_def demo_cidr)
  show ?thesis
    using next_available_ip_exhausted [OF demo_full c, of 167772166] demo_full
    by (simp add: mask_v4_def mask_eq_exp_minus_1)
qed


text \<open>
  An address the picker offers for a stored VLAN is accepted by
  \<^verbatim>\<open>allocate_ip\<close>, and the next pick for that VLAN is a different one.
\<close>

theorem pick_then_allocate:
  assumes "get_vlan i s = Some v" and "next_available_ip v cu = Some ip"
  shows "\<exists>v'. allocate_ip i ip kind target lbl now s =
      (Inr (), s\<lparr>vs_vlans := update_first (\<lambda>x. va_id x = i) (\<lambda>_. v') (vs_vlans s)\<rparr>) \<and>
    get_vlan i (snd (allocate_ip i ip kind target lbl now s)) = Some v' \<and>
    next_available_ip v' cu \<noteq> Some ip"
proof -
  from assms(2) obtain a where a: "ip = show_ipv4 a" "a \<in> host_addrs v" "a \<notin> taken_addrs v cu"
    unfolding next_available_ip_Some_iff by blast
  then obtain v' where v': "allocate_on ip kind target lbl now v = Inr v'"
    using vlan_pool.claim_free [of a v cu kind target lbl now] by (auto simp: ok_eq_Some_iff)
  then have held: "taken_addrs v' cu = insert a (taken_addrs v cu)"
    using vlan_pool.claim_held [of a v kind target lbl now v'] a by (simp add: ok_eq_Some_iff)
  have found: "find (\<lambda>x. va_id x = i) (vs_vlans s) = Some v"
    using assms(1) by (simp add: get_vlan_def)
  then have "va_id v' = i" using allocate_on_frame [OF v'] find_SomeD [OF found] by simp
  then have "get_vlan i (snd (allocate_ip i ip kind target lbl now s)) = Some v'"
    using find_update_first [OF found, of "\<lambda>_. v'"] by (simp add: allocate_ip_def found v' get_vlan_def)
  moreover have "next_available_ip v' cu \<noteq> Some ip"
    using held a(1) by (auto simp: next_available_ip_Some_iff dest: show_ipv4_inj)
  ultimately show ?thesis by (simp add: allocate_ip_def found v')
qed

theorem pick_then_allocate_witness:
  "\<exists>v'. get_vlan ''v1'' (snd (allocate_ip ''v1'' ''10.0.0.6'' TDocker ''web'' [] []
       \<lparr>vs_vlans = [demo_vlan], vs_public_ips = []\<rparr>)) = Some v' \<and>
     next_available_ip v' [''10.0.0.5''] \<noteq> Some ''10.0.0.6''"
proof -
  have "get_vlan ''v1'' \<lparr>vs_vlans = [demo_vlan], vs_public_ips = []\<rparr> = Some demo_vlan"
    by (simp add: get_vlan_def demo_vlan_def)
  from pick_then_allocate [OF this demo_pick, of TDocker "''web''" "[]" "[]"] show ?thesis by blast
qed


text \<open>
  C32 (a run of picks). Drawing addresses for one VLAN after the other, each recorded with
  \<^verbatim>\<open>allocate_ip\<close>, never hands out an address twice or one that was in use, and stops short
  of the requested number only when every host address is in use.
\<close>

theorem vlan_draws_distinct:
  assumes "address_pool.draw (\<lambda>v. Option.bind (next_available_ip v cu) parse_ipv4)
     (\<lambda>a v. ok (allocate_on (show_ipv4 a) kind target lbl now v)) n v = (as, v')"
  shows "distinct as \<and> set as \<inter> taken_addrs v cu = {} \<and> set as \<subseteq> host_addrs v \<and>
    (length as < n \<longrightarrow> host_addrs v \<subseteq> taken_addrs v cu \<union> set as)"
  using vlan_pool.draw_fresh [OF assms] vlan_pool.draw_exhausts [OF assms] by blast

theorem vlan_draws_distinct_witness:
  "\<exists>as v'. address_pool.draw (\<lambda>v. Option.bind (next_available_ip v [''10.0.0.5'']) parse_ipv4)
     (\<lambda>a v. ok (allocate_on (show_ipv4 a) TDocker ''web'' [] [] v)) 2 demo_vlan = (as, v') \<and>
     distinct as \<and> set as \<subseteq> host_addrs demo_vlan"
  using vlan_draws_distinct [of "[''10.0.0.5'']" TDocker "''web''" "[]" "[]" 2 demo_vlan] by (metis surj_pair)


text \<open>
  In every store reachable from the empty one by the store's operations,
  ids are unique and every VLAN and public-IP attachment passes validation: VLAN ids and MTUs
  are in range, bridge names fit the kernel's limit, and the host address and every route's next
  hop lie in the VLAN's subnet.
\<close>

theorem vlan_store_reachable:
  assumes "vlan_step\<^sup>*\<^sup>* empty_store s"
  shows "distinct (map va_id (vs_vlans s)) \<and> distinct (map pi_id (vs_public_ips s)) \<and>
    (\<forall>v \<in> set (vs_vlans s).
       1 \<le> va_vlan_id v \<and> va_vlan_id v \<le> 4094 \<and>
       (va_provider v = Hetzner \<longrightarrow> 4000 \<le> va_vlan_id v \<and> va_vlan_id v \<le> 4091) \<and>
       576 \<le> va_mtu v \<and> va_mtu v \<le> 9216 \<and>
       va_bridge_name v \<noteq> [] \<and> length (va_bridge_name v) \<le> 15 \<and>
       (va_self_ip v \<noteq> [] \<longrightarrow> ip_in_cidr (va_self_ip v) (va_subnet v) = Inr True) \<and>
       (\<forall>r \<in> set (va_routes v). ip_in_cidr (re_via r) (va_subnet v) = Inr True))"
proof -
  from vlan_reach_ok [OF assms empty_store_ok] have ok: "vlan_store_ok s" .
  then show ?thesis
    using validate_facts validate_route_via by (simp add: vlan_store_ok_def)
qed

theorem vlan_store_reachable_witness:
  "vlan_step\<^sup>*\<^sup>* empty_store \<lparr>vs_vlans = [demo_vlan], vs_public_ips = []\<rparr> \<and> va_mtu demo_vlan \<le> 9216"
proof -
  have "snd (upsert_vlan [] demo_vlan empty_store) = \<lparr>vs_vlans = [demo_vlan], vs_public_ips = []\<rparr>"
    by (simp add: upsert_vlan_def demo_valid empty_store_def Let_def) (simp add: demo_vlan_def)
  then have "vlan_step empty_store \<lparr>vs_vlans = [demo_vlan], vs_public_ips = []\<rparr>"
    by (metis step_upsert_vlan)
  then have r: "vlan_step\<^sup>*\<^sup>* empty_store \<lparr>vs_vlans = [demo_vlan], vs_public_ips = []\<rparr>" by blast
  from vlan_store_reachable [OF r] r show ?thesis by simp
qed


text \<open>
  Whatever the parent interface, the VLAN id and the digest function,
  the interface name WolfStack computes fits the kernel's 15-character limit.
\<close>

theorem vlan_ifname_fits: "length (vlan_ifname sha256 parent vid) \<le> 15"
proof -
  have "unat vid < 2 ^ LENGTH(32)" by (rule unsigned_less)
  then have "unat vid < 10 ^ 10" by simp
  then have "length (show_nat (unat vid)) \<le> 10" by (rule length_show_nat_le) simp
  then show ?thesis
    by (simp add: vlan_ifname_def IFNAME_MAX_def Let_def hex2_def)
qed

text \<open>
  Names in the conventional form are unambiguous: two VLANs whose
  conventional names fit get the same interface name only when parent and VLAN id agree.
\<close>

theorem vlan_ifname_natural_inj:
  assumes "length p1 + 1 + length (show_nat (unat v1)) \<le> 15"
    and "length p2 + 1 + length (show_nat (unat v2)) \<le> 15"
    and "vlan_ifname sha256 p1 v1 = vlan_ifname sha256 p2 v2"
  shows "p1 = p2 \<and> v1 = v2"
proof -
  have nodot: "CHR ''.'' \<notin> set (show_nat k)" for k
    using digits_not_char [OF show_nat_digits] by simp
  from assms have "p1 @ ''.'' @ show_nat (unat v1) = p2 @ ''.'' @ show_nat (unat v2)"
    by (simp add: vlan_ifname_def IFNAME_MAX_def Let_def)
  from arg_cong [OF this, of "rsplit_once CHR ''.''"]
  have "p1 = p2 \<and> show_nat (unat v1) = show_nat (unat v2)"
    by (simp add: rsplit_once_append nodot)
  then show ?thesis by (simp add: word_unat_eq_iff) (blast dest: show_nat_inj)
qed

theorem vlan_ifname_natural_inj_witness:
  "vlan_ifname (\<lambda>_. [1, 2]) ''eno1'' 40 = ''eno1.40'' \<and>
   vlan_ifname (\<lambda>_. [1, 2]) ''eno1'' 41 \<noteq> ''eno1.40''"
proof -
  have len: "length ''eno1'' + 1 + length (show_nat (unat (40::u32))) \<le> 15"
    "length ''eno1'' + 1 + length (show_nat (unat (41::u32))) \<le> 15"
    by (simp_all add: show_nat.simps)
  have nm: "vlan_ifname (\<lambda>_. [1, 2]) ''eno1'' 40 = ''eno1.40''"
    by (simp add: vlan_ifname_def IFNAME_MAX_def rust_eval)
  show ?thesis
    using vlan_ifname_natural_inj [OF len(2,1), of "\<lambda>_. [1, 2]"] nm by auto
qed

text \<open>
  \<^verbatim>\<open>deallocate_target\<close> removes from every VLAN exactly the allocations of
  the deleted guest, leaves everything else of the store alone, and reports their number; the
  file is rewritten only when there was something to release.
\<close>

theorem deallocate_target_exact:
  "snd (deallocate_target kind target s) =
     s\<lparr>vs_vlans := map (\<lambda>v. v\<lparr>va_allocations :=
        [a \<leftarrow> va_allocations v. al_kind a \<noteq> kind \<or> al_target a \<noteq> target]\<rparr>) (vs_vlans s)\<rparr> \<and>
   fst (deallocate_target kind target s) =
     length [a \<leftarrow> concat (map va_allocations (vs_vlans s)). al_kind a = kind \<and> al_target a = target] \<and>
   (fst (release_target_allocations kind target ok_flag s) = 0 \<longrightarrow>
      snd (release_target_allocations kind target ok_flag s) = s)"
proof -
  have tf: "target_free kind target = (\<lambda>a. al_kind a \<noteq> kind \<or> al_target a \<noteq> target)"
    by (auto simp: target_free_def)
  have diff: "length as - length (filter (target_free kind target) as) =
      length [a \<leftarrow> as. al_kind a = kind \<and> al_target a = target]" for as
    using sum_length_filter_compl [of "target_free kind target" as] by (simp add: tf)
  have "foldl (\<lambda>n v. n + (length (va_allocations v) -
            length (filter (target_free kind target) (va_allocations v)))) m vs =
        m + length [a \<leftarrow> concat (map va_allocations vs). al_kind a = kind \<and> al_target a = target]" for m vs
    by (induction vs arbitrary: m) (simp_all add: diff)
  note count = this [of 0, unfolded add_0]
  have "snd (deallocate_target kind target s) =
     s\<lparr>vs_vlans := map (\<lambda>v. v\<lparr>va_allocations :=
        [a \<leftarrow> va_allocations v. al_kind a \<noteq> kind \<or> al_target a \<noteq> target]\<rparr>) (vs_vlans s)\<rparr>"
    unfolding deallocate_target_def tf by (rule snd_conv)
  moreover have "fst (deallocate_target kind target s) =
     length [a \<leftarrow> concat (map va_allocations (vs_vlans s)). al_kind a = kind \<and> al_target a = target]"
    unfolding deallocate_target_def fst_conv by (rule count)
  moreover have "fst (release_target_allocations kind target ok_flag s) = 0 \<longrightarrow>
      snd (release_target_allocations kind target ok_flag s) = s"
    by (simp add: release_target_allocations_def split: prod.splits)
  ultimately show ?thesis by blast
qed

theorem deallocate_target_exact_witness:
  "fst (release_target_allocations TDocker ''web'' True empty_store) = 0 \<and>
   snd (release_target_allocations TDocker ''web'' True empty_store) = empty_store"
  using deallocate_target_exact [of TDocker "''web''" empty_store True]
  by (simp add: empty_store_def release_target_allocations_def deallocate_target_def)

text \<open>
  \<^verbatim>\<open>upsert_vlan\<close> refuses a new attachment that repeats a
  (parent, VLAN id) pair, but not an edit: editing the second of two VLANs so that it repeats
  the first one's pair is accepted, and the store then holds the pair twice. The same holds for
  public addresses in \<^verbatim>\<open>upsert_public_ip\<close>.
\<close>

theorem upsert_vlan_edit_duplicates:
  "let other = demo_vlan\<lparr>va_id := ''v2'', va_vlan_id := 41\<rparr>;
       s = \<lparr>vs_vlans = [demo_vlan, other], vs_public_ips = []\<rparr>;
       edited = other\<lparr>va_vlan_id := 40\<rparr>;
       s' = snd (upsert_vlan [] edited s)
   in fst (upsert_vlan [] edited s) = Inr ''v2'' \<and>
      distinct (map (\<lambda>v. (va_parent_iface v, va_vlan_id v)) (vs_vlans s)) \<and>
      \<not> distinct (map (\<lambda>v. (va_parent_iface v, va_vlan_id v)) (vs_vlans s')) \<and>
      fst (upsert_vlan [] (edited\<lparr>va_id := ''v3''\<rparr>) s) = Inl (VlanExists 40 ''eno1'')"
proof -
  have "demo_vlan\<lparr>va_id := ''v2'', va_vlan_id := 40\<rparr> = demo_vlan\<lparr>va_id := ''v2''\<rparr>"
    by (simp add: demo_vlan_def)
  then have "validate_vlan_attachment (demo_vlan\<lparr>va_id := ''v2'', va_vlan_id := 40\<rparr>) = Inr ()"
    "validate_vlan_attachment (demo_vlan\<lparr>va_vlan_id := 40, va_id := ''v3''\<rparr>) = Inr ()"
    using demo_valid by simp_all (simp add: demo_vlan_def)
  then show ?thesis
    by (simp add: upsert_vlan_def Let_def) (simp add: demo_vlan_def)
qed

end
