(* ===== verification/Keyed_Store.thy ===== *)
theory Keyed_Store
  imports Rust_Prelude
begin

text \<open>
  The store pattern most components share: a \<^verbatim>\<open>Vec\<close> of records in insertion order, each with
  an identifying key, updated through \<^verbatim>\<open>iter_mut().find(..)\<close> and otherwise extended by
  \<^verbatim>\<open>push\<close>. The locale \<open>keyed_store\<close> states what such an upsert promises; its lemmas are used,
  through interpretations, for the inbox of findings and the acknowledgements; the generic lemmas
  on finding by key serve every store.
\<close>

lemma find_snoc:
  "find p (xs @ [x]) = (case find p xs of None \<Rightarrow> if p x then Some x else None | Some y \<Rightarrow> Some y)"
  by (induction xs) auto

locale keyed_store =
  fixes key :: "'a \<Rightarrow> 'k"
    and refresh :: "'a \<Rightarrow> 'a \<Rightarrow> 'a"
    and put :: "'a \<Rightarrow> 'a list \<Rightarrow> 'a list"
  assumes put_hit: "find (\<lambda>y. key y = key x) xs = Some y \<Longrightarrow>
      put x xs = update_first (\<lambda>y. key y = key x) (refresh x) xs"
    and put_miss: "find (\<lambda>y. key y = key x) xs = None \<Longrightarrow> put x xs = xs @ [x]"
    and key_refresh: "key y = key x \<Longrightarrow> key (refresh x y) = key y"
begin

lemma map_key_update:
  "map key (update_first (\<lambda>y. key y = key x) (refresh x) xs) = map key xs"
  by (induction xs) (auto simp: key_refresh)

lemma keys_put:
  "map key (put x xs) = map key xs @ (if key x \<in> key ` set xs then [] else [key x])"
proof (cases "find (\<lambda>y. key y = key x) xs")
  case None
  then show ?thesis by (auto simp: put_miss find_None_iff image_iff)
next
  case (Some y)
  with find_SomeD [OF Some] have "key x \<in> key ` set xs" by (metis imageI)
  with Some show ?thesis by (simp add: put_hit map_key_update)
qed

lemma distinct_put: "distinct (map key xs) \<Longrightarrow> distinct (map key (put x xs))"
  by (simp add: keys_put)

lemma find_put:
  "find (\<lambda>y. key y = key x) (put x xs) =
     Some (case find (\<lambda>y. key y = key x) xs of None \<Rightarrow> x | Some y \<Rightarrow> refresh x y)"
proof (cases "find (\<lambda>y. key y = key x) xs")
  case None
  then show ?thesis by (simp add: put_miss find_snoc)
next
  case (Some y)
  then have "key (refresh x y) = key x" by (auto dest!: find_SomeD simp: key_refresh)
  with Some show ?thesis by (simp add: put_hit find_update_first)
qed

lemma find_put_other:
  assumes "k \<noteq> key x" shows "find (\<lambda>y. key y = k) (put x xs) = find (\<lambda>y. key y = k) xs"
proof (cases "find (\<lambda>y. key y = key x) xs")
  case None
  with assms show ?thesis by (auto simp: put_miss find_snoc split: option.splits)
next
  case (Some y)
  have "find (\<lambda>y. key y = k) (update_first (\<lambda>y. key y = key x) (refresh x) xs) =
        find (\<lambda>y. key y = k) xs"
    using assms by (induction xs) (auto simp: key_refresh)
  with Some show ?thesis by (simp add: put_hit)
qed

lemma put_other: "y \<in> set xs \<Longrightarrow> key y \<noteq> key x \<Longrightarrow> y \<in> set (put x xs)"
  by (cases "find (\<lambda>y. key y = key x) xs") (auto simp: put_hit put_miss update_first_not)

lemma set_put_cases:
  assumes "z \<in> set (put x xs)"
  obtains "z \<in> set xs" | "z = x" | y where "y \<in> set xs" "key y = key x" "z = refresh x y"
  using assms
  by (cases "find (\<lambda>y. key y = key x) xs")
    (auto simp: put_hit put_miss dest!: set_update_first_subset [THEN subsetD])

lemma put_keeps_all:
  assumes "\<forall>y \<in> set xs. P y" "P x" "\<And>y. y \<in> set xs \<Longrightarrow> key y = key x \<Longrightarrow> P (refresh x y)"
  shows "\<forall>y \<in> set (put x xs). P y"
  using assms by (auto elim!: set_put_cases)

lemma put_noop:
  assumes "find (\<lambda>y. key y = key x) xs = Some y" "refresh x y = y"
  shows "put x xs = xs"
  using assms unfolding put_hit [OF assms(1)] by (induction xs) (auto split: if_splits)

lemma length_put:
  "length (put x xs) = length xs + (if key x \<in> key ` set xs then 0 else 1)"
  using arg_cong [OF keys_put, of length x xs] by simp

lemma distinct_fold_put: "distinct (map key xs) \<Longrightarrow> distinct (map key (fold put ys xs))"
  by (induction ys arbitrary: xs) (simp_all add: distinct_put)

lemma keys_fold_put: "key ` set (fold put ys xs) = key ` set xs \<union> key ` set ys"
proof (induction ys arbitrary: xs)
  case (Cons y ys)
  have "key ` set (put y xs) = insert (key y) (key ` set xs)"
    using arg_cong [OF keys_put, of set y xs] by auto
  with Cons show ?case by auto
qed simp

lemma fold_put_other:
  "y \<in> set xs \<Longrightarrow> key y \<notin> key ` set ys \<Longrightarrow> y \<in> set (fold put ys xs)"
  by (induction ys arbitrary: xs) (auto intro: put_other)

end

text \<open>Sweeps over a store rewrite some entries in place; a sweep that keeps the key keeps the keys.\<close>

lemma map_key_map: "(\<And>x. k (f x) = k x) \<Longrightarrow> map k (map f xs) = map k xs"
  by simp

lemma find_map_key:
  "(\<And>x. k (f x) = k x) \<Longrightarrow> find (\<lambda>x. k x = a) (map f xs) = map_option f (find (\<lambda>x. k x = a) xs)"
  by (induction xs) auto

lemma length_filter_pos: "x \<in> set xs \<Longrightarrow> p x \<Longrightarrow> 0 < length (filter p xs)"
  by (metis filter_empty_conv length_greater_0_conv)

lemma find_key_iff:
  "distinct (map k xs) \<Longrightarrow> find (\<lambda>x. k x = a) xs = Some x \<longleftrightarrow> x \<in> set xs \<and> k x = a"
  by (auto dest: find_SomeD find_distinct_key)

lemma filter_distinct_key:
  "distinct (map k xs) \<Longrightarrow> x \<in> set xs \<Longrightarrow> filter (\<lambda>y. k y = k x) xs = [x]"
  by (induction xs) (auto simp: filter_empty_conv, metis imageI)

end
