(* ===== verification/Proposals.thy ===== *)
theory Proposals
  imports Keyed_Store "HOL-Library.Product_Lexorder"
begin

text \<open>
  The predictive inbox: \<^verbatim>\<open>predictive/proposal.rs\<close> (the store of findings and its lifecycle),
  \<^verbatim>\<open>predictive/ack.rs\<close> (durable acknowledgements), the write section of a tick in
  \<^verbatim>\<open>predictive/orchestrator.rs\<close> and the first-appearance alerts of \<^verbatim>\<open>predictive/notify.rs\<close>.

  Instants are integers (nanoseconds since the epoch). Every operation that reads
  \<^verbatim>\<open>Utc::now()\<close> takes the instant as its argument \<open>now\<close>; an operation that reads the clock more
  than once is given one instant for all of them. Fresh UUIDs are part of the incoming record.
\<close>

type_synonym instant = int

section \<open>Data\<close>

datatype severity = Critical | High | Warn | Info

definition rank :: "severity \<Rightarrow> nat" where
  "rank s = (case s of Critical \<Rightarrow> 0 | High \<Rightarrow> 1 | Warn \<Rightarrow> 2 | Info \<Rightarrow> 3)"

text \<open>Severities are ordered by the rank the inbox sorts by: the most urgent first.\<close>

instantiation severity :: linorder
begin

definition less_eq_severity :: "severity \<Rightarrow> severity \<Rightarrow> bool" where
  "less_eq_severity a b \<longleftrightarrow> rank a \<le> rank b"

definition less_severity :: "severity \<Rightarrow> severity \<Rightarrow> bool" where
  "less_severity a b \<longleftrightarrow> rank a < rank b"

instance
proof
  fix a b :: severity
  assume "a \<le> b" "b \<le> a"
  then show "a = b" by (cases a; cases b) (simp_all add: less_eq_severity_def rank_def)
qed (auto simp: less_eq_severity_def less_severity_def)

end

datatype proposal_source = Rule | Ai

datatype remediation_plan =
    Manual (instructions: string) (commands: "string list")
  | OneClick (handler_id: string) (params: string)

record evidence_link =
  el_label :: string
  el_url :: string

record evidence =
  ev_label :: string
  ev_value :: string
  ev_detail :: "string option"
  ev_links :: "evidence_link list"

record proposal_scope =
  sc_node_id :: string
  sc_resource_id :: "string option"

datatype approval_outcome =
    Applied
  | Failed string
  | ConditionCleared
  | ResourceGone string

datatype proposal_status =
    Pending
  | Snoozed instant
  | Approved instant approval_outcome
  | Dismissed string instant

record proposal =
  p_id :: string
  p_finding_type :: string
  p_source :: proposal_source
  p_severity :: severity
  p_title :: string
  p_why :: string
  p_evidence :: "evidence list"
  p_remediation :: remediation_plan
  p_scope :: proposal_scope
  p_status :: proposal_status
  p_created_at :: instant
  p_updated_at :: instant
  p_last_checked_at :: "instant option"

type_synonym dedup = "string \<times> proposal_scope"
type_synonym proposal_store = "proposal list"

definition new_rule ::
  "string \<Rightarrow> instant \<Rightarrow> string \<Rightarrow> severity \<Rightarrow> string \<Rightarrow> string \<Rightarrow> evidence list \<Rightarrow> remediation_plan \<Rightarrow>
   proposal_scope \<Rightarrow> proposal" where
  "new_rule uuid now ft sev title why ev rem sc =
     \<lparr>p_id = uuid, p_finding_type = ft, p_source = Rule, p_severity = sev, p_title = title,
      p_why = why, p_evidence = ev, p_remediation = rem, p_scope = sc, p_status = Pending,
      p_created_at = now, p_updated_at = now, p_last_checked_at = Some now\<rparr>"

definition dedup_key :: "proposal \<Rightarrow> dedup" where
  "dedup_key p = (p_finding_type p, p_scope p)"

definition days :: "int \<Rightarrow> int" where
  "days n = n * 86400000000000"

definition hours :: "int \<Rightarrow> int" where
  "hours n = n * 3600000000000"

definition ORPHAN_FUSE_DAYS :: int where "ORPHAN_FUSE_DAYS = 7"
definition APPLIED_GRACE_HOURS :: int where "APPLIED_GRACE_HOURS = 12"
definition RESOLVED_RETENTION_DAYS :: int where "RESOLVED_RETENTION_DAYS = 90"

section \<open>Operations of the store\<close>

definition is_pending :: "proposal \<Rightarrow> bool" where
  "is_pending p = (p_status p = Pending)"

definition vanished_scopes ::
  "string list \<Rightarrow> bool \<Rightarrow> dedup list \<Rightarrow> proposal_store \<Rightarrow> string \<Rightarrow> dedup list" where
  "vanished_scopes finding_types enumerated covered store node_id =
     (if \<not> enumerated then []
      else map dedup_key (filter (\<lambda>p. is_pending p \<and> sc_node_id (p_scope p) = node_id \<and>
              p_finding_type p \<in> set finding_types \<and> dedup_key p \<notin> set covered) store))"

definition contains_key :: "dedup \<Rightarrow> proposal_store \<Rightarrow> bool" where
  "contains_key k s = list_ex (\<lambda>p. dedup_key p = k) s"

text \<open>The operator decisions that stand: \<^verbatim>\<open>upsert\<close> returns early on them.\<close>

definition decision_stands :: "instant \<Rightarrow> proposal_status \<Rightarrow> bool" where
  "decision_stands now st =
     (case st of
        Snoozed until \<Rightarrow> until > now
      | Dismissed _ _ \<Rightarrow> True
      | Approved applied_at out \<Rightarrow>
          (case out of Applied \<Rightarrow> applied_at + hours APPLIED_GRACE_HOURS > now | _ \<Rightarrow> False)
      | Pending \<Rightarrow> False)"

definition refresh_in_place :: "instant \<Rightarrow> proposal \<Rightarrow> proposal \<Rightarrow> proposal" where
  "refresh_in_place now incoming existing =
     (if decision_stands now (p_status existing) then existing
      else existing\<lparr>p_severity := p_severity incoming, p_title := p_title incoming,
             p_why := p_why incoming, p_evidence := p_evidence incoming,
             p_remediation := p_remediation incoming, p_source := p_source incoming,
             p_status := Pending, p_updated_at := now\<rparr>)"

definition upsert :: "instant \<Rightarrow> proposal \<Rightarrow> proposal_store \<Rightarrow> string \<times> proposal_store" where
  "upsert now incoming s =
     (case find (\<lambda>p. dedup_key p = dedup_key incoming) s of
        Some existing \<Rightarrow>
          (p_id existing,
           update_first (\<lambda>p. dedup_key p = dedup_key incoming) (refresh_in_place now incoming) s)
      | None \<Rightarrow> (p_id incoming, s @ [incoming]))"

definition touch_one :: "instant \<Rightarrow> dedup list \<Rightarrow> proposal \<Rightarrow> proposal" where
  "touch_one now covered p =
     (if is_pending p \<and> dedup_key p \<in> set covered then p\<lparr>p_last_checked_at := Some now\<rparr> else p)"

definition touch_checked :: "instant \<Rightarrow> dedup list \<Rightarrow> proposal_store \<Rightarrow> proposal_store" where
  "touch_checked now covered s = map (touch_one now covered) s"

definition close_with :: "instant \<Rightarrow> approval_outcome \<Rightarrow> proposal \<Rightarrow> proposal" where
  "close_with now out p = p\<lparr>p_status := Approved now out, p_updated_at := now\<rparr>"

definition is_cleared :: "dedup list \<Rightarrow> dedup list \<Rightarrow> proposal \<Rightarrow> bool" where
  "is_cleared covered emitted p =
     (is_pending p \<and> dedup_key p \<in> set covered \<and> dedup_key p \<notin> set emitted)"

definition auto_resolve_cleared ::
  "instant \<Rightarrow> dedup list \<Rightarrow> dedup list \<Rightarrow> proposal_store \<Rightarrow> nat \<times> proposal_store" where
  "auto_resolve_cleared now covered emitted s =
     (length (filter (is_cleared covered emitted) s),
      map (\<lambda>p. if is_cleared covered emitted p then close_with now ConditionCleared p else p) s)"

text \<open>
  \<^verbatim>\<open>resolve_orphaned\<close>: the formatted date of the reason is chrono's, the parameter \<open>fmt\<close>.
\<close>

definition last_alive :: "proposal \<Rightarrow> instant" where
  "last_alive p = max (unwrap_or (p_updated_at p) (p_last_checked_at p)) (p_updated_at p)"

definition orphan_reason ::
  "(instant \<Rightarrow> string) \<Rightarrow> instant \<Rightarrow> string \<Rightarrow> int \<Rightarrow> proposal \<Rightarrow> string option" where
  "orphan_reason fmt now node_id fuse_days p =
     (if \<not> is_pending p then None
      else if node_id \<noteq> [] \<and> sc_node_id (p_scope p) \<noteq> node_id then
        Some (''finding belongs to node '' @ sc_node_id (p_scope p) @
              '', which this node is not '' @ em_dash @ '' nothing here can re-evaluate it'')
      else if last_alive p \<ge> now - days fuse_days then None
      else Some (''nothing has evaluated this finding since '' @ fmt (last_alive p) @ '', past the '' @
                 show_int fuse_days @ ''-day fuse '' @ em_dash @ '' treating the resource it refers to as gone''))"

definition resolve_orphaned ::
  "(instant \<Rightarrow> string) \<Rightarrow> instant \<Rightarrow> string \<Rightarrow> int \<Rightarrow> proposal_store \<Rightarrow> nat \<times> proposal_store" where
  "resolve_orphaned fmt now node_id fuse_days s =
     (length (filter (\<lambda>p. orphan_reason fmt now node_id fuse_days p \<noteq> None) s),
      map (\<lambda>p. case orphan_reason fmt now node_id fuse_days p of
                  None \<Rightarrow> p | Some r \<Rightarrow> close_with now (ResourceGone r) p) s)"

definition gone_reason :: string where
  "gone_reason = ''the resource this finding is about is no longer present on this node''"

definition is_vanished :: "dedup list \<Rightarrow> proposal \<Rightarrow> bool" where
  "is_vanished vanished p = (is_pending p \<and> dedup_key p \<in> set vanished)"

definition resolve_vanished :: "instant \<Rightarrow> dedup list \<Rightarrow> proposal_store \<Rightarrow> nat \<times> proposal_store" where
  "resolve_vanished now vanished s =
     (if vanished = [] then (0, s)
      else (length (filter (is_vanished vanished) s),
            map (\<lambda>p. if is_vanished vanished p then close_with now (ResourceGone gone_reason) p else p) s))"

definition is_suppressed :: "instant \<Rightarrow> string \<Rightarrow> proposal_scope \<Rightarrow> proposal_store \<Rightarrow> bool" where
  "is_suppressed now ft sc s =
     list_ex (\<lambda>p. p_finding_type p = ft \<and> p_scope p = sc \<and>
       (case p_status p of
          Snoozed until \<Rightarrow> until > now
        | Dismissed _ _ \<Rightarrow> True
        | Approved applied_at out \<Rightarrow>
            (case out of Applied \<Rightarrow> applied_at + hours APPLIED_GRACE_HOURS > now | _ \<Rightarrow> False)
        | Pending \<Rightarrow> False)) s"

definition in_inbox :: "instant \<Rightarrow> proposal \<Rightarrow> bool" where
  "in_inbox now p = (case p_status p of Pending \<Rightarrow> True | Snoozed until \<Rightarrow> until > now | _ \<Rightarrow> False)"

definition inbox :: "instant \<Rightarrow> proposal_store \<Rightarrow> proposal list" where
  "inbox now s = sort_key (\<lambda>p. (rank (p_severity p), - p_updated_at p)) (filter (in_inbox now) s)"

definition get_proposal :: "string \<Rightarrow> proposal_store \<Rightarrow> proposal option" where
  "get_proposal i s = find (\<lambda>p. p_id p = i) s"

datatype proposal_error = ProposalNotFound string | NotRestorable

definition with_proposal ::
  "string \<Rightarrow> (proposal \<Rightarrow> proposal_error + proposal) \<Rightarrow> proposal_store \<Rightarrow>
   (proposal_error + unit) \<times> proposal_store" where
  "with_proposal i f s =
     (case find (\<lambda>p. p_id p = i) s of
        None \<Rightarrow> (Err (ProposalNotFound i), s)
      | Some p \<Rightarrow> (case f p of
            Inl e \<Rightarrow> (Err e, s)
          | Inr p' \<Rightarrow> (Ok (), update_first (\<lambda>p. p_id p = i) (\<lambda>_. p') s)))"

definition snooze ::
  "instant \<Rightarrow> string \<Rightarrow> instant \<Rightarrow> proposal_store \<Rightarrow> (proposal_error + unit) \<times> proposal_store" where
  "snooze now i until s =
     with_proposal i (\<lambda>p. Ok (p\<lparr>p_status := Snoozed until, p_updated_at := now\<rparr>)) s"

definition dismiss ::
  "instant \<Rightarrow> string \<Rightarrow> string \<Rightarrow> proposal_store \<Rightarrow> (proposal_error + unit) \<times> proposal_store" where
  "dismiss now i reason s =
     with_proposal i (\<lambda>p. Ok (p\<lparr>p_status := Dismissed reason now, p_updated_at := now\<rparr>)) s"

definition record_approval ::
  "instant \<Rightarrow> string \<Rightarrow> approval_outcome \<Rightarrow> proposal_store \<Rightarrow> (proposal_error + unit) \<times> proposal_store" where
  "record_approval now i out s =
     with_proposal i (\<lambda>p. Ok (p\<lparr>p_status := Approved now out, p_updated_at := now\<rparr>)) s"

definition restore ::
  "instant \<Rightarrow> string \<Rightarrow> proposal_store \<Rightarrow> (proposal_error + unit) \<times> proposal_store" where
  "restore now i s =
     with_proposal i (\<lambda>p. case p_status p of
         Dismissed _ _ \<Rightarrow> Ok (p\<lparr>p_status := Pending, p_updated_at := now\<rparr>)
       | Snoozed _ \<Rightarrow> Ok (p\<lparr>p_status := Pending, p_updated_at := now\<rparr>)
       | _ \<Rightarrow> Err NotRestorable) s"

definition keep_resolved :: "instant \<Rightarrow> int \<Rightarrow> proposal \<Rightarrow> bool" where
  "keep_resolved now d p =
     (case p_status p of Approved _ _ \<Rightarrow> p_updated_at p \<ge> now - days d | _ \<Rightarrow> True)"

definition prune_resolved_older_than :: "instant \<Rightarrow> int \<Rightarrow> proposal_store \<Rightarrow> nat \<times> proposal_store" where
  "prune_resolved_older_than now d s =
     (let kept = filter (keep_resolved now d) s in (length s - length kept, kept))"

section \<open>The orchestrator's tick\<close>

text \<open>
  The maintenance section at the start of a tick: prune, then resolve what nothing evaluates.
  The flag says whether the store is saved.
\<close>

definition tick_sweep ::
  "(instant \<Rightarrow> string) \<Rightarrow> instant \<Rightarrow> string \<Rightarrow> proposal_store \<Rightarrow> bool \<times> proposal_store" where
  "tick_sweep fmt now node_id s =
     (let (pruned, s1) = prune_resolved_older_than now RESOLVED_RETENTION_DAYS s;
          (orphaned, s2) = resolve_orphaned fmt now node_id ORPHAN_FUSE_DAYS s1
      in (0 < pruned \<or> 0 < orphaned, s2))"

text \<open>
  What the analyzers report as vanished: each entry of \<open>enums\<close> is one call of
  \<^const>\<open>vanished_scopes\<close> (its finding type and whether its enumeration succeeded), and nothing
  emitted this tick is retired.
\<close>

definition tick_vanished ::
  "(string \<times> bool) list \<Rightarrow> dedup list \<Rightarrow> dedup list \<Rightarrow> proposal_store \<Rightarrow> string \<Rightarrow> dedup list" where
  "tick_vanished enums covered emitted snap node_id =
     filter (\<lambda>k. k \<notin> set emitted)
       (concat (map (\<lambda>(ft, scanned). vanished_scopes [ft] scanned covered snap node_id) enums))"

record tick_result =
  tr_fresh :: nat
  tr_upserted :: nat
  tr_resolved :: nat
  tr_save :: bool
  tr_store :: proposal_store

definition count_fresh :: "proposal \<Rightarrow> nat \<times> proposal_store \<Rightarrow> nat \<times> proposal_store" where
  "count_fresh p st = (if contains_key (dedup_key p) (snd st) then fst st else fst st + 1, snd st)"

definition tick_write ::
  "instant \<Rightarrow> proposal list \<Rightarrow> dedup list \<Rightarrow> dedup list \<Rightarrow> proposal_store \<Rightarrow> tick_result" where
  "tick_write now new_proposals covered vanished s =
     (let emitted = map dedup_key new_proposals;
          (fresh, s1) = fold (\<lambda>p st. let (n, t) = count_fresh p st in (n, snd (upsert now p t)))
                          new_proposals (0, s);
          s2 = touch_checked now covered s1;
          (cleared, s3) = auto_resolve_cleared now covered emitted s2;
          (retired, s4) = resolve_vanished now vanished s3;
          upserted = length new_proposals;
          resolved = cleared + retired
      in \<lparr>tr_fresh = fresh, tr_upserted = upserted, tr_resolved = resolved,
          tr_save = (0 < upserted \<or> 0 < resolved), tr_store = s4\<rparr>)"

section \<open>First-appearance alerts\<close>

definition find_first_appearance_alerts :: "proposal list \<Rightarrow> proposal list \<Rightarrow> proposal list" where
  "find_first_appearance_alerts previous current =
     (let prev_pending = map dedup_key (filter is_pending previous) in
      filter (\<lambda>p. is_pending p \<and> p_severity p \<in> {Critical, High} \<and> dedup_key p \<notin> set prev_pending) current)"

datatype alert_category = Compromise | Threshold

definition alert_category_of :: "string \<Rightarrow> alert_category" where
  "alert_category_of ft = (if starts_with ''compromise_indicator:'' ft then Compromise else Threshold)"

text \<open>
  The chat text of an alert. \<^verbatim>\<open>&p.why[..480]\<close> is Rust's checked slice: an offset inside a
  multi-byte character panics, which is \<^term>\<open>None\<close> here.
\<close>

definition sev_marker :: "severity \<Rightarrow> string" where
  "sev_marker s =
     (case s of
        Critical \<Rightarrow> [CHR 0xF0, CHR 0x9F, CHR 0x94, CHR 0xB4] @ '' CRITICAL''
      | High \<Rightarrow> [CHR 0xF0, CHR 0x9F, CHR 0x9F, CHR 0xA0] @ '' HIGH''
      | Warn \<Rightarrow> [CHR 0xF0, CHR 0x9F, CHR 0x9F, CHR 0xA1] @ '' WARN''
      | Info \<Rightarrow> [CHR 0xE2, CHR 0x84, CHR 0xB9] @ '' INFO'')"

definition ellipsis :: string where "ellipsis = [CHR 0xE2, CHR 0x80, CHR 0xA6]"
definition bullet :: string where "bullet = [CHR 0xE2, CHR 0x80, CHR 0xA2]"

definition why_short :: "string \<Rightarrow> string option" where
  "why_short why =
     (if length why > 480 then map_option (\<lambda>w. w @ ellipsis) (str_slice_to 480 why) else Some why)"

definition format_for_channel :: "proposal \<Rightarrow> (string \<times> string) option" where
  "format_for_channel p =
     map_option (\<lambda>short.
       let title = sev_marker (p_severity p) @ '' '' @ em_dash @ '' '' @ p_title p;
           evidence_lines = map (\<lambda>e. bullet @ '' '' @ ev_label e @ '': '' @ ev_value e) (p_evidence p);
           head = (case sc_resource_id (p_scope p) of
                     Some r \<Rightarrow> ''Resource: '' @ r @ [nl, nl] @ short
                   | None \<Rightarrow> short);
           body = (if evidence_lines = [] then head
                   else head @ [nl, nl] @ ''Evidence:'' @ [nl] @ join [nl] evidence_lines)
       in (title, body @ [nl, nl] @ ''Open the Predictive Inbox to snooze, dismiss, or apply.''))
     (why_short (p_why p))"

section \<open>Acknowledgements\<close>

datatype ack_scope = ClusterAck | NodeAck string | ResourceAck string string

definition covers :: "ack_scope \<Rightarrow> proposal_scope \<Rightarrow> bool" where
  "covers a sc =
     (case a of
        ClusterAck \<Rightarrow> True
      | NodeAck n \<Rightarrow> n = sc_node_id sc
      | ResourceAck n r \<Rightarrow> n = sc_node_id sc \<and> sc_resource_id sc = Some r)"

record ack =
  ack_id :: string
  ack_finding_type :: string
  ack_scope :: ack_scope
  ack_reason :: string
  acknowledged_by :: string
  ack_created_at :: instant
  expires :: "instant option"

definition DEFAULT_ACK_LIFETIME_DAYS :: int where "DEFAULT_ACK_LIFETIME_DAYS = 180"

definition ack_new ::
  "string \<Rightarrow> instant \<Rightarrow> string \<Rightarrow> ack_scope \<Rightarrow> string \<Rightarrow> string \<Rightarrow> int option \<Rightarrow> ack" where
  "ack_new uuid now ft sc reason who lifetime =
     \<lparr>ack_id = uuid, ack_finding_type = ft, ack_scope = sc, ack_reason = reason,
      acknowledged_by = who, ack_created_at = now,
      expires = (case lifetime of
          Some d \<Rightarrow> Some (now + d)
        | None \<Rightarrow> Some (now + days DEFAULT_ACK_LIFETIME_DAYS))\<rparr>"

definition is_active :: "instant \<Rightarrow> ack \<Rightarrow> bool" where
  "is_active now a = (case expires a of None \<Rightarrow> True | Some e \<Rightarrow> e > now)"

definition ack_add :: "ack \<Rightarrow> ack list \<Rightarrow> string \<times> ack list" where
  "ack_add a s = (ack_id a, s @ [a])"

definition upsert_replica :: "ack \<Rightarrow> ack list \<Rightarrow> ack list" where
  "upsert_replica a s =
     (case find (\<lambda>x. ack_id x = ack_id a) s of
        Some _ \<Rightarrow> update_first (\<lambda>x. ack_id x = ack_id a) (\<lambda>_. a) s
      | None \<Rightarrow> s @ [a])"

definition ack_remove :: "string \<Rightarrow> ack list \<Rightarrow> bool \<times> ack list" where
  "ack_remove i s = (let kept = filter (\<lambda>a. ack_id a \<noteq> i) s in (length kept < length s, kept))"

definition suppresses :: "instant \<Rightarrow> string \<Rightarrow> proposal_scope \<Rightarrow> ack list \<Rightarrow> bool" where
  "suppresses now ft sc s =
     list_ex (\<lambda>a. is_active now a \<and> ack_finding_type a = ft \<and> covers (ack_scope a) sc) s"

definition prune_expired :: "instant \<Rightarrow> ack list \<Rightarrow> nat \<times> ack list" where
  "prune_expired now s = (let kept = filter (is_active now) s in (length s - length kept, kept))"

section \<open>Lemmas\<close>

named_theorems inbox_defs \<open>the rewriting sweeps of the inbox\<close>

lemmas [inbox_defs] = touch_one_def close_with_def is_cleared_def is_vanished_def is_pending_def

interpretation inbox: keyed_store dedup_key "refresh_in_place now" "\<lambda>p s. snd (upsert now p s)" for now
  by unfold_locales (auto simp: upsert_def refresh_in_place_def dedup_key_def)

interpretation acks: keyed_store ack_id "\<lambda>a _. a" upsert_replica
  by unfold_locales (auto simp: upsert_replica_def)

lemma sweep_keeps [simp]:
  "dedup_key (touch_one now cov p) = dedup_key p" "p_id (touch_one now cov p) = p_id p"
  "dedup_key (close_with now out p) = dedup_key p" "p_id (close_with now out p) = p_id p"
  "dedup_key (refresh_in_place now q p) = dedup_key p" "p_id (refresh_in_place now q p) = p_id p"
  by (simp_all add: touch_one_def close_with_def refresh_in_place_def dedup_key_def)

lemma update_first_fixed: "p \<in> set xs \<Longrightarrow> f p = p \<Longrightarrow> p \<in> set (update_first q f xs)"
  by (induction xs) auto

lemma upsert_fixed:
  "p \<in> set s \<Longrightarrow> decision_stands now (p_status p) \<Longrightarrow> p \<in> set (snd (upsert now q s))"
  by (auto simp: upsert_def refresh_in_place_def update_first_fixed split: option.splits)

lemma refreshed:
  "decision_stands now (p_status e) \<Longrightarrow> refresh_in_place now q e = e"
  "\<not> decision_stands now (p_status e) \<Longrightarrow> is_pending (refresh_in_place now q e)"
  "\<not> decision_stands now (p_status e) \<Longrightarrow> p_severity (refresh_in_place now q e) = p_severity q"
  by (simp_all add: refresh_in_place_def is_pending_def)

text \<open>The upsert loop of a tick, without its log counter.\<close>

lemma snd_count_loop:
  "snd (fold (\<lambda>p st. (fst (count_fresh p st), snd (upsert now p (snd (count_fresh p st))))) ps st) =
   fold (\<lambda>p s. snd (upsert now p s)) ps (snd st)"
  by (induction ps arbitrary: st) (simp_all add: count_fresh_def)

lemma tick_write_store:
  "tr_store (tick_write now ps cov van s) =
   snd (resolve_vanished now van (snd (auto_resolve_cleared now cov (map dedup_key ps)
     (touch_checked now cov (fold (\<lambda>p s. snd (upsert now p s)) ps s)))))"
  by (simp add: tick_write_def Let_def case_prod_beta snd_count_loop)

lemma tick_write_save:
  "tr_save (tick_write now ps cov van s) \<longleftrightarrow> ps \<noteq> [] \<or>
     0 < fst (auto_resolve_cleared now cov [] (touch_checked now cov s)) \<or>
     0 < fst (resolve_vanished now van (snd (auto_resolve_cleared now cov [] (touch_checked now cov s))))"
  by (cases "ps = []") (simp_all add: tick_write_def Let_def case_prod_beta)

lemma snd_resolve_vanished:
  "snd (resolve_vanished now van s) =
   map (\<lambda>p. if is_vanished van p then close_with now (ResourceGone gone_reason) p else p) s"
  by (auto simp: resolve_vanished_def is_vanished_def intro!: map_idI [symmetric])

text \<open>What a tick does to an entry after the upserts.\<close>

definition settle :: "instant \<Rightarrow> dedup list \<Rightarrow> dedup list \<Rightarrow> dedup list \<Rightarrow> proposal \<Rightarrow> proposal" where
  "settle now cov em van p =
     (if \<not> is_pending p then p
      else if dedup_key p \<in> set cov then
        (let p' = p\<lparr>p_last_checked_at := Some now\<rparr> in
         if dedup_key p \<notin> set em then close_with now ConditionCleared p'
         else if dedup_key p \<in> set van then close_with now (ResourceGone gone_reason) p' else p')
      else if dedup_key p \<in> set van then close_with now (ResourceGone gone_reason) p else p)"

lemma settle_keeps [simp]:
  "dedup_key (settle now cov em van p) = dedup_key p" "p_id (settle now cov em van p) = p_id p"
  by (simp_all add: settle_def Let_def close_with_def dedup_key_def)

lemma settle_pendingD: "is_pending (settle now cov em van p) \<Longrightarrow> is_pending p"
  by (auto simp: settle_def split: if_splits)

lemma tick_write_settle:
  "tr_store (tick_write now ps cov van s) =
   map (settle now cov (map dedup_key ps) van) (fold (\<lambda>p s. snd (upsert now p s)) ps s)"
  unfolding tick_write_store snd_resolve_vanished auto_resolve_cleared_def touch_checked_def
  by (auto simp: settle_def inbox_defs dedup_key_def Let_def)

lemma distinct_tick_write:
  "distinct (map dedup_key s) \<Longrightarrow> distinct (map dedup_key (tr_store (tick_write now ps cov van s)))"
  unfolding tick_write_settle
  by (subst map_key_map) (simp_all add: inbox.distinct_fold_put)

text \<open>The entry of a key after the upserts: only the incoming findings of that key matter.\<close>

definition absorb :: "instant \<Rightarrow> proposal \<Rightarrow> proposal option \<Rightarrow> proposal option" where
  "absorb now p old = Some (case old of None \<Rightarrow> p | Some e \<Rightarrow> refresh_in_place now p e)"

lemma find_fold_upsert:
  "find (\<lambda>p. dedup_key p = k) (fold (\<lambda>p s. snd (upsert now p s)) ps s) =
   fold (absorb now) (filter (\<lambda>p. dedup_key p = k) ps) (find (\<lambda>p. dedup_key p = k) s)"
proof (induction ps arbitrary: s)
  case (Cons p ps)
  then show ?case
    using inbox.find_put [of p now s] inbox.find_put_other [of k p now s]
    by (auto simp: absorb_def)
qed simp

lemma tick_write_entry:
  "find (\<lambda>p. dedup_key p = k) (tr_store (tick_write now ps cov van s)) =
   map_option (settle now cov (map dedup_key ps) van)
     (fold (absorb now) (filter (\<lambda>p. dedup_key p = k) ps) (find (\<lambda>p. dedup_key p = k) s))"
  unfolding tick_write_settle find_map_key [where k = dedup_key, OF settle_keeps(1)] find_fold_upsert ..

lemma absorb_stands:
  "decision_stands now (p_status e) \<Longrightarrow> fold (absorb now) ps (Some e) = Some e"
  by (induction ps) (simp_all add: absorb_def refresh_in_place_def)

text \<open>Once a finding is pending, every further sighting keeps it pending.\<close>

lemma absorb_pending:
  assumes "\<not> decision_stands now (p_status e)" "ps \<noteq> []"
  shows "\<exists>e'. fold (absorb now) ps (Some e) = Some e' \<and> is_pending e' \<and> p_id e' = p_id e \<and>
     p_created_at e' = p_created_at e \<and> p_severity e' = p_severity (last ps) \<and> p_updated_at e' = now \<and>
     dedup_key e' = dedup_key e"
  using assms
proof (induction ps arbitrary: e)
  case (Cons p ps)
  let ?e = "refresh_in_place now p e"
  have e: "\<not> decision_stands now (p_status ?e)" "is_pending ?e" "p_id ?e = p_id e"
    "p_created_at ?e = p_created_at e" "p_severity ?e = p_severity p" "p_updated_at ?e = now"
    using Cons.prems(1) by (simp_all add: refresh_in_place_def decision_stands_def is_pending_def)
  show ?case
  proof (cases "ps = []")
    case True
    with e show ?thesis by (simp add: absorb_def)
  next
    case False
    from Cons.IH [OF e(1) False] e False show ?thesis by (simp add: absorb_def)
  qed
qed simp

lemma absorb_new:
  assumes "\<forall>p \<in> set ps. is_pending p" "ps \<noteq> []"
  shows "\<exists>e'. fold (absorb now) ps None = Some e' \<and> is_pending e' \<and> p_id e' = p_id (hd ps) \<and>
     p_created_at e' = p_created_at (hd ps) \<and> p_severity e' = p_severity (last ps) \<and>
     dedup_key e' = dedup_key (hd ps)"
proof (cases ps)
  case (Cons p qs)
  then have p: "is_pending p" "\<not> decision_stands now (p_status p)"
    using assms by (simp_all add: is_pending_def decision_stands_def)
  show ?thesis
  proof (cases "qs = []")
    case True
    with Cons p show ?thesis by (simp add: absorb_def)
  next
    case False
    from absorb_pending [OF p(2) False] Cons False show ?thesis by (auto simp: absorb_def)
  qed
qed (use assms in simp)

lemma is_suppressed_find:
  assumes "distinct (map dedup_key s)"
  shows "is_suppressed now (fst k) (snd k) s =
    (case find (\<lambda>p. dedup_key p = k) s of None \<Rightarrow> False | Some p \<Rightarrow> decision_stands now (p_status p))"
proof (cases "find (\<lambda>p. dedup_key p = k) s")
  case None
  then have "\<not> is_suppressed now (fst k) (snd k) s"
    by (cases k) (auto simp: is_suppressed_def list_ex_iff find_None_iff dedup_key_def)
  with None show ?thesis by simp
next
  case (Some p)
  then have p: "p \<in> set s" "dedup_key p = k" by (auto dest: find_SomeD)
  have "is_suppressed now (fst k) (snd k) s \<longleftrightarrow>
      (\<exists>q \<in> set s. dedup_key q = k \<and> decision_stands now (p_status q))"
    by (cases k) (auto simp: is_suppressed_def list_ex_iff dedup_key_def decision_stands_def)
  also have "\<dots> \<longleftrightarrow> decision_stands now (p_status p)"
    using distinct_key_eq [OF assms p(1)] p by metis
  finally show ?thesis using Some by simp
qed

lemma pending_unsuppressed: "is_pending p \<Longrightarrow> \<not> decision_stands now (p_status p)"
  by (simp add: is_pending_def decision_stands_def)

lemma orphan_reason_None_iff:
  "orphan_reason fmt now n d p = None \<longleftrightarrow>
     \<not> is_pending p \<or> ((n = [] \<or> sc_node_id (p_scope p) = n) \<and> last_alive p \<ge> now - days d)"
  by (auto simp: orphan_reason_def)

lemma snd_tick_sweep:
  "snd (tick_sweep fmt now n s) =
   map (\<lambda>p. case orphan_reason fmt now n ORPHAN_FUSE_DAYS p of
          None \<Rightarrow> p | Some r \<Rightarrow> close_with now (ResourceGone r) p)
     (filter (keep_resolved now RESOLVED_RETENTION_DAYS) s)"
  by (simp add: tick_sweep_def prune_resolved_older_than_def resolve_orphaned_def Let_def)

lemma tick_sweep_fixed:
  assumes "p \<in> set s" "keep_resolved now RESOLVED_RETENTION_DAYS p"
    "orphan_reason fmt now n ORPHAN_FUSE_DAYS p = None"
  shows "p \<in> set (snd (tick_sweep fmt now n s))"
  unfolding snd_tick_sweep using assms by (auto simp: image_iff intro!: bexI [of _ p])

section \<open>Actions on the inbox\<close>

text \<open>
  The atomic sections that change the shared store: the two write-lock windows of a tick and the
  operator's endpoints. A history of the store is a list of them.
\<close>

datatype inbox_action =
    TickWrite instant "proposal list" "dedup list" "dedup list"
  | TickSweep "instant \<Rightarrow> string" instant string
  | Snooze instant string instant
  | Dismiss instant string string
  | Approve instant string approval_outcome
  | Restore instant string

primrec inbox_step :: "inbox_action \<Rightarrow> proposal_store \<Rightarrow> proposal_store" where
  "inbox_step (TickWrite now ps cov van) s = tr_store (tick_write now ps cov van s)"
| "inbox_step (TickSweep fmt now n) s = snd (tick_sweep fmt now n s)"
| "inbox_step (Snooze now i u) s = snd (snooze now i u s)"
| "inbox_step (Dismiss now i r) s = snd (dismiss now i r s)"
| "inbox_step (Approve now i out) s = snd (record_approval now i out s)"
| "inbox_step (Restore now i) s = snd (restore now i s)"

primrec operator_on :: "inbox_action \<Rightarrow> string option" where
  "operator_on (TickWrite now ps cov van) = None"
| "operator_on (TickSweep fmt now n) = None"
| "operator_on (Snooze now i u) = Some i"
| "operator_on (Dismiss now i r) = Some i"
| "operator_on (Approve now i out) = Some i"
| "operator_on (Restore now i) = Some i"

primrec action_time :: "inbox_action \<Rightarrow> instant" where
  "action_time (TickWrite now ps cov van) = now"
| "action_time (TickSweep fmt now n) = now"
| "action_time (Snooze now i u) = now"
| "action_time (Dismiss now i r) = now"
| "action_time (Approve now i out) = now"
| "action_time (Restore now i) = now"

lemma with_proposal_other:
  "p \<in> set s \<Longrightarrow> p_id p \<noteq> i \<Longrightarrow> p \<in> set (snd (with_proposal i f s))"
  by (auto simp: with_proposal_def update_first_not split: option.splits sum.splits)

lemma fold_upsert_fixed:
  "p \<in> set s \<Longrightarrow> decision_stands now (p_status p) \<Longrightarrow>
   p \<in> set (fold (\<lambda>q s. snd (upsert now q s)) qs s)"
  by (induction qs arbitrary: s) (auto intro: upsert_fixed)

lemma settle_decided: "decision_stands now (p_status p) \<Longrightarrow> settle now' cov em van p = p"
  by (auto simp: settle_def is_pending_def decision_stands_def)

lemma tick_write_decided:
  assumes "p \<in> set s" "decision_stands now (p_status p)"
  shows "p \<in> set (tr_store (tick_write now ps cov van s))"
  unfolding tick_write_settle using fold_upsert_fixed [OF assms, of ps] settle_decided [OF assms(2)]
  by (metis image_eqI image_set)

lemma inbox_step_decided:
  assumes "p \<in> set s" "operator_on a \<noteq> Some (p_id p)"
    and "(\<exists>r t. p_status p = Dismissed r t) \<or> (\<exists>u. p_status p = Snoozed u \<and> action_time a < u)"
  shows "p \<in> set (inbox_step a s)"
  using assms
  by (cases a)
    (auto simp: snooze_def dismiss_def record_approval_def restore_def decision_stands_def
      keep_resolved_def orphan_reason_None_iff is_pending_def
      intro!: with_proposal_other tick_write_decided tick_sweep_fixed)

text \<open>
  Reachable stores: from the empty inbox by actions whose incoming findings carry fresh ids, as
  \<^verbatim>\<open>Uuid::new_v4\<close> gives them.
\<close>

primrec fresh_ids :: "inbox_action \<Rightarrow> proposal_store \<Rightarrow> bool" where
  "fresh_ids (TickWrite now ps cov van) s =
     (distinct (map p_id ps) \<and> list_all (\<lambda>p. p_id p \<notin> p_id ` set s) ps)"
| "fresh_ids (TickSweep fmt now n) s = True"
| "fresh_ids (Snooze now i u) s = True"
| "fresh_ids (Dismiss now i r) s = True"
| "fresh_ids (Approve now i out) s = True"
| "fresh_ids (Restore now i) s = True"

inductive inbox_reachable :: "proposal_store \<Rightarrow> bool" where
  empty_inbox: "inbox_reachable []"
| act: "inbox_reachable s \<Longrightarrow> fresh_ids a s \<Longrightarrow> inbox_reachable (inbox_step a s)"

definition inbox_ok :: "proposal_store \<Rightarrow> bool" where
  "inbox_ok s = (distinct (map dedup_key s) \<and> distinct (map p_id s))"

lemma ids_upsert:
  "map p_id (snd (upsert now q s)) =
   map p_id s @ (if dedup_key q \<in> dedup_key ` set s then [] else [p_id q])"
proof (cases "find (\<lambda>p. dedup_key p = dedup_key q) s")
  case None
  then have "dedup_key q \<notin> dedup_key ` set s" by (auto simp: find_None_iff image_iff)
  with None show ?thesis by (simp add: upsert_def)
next
  case (Some p)
  with find_SomeD [OF Some] have "dedup_key q \<in> dedup_key ` set s" by (metis imageI)
  with Some show ?thesis by (simp add: upsert_def map_update_first)
qed

lemma ids_fold_upsert:
  assumes "distinct (map p_id s)" "distinct (map p_id ps)" "\<forall>p \<in> set ps. p_id p \<notin> p_id ` set s"
  shows "distinct (map p_id (fold (\<lambda>p s. snd (upsert now p s)) ps s))"
  using assms
proof (induction ps arbitrary: s)
  case (Cons p ps)
  have "p_id ` set (snd (upsert now p s)) \<subseteq> insert (p_id p) (p_id ` set s)"
    using arg_cong [OF ids_upsert, of set now p s] by (auto split: if_splits)
  moreover have "distinct (map p_id (snd (upsert now p s)))"
    using Cons.prems by (simp add: ids_upsert)
  moreover have "p_id p \<notin> p_id ` set ps" using Cons.prems(2) by simp
  then have "\<forall>q \<in> set ps. p_id q \<notin> insert (p_id p) (p_id ` set s)"
    using Cons.prems(3) by (metis image_eqI insert_iff list.set_intros(2))
  ultimately show ?case using Cons.prems(2) by (auto intro!: Cons.IH)
qed simp

lemma with_proposal_ok:
  assumes "inbox_ok s" "\<And>p p'. f p = Inr p' \<Longrightarrow> dedup_key p' = dedup_key p \<and> p_id p' = p_id p"
  shows "inbox_ok (snd (with_proposal i f s))"
proof (cases "find (\<lambda>p. p_id p = i) s")
  case (Some p)
  from find_SomeD [OF Some] have p: "p \<in> set s" "p_id p = i" by auto
  have uniq: "\<And>x. x \<in> set s \<Longrightarrow> p_id x = i \<Longrightarrow> x = p"
    using assms(1) p by (auto simp: inbox_ok_def dest: distinct_key_eq)
  show ?thesis
  proof (cases "f p")
    case (Inr p')
    with assms(2) have "dedup_key p' = dedup_key p" "p_id p' = p_id p" by auto
    with Some Inr assms(1) uniq show ?thesis
      by (simp add: with_proposal_def inbox_ok_def map_update_first_const)
  qed (use Some assms(1) in \<open>simp add: with_proposal_def\<close>)
qed (use assms in \<open>simp add: with_proposal_def\<close>)

lemma tick_sweep_ok:
  assumes "inbox_ok s" shows "inbox_ok (snd (tick_sweep fmt now n s))"
proof -
  let ?f = "\<lambda>p. case orphan_reason fmt now n ORPHAN_FUSE_DAYS p of
          None \<Rightarrow> p | Some r \<Rightarrow> close_with now (ResourceGone r) p"
  have "dedup_key (?f p) = dedup_key p" "p_id (?f p) = p_id p" for p
    by (simp_all split: option.splits)
  then show ?thesis
    using assms unfolding inbox_ok_def snd_tick_sweep
    by (simp add: distinct_map_filter_key comp_def)
qed

lemma tick_write_ok:
  assumes "inbox_ok s" "fresh_ids (TickWrite now ps cov van) s"
  shows "inbox_ok (tr_store (tick_write now ps cov van s))"
proof -
  have "distinct (map p_id (tr_store (tick_write now ps cov van s)))"
    using assms ids_fold_upsert [of s ps now] unfolding tick_write_settle
    by (simp add: inbox_ok_def list_all_iff comp_def)
  with assms show ?thesis by (simp add: inbox_ok_def distinct_tick_write)
qed

lemma inbox_step_ok: "inbox_ok s \<Longrightarrow> fresh_ids a s \<Longrightarrow> inbox_ok (inbox_step a s)"
  by (cases a)
    (auto simp: snooze_def dismiss_def record_approval_def restore_def dedup_key_def tick_sweep_ok
      simp del: fresh_ids.simps intro!: with_proposal_ok tick_write_ok split: proposal_status.splits)

section \<open>Properties\<close>

definition demo_scope :: proposal_scope where
  "demo_scope = \<lparr>sc_node_id = ''n1'', sc_resource_id = Some ''/var''\<rparr>"

definition demo_finding :: "string \<Rightarrow> string \<Rightarrow> severity \<Rightarrow> proposal_status \<Rightarrow> instant \<Rightarrow> proposal" where
  "demo_finding i ft sev st t =
     (new_rule i t ft sev ''disk'' ''filling'' [] (Manual ''clean'' []) demo_scope)\<lparr>p_status := st\<rparr>"

lemmas demo_simps = demo_finding_def demo_scope_def new_rule_def dedup_key_def

text \<open>
  Every reachable inbox: in every store reached from the empty one by ticks and operator
  actions, no two findings share the (finding type, scope) key and no two share an id, so an
  operator action on an id and an analyzer's refresh of a key always mean one entry.
\<close>

theorem inbox_reachable_ok: "inbox_reachable s \<Longrightarrow> inbox_ok s"
  by (induction rule: inbox_reachable.induct) (simp add: inbox_ok_def, rule inbox_step_ok)

theorem inbox_reachable_ok_witness:
  "inbox_ok (inbox_step (Dismiss 5 ''a'' ''ok'')
     (inbox_step (TickWrite 3 [demo_finding ''a'' ''disk'' High Pending 3] [] []) []))"
  by (rule inbox_reachable_ok) (intro inbox_reachable.intros, simp_all)

text \<open>
  C14 (operator decisions stand): a dismissed finding, and a snoozed one until its snooze expires,
  is carried unchanged through any sequence of analyzer ticks, sweeps and operator actions on
  other findings. Neither a new sighting nor pruning touches it.
\<close>

theorem operator_decision_stands:
  assumes "p \<in> set s" and "\<forall>a \<in> set as. operator_on a \<noteq> Some (p_id p)"
    and "(\<exists>r t. p_status p = Dismissed r t) \<or>
         (\<exists>u. p_status p = Snoozed u \<and> (\<forall>a \<in> set as. action_time a < u))"
  shows "p \<in> set (fold inbox_step as s)"
  using assms
proof (induction as arbitrary: s)
  case (Cons a as)
  then have "p \<in> set (inbox_step a s)" by (intro inbox_step_decided) auto
  with Cons show ?case by auto
qed simp

theorem operator_decision_stands_witness:
  "demo_finding ''a'' ''disk'' High (Dismissed ''noise'' 3) 3 \<in> set (fold inbox_step
     [TickWrite (days 200) [demo_finding ''b'' ''disk'' Critical Pending (days 200)] [] [],
      TickSweep (\<lambda>_. []) (days 400) ''n1'', Dismiss (days 401) ''c'' []]
     [demo_finding ''a'' ''disk'' High (Dismissed ''noise'' 3) 3])"
  by (rule operator_decision_stands) (simp_all add: demo_finding_def new_rule_def)

text \<open>
  Upsert and suppression agree: what analyzers are told by \<^verbatim>\<open>is_suppressed\<close> is exactly what
  \<^verbatim>\<open>upsert\<close> does. A suppressed finding leaves the store as it is; any other sighting leaves one
  pending entry for its key, with the severity just observed, the original id and creation time
  when the finding was known, and the incoming ones otherwise. Other keys are not affected.
\<close>

theorem upsert_follows_suppression:
  assumes "distinct (map dedup_key s)" and "is_pending q"
  shows "if is_suppressed now (p_finding_type q) (p_scope q) s then snd (upsert now q s) = s
    else (\<exists>p. find (\<lambda>p. dedup_key p = dedup_key q) (snd (upsert now q s)) = Some p \<and>
           is_pending p \<and> p_severity p = p_severity q \<and> fst (upsert now q s) = p_id p \<and>
           (case find (\<lambda>p. dedup_key p = dedup_key q) s of
              None \<Rightarrow> p = q
            | Some e \<Rightarrow> p_id p = p_id e \<and> p_created_at p = p_created_at e \<and> p_updated_at p = now)) \<and>
         (\<forall>k. k = dedup_key q \<or>
            find (\<lambda>p. dedup_key p = k) (snd (upsert now q s)) = find (\<lambda>p. dedup_key p = k) s)"
proof -
  note sup = is_suppressed_find [OF assms(1), of now "dedup_key q"]
  have oth: "\<forall>k. k = dedup_key q \<or>
      find (\<lambda>p. dedup_key p = k) (snd (upsert now q s)) = find (\<lambda>p. dedup_key p = k) s"
    using inbox.find_put_other by blast
  show ?thesis
  proof (cases "find (\<lambda>p. dedup_key p = dedup_key q) s")
    case None
    then show ?thesis
      using sup oth assms(2) inbox.find_put [of q now s] by (simp add: dedup_key_def upsert_def)
  next
    case (Some e)
    show ?thesis
    proof (cases "decision_stands now (p_status e)")
      case True
      then have "refresh_in_place now q e = e" by (simp add: refresh_in_place_def)
      with Some True sup show ?thesis using inbox.put_noop [OF Some] by (simp add: dedup_key_def)
    next
      case False
      have "fst (upsert now q s) = p_id e" by (simp add: upsert_def Some)
      with Some False sup oth show ?thesis
        using inbox.find_put [of q now s]
        by (simp add: dedup_key_def refresh_in_place_def is_pending_def)
    qed
  qed
qed

theorem upsert_follows_suppression_witness:
  "snd (upsert 9 (demo_finding ''b'' ''disk'' Critical Pending 9)
      [demo_finding ''a'' ''disk'' High (Snoozed 10) 3]) = [demo_finding ''a'' ''disk'' High (Snoozed 10) 3] \<and>
   fst (upsert 11 (demo_finding ''b'' ''disk'' Critical Pending 11)
      [demo_finding ''a'' ''disk'' High (Snoozed 10) 3]) = ''a''"
proof -
  let ?s = "[demo_finding ''a'' ''disk'' High (Snoozed 10) 3]"
  have "is_suppressed 9 ''disk'' demo_scope ?s" "\<not> is_suppressed 11 ''disk'' demo_scope ?s"
    by (simp_all add: is_suppressed_def demo_simps)
  then show ?thesis
    using upsert_follows_suppression [of ?s "demo_finding ''b'' ''disk'' Critical Pending 9" 9]
      upsert_follows_suppression [of ?s "demo_finding ''b'' ''disk'' Critical Pending 11" 11]
    by (auto simp: demo_finding_def new_rule_def dedup_key_def is_pending_def)
qed

text \<open>
  C20 (outcome of a tick): what one tick does to the entry of a key. A finding emitted again
  is pending afterwards unless an operator decision on it stands, which then stays as it is; a
  pending finding the analyzers covered but did not emit is closed as cleared; a pending finding
  neither covered nor emitted is closed as gone when its resource is reported vanished, and is
  left as it is otherwise; a finding that is not pending and not emitted is left as it is.
\<close>

theorem tick_write_outcome:
  fixes s :: proposal_store and k :: dedup and ps :: "proposal list"
  defines "old \<equiv> find (\<lambda>p. dedup_key p = k) s"
    and "emitted \<equiv> k \<in> dedup_key ` set ps"
  assumes "\<forall>p \<in> set ps. is_pending p" and "k \<in> set van \<Longrightarrow> \<not> emitted"
  shows "case find (\<lambda>p. dedup_key p = k) (tr_store (tick_write now ps cov van s)) of
      None \<Rightarrow> old = None \<and> \<not> emitted
    | Some p \<Rightarrow>
        (case old of
           None \<Rightarrow> emitted \<and> is_pending p
         | Some e \<Rightarrow>
             if emitted then
               (if decision_stands now (p_status e) then p = e
                else is_pending p \<and> p_id p = p_id e \<and> p_created_at p = p_created_at e)
             else if is_pending e \<and> k \<in> set cov then p_status p = Approved now ConditionCleared
             else if is_pending e \<and> k \<in> set van then p_status p = Approved now (ResourceGone gone_reason)
             else p = e)"
proof -
  let ?ks = "filter (\<lambda>p. dedup_key p = k) ps"
  have em: "emitted \<longleftrightarrow> ?ks \<noteq> []" by (auto simp: emitted_def filter_empty_conv image_iff)
  have pend: "\<forall>p \<in> set ?ks. is_pending p" using assms(3) by simp
  have keep: "is_pending (settle now cov (map dedup_key ps) van p) \<and>
      p_created_at (settle now cov (map dedup_key ps) van p) = p_created_at p"
    if "is_pending p" "dedup_key p = k" emitted for p
    using that assms(4) by (auto simp: settle_def is_pending_def Let_def emitted_def)
  show ?thesis
  proof (cases old)
    case None
    have "emitted \<Longrightarrow> dedup_key (hd ?ks) = k" using em hd_in_set [of ?ks] by auto
    with None pend show ?thesis
      using absorb_new [of ?ks now] keep em unfolding tick_write_entry old_def [symmetric]
      by (cases emitted) auto
  next
    case (Some e)
    then have e: "dedup_key e = k" by (auto simp: old_def dest: find_SomeD)
    show ?thesis
    proof (cases emitted)
      case True
      then have ks: "?ks \<noteq> []" using em by blast
      show ?thesis
      proof (cases "decision_stands now (p_status e)")
        case True
        then show ?thesis
          using Some \<open>emitted\<close> unfolding tick_write_entry old_def [symmetric]
          by (simp add: absorb_stands settle_decided)
      next
        case False
        then obtain e' where "fold (absorb now) ?ks (Some e) = Some e'" "is_pending e'" "p_id e' = p_id e"
          "p_created_at e' = p_created_at e" "dedup_key e' = k"
          using absorb_pending [OF False ks] e by auto
        then show ?thesis
          using Some False \<open>emitted\<close> keep [of e'] unfolding tick_write_entry old_def [symmetric] by simp
      qed
    next
      case False
      then have "?ks = []" using em by blast
      with False Some e show ?thesis unfolding tick_write_entry old_def [symmetric]
        by (auto simp: settle_def Let_def close_with_def emitted_def)
    qed
  qed
qed

theorem tick_write_outcome_witness:
  "case find (\<lambda>p. dedup_key p = (''disk'', demo_scope))
      (tr_store (tick_write 9 [] [(''disk'', demo_scope)] [] [demo_finding ''a'' ''disk'' High Pending 3])) of
     None \<Rightarrow> False | Some p \<Rightarrow> p_status p = Approved 9 ConditionCleared"
  using tick_write_outcome [where ps = "[]" and k = "(''disk'', demo_scope)" and van = "[]" and now = 9
      and cov = "[(''disk'', demo_scope)]" and s = "[demo_finding ''a'' ''disk'' High Pending 3]"]
  by (simp add: demo_finding_def new_rule_def dedup_key_def is_pending_def split: option.splits)

text \<open>
  The save gate loses nothing: the tick writes the store to disk only when it upserted or
  resolved something. When it does not write, it changed nothing in memory either, in
  particular no \<^verbatim>\<open>last_checked_at\<close> stamp; the invariant the orchestrator's comment claims.
\<close>

theorem tick_save_gate:
  "\<not> tr_save (tick_write now ps cov van s) \<Longrightarrow> tr_store (tick_write now ps cov van s) = s"
proof -
  assume ns: "\<not> tr_save (tick_write now ps cov van s)"
  then have ps: "ps = []" by (simp add: tick_write_save)
  from ns have "\<forall>p \<in> set s. \<not> is_cleared cov [] (touch_one now cov p)"
    by (auto simp: tick_write_save auto_resolve_cleared_def touch_checked_def filter_empty_conv)
  then have c: "\<forall>p \<in> set s. \<not> (is_pending p \<and> dedup_key p \<in> set cov)"
    by (auto simp: is_cleared_def touch_one_def is_pending_def dedup_key_def split: if_splits)
  then have t: "touch_checked now cov s = s" "snd (auto_resolve_cleared now cov [] s) = s"
    by (auto simp: touch_checked_def auto_resolve_cleared_def touch_one_def is_cleared_def intro!: map_idI)
  from ns t have "fst (resolve_vanished now van s) = 0"
    by (simp add: tick_write_save)
  then have "\<forall>p \<in> set s. van = [] \<or> \<not> is_vanished van p"
    by (auto simp: resolve_vanished_def filter_empty_conv split: if_splits)
  then have "snd (resolve_vanished now van s) = s"
    by (auto simp: snd_resolve_vanished is_vanished_def intro!: map_idI)
  with ps t show ?thesis by (simp add: tick_write_store)
qed

theorem tick_save_gate_witness:
  "tr_store (tick_write 9 [] [(''other'', demo_scope)] [] [demo_finding ''a'' ''disk'' High Pending 3]) =
     [demo_finding ''a'' ''disk'' High Pending 3]"
  by (rule tick_save_gate)
    (simp add: tick_write_def Let_def auto_resolve_cleared_def touch_checked_def resolve_vanished_def
      inbox_defs demo_simps)

text \<open>
  The fuse spares what is being looked at: a finding that is still pending after a tick
  that covered it is left untouched by every sweep of its own node in the next seven days.
\<close>

theorem orphan_fuse_spares_covered:
  assumes "p \<in> set (tr_store (tick_write t ps cov van s))" and "is_pending p"
    and "dedup_key p \<in> set cov" and "n = [] \<or> sc_node_id (p_scope p) = n"
    and "now \<le> t + days ORPHAN_FUSE_DAYS"
  shows "p \<in> set (snd (tick_sweep fmt now n (tr_store (tick_write t ps cov van s))))"
proof -
  from assms(1) obtain q where q: "p = settle t cov (map dedup_key ps) van q"
    unfolding tick_write_settle by auto
  with assms(2,3) have "p_last_checked_at p = Some t"
    by (auto simp: settle_def is_pending_def close_with_def Let_def dedup_key_def split: if_splits)
  then have "last_alive p \<ge> now - days ORPHAN_FUSE_DAYS"
    using assms(5) by (simp add: last_alive_def)
  with assms show ?thesis
    by (intro tick_sweep_fixed) (auto simp: orphan_reason_None_iff keep_resolved_def is_pending_def)
qed

theorem orphan_fuse_spares_covered_witness:
  "(demo_finding ''a'' ''disk'' High Pending 3)\<lparr>p_updated_at := 9, p_last_checked_at := Some 9\<rparr> \<in>
     set (snd (tick_sweep (\<lambda>_. []) (days 7) ''n1'' (tr_store (tick_write 9
       [demo_finding ''b'' ''disk'' High Pending 9] [(''disk'', demo_scope)] []
       [demo_finding ''a'' ''disk'' High Pending 3]))))"
  by (rule orphan_fuse_spares_covered)
    (simp_all add: tick_write_settle settle_def upsert_def refresh_in_place_def decision_stands_def
      is_pending_def demo_simps ORPHAN_FUSE_DAYS_def days_def)

text \<open>
  Inbox order: the inbox view lists exactly the pending and still-snoozed findings, each as
  often as the store has it, the most severe first, within a severity the most recently updated
  first, and findings that tie in the store's own order.
\<close>

theorem inbox_sorted:
  "mset (inbox now s) = mset (filter (in_inbox now) s) \<and>
   sorted_wrt (\<lambda>a b. p_severity a < p_severity b \<or>
      p_severity a = p_severity b \<and> p_updated_at b \<le> p_updated_at a) (inbox now s) \<and>
   filter (\<lambda>p. p_severity p = sev \<and> p_updated_at p = t) (inbox now s) =
   filter (\<lambda>p. p_severity p = sev \<and> p_updated_at p = t) (filter (in_inbox now) s)"
proof (intro conjI)
  let ?k = "\<lambda>p. (rank (p_severity p), - p_updated_at p)"
  have inj: "rank a = rank b \<longleftrightarrow> a = b" for a b
    by (cases a; cases b) (simp_all add: rank_def)
  have "sorted (map ?k (inbox now s))" by (simp add: inbox_def)
  then have "sorted_wrt (\<lambda>a b. ?k a \<le> ?k b) (inbox now s)" by (simp add: sorted_map)
  then show "sorted_wrt (\<lambda>a b. p_severity a < p_severity b \<or>
      p_severity a = p_severity b \<and> p_updated_at b \<le> p_updated_at a) (inbox now s)"
    by (rule sorted_wrt_mono_rel [rotated]) (auto simp: less_severity_def inj)
  show "filter (\<lambda>p. p_severity p = sev \<and> p_updated_at p = t) (inbox now s) =
      filter (\<lambda>p. p_severity p = sev \<and> p_updated_at p = t) (filter (in_inbox now) s)"
    using sort_key_stable [of ?k "(rank sev, - t)" "filter (in_inbox now) s"]
    by (simp add: inbox_def inj)
qed (simp add: inbox_def)

text \<open>
  Alerts once: with one incoming finding per key, the keys a tick alerts on are exactly the
  emitted critical and high findings that no operator decision suppresses and that were not
  already pending before the tick. A standing finding does not page again.
\<close>

theorem alerts_exact:
  assumes "distinct (map dedup_key s)" and "distinct (map dedup_key ps)"
    and "\<forall>p \<in> set ps. is_pending p \<and> dedup_key p \<notin> set van"
  shows "dedup_key ` set (find_first_appearance_alerts s (tr_store (tick_write now ps cov van s))) =
    {dedup_key q | q. q \<in> set ps \<and> p_severity q \<in> {Critical, High} \<and>
       \<not> is_suppressed now (p_finding_type q) (p_scope q) s \<and>
       \<not> (\<exists>e \<in> set s. dedup_key e = dedup_key q \<and> is_pending e)}" (is "?A = ?B")
proof (rule set_eqI)
  fix k
  let ?s' = "tr_store (tick_write now ps cov van s)"
  let ?find = "\<lambda>s. find (\<lambda>p. dedup_key p = k) s"
  have A: "k \<in> ?A \<longleftrightarrow> (\<exists>p. ?find ?s' = Some p \<and> is_pending p \<and> p_severity p \<in> {Critical, High} \<and>
      (\<forall>e. ?find s = Some e \<longrightarrow> \<not> is_pending e))"
    unfolding find_key_iff [OF distinct_tick_write [OF assms(1)]] find_key_iff [OF assms(1)]
    by (fastforce simp: find_first_appearance_alerts_def Let_def image_iff)
  have sup: "is_suppressed now (p_finding_type q) (p_scope q) s \<longleftrightarrow>
      (\<exists>e. ?find s = Some e \<and> decision_stands now (p_status e))" if "dedup_key q = k" for q
    using that is_suppressed_find [OF assms(1), of now k] by (auto simp: dedup_key_def split: option.splits)
  have B: "k \<in> ?B \<longleftrightarrow> (\<exists>q. ?find ps = Some q \<and> p_severity q \<in> {Critical, High} \<and>
      (\<forall>e. ?find s = Some e \<longrightarrow> \<not> decision_stands now (p_status e) \<and> \<not> is_pending e))"
    using sup unfolding find_key_iff [OF assms(2)] find_key_iff [OF assms(1)] by fastforce
  show "k \<in> ?A \<longleftrightarrow> k \<in> ?B"
  proof (cases "?find ps")
    case None
    then have "filter (\<lambda>p. dedup_key p = k) ps = []" by (simp add: find_None_filter filter_empty_conv)
    with None show ?thesis
      unfolding A B tick_write_entry by (auto dest: settle_pendingD)
  next
    case (Some q)
    then have q: "q \<in> set ps" "dedup_key q = k" by (auto dest: find_SomeD)
    have f: "filter (\<lambda>p. dedup_key p = k) ps = [q]"
      using filter_distinct_key [OF assms(2) q(1)] q(2) by simp
    have st: "p_severity (settle now cov (map dedup_key ps) van p) = p_severity p \<and>
        is_pending (settle now cov (map dedup_key ps) van p) = is_pending p" if "dedup_key p = k" for p
    proof -
      from that q assms(3) have "dedup_key p \<in> dedup_key ` set ps" "dedup_key p \<notin> set van"
        by (metis imageI, metis)
      then show ?thesis by (simp add: settle_def is_pending_def Let_def)
    qed
    show ?thesis
    proof (cases "?find s")
      case None
      with Some q st [of q] assms(3) show ?thesis
        unfolding A B tick_write_entry f by (auto simp: absorb_def)
    next
      case (Some e)
      then have "dedup_key e = k" by (auto dest: find_SomeD)
      with st [of "refresh_in_place now q e"] \<open>?find ps = Some q\<close> Some show ?thesis
        unfolding A B tick_write_entry f
        by (cases "decision_stands now (p_status e)")
          (auto simp: absorb_def refreshed dest: pending_unsuppressed)
    qed
  qed
qed

theorem alerts_exact_witness:
  "dedup_key ` set (find_first_appearance_alerts [] (tr_store (tick_write 9
      [demo_finding ''a'' ''disk'' High Pending 9, demo_finding ''b'' ''cert'' Warn Pending 9] [] [] []))) =
   {(''disk'', demo_scope)}"
proof -
  let ?a = "demo_finding ''a'' ''disk'' High Pending 9" and ?b = "demo_finding ''b'' ''cert'' Warn Pending 9"
  have k: "dedup_key ?a = (''disk'', demo_scope)" "dedup_key ?b = (''cert'', demo_scope)"
      "p_severity ?a = High" "p_severity ?b = Warn" "is_pending ?a" "is_pending ?b"
    by (simp_all add: demo_finding_def new_rule_def dedup_key_def is_pending_def)
  have "{dedup_key q | q. q \<in> set [?a, ?b] \<and> p_severity q \<in> {Critical, High}} = {(''disk'', demo_scope)}"
    using k by (auto intro!: exI [of _ ?a])
  with alerts_exact [of "[]" "[?a, ?b]" "[]" 9 "[]"] k show ?thesis
    by (simp add: is_suppressed_def)
qed

text \<open>
  Pruning acknowledgements: dropping the acknowledgements that have expired never changes
  what is suppressed, now or at any later time.
\<close>

theorem prune_expired_suppresses:
  "now \<le> now' \<Longrightarrow> suppresses now' ft sc (snd (prune_expired now s)) = suppresses now' ft sc s"
  by (auto simp: suppresses_def prune_expired_def Let_def list_ex_iff is_active_def split: option.splits)

theorem prune_expired_suppresses_witness:
  "suppresses 7 ''disk'' demo_scope (snd (prune_expired 5
     [ack_new ''x'' 0 ''disk'' ClusterAck ''ok'' ''paul'' (Some 4),
      ack_new ''y'' 0 ''disk'' (NodeAck ''n1'') ''ok'' ''paul'' None])) = True"
  using prune_expired_suppresses [of 5 7 "''disk''" demo_scope
    "[ack_new ''x'' 0 ''disk'' ClusterAck ''ok'' ''paul'' (Some 4),
      ack_new ''y'' 0 ''disk'' (NodeAck ''n1'') ''ok'' ''paul'' None]"]
  by (simp add: suppresses_def is_active_def ack_new_def covers_def demo_scope_def days_def
      DEFAULT_ACK_LIFETIME_DAYS_def)

text \<open>
  An alert that is never sent: the alert text cuts the explanation at byte 480. When that
  byte is inside a multi-byte character (an em dash at bytes 479 to 481, say), the slice
  panics and the alert of that finding is lost, whatever the finding's other fields are.
\<close>

theorem format_for_channel_cuts_char:
  "format_for_channel (p\<lparr>p_why := replicate 479 (CHR ''a'') @ em_dash @ w\<rparr>) = None"
  by (simp add: format_for_channel_def why_short_def str_slice_to_def em_dash_def is_continuation_def
      nth_append)

end
