(* ===== verification/Oauth.thy ===== *)
theory Oauth
  imports Rust_Prelude "HOL-Library.Product_Lexorder"
begin

text \<open>
  The OAuth 2.1 authorization server of the MCP endpoint, \<^verbatim>\<open>mcp/oauth.rs\<close>: registration,
  consent, code exchange, refresh with rotation, validation and revocation, every operation of
  \<^verbatim>\<open>OAuthStore\<close> on the state \<^verbatim>\<open>Inner\<close> and the state file.

  Inputs the code takes from outside are arguments: the clock \<open>t\<close> (seconds), the random part
  \<open>rnd\<close> of a fresh token, the outcome \<open>io\<close> of a state write (\<^term>\<open>None\<close> when it succeeds), the
  authority of a user, and the record \<open>oauth_env\<close> of the crates the code calls (SHA-256 with hex
  and base64url encoding, and the URL parser). \<^verbatim>\<open>write_secure\<close> to a temporary file followed by
  \<^verbatim>\<open>rename\<close> either replaces the state file or leaves it as it was.
\<close>

section \<open>Constants\<close>

definition ALL_SCOPES :: "string list" where
  "ALL_SCOPES = [''read'', ''logs'', ''containers'', ''vms'', ''backup'']"

definition READ_ONLY_SCOPES :: "string list" where
  "READ_ONLY_SCOPES = [''read'', ''logs'']"

definition CODE_TTL_SECS :: int where "CODE_TTL_SECS = 60"
definition ACCESS_TTL_SECS :: int where "ACCESS_TTL_SECS = 15 * 60"
definition REFRESH_TTL_SECS :: int where "REFRESH_TTL_SECS = 30 * 24 * 3600"
definition GRANT_MAX_LIFETIME_SECS :: int where "GRANT_MAX_LIFETIME_SECS = 90 * 24 * 3600"
definition PENDING_TTL_SECS :: int where "PENDING_TTL_SECS = 10 * 60"
definition UNUSED_CLIENT_TTL_SECS :: int where "UNUSED_CLIENT_TTL_SECS = 24 * 3600"
definition REFRESH_RETRY_GRACE_SECS :: int where "REFRESH_RETRY_GRACE_SECS = 10"
definition USED_CODE_MEMORY_SECS :: int where "USED_CODE_MEMORY_SECS = 10 * 60"

definition MAX_CLIENTS :: nat where "MAX_CLIENTS = 200"
definition MAX_GRANTS :: nat where "MAX_GRANTS = 1000"
definition MAX_PENDING :: nat where "MAX_PENDING = 500"
definition MAX_PENDING_PER_CLIENT :: nat where "MAX_PENDING_PER_CLIENT = 10"
definition MAX_PENDING_PER_SOURCE :: nat where "MAX_PENDING_PER_SOURCE = 20"
definition MAX_CODES :: nat where "MAX_CODES = 500"
definition MAX_ACCESS_TOKENS :: nat where "MAX_ACCESS_TOKENS = 5000"
definition MAX_REDIRECT_URIS :: nat where "MAX_REDIRECT_URIS = 5"
definition MAX_REDIRECT_URI_LEN :: nat where "MAX_REDIRECT_URI_LEN = 512"
definition MAX_CLIENT_NAME_LEN :: nat where "MAX_CLIENT_NAME_LEN = 80"
definition MAX_STATE_LEN :: nat where "MAX_STATE_LEN = 512"
definition RETIRED_REFRESH_KEEP :: nat where "RETIRED_REFRESH_KEEP = 20"

section \<open>Secrets and validation\<close>

text \<open>What the \<^verbatim>\<open>url\<close> crate reports of a parsed URL.\<close>

record url_parts =
  url_scheme :: string
  url_username :: string
  url_password :: "string option"
  url_host :: "string option"
  url_fragment :: "string option"

record oauth_env =
  sha256_hex :: "string \<Rightarrow> string"
  sha256_b64url :: "string \<Rightarrow> string"
  url_parse :: "string \<Rightarrow> string + url_parts"

definition random_token :: "string \<Rightarrow> string \<Rightarrow> string" where
  "random_token pre rnd = pre @ rnd"

definition secret_preimage :: "string \<Rightarrow> string \<Rightarrow> string" where
  "secret_preimage kind secret =
     ''wolfstack-mcp-oauth'' @ [CHR 0x00] @ kind @ [CHR 0x00] @ secret"

definition secret_hash :: "oauth_env \<Rightarrow> string \<Rightarrow> string \<Rightarrow> string" where
  "secret_hash env kind secret = sha256_hex env (secret_preimage kind secret)"

definition valid_code_verifier :: "string \<Rightarrow> bool" where
  "valid_code_verifier v =
     (43 \<le> length v \<and> length v \<le> 128 \<and>
      list_all (\<lambda>b. is_ascii_alphanumeric b \<or> b \<in> {CHR ''-'', CHR ''.'', CHR ''_'', CHR ''~''}) v)"

definition pkce_s256_matches :: "oauth_env \<Rightarrow> string \<Rightarrow> string \<Rightarrow> bool" where
  "pkce_s256_matches env verifier challenge =
     (if \<not> valid_code_verifier verifier then False else sha256_b64url env verifier = challenge)"

definition valid_code_challenge :: "string \<Rightarrow> bool" where
  "valid_code_challenge c =
     (length c = 43 \<and> list_all (\<lambda>b. is_ascii_alphanumeric b \<or> b = CHR ''-'' \<or> b = CHR ''_'') c)"

definition is_loopback_host :: "string \<Rightarrow> bool" where
  "is_loopback_host host = (host \<in> {''localhost'', ''127.0.0.1'', ''[::1]'', ''::1''})"

datatype redirect_error =
    RedirectLength | RedirectSpace | RedirectNotUrl string | RedirectFragment
  | RedirectCredentials | RedirectNoHost | RedirectHttpNotLoopback | RedirectScheme string

definition validate_redirect_uri :: "oauth_env \<Rightarrow> string \<Rightarrow> redirect_error + unit" where
  "validate_redirect_uri env raw =
     (if raw = [] \<or> length raw > MAX_REDIRECT_URI_LEN then Err RedirectLength
      else if list_ex (\<lambda>c. is_control c \<or> is_ws c) raw then Err RedirectSpace
      else res_bind (map_err RedirectNotUrl (url_parse env raw)) (\<lambda>url.
        if url_fragment url \<noteq> None then Err RedirectFragment
        else if url_username url \<noteq> [] \<or> url_password url \<noteq> None then Err RedirectCredentials
        else let host = unwrap_or [] (url_host url) in
          if host = [] then Err RedirectNoHost
          else if url_scheme url = ''https'' then Ok ()
          else if url_scheme url = ''http'' \<and> is_loopback_host host then Ok ()
          else if url_scheme url = ''http'' then Err RedirectHttpNotLoopback
          else Err (RedirectScheme (url_scheme url))))"

text \<open>
  Display names are read character by character, so they are lists of code points here.
  \<open>is_cc\<close> and \<open>is_white\<close> are Unicode's control characters and white space, as
  \<^verbatim>\<open>char::is_control\<close> and \<^verbatim>\<open>char::is_whitespace\<close>.
\<close>

type_synonym code_points = "nat list"

definition is_cc :: "nat \<Rightarrow> bool" where
  "is_cc c = (c < 32 \<or> (127 \<le> c \<and> c < 160))"

definition is_white :: "nat \<Rightarrow> bool" where
  "is_white c =
     ((9 \<le> c \<and> c \<le> 13) \<or> (0x2000 \<le> c \<and> c \<le> 0x200A) \<or>
      c \<in> {32, 0x85, 0xA0, 0x1680, 0x2028, 0x2029, 0x202F, 0x205F, 0x3000})"

definition is_spoofing_char :: "nat \<Rightarrow> bool" where
  "is_spoofing_char c =
     (c = 0x061C \<or> (0x200B \<le> c \<and> c \<le> 0x200F) \<or> (0x202A \<le> c \<and> c \<le> 0x202E) \<or>
      (0x2060 \<le> c \<and> c \<le> 0x2069) \<or> c = 0xFEFF)"

definition words_of :: "('a \<Rightarrow> bool) \<Rightarrow> 'a list \<Rightarrow> 'a list list" where
  "words_of p xs = filter (\<lambda>w. w \<noteq> []) (split_by p xs)"

fun join_words :: "'a \<Rightarrow> 'a list list \<Rightarrow> 'a list" where
  "join_words sep [] = []"
| "join_words sep [w] = w"
| "join_words sep (w # ws) = w @ sep # join_words sep ws"

definition unnamed_client :: code_points where
  "unnamed_client = map of_char ''Unnamed client''"

definition sanitize_client_name :: "code_points option \<Rightarrow> code_points" where
  "sanitize_client_name raw =
     (let cleaned = join_words 32 (words_of is_white
            (map (\<lambda>c. if is_cc c then 32 else c) (filter (\<lambda>c. \<not> is_spoofing_char c) (unwrap_or [] raw))));
          truncated = take MAX_CLIENT_NAME_LEN cleaned
      in if truncated = [] then unnamed_client else truncated)"

definition normalize_scopes :: "string list \<Rightarrow> string list" where
  "normalize_scopes scopes = filter (\<lambda>s. s \<in> set scopes) ALL_SCOPES"

fun collect_scopes :: "string list \<Rightarrow> string list \<Rightarrow> string + string list" where
  "collect_scopes [] out = Ok out"
| "collect_scopes (s # ss) out =
     (if s \<notin> set ALL_SCOPES then Err s
      else collect_scopes ss (if s \<in> set out then out else out @ [s]))"

text \<open>The error value is the unknown scope the message quotes.\<close>

definition parse_scopes :: "string option \<Rightarrow> string + string list" where
  "parse_scopes raw =
     res_bind (collect_scopes (filter (\<lambda>s. s \<noteq> []) (split_char (CHR '' '') (unwrap_or [] raw))) [])
       (\<lambda>out. Ok (normalize_scopes (if out = [] then [''read''] else out)))"

definition scopes_string :: "string list \<Rightarrow> string" where
  "scopes_string scopes = join '' '' scopes"

section \<open>State\<close>

datatype auth_source = WolfStackUser | LinuxUser

record client =
  c_client_id :: string
  c_client_name :: code_points
  c_redirect_uris :: "string list"
  c_created_at :: int
  c_approved_at :: "int option"
  c_registered_from :: string

record grant =
  g_id :: string
  g_client_id :: string
  g_client_name :: code_points
  g_username :: string
  g_source :: auth_source
  g_scopes :: "string list"
  g_resource :: string
  g_created_at :: int
  g_last_used_at :: int
  g_refresh_hash :: string
  g_refresh_expires_at :: int
  g_retired_refresh_hashes :: "string list"
  g_last_rotated_at :: int
  g_credential_fp :: string

record grant_view =
  gv_id :: string
  gv_client_id :: string
  gv_client_name :: code_points
  gv_username :: string
  gv_scopes :: "string list"
  gv_created_at :: int
  gv_last_used_at :: int
  gv_expires_at :: int

record pending_auth =
  pa_client_id :: string
  pa_client_name :: code_points
  pa_redirect_uri :: string
  pa_state :: "string option"
  pa_code_challenge :: string
  pa_scopes :: "string list"
  pa_resource :: string
  pa_created_at :: int
  pa_from :: string

record auth_code =
  ac_client_id :: string
  ac_redirect_uri :: string
  ac_code_challenge :: string
  ac_scopes :: "string list"
  ac_resource :: string
  ac_username :: string
  ac_source :: auth_source
  ac_expires_at :: int

record access_info =
  ai_credential_fp :: string
  ai_grant_id :: string
  ai_client_id :: string
  ai_username :: string
  ai_source :: auth_source
  ai_scopes :: "string list"
  ai_resource :: string
  ai_expires_at :: int

record token_set =
  ts_access_token :: string
  ts_token_type :: string
  ts_expires_in :: int
  ts_refresh_token :: string
  ts_scope :: string

datatype token_error =
    InvalidRequest string
  | InvalidClient string
  | InvalidGrant string
  | InvalidScope string
  | InvalidTarget string
  | ServerError string

definition token_error_code :: "token_error \<Rightarrow> string" where
  "token_error_code e =
     (case e of
        InvalidRequest _ \<Rightarrow> ''invalid_request''
      | InvalidClient _ \<Rightarrow> ''invalid_client''
      | InvalidGrant _ \<Rightarrow> ''invalid_grant''
      | InvalidScope _ \<Rightarrow> ''invalid_scope''
      | InvalidTarget _ \<Rightarrow> ''invalid_target''
      | ServerError _ \<Rightarrow> ''server_error'')"

definition token_error_description :: "token_error \<Rightarrow> string" where
  "token_error_description e =
     (case e of InvalidRequest s \<Rightarrow> s | InvalidClient s \<Rightarrow> s | InvalidGrant s \<Rightarrow> s
      | InvalidScope s \<Rightarrow> s | InvalidTarget s \<Rightarrow> s | ServerError s \<Rightarrow> s)"

record user_authority =
  ua_allowed_scopes :: "string list"
  ua_credential_fp :: string

record persisted =
  ps_clients :: "client list"
  ps_grants :: "grant list"

record inner =
  clients :: "(string, client) hashmap"
  grants :: "(string, grant) hashmap"
  refresh_index :: "(string, string) hashmap"
  retired_index :: "(string, string) hashmap"
  codes :: "(string, auth_code) hashmap"
  used_codes :: "(string, string \<times> int) hashmap"
  access :: "(string, access_info) hashmap"
  pending_auths :: "(string, pending_auth) hashmap"

text \<open>The store: the live state and the content of the state file.\<close>

record oauth_store =
  live :: inner
  disk :: persisted

abbreviation vals :: "('k, 'v) hashmap \<Rightarrow> 'v list" where
  "vals m \<equiv> map snd m"

definition hm_retain :: "('v \<Rightarrow> bool) \<Rightarrow> ('k, 'v) hashmap \<Rightarrow> ('k, 'v) hashmap" where
  "hm_retain p m = filter (\<lambda>kv. p (snd kv)) m"

section \<open>Operations on the inner state\<close>

definition index_grant :: "grant \<Rightarrow> inner \<Rightarrow> inner" where
  "index_grant g d =
     d\<lparr>refresh_index := AList.update (g_refresh_hash g) (g_id g) (refresh_index d),
       retired_index := fold (\<lambda>r. AList.update r (g_id g)) (g_retired_refresh_hashes g) (retired_index d)\<rparr>"

definition rebuild_indexes :: "inner \<Rightarrow> inner" where
  "rebuild_indexes d = fold index_grant (vals (grants d)) (d\<lparr>refresh_index := [], retired_index := []\<rparr>)"

definition remove_grant :: "string \<Rightarrow> inner \<Rightarrow> grant option \<times> inner" where
  "remove_grant grant_id d =
     (case map_of (grants d) grant_id of
        None \<Rightarrow> (None, d)
      | Some g \<Rightarrow>
          (Some g,
           d\<lparr>grants := AList.delete grant_id (grants d),
             refresh_index := AList.delete (g_refresh_hash g) (refresh_index d),
             retired_index := fold AList.delete (g_retired_refresh_hashes g) (retired_index d),
             access := hm_retain (\<lambda>a. ai_grant_id a \<noteq> grant_id) (access d)\<rparr>))"

definition remove_grants :: "string list \<Rightarrow> inner \<Rightarrow> inner" where
  "remove_grants ids d = fold (\<lambda>i d. snd (remove_grant i d)) ids d"

definition prune_transient :: "int \<Rightarrow> inner \<Rightarrow> inner" where
  "prune_transient t d =
     d\<lparr>codes := hm_retain (\<lambda>c. ac_expires_at c > t) (codes d),
       used_codes := hm_retain (\<lambda>(_, until). until > t) (used_codes d),
       access := hm_retain (\<lambda>a. ai_expires_at a > t) (access d),
       pending_auths := hm_retain (\<lambda>p. pa_created_at p + PENDING_TTL_SECS > t) (pending_auths d)\<rparr>"

definition expired_grants :: "int \<Rightarrow> inner \<Rightarrow> string list" where
  "expired_grants t d = map g_id (filter (\<lambda>g. g_refresh_expires_at g \<le> t) (vals (grants d)))"

definition stale_clients :: "int \<Rightarrow> inner \<Rightarrow> string list" where
  "stale_clients t d =
     (let in_use = map g_client_id (vals (grants d)) in
      map c_client_id (filter (\<lambda>c. c_approved_at c = None \<and> c_created_at c + UNUSED_CLIENT_TTL_SECS \<le> t \<and>
        c_client_id c \<notin> set in_use) (vals (clients d))))"

definition prune :: "int \<Rightarrow> inner \<Rightarrow> inner" where
  "prune t d =
     (let d1 = prune_transient t d;
          d2 = remove_grants (expired_grants t d1) d1
      in d2\<lparr>clients := fold AList.delete (stale_clients t d2) (clients d2)\<rparr>)"

definition snapshot :: "inner \<Rightarrow> persisted" where
  "snapshot d =
     \<lparr>ps_clients = sort_key (\<lambda>c. (c_created_at c, c_client_id c)) (vals (clients d)),
      ps_grants = sort_key (\<lambda>g. (g_created_at g, g_id g)) (vals (grants d))\<rparr>"

definition issue_access :: "oauth_env \<Rightarrow> string \<Rightarrow> grant \<Rightarrow> string list \<Rightarrow> int \<Rightarrow> inner \<Rightarrow> (string \<times> int) \<times> inner" where
  "issue_access env rnd g scopes t d =
     (let token = random_token ''wsat_'' rnd in
      ((token, ACCESS_TTL_SECS),
       d\<lparr>access := AList.update (secret_hash env ''access'' token)
          \<lparr>ai_credential_fp = g_credential_fp g, ai_grant_id = g_id g, ai_client_id = g_client_id g,
           ai_username = g_username g, ai_source = g_source g, ai_scopes = scopes,
           ai_resource = g_resource g, ai_expires_at = t + ACCESS_TTL_SECS\<rparr> (access d)\<rparr>))"

text \<open>\<^verbatim>\<open>Iterator::min_by_key\<close>: the first of the smallest elements.\<close>

fun min_by_key :: "('a \<Rightarrow> 'k :: linorder) \<Rightarrow> 'a list \<Rightarrow> 'a option" where
  "min_by_key f [] = None"
| "min_by_key f (x # xs) =
     (case min_by_key f xs of None \<Rightarrow> Some x | Some y \<Rightarrow> if f x \<le> f y then Some x else Some y)"

definition evict_unapproved_client :: "inner \<Rightarrow> bool \<times> inner" where
  "evict_unapproved_client d =
     (let in_use = map g_client_id (vals (grants d)) in
      case min_by_key c_created_at
        (filter (\<lambda>c. c_approved_at c = None \<and> c_client_id c \<notin> set in_use) (vals (clients d))) of
        Some c \<Rightarrow> (True, d\<lparr>clients := AList.delete (c_client_id c) (clients d)\<rparr>)
      | None \<Rightarrow> (False, d))"

section \<open>Operations of the store\<close>

definition empty_inner :: inner where
  "empty_inner = \<lparr>clients = [], grants = [], refresh_index = [], retired_index = [], codes = [],
     used_codes = [], access = [], pending_auths = []\<rparr>"

text \<open>
  \<^verbatim>\<open>load\<close>: \<open>file\<close> is the parsed state file, \<^term>\<open>None\<close> when there is none or when it does not
  parse (then it is moved aside).
\<close>

definition load :: "persisted option \<Rightarrow> oauth_store" where
  "load file =
     (let p = unwrap_or \<lparr>ps_clients = [], ps_grants = []\<rparr> file in
      \<lparr>live = rebuild_indexes (empty_inner\<lparr>
         clients := fold (\<lambda>c. AList.update (c_client_id c) c) (ps_clients p) [],
         grants := fold (\<lambda>g. AList.update (g_id g) g) (ps_grants p) []\<rparr>),
       disk = p\<rparr>)"

definition commit ::
  "string option \<Rightarrow> (string \<Rightarrow> 'e) \<Rightarrow> (inner \<Rightarrow> 'e + 'r \<times> inner) \<Rightarrow> oauth_store \<Rightarrow> ('e + 'r) \<times> oauth_store" where
  "commit io from f s =
     (case f (live s) of
        Inl e \<Rightarrow> (Err e, s)
      | Inr (r, draft) \<Rightarrow>
          (case io of
             Some e \<Rightarrow> (Err (from e), s)
           | None \<Rightarrow> (Ok r, s\<lparr>live := draft, disk := snapshot draft\<rparr>)))"

definition prune_live :: "int \<Rightarrow> oauth_store \<Rightarrow> oauth_store" where
  "prune_live t s = s\<lparr>live := prune t (live s)\<rparr>"

datatype register_error =
    RedirectsRequired | TooManyRedirects | BadRedirect redirect_error | TooManyClients | RegisterIo string

fun validate_all :: "oauth_env \<Rightarrow> string list \<Rightarrow> redirect_error + unit" where
  "validate_all env [] = Ok ()"
| "validate_all env (u # us) = res_bind (validate_redirect_uri env u) (\<lambda>_. validate_all env us)"

definition register_client ::
  "oauth_env \<Rightarrow> int \<Rightarrow> string option \<Rightarrow> string \<Rightarrow> code_points option \<Rightarrow> string list \<Rightarrow> string \<Rightarrow>
   oauth_store \<Rightarrow> (register_error + client) \<times> oauth_store" where
  "register_client env t io rnd client_name redirect_uris from s =
     (if redirect_uris = [] then (Err RedirectsRequired, s)
      else if length redirect_uris > MAX_REDIRECT_URIS then (Err TooManyRedirects, s)
      else case validate_all env redirect_uris of
        Inl e \<Rightarrow> (Err (BadRedirect e), s)
      | Inr _ \<Rightarrow>
        (let s = prune_live t s;
             client = \<lparr>c_client_id = random_token ''wsc_'' rnd,
                c_client_name = sanitize_client_name client_name, c_redirect_uris = redirect_uris,
                c_created_at = t, c_approved_at = None, c_registered_from = take 64 from\<rparr>
         in commit io RegisterIo (\<lambda>d.
              let (room, d) = (if length (clients d) \<ge> MAX_CLIENTS then evict_unapproved_client d
                               else (True, d))
              in if \<not> room then Err TooManyClients
                 else Ok (client, d\<lparr>clients := AList.update (c_client_id client) client (clients d)\<rparr>)) s))"

definition get_client :: "string \<Rightarrow> oauth_store \<Rightarrow> client option" where
  "get_client i s = map_of (clients (live s)) i"

definition list_clients :: "int \<Rightarrow> oauth_store \<Rightarrow> client list \<times> oauth_store" where
  "list_clients t s = (let s = prune_live t s in (ps_clients (snapshot (live s)), s))"

definition delete_client :: "string option \<Rightarrow> string \<Rightarrow> oauth_store \<Rightarrow> (string + bool) \<times> oauth_store" where
  "delete_client io client_id s =
     commit io id (\<lambda>d.
       let existed = (map_of (clients d) client_id \<noteq> None);
           d = d\<lparr>clients := AList.delete client_id (clients d)\<rparr>;
           grant_ids = map g_id (filter (\<lambda>g. g_client_id g = client_id) (vals (grants d)))
       in Ok (existed \<or> grant_ids \<noteq> [], remove_grants grant_ids d)) s"

datatype pending_error = StateTooLong | TooManyPending | TooManyForClient | TooManyFromSource

definition begin_pending ::
  "int \<Rightarrow> string \<Rightarrow> pending_auth \<Rightarrow> oauth_store \<Rightarrow> (pending_error + string) \<times> oauth_store" where
  "begin_pending t rnd p s =
     (if (case pa_state p of None \<Rightarrow> False | Some st \<Rightarrow> length st > MAX_STATE_LEN) then (Err StateTooLong, s)
      else let s = prune_live t s; d = live s in
        if length (pending_auths d) \<ge> MAX_PENDING then (Err TooManyPending, s)
        else if length (filter (\<lambda>x. pa_client_id x = pa_client_id p) (vals (pending_auths d)))
            \<ge> MAX_PENDING_PER_CLIENT then (Err TooManyForClient, s)
        else if length (filter (\<lambda>x. pa_from x = pa_from p) (vals (pending_auths d)))
            \<ge> MAX_PENDING_PER_SOURCE then (Err TooManyFromSource, s)
        else let i = random_token ''wsp_'' rnd in
          (Ok i, s\<lparr>live := d\<lparr>pending_auths := AList.update i p (pending_auths d)\<rparr>\<rparr>))"

definition peek_pending :: "int \<Rightarrow> string \<Rightarrow> oauth_store \<Rightarrow> pending_auth option \<times> oauth_store" where
  "peek_pending t i s = (let s = prune_live t s in (map_of (pending_auths (live s)) i, s))"

definition take_pending :: "int \<Rightarrow> string \<Rightarrow> oauth_store \<Rightarrow> pending_auth option \<times> oauth_store" where
  "take_pending t i s =
     (let s = prune_live t s; d = live s in
      (map_of (pending_auths d) i, s\<lparr>live := d\<lparr>pending_auths := AList.delete i (pending_auths d)\<rparr>\<rparr>))"

datatype code_error = TooManyCodes | CodeIo string

definition approve_client :: "string \<Rightarrow> int \<Rightarrow> inner \<Rightarrow> inner" where
  "approve_client cid t d =
     (case map_of (clients d) cid of
        None \<Rightarrow> d
      | Some c \<Rightarrow> d\<lparr>clients := AList.update cid
          (c\<lparr>c_approved_at := get_or_insert t (c_approved_at c)\<rparr>) (clients d)\<rparr>)"

definition issue_code ::
  "oauth_env \<Rightarrow> int \<Rightarrow> string option \<Rightarrow> string \<Rightarrow> pending_auth \<Rightarrow> string \<Rightarrow> auth_source \<Rightarrow> string list \<Rightarrow>
   oauth_store \<Rightarrow> (code_error + string) \<times> oauth_store" where
  "issue_code env t io rnd p username source granted s =
     (let s = prune_live t s in
      if length (codes (live s)) \<ge> MAX_CODES then (Err TooManyCodes, s)
      else
        let code = random_token ''wsa_'' rnd;
            ac = \<lparr>ac_client_id = pa_client_id p, ac_redirect_uri = pa_redirect_uri p,
                  ac_code_challenge = pa_code_challenge p, ac_scopes = normalize_scopes granted,
                  ac_resource = pa_resource p, ac_username = username, ac_source = source,
                  ac_expires_at = t + CODE_TTL_SECS\<rparr>
        in commit io CodeIo (\<lambda>d.
             let d = approve_client (pa_client_id p) t d in
             Ok (code, d\<lparr>codes := AList.update (secret_hash env ''code'' code) ac (codes d)\<rparr>)) s)"

subsection \<open>The authorization code grant\<close>

text \<open>
  \<^verbatim>\<open>exchange_code\<close> holds the lock twice, with the user lookup between: phase 1 consumes and
  checks the code, phase 3 creates the grant. Other requests run in between.
\<close>

definition exchange_check ::
  "oauth_env \<Rightarrow> string \<Rightarrow> string \<Rightarrow> string \<Rightarrow> string option \<Rightarrow> auth_code \<Rightarrow> token_error + auth_code" where
  "exchange_check env client_id redirect_uri code_verifier resource ac =
     (if ac_client_id ac \<noteq> client_id then Err (InvalidGrant ''code was issued to a different client'')
      else if ac_redirect_uri ac \<noteq> redirect_uri then
        Err (InvalidGrant ''redirect_uri does not match the authorization request'')
      else if \<not> pkce_s256_matches env code_verifier (ac_code_challenge ac) then
        Err (InvalidGrant ''PKCE verification failed'')
      else if (case resource of Some r \<Rightarrow> r \<noteq> ac_resource ac | None \<Rightarrow> False) then
        Err (InvalidTarget ''resource does not match the authorization request'')
      else Ok ac)"

definition exchange_phase1 ::
  "oauth_env \<Rightarrow> int \<Rightarrow> string option \<Rightarrow> string \<Rightarrow> string \<Rightarrow> string \<Rightarrow> string \<Rightarrow> string option \<Rightarrow>
   oauth_store \<Rightarrow> (token_error + auth_code) \<times> oauth_store" where
  "exchange_phase1 env t io code client_id redirect_uri code_verifier resource s =
     (let code_hash = secret_hash env ''code'' code;
          s = prune_live t s
      in case map_of (codes (live s)) code_hash of
        None \<Rightarrow>
          (Err (InvalidGrant ''authorization code is invalid, expired or already used''),
           (case map_of (used_codes (live s)) code_hash of
              None \<Rightarrow> s
            | Some (grant_id, _) \<Rightarrow> snd (commit io id (\<lambda>d. Ok (remove_grant grant_id d)) s)))
      | Some ac \<Rightarrow>
          (exchange_check env client_id redirect_uri code_verifier resource ac,
           s\<lparr>live := (live s)\<lparr>codes := AList.delete code_hash (codes (live s))\<rparr>\<rparr>))"

definition exchange_phase2 :: "auth_code \<Rightarrow> user_authority option \<Rightarrow> token_error + string list \<times> string" where
  "exchange_phase2 ac auth =
     (case auth of
        None \<Rightarrow> Err (InvalidGrant ''the approving user no longer exists or may not use MCP'')
      | Some a \<Rightarrow>
          (let scopes = filter (\<lambda>s. s \<in> set (ua_allowed_scopes a)) (ac_scopes ac) in
           if scopes = [] then
             Err (InvalidScope ''the approving user may no longer hold any of the granted scopes'')
           else Ok (scopes, ua_credential_fp a)))"

definition new_grant ::
  "oauth_env \<Rightarrow> int \<Rightarrow> string \<Rightarrow> string \<Rightarrow> string \<Rightarrow> code_points \<Rightarrow> auth_code \<Rightarrow> string list \<Rightarrow> string \<Rightarrow> grant" where
  "new_grant env t rnd_g refresh client_id client_name ac scopes fp =
     \<lparr>g_id = random_token ''wsg_'' rnd_g, g_client_id = client_id, g_client_name = client_name,
      g_username = ac_username ac, g_source = ac_source ac, g_scopes = normalize_scopes scopes,
      g_resource = ac_resource ac, g_created_at = t, g_last_used_at = t,
      g_refresh_hash = secret_hash env ''refresh'' refresh,
      g_refresh_expires_at = t + REFRESH_TTL_SECS, g_retired_refresh_hashes = [],
      g_last_rotated_at = t, g_credential_fp = fp\<rparr>"

definition record_grant ::
  "oauth_env \<Rightarrow> string \<Rightarrow> string \<Rightarrow> int \<Rightarrow> grant \<Rightarrow> inner \<Rightarrow> string \<times> inner" where
  "record_grant env rnd_a code_hash t g d =
     (let ((acc, _), d) = issue_access env rnd_a g (g_scopes g) t d in
      (acc, d\<lparr>refresh_index := AList.update (g_refresh_hash g) (g_id g) (refresh_index d),
              used_codes := AList.update code_hash (g_id g, t + USED_CODE_MEMORY_SECS) (used_codes d),
              grants := AList.update (g_id g) g (grants d)\<rparr>))"

definition exchange_phase3 ::
  "oauth_env \<Rightarrow> int \<Rightarrow> string option \<Rightarrow> string \<Rightarrow> string \<Rightarrow> string \<Rightarrow> string \<Rightarrow> string \<Rightarrow> auth_code \<Rightarrow>
   string list \<Rightarrow> string \<Rightarrow> oauth_store \<Rightarrow> (token_error + token_set) \<times> oauth_store" where
  "exchange_phase3 env t io rnd_a rnd_r rnd_g code_hash client_id ac scopes fp s =
     (case map_of (clients (live s)) client_id of
        None \<Rightarrow> (Err (InvalidClient ''client is no longer registered''), s)
      | Some c \<Rightarrow>
          if length (grants (live s)) \<ge> MAX_GRANTS then
            (Err (ServerError (''too many active MCP grants '' @ em_dash @
               '' revoke unused ones in Settings '' @ [CHR 0xE2, CHR 0x86, CHR 0x92] @ '' AI Agents (MCP)'')), s)
          else if length (access (live s)) \<ge> MAX_ACCESS_TOKENS then
            (Err (ServerError ''too many active access tokens''), s)
          else
            let refresh = random_token ''wsrt_'' rnd_r;
                g = new_grant env t rnd_g refresh client_id (c_client_name c) ac scopes fp;
                (r, s') = commit io ServerError (\<lambda>d. Ok (record_grant env rnd_a code_hash t g d)) s
            in (res_bind r (\<lambda>acc. Ok \<lparr>ts_access_token = acc, ts_token_type = ''Bearer'',
                    ts_expires_in = ACCESS_TTL_SECS, ts_refresh_token = refresh,
                    ts_scope = scopes_string (g_scopes g)\<rparr>), s'))"

definition exchange_finish ::
  "oauth_env \<Rightarrow> int \<Rightarrow> string option \<Rightarrow> string \<Rightarrow> string \<Rightarrow> string \<Rightarrow> string \<Rightarrow> string \<Rightarrow> auth_code \<Rightarrow>
   user_authority option \<Rightarrow> oauth_store \<Rightarrow> (token_error + token_set) \<times> oauth_store" where
  "exchange_finish env t io rnd_a rnd_r rnd_g code_hash client_id ac auth s =
     (case exchange_phase2 ac auth of
        Inl e \<Rightarrow> (Err e, s)
      | Inr (scopes, fp) \<Rightarrow> exchange_phase3 env t io rnd_a rnd_r rnd_g code_hash client_id ac scopes fp s)"

definition exchange_code ::
  "oauth_env \<Rightarrow> int \<Rightarrow> string option \<Rightarrow> string \<Rightarrow> string \<Rightarrow> string \<Rightarrow> string \<Rightarrow> string \<Rightarrow> string \<Rightarrow> string \<Rightarrow>
   string option \<Rightarrow> (string \<Rightarrow> auth_source \<Rightarrow> user_authority option) \<Rightarrow>
   oauth_store \<Rightarrow> (token_error + token_set) \<times> oauth_store" where
  "exchange_code env t io rnd_a rnd_r rnd_g code client_id redirect_uri code_verifier resource authority s =
     (case exchange_phase1 env t io code client_id redirect_uri code_verifier resource s of
        (Inl e, s) \<Rightarrow> (Err e, s)
      | (Inr ac, s) \<Rightarrow>
          exchange_finish env t io rnd_a rnd_r rnd_g (secret_hash env ''code'' code) client_id ac
            (authority (ac_username ac) (ac_source ac)) s)"

subsection \<open>The refresh token grant\<close>

definition refresh_check :: "string \<Rightarrow> string option \<Rightarrow> grant \<Rightarrow> token_error + grant" where
  "refresh_check client_id resource g =
     (if g_client_id g \<noteq> client_id then Err (InvalidGrant ''refresh token was issued to a different client'')
      else if (case resource of Some r \<Rightarrow> r \<noteq> g_resource g | None \<Rightarrow> False) then
        Err (InvalidTarget ''resource does not match the grant'')
      else Ok g)"

definition retry_of :: "string \<Rightarrow> int \<Rightarrow> grant option \<Rightarrow> grant option" where
  "retry_of h t g =
     (case g of
        None \<Rightarrow> None
      | Some g \<Rightarrow>
          if g_retired_refresh_hashes g \<noteq> [] \<and> last (g_retired_refresh_hashes g) = h \<and>
             t - g_last_rotated_at g \<le> REFRESH_RETRY_GRACE_SECS
          then Some g else None)"

definition refresh_phase1 ::
  "oauth_env \<Rightarrow> int \<Rightarrow> string option \<Rightarrow> string \<Rightarrow> string \<Rightarrow> string option \<Rightarrow>
   oauth_store \<Rightarrow> (token_error + grant) \<times> oauth_store" where
  "refresh_phase1 env t io refresh_token client_id resource s =
     (let h = secret_hash env ''refresh'' refresh_token;
          s = prune_live t s
      in case map_of (retired_index (live s)) h of
        Some grant_id \<Rightarrow>
          (case retry_of h t (map_of (grants (live s)) grant_id) of
             Some g \<Rightarrow> (refresh_check client_id resource g, s)
           | None \<Rightarrow>
               (case commit io ServerError (\<lambda>d. Ok (remove_grant grant_id d)) s of
                  (Inl e, s) \<Rightarrow> (Err e, s)
                | (Inr _, s) \<Rightarrow>
                    (Err (InvalidGrant ''refresh token was already used; the grant has been revoked''), s)))
      | None \<Rightarrow>
          (case Option.bind (map_of (refresh_index (live s)) h) (map_of (grants (live s))) of
             None \<Rightarrow> (Err (InvalidGrant ''refresh token is invalid or expired''), s)
           | Some g \<Rightarrow> (refresh_check client_id resource g, s)))"

definition refresh_scopes :: "grant \<Rightarrow> string list option \<Rightarrow> user_authority \<Rightarrow> token_error + string list" where
  "refresh_scopes g requested a =
     res_bind
       (case requested of
          Some req \<Rightarrow>
            if list_ex (\<lambda>s. s \<notin> set (g_scopes g)) req then
              Err (InvalidScope ''a refresh cannot add scopes the user did not approve'')
            else Ok req
        | None \<Rightarrow> Ok (g_scopes g))
       (\<lambda>base.
          let scopes = normalize_scopes (filter (\<lambda>s. s \<in> set (ua_allowed_scopes a)) base) in
          if scopes = [] then Err (InvalidScope ''the user may no longer hold any of the granted scopes'')
          else Ok scopes)"

definition rotate_refresh :: "int \<Rightarrow> string \<Rightarrow> grant \<Rightarrow> grant" where
  "rotate_refresh t new_hash g =
     (let retired = g_retired_refresh_hashes g @ [g_refresh_hash g] in
      g\<lparr>g_refresh_hash := new_hash,
        g_retired_refresh_hashes := drop (length retired - RETIRED_REFRESH_KEEP) retired,
        g_last_rotated_at := t,
        g_refresh_expires_at := min (t + REFRESH_TTL_SECS) (g_created_at g + GRANT_MAX_LIFETIME_SECS),
        g_last_used_at := t\<rparr>)"

definition rotate_grant ::
  "oauth_env \<Rightarrow> string \<Rightarrow> int \<Rightarrow> string \<Rightarrow> string list \<Rightarrow> string \<Rightarrow> inner \<Rightarrow> token_error + string \<times> inner" where
  "rotate_grant env rnd_a t new_hash scopes grant_id d =
     (case map_of (grants d) grant_id of
        None \<Rightarrow> Err (InvalidGrant ''refresh token is invalid or expired'')
      | Some g \<Rightarrow>
          let g' = rotate_refresh t new_hash g;
              d = rebuild_indexes (d\<lparr>grants := AList.update grant_id g' (grants d)\<rparr>);
              ((acc, _), d) = issue_access env rnd_a g' scopes t d
          in Ok (acc, d))"

definition refresh_phase3 ::
  "oauth_env \<Rightarrow> int \<Rightarrow> string option \<Rightarrow> string \<Rightarrow> string \<Rightarrow> grant \<Rightarrow> string list option \<Rightarrow> user_authority option \<Rightarrow>
   oauth_store \<Rightarrow> (token_error + token_set) \<times> oauth_store" where
  "refresh_phase3 env t io rnd_a rnd_r g requested auth s =
     (if map_of (refresh_index (live s)) (g_refresh_hash g) \<noteq> Some (g_id g) then
        (Err (InvalidGrant ''refresh token was already used''), s)
      else case auth of
        None \<Rightarrow> (Err (InvalidGrant ''the user cannot be confirmed (no longer exists, or may not use MCP)''), s)
      | Some a \<Rightarrow>
          if ua_credential_fp a \<noteq> g_credential_fp g then
            (case commit io ServerError (\<lambda>d. Ok (remove_grant (g_id g) d)) s of
               (Inl e, s) \<Rightarrow> (Err e, s)
             | (Inr _, s) \<Rightarrow>
                 (Err (InvalidGrant ''the user's password or two-factor setup changed; the grant has been revoked''), s))
          else
            (case refresh_scopes g requested a of
               Inl e \<Rightarrow> (Err e, s)
             | Inr scopes \<Rightarrow>
                 if length (access (live s)) \<ge> MAX_ACCESS_TOKENS then
                   (Err (ServerError ''too many active access tokens''), s)
                 else
                   let new_refresh = random_token ''wsrt_'' rnd_r;
                       (r, s') = commit io ServerError
                         (rotate_grant env rnd_a t (secret_hash env ''refresh'' new_refresh) scopes (g_id g)) s
                   in (res_bind r (\<lambda>acc. Ok \<lparr>ts_access_token = acc, ts_token_type = ''Bearer'',
                          ts_expires_in = ACCESS_TTL_SECS, ts_refresh_token = new_refresh,
                          ts_scope = scopes_string scopes\<rparr>), s')))"

definition refresh ::
  "oauth_env \<Rightarrow> int \<Rightarrow> string option \<Rightarrow> string \<Rightarrow> string \<Rightarrow> string \<Rightarrow> string \<Rightarrow> string option \<Rightarrow> string list option \<Rightarrow>
   (string \<Rightarrow> auth_source \<Rightarrow> user_authority option) \<Rightarrow>
   oauth_store \<Rightarrow> (token_error + token_set) \<times> oauth_store" where
  "refresh env t io rnd_a rnd_r refresh_token client_id resource requested authority s =
     (case refresh_phase1 env t io refresh_token client_id resource s of
        (Inl e, s) \<Rightarrow> (Err e, s)
      | (Inr g, s) \<Rightarrow>
          refresh_phase3 env t io rnd_a rnd_r g requested (authority (g_username g) (g_source g)) s)"

subsection \<open>Validation and revocation\<close>

definition touch_grant :: "int \<Rightarrow> string \<Rightarrow> inner \<Rightarrow> inner" where
  "touch_grant t i d =
     (case map_of (grants d) i of
        None \<Rightarrow> d
      | Some g \<Rightarrow> d\<lparr>grants := AList.update i (g\<lparr>g_last_used_at := t\<rparr>) (grants d)\<rparr>)"

definition validate_access ::
  "oauth_env \<Rightarrow> int \<Rightarrow> string \<Rightarrow> string \<Rightarrow> oauth_store \<Rightarrow> access_info option \<times> oauth_store" where
  "validate_access env t token resource s =
     (let d = live s; h = secret_hash env ''access'' token in
      case map_of (access d) h of
        None \<Rightarrow> (None, s)
      | Some info \<Rightarrow>
          if ai_expires_at info \<le> t then (None, s\<lparr>live := d\<lparr>access := AList.delete h (access d)\<rparr>\<rparr>)
          else if ai_resource info \<noteq> resource \<or> map_of (grants d) (ai_grant_id info) = None then (None, s)
          else (Some info, s\<lparr>live := touch_grant t (ai_grant_id info) d\<rparr>))"

definition token_grant :: "oauth_env \<Rightarrow> string \<Rightarrow> inner \<Rightarrow> string option" where
  "token_grant env token d =
     (case map_of (access d) (secret_hash env ''access'' token) of
        Some a \<Rightarrow> Some (ai_grant_id a)
      | None \<Rightarrow> map_of (refresh_index d) (secret_hash env ''refresh'' token))"

definition revoke_token ::
  "oauth_env \<Rightarrow> string option \<Rightarrow> string \<Rightarrow> string option \<Rightarrow> oauth_store \<Rightarrow> (string + unit) \<times> oauth_store" where
  "revoke_token env io token client_id s =
     (case token_grant env token (live s) of
        None \<Rightarrow> (Ok (), s)
      | Some grant_id \<Rightarrow>
          if (case client_id of
                None \<Rightarrow> False
              | Some cid \<Rightarrow> (case map_of (grants (live s)) grant_id of
                   None \<Rightarrow> False | Some g \<Rightarrow> g_client_id g \<noteq> cid))
          then (Ok (), s)
          else commit io id (\<lambda>d. Ok ((), snd (remove_grant grant_id d))) s)"

definition revoke_grant :: "string option \<Rightarrow> string \<Rightarrow> oauth_store \<Rightarrow> (string + bool) \<times> oauth_store" where
  "revoke_grant io grant_id s =
     (if map_of (grants (live s)) grant_id = None then (Ok False, s)
      else commit io id (\<lambda>d. Ok (case remove_grant grant_id d of (g, d) \<Rightarrow> (g \<noteq> None, d))) s)"

definition revoke_ids :: "string option \<Rightarrow> string list \<Rightarrow> oauth_store \<Rightarrow> (string + nat) \<times> oauth_store" where
  "revoke_ids io ids s =
     (if ids = [] then (Ok 0, s)
      else commit io id (\<lambda>d. Ok (length ids, remove_grants ids d)) s)"

definition revoke_user :: "string option \<Rightarrow> string \<Rightarrow> oauth_store \<Rightarrow> (string + nat) \<times> oauth_store" where
  "revoke_user io username s =
     revoke_ids io (map g_id (filter (\<lambda>g. g_username g = username) (vals (grants (live s))))) s"

definition revoke_all :: "string option \<Rightarrow> oauth_store \<Rightarrow> (string + nat) \<times> oauth_store" where
  "revoke_all io s = revoke_ids io (map fst (grants (live s))) s"

definition list_grants :: "int \<Rightarrow> oauth_store \<Rightarrow> grant_view list \<times> oauth_store" where
  "list_grants t s =
     (let s = prune_live t s in
      (map (\<lambda>g. \<lparr>gv_id = g_id g, gv_client_id = g_client_id g, gv_client_name = g_client_name g,
          gv_username = g_username g, gv_scopes = g_scopes g, gv_created_at = g_created_at g,
          gv_last_used_at = g_last_used_at g, gv_expires_at = g_refresh_expires_at g\<rparr>)
         (ps_grants (snapshot (live s))), s))"

end
