(* ===== verification/Oauth_Safety.thy ===== *)
theory Oauth_Safety
  imports Oauth
begin

text \<open>
  What the OAuth store guarantees: the invariant that ties grants, token indexes and access
  tokens together, a transition system in which the two locked phases of a request interleave
  with every other operation and with restarts, and the properties of codes, refresh tokens,
  access tokens and revocation.
\<close>

section \<open>Maps\<close>

declare map_of_eq_Some_iff [simp del]

named_theorems hm_simps \<open>lookups after an update of a hash map\<close>

lemma map_of_hm_retain [hm_simps]:
  assumes "distinct (map fst m)"
  shows "map_of (hm_retain p m) k = (case map_of m k of None \<Rightarrow> None | Some v \<Rightarrow> if p v then Some v else None)"
  using assms by (induction m) (auto simp: hm_retain_def map_of_eq_None_iff image_iff split: option.splits)

lemma set_hm_retain: "set (hm_retain p m) = {kv \<in> set m. p (snd kv)}"
  by (auto simp: hm_retain_def)

lemma distinct_hm_retain: "distinct (map fst m) \<Longrightarrow> distinct (map fst (hm_retain p m))"
  by (simp add: hm_retain_def distinct_map_filter_key)

lemma map_of_fold_delete [hm_simps]:
  "map_of (fold AList.delete ks m) k = (if k \<in> set ks then None else map_of m k)"
  by (induction ks arbitrary: m) (auto simp: delete_conv')

lemma distinct_fold_delete: "distinct (map fst m) \<Longrightarrow> distinct (map fst (fold AList.delete ks m))"
  by (induction ks arbitrary: m) (auto simp: distinct_delete)

lemma map_of_fold_update:
  "map_of (fold (\<lambda>x. AList.update (k x) (v x)) xs m) = fold (\<lambda>x f. f(k x \<mapsto> v x)) xs (map_of m)"
  by (induction xs arbitrary: m) (simp_all add: update_conv')

lemma fold_upd_iff:
  assumes "\<And>x y. x \<in> set xs \<Longrightarrow> y \<in> set xs \<Longrightarrow> k x = k y \<Longrightarrow> v x = v y"
  shows "fold (\<lambda>x f. f(k x \<mapsto> v x)) xs Map.empty h = Some i \<longleftrightarrow> (\<exists>x \<in> set xs. k x = h \<and> v x = i)"
  using assms
proof (induction xs rule: rev_induct)
  case (snoc x xs)
  have IH: "fold (\<lambda>x f. f(k x \<mapsto> v x)) xs Map.empty h = Some i \<longleftrightarrow> (\<exists>x \<in> set xs. k x = h \<and> v x = i)"
    by (rule snoc.IH) (rule snoc.prems, auto)
  have step: "fold (\<lambda>x f. f(k x \<mapsto> v x)) (xs @ [x]) Map.empty h =
      (if k x = h then Some (v x) else fold (\<lambda>x f. f(k x \<mapsto> v x)) xs Map.empty h)"
    by simp
  show ?case
  proof (cases "k x = h")
    case True
    have "\<forall>y \<in> set xs. k y = h \<longrightarrow> v y = v x"
      using snoc.prems [of _ x] True by fastforce
    with True show ?thesis unfolding step by (simp only: if_True) auto
  next
    case False
    with IH show ?thesis unfolding step by (simp only: if_False) auto
  qed
qed simp

lemma distinct_fold_update:
  "distinct (map fst m) \<Longrightarrow> distinct (map fst (fold (\<lambda>x. AList.update (k x) (v x)) xs m))"
  by (induction xs arbitrary: m) (auto simp: distinct_update)

lemmas [hm_simps] = update_conv' delete_conv'

lemma in_vals_iff:
  assumes "distinct (map fst m)" shows "v \<in> set (vals m) \<longleftrightarrow> (\<exists>k. map_of m k = Some v)"
proof -
  have "v \<in> set (vals m) \<longleftrightarrow> (\<exists>k. (k, v) \<in> set m)"
  proof
    assume "v \<in> set (vals m)"
    then obtain p where "p \<in> set m" "v = snd p" by auto
    then have "(fst p, v) \<in> set m" by simp
    then show "\<exists>k. (k, v) \<in> set m" ..
  next
    assume "\<exists>k. (k, v) \<in> set m"
    then obtain k where "(k, v) \<in> set m" ..
    then have "snd (k, v) \<in> snd ` set m" by (rule imageI)
    then show "v \<in> set (vals m)" by simp
  qed
  then show ?thesis unfolding map_of_eq_Some_iff [OF assms] .
qed

section \<open>The invariant\<close>

definition hashes :: "grant \<Rightarrow> string list" where
  "hashes g = g_refresh_hash g # g_retired_refresh_hashes g"

definition grant_ok :: "grant \<Rightarrow> bool" where
  "grant_ok g =
     (length (g_retired_refresh_hashes g) \<le> RETIRED_REFRESH_KEEP \<and> distinct (hashes g) \<and>
      g_refresh_expires_at g \<le> g_created_at g + GRANT_MAX_LIFETIME_SECS \<and>
      g_scopes g \<noteq> [] \<and> set (g_scopes g) \<subseteq> set ALL_SCOPES)"

text \<open>The grants alone: keyed by id, each well formed, no refresh hash in two of them.\<close>

definition grants_ok :: "(string, grant) hashmap \<Rightarrow> bool" where
  "grants_ok m \<longleftrightarrow> distinct (map fst m) \<and>
     (\<forall>i g. map_of m i = Some g \<longrightarrow> g_id g = i \<and> grant_ok g) \<and>
     (\<forall>i j g g' h. map_of m i = Some g \<longrightarrow> map_of m j = Some g' \<longrightarrow>
        h \<in> set (hashes g) \<longrightarrow> h \<in> set (hashes g') \<longrightarrow> i = j)"

definition index_ok :: "inner \<Rightarrow> bool" where
  "index_ok d \<longleftrightarrow>
     (\<forall>h i. map_of (refresh_index d) h = Some i \<longleftrightarrow>
        (\<exists>g. map_of (grants d) i = Some g \<and> g_refresh_hash g = h)) \<and>
     (\<forall>h i. map_of (retired_index d) h = Some i \<longleftrightarrow>
        (\<exists>g. map_of (grants d) i = Some g \<and> h \<in> set (g_retired_refresh_hashes g)))"

text \<open>What an access token may say: it repeats the approval of its grant, with no more scopes.\<close>

definition token_of :: "access_info \<Rightarrow> grant \<Rightarrow> bool" where
  "token_of a g =
     (ai_grant_id a = g_id g \<and> ai_client_id a = g_client_id g \<and> ai_username a = g_username g \<and>
      ai_source a = g_source g \<and> ai_resource a = g_resource g \<and> ai_credential_fp a = g_credential_fp g \<and>
      ai_scopes a \<noteq> [] \<and> set (ai_scopes a) \<subseteq> set (g_scopes g))"

definition access_ok :: "inner \<Rightarrow> bool" where
  "access_ok d \<longleftrightarrow> distinct (map fst (access d)) \<and>
     (\<forall>h a. map_of (access d) h = Some a \<longrightarrow>
        (\<exists>g. map_of (grants d) (ai_grant_id a) = Some g \<and> token_of a g))"

definition codes_ok :: "inner \<Rightarrow> bool" where
  "codes_ok d \<longleftrightarrow> distinct (map fst (codes d)) \<and> distinct (map fst (used_codes d)) \<and>
     (\<forall>c \<in> set (vals (codes d)). set (ac_scopes c) \<subseteq> set ALL_SCOPES)"

definition inner_ok :: "inner \<Rightarrow> bool" where
  "inner_ok d \<longleftrightarrow> grants_ok (grants d) \<and> index_ok d \<and> access_ok d \<and> codes_ok d"

lemmas inner_ok_defs = inner_ok_def grants_ok_def index_ok_def access_ok_def codes_ok_def

lemma grants_okI:
  "distinct (map fst m) \<Longrightarrow> (\<And>i g. map_of m i = Some g \<Longrightarrow> g_id g = i \<and> grant_ok g) \<Longrightarrow>
   (\<And>i j g g' h. map_of m i = Some g \<Longrightarrow> map_of m j = Some g' \<Longrightarrow>
      h \<in> set (hashes g) \<Longrightarrow> h \<in> set (hashes g') \<Longrightarrow> i = j) \<Longrightarrow> grants_ok m"
  unfolding grants_ok_def by blast

lemma grants_okD:
  assumes "grants_ok m" "map_of m i = Some g"
  shows "g_id g = i" "grant_ok g"
    "map_of m j = Some g' \<Longrightarrow> h \<in> set (hashes g) \<Longrightarrow> h \<in> set (hashes g') \<Longrightarrow> i = j"
  using assms unfolding grants_ok_def by blast+

lemma grants_ok_vals:
  "grants_ok m \<Longrightarrow> g \<in> set (vals m) \<longleftrightarrow> map_of m (g_id g) = Some g"
  unfolding grants_ok_def using in_vals_iff [of m g] by blast

lemma index_ok_cong:
  "grants d' = grants d \<Longrightarrow> refresh_index d' = refresh_index d \<Longrightarrow> retired_index d' = retired_index d \<Longrightarrow>
   index_ok d' = index_ok d"
  by (simp add: index_ok_def)

subsection \<open>Removing grants\<close>

lemma grants_remove [hm_simps]:
  "map_of (grants (snd (remove_grant i d))) = (map_of (grants d))(i := None)"
  by (auto simp: remove_grant_def delete_conv' fun_eq_iff split: option.splits)

lemma remove_grant_other [simp]:
  "clients (snd (remove_grant i d)) = clients d" "codes (snd (remove_grant i d)) = codes d"
  "used_codes (snd (remove_grant i d)) = used_codes d"
  "pending_auths (snd (remove_grant i d)) = pending_auths d"
  by (simp_all add: remove_grant_def split: option.splits)

lemma grants_ok_remove: "grants_ok m \<Longrightarrow> grants_ok (AList.delete i m)"
  unfolding grants_ok_def by (auto simp: delete_conv' distinct_delete split: if_splits)

lemma index_ok_remove:
  assumes "grants_ok (grants d)" "index_ok d"
  shows "index_ok (snd (remove_grant i d))"
proof (cases "map_of (grants d) i")
  case (Some g)
  have uniq: "j = i" if "map_of (grants d) j = Some g'" "h \<in> set (hashes g)" "h \<in> set (hashes g')" for j g' h
    using assms(1) Some that unfolding grants_ok_def by blast
  have "g_refresh_hash g \<notin> set (g_retired_refresh_hashes g)"
    using assms(1) Some by (auto simp: grants_ok_def grant_ok_def hashes_def)
  then show ?thesis
    using assms(2) Some uniq unfolding index_ok_def remove_grant_def
    by (auto simp: delete_conv' map_of_fold_delete hashes_def split: if_splits) 
qed (use assms in \<open>simp add: remove_grant_def\<close>)

lemma access_ok_remove: "access_ok d \<Longrightarrow> access_ok (snd (remove_grant i d))"
  unfolding access_ok_def
  by (auto simp: remove_grant_def hm_simps distinct_hm_retain split: option.splits if_splits) 

lemma inner_ok_remove: "inner_ok d \<Longrightarrow> inner_ok (snd (remove_grant i d))"
  using index_ok_remove [of d i] access_ok_remove [of d i] grants_ok_remove [of "grants d" i]
  by (auto simp: inner_ok_def codes_ok_def remove_grant_def split: option.splits)

lemma inner_ok_remove_grants: "inner_ok d \<Longrightarrow> inner_ok (remove_grants is d)"
  by (induction "is" arbitrary: d) (simp_all add: remove_grants_def inner_ok_remove)

lemma grants_remove_grants [hm_simps]:
  "map_of (grants (remove_grants is d)) i = (if i \<in> set is then None else map_of (grants d) i)"
  by (induction "is" arbitrary: d) (auto simp: remove_grants_def grants_remove)

lemma remove_grants_other [simp]:
  "clients (remove_grants is d) = clients d" "codes (remove_grants is d) = codes d"
  "used_codes (remove_grants is d) = used_codes d"
  "pending_auths (remove_grants is d) = pending_auths d"
  by (induction "is" arbitrary: d) (simp_all add: remove_grants_def)

subsection \<open>Pruning\<close>

lemma inner_ok_transient: "inner_ok d \<Longrightarrow> inner_ok (prune_transient t d)"
  unfolding inner_ok_def codes_ok_def access_ok_def
  by (auto simp: prune_transient_def index_ok_def hm_simps distinct_hm_retain set_hm_retain
      split: option.splits if_splits)

lemma inner_ok_clients [simp]: "inner_ok (d\<lparr>clients := cs\<rparr>) = inner_ok d"
  by (simp add: inner_ok_def index_ok_def access_ok_def codes_ok_def)

lemma inner_ok_pending [simp]: "inner_ok (d\<lparr>pending_auths := ps\<rparr>) = inner_ok d"
  by (simp add: inner_ok_def index_ok_def access_ok_def codes_ok_def)

lemma inner_ok_prune: "inner_ok d \<Longrightarrow> inner_ok (prune t d)"
  by (simp add: prune_def Let_def inner_ok_remove_grants inner_ok_transient)

text \<open>Pruning only drops entries.\<close>

lemma prune_grants_le:
  "map_of (grants (prune t d)) i = Some g \<Longrightarrow> map_of (grants d) i = Some g"
  by (auto simp: prune_def Let_def hm_simps prune_transient_def split: if_splits)

lemma prune_grants_live:
  assumes "grants_ok (grants d)" "map_of (grants (prune t d)) i = Some g"
  shows "t < g_refresh_expires_at g"
proof (rule ccontr)
  assume "\<not> t < g_refresh_expires_at g"
  moreover have g: "map_of (grants d) i = Some g" using prune_grants_le assms(2) .
  moreover from g have "g_id g = i" "g \<in> set (vals (grants d))"
    using assms(1) grants_ok_vals [OF assms(1)] by (auto simp: grants_ok_def)
  ultimately have "i \<in> set (expired_grants t (prune_transient t d))"
    by (auto simp: expired_grants_def prune_transient_def)
  with assms(2) show False by (simp add: prune_def Let_def hm_simps)
qed

lemma prune_codes:
  "codes (prune t d) = hm_retain (\<lambda>c. ac_expires_at c > t) (codes d)"
  "used_codes (prune t d) = hm_retain (\<lambda>(_, until). until > t) (used_codes d)"
  by (simp_all add: prune_def Let_def prune_transient_def)

subsection \<open>Rebuilding the indexes\<close>

lemma index_fold:
  "refresh_index (fold index_grant gs d) =
     fold (\<lambda>g. AList.update (g_refresh_hash g) (g_id g)) gs (refresh_index d)"
  "retired_index (fold index_grant gs d) =
     fold (\<lambda>(r, i). AList.update r i)
       (concat (map (\<lambda>g. map (\<lambda>r. (r, g_id g)) (g_retired_refresh_hashes g)) gs)) (retired_index d)"
  by (induction gs arbitrary: d) (simp_all add: index_grant_def fold_map comp_def)

lemma index_fold_other [simp]:
  "grants (fold index_grant gs d) = grants d" "access (fold index_grant gs d) = access d"
  "codes (fold index_grant gs d) = codes d" "used_codes (fold index_grant gs d) = used_codes d"
  "clients (fold index_grant gs d) = clients d" "pending_auths (fold index_grant gs d) = pending_auths d"
  by (induction gs arbitrary: d) (simp_all add: index_grant_def)

lemma rebuild_other [simp]:
  "grants (rebuild_indexes d) = grants d" "access (rebuild_indexes d) = access d"
  "codes (rebuild_indexes d) = codes d" "used_codes (rebuild_indexes d) = used_codes d"
  "clients (rebuild_indexes d) = clients d" "pending_auths (rebuild_indexes d) = pending_auths d"
  by (simp_all add: rebuild_indexes_def)

lemma empty_index:
  "map_of (refresh_index (d\<lparr>refresh_index := [], retired_index := []\<rparr>)) = Map.empty"
  "map_of (retired_index (d\<lparr>refresh_index := [], retired_index := []\<rparr>)) = Map.empty"
  by simp_all

lemma index_ok_rebuild:
  assumes "grants_ok (grants d)" shows "index_ok (rebuild_indexes d)"
proof -
  have V: "g \<in> set (vals (grants d)) \<longleftrightarrow> map_of (grants d) (g_id g) = Some g" for g
    by (rule grants_ok_vals [OF assms])
  have uniq: "g_id g = g_id g'" if "map_of (grants d) (g_id g) = Some g" "map_of (grants d) (g_id g') = Some g'"
    "h \<in> set (hashes g)" "h \<in> set (hashes g')" for g g' h
    using assms that unfolding grants_ok_def by blast
  have uniq_ret: "g_id g = g_id g'" if "map_of (grants d) (g_id g) = Some g" "map_of (grants d) (g_id g') = Some g'"
    "h \<in> set (g_retired_refresh_hashes g)" "h \<in> set (g_retired_refresh_hashes g')" for g g' h
    by (rule uniq [OF that(1,2), of h]) (simp_all add: hashes_def that(3,4))
  have ids: "map_of (grants d) i = Some g \<Longrightarrow> g_id g = i" for i g
    using assms unfolding grants_ok_def by blast
  have "map_of (refresh_index (rebuild_indexes d)) h = Some i \<longleftrightarrow>
      (\<exists>g \<in> set (vals (grants d)). g_refresh_hash g = h \<and> g_id g = i)" for h i
    unfolding rebuild_indexes_def index_fold map_of_fold_update empty_index
    by (subst fold_upd_iff) (auto simp del: set_map simp: V hashes_def intro: uniq)
  then have r: "map_of (refresh_index (rebuild_indexes d)) h = Some i \<longleftrightarrow>
      (\<exists>g. map_of (grants d) i = Some g \<and> g_refresh_hash g = h)" for h i
    using V ids by (metis (no_types))
  define ps where "ps = concat (map (\<lambda>g. map (\<lambda>r. (r, g_id g)) (g_retired_refresh_hashes g)) (vals (grants d)))"
  have ps: "p \<in> set ps \<longleftrightarrow> (\<exists>g. map_of (grants d) (g_id g) = Some g \<and> fst p \<in> set (g_retired_refresh_hashes g) \<and>
      snd p = g_id g)" for p
  proof -
    have "p \<in> set (concat (map (\<lambda>g. map (\<lambda>r. (r, g_id g)) (g_retired_refresh_hashes g)) gs)) \<longleftrightarrow>
        (\<exists>g \<in> set gs. fst p \<in> set (g_retired_refresh_hashes g) \<and> snd p = g_id g)" for gs
      by (cases p) auto
    then show ?thesis unfolding ps_def using V by blast
  qed
  have "map_of (retired_index (rebuild_indexes d)) h = Some i \<longleftrightarrow> (\<exists>p \<in> set ps. fst p = h \<and> snd p = i)" for h i
    unfolding rebuild_indexes_def index_fold case_prod_beta map_of_fold_update ps_def [symmetric] empty_index
    by (subst fold_upd_iff) (auto simp: ps intro: uniq_ret)
  moreover have "(\<exists>p \<in> set ps. fst p = h \<and> snd p = i) \<longleftrightarrow>
      (\<exists>g. map_of (grants d) i = Some g \<and> h \<in> set (g_retired_refresh_hashes g))" for h i
  proof
    assume "\<exists>p \<in> set ps. fst p = h \<and> snd p = i"
    then obtain p where "p \<in> set ps" "fst p = h" "snd p = i" by auto
    then show "\<exists>g. map_of (grants d) i = Some g \<and> h \<in> set (g_retired_refresh_hashes g)"
      using ps [of p] by auto
  next
    assume "\<exists>g. map_of (grants d) i = Some g \<and> h \<in> set (g_retired_refresh_hashes g)"
    then have "(h, i) \<in> set ps" unfolding ps using ids by auto
    then show "\<exists>p \<in> set ps. fst p = h \<and> snd p = i" by force
  qed
  ultimately have "map_of (retired_index (rebuild_indexes d)) h = Some i \<longleftrightarrow>
      (\<exists>g. map_of (grants d) i = Some g \<and> h \<in> set (g_retired_refresh_hashes g))" for h i
    by (simp only:)
  with r show ?thesis by (simp add: index_ok_def)
qed

subsection \<open>Issuing tokens\<close>

lemma issue_access_other [simp]:
  "grants (snd (issue_access env rnd g sc t d)) = grants d"
  "refresh_index (snd (issue_access env rnd g sc t d)) = refresh_index d"
  "retired_index (snd (issue_access env rnd g sc t d)) = retired_index d"
  "codes (snd (issue_access env rnd g sc t d)) = codes d"
  "used_codes (snd (issue_access env rnd g sc t d)) = used_codes d"
  "clients (snd (issue_access env rnd g sc t d)) = clients d"
  by (simp_all add: issue_access_def Let_def)

lemma access_ok_issue:
  assumes "distinct (map fst (access d))"
    and "\<And>h a. map_of (access d) h = Some a \<Longrightarrow>
        \<exists>g. map_of (grants d') (ai_grant_id a) = Some g \<and> token_of a g"
    and "map_of (grants d') (g_id g) = Some g" and "sc \<noteq> []" and "set sc \<subseteq> set (g_scopes g)"
    and "access d' = access (snd (issue_access env rnd g sc t d))"
  shows "access_ok d'"
  using assms
  by (auto simp: access_ok_def issue_access_def Let_def hm_simps distinct_update token_of_def split: if_splits)

lemma set_normalize [simp]: "set (normalize_scopes ss) = set ss \<inter> set ALL_SCOPES"
  by (auto simp: normalize_scopes_def)

lemma grants_ok_insert:
  assumes "grants_ok m" "grant_ok g"
    and "\<And>j g' h. map_of m j = Some g' \<Longrightarrow> j \<noteq> g_id g \<Longrightarrow> h \<in> set (hashes g) \<Longrightarrow> h \<notin> set (hashes g')"
  shows "grants_ok (AList.update (g_id g) g m)"
proof -
  let ?m = "AList.update (g_id g) g m"
  show ?thesis
  proof (rule grants_okI)
    show "distinct (map fst ?m)" using assms(1) by (simp add: grants_ok_def distinct_update)
    show "g_id a = i \<and> grant_ok a" if "map_of ?m i = Some a" for i a
      using that assms(2) grants_okD [OF assms(1), of i a] by (auto simp: update_conv' split: if_splits)
    show "i = j" if "map_of ?m i = Some a" "map_of ?m j = Some b" "h \<in> set (hashes a)" "h \<in> set (hashes b)"
      for i j a b h
      using that assms(3) [of i a h] assms(3) [of j b h] grants_okD(3) [OF assms(1), of i a j b h]
      by (auto simp: update_conv' split: if_splits)
  qed
qed

text \<open>Recording a new grant whose id and refresh hash are unused.\<close>

lemma inner_ok_record:
  assumes "inner_ok d" "grant_ok g" "map_of (grants d) (g_id g) = None" "g_retired_refresh_hashes g = []"
    and fresh: "\<And>j g'. map_of (grants d) j = Some g' \<Longrightarrow> g_refresh_hash g \<notin> set (hashes g')"
  shows "inner_ok (snd (record_grant env rnd ch t g d))"
proof -
  let ?d = "snd (record_grant env rnd ch t g d)"
  have g: "grants ?d = AList.update (g_id g) g (grants d)"
    "refresh_index ?d = AList.update (g_refresh_hash g) (g_id g) (refresh_index d)"
    "retired_index ?d = retired_index d" "codes ?d = codes d"
    "used_codes ?d = AList.update ch (g_id g, t + USED_CODE_MEMORY_SECS) (used_codes d)"
    "access ?d = access (snd (issue_access env rnd g (g_scopes g) t d))"
    by (simp_all add: record_grant_def case_prod_beta Let_def)
  have "grants_ok (grants ?d)"
    unfolding g using assms by (intro grants_ok_insert) (auto simp: inner_ok_def hashes_def)
  moreover have "index_ok ?d"
    using assms(1,3,4) fresh unfolding inner_ok_def index_ok_def g
    by (auto simp: update_conv' hashes_def dest: fresh)
  moreover have "access_ok ?d"
  proof (rule access_ok_issue [OF _ _ _ _ _ g(6)])
    show "distinct (map fst (access d))" using assms(1) by (simp add: inner_ok_def access_ok_def)
    show "\<exists>g. map_of (grants ?d) (ai_grant_id a) = Some g \<and> token_of a g" if "map_of (access d) h = Some a" for h a
      using assms(1,3) that unfolding inner_ok_def access_ok_def g by (fastforce simp: update_conv')
  qed (use assms in \<open>auto simp: g update_conv' grant_ok_def\<close>)
  ultimately show ?thesis
    using assms(1) unfolding inner_ok_def codes_ok_def g by (simp add: distinct_update)
qed

lemma grant_ok_new:
  assumes "normalize_scopes sc \<noteq> []"
  shows "grant_ok (new_grant env t rg rf cid nm ac sc fp)"
  using assms by (auto simp: grant_ok_def new_grant_def hashes_def REFRESH_TTL_SECS_def GRANT_MAX_LIFETIME_SECS_def)

lemma rotate_simps [simp]:
  "g_id (rotate_refresh t h g) = g_id g" "g_refresh_hash (rotate_refresh t h g) = h"
  "g_client_id (rotate_refresh t h g) = g_client_id g" "g_username (rotate_refresh t h g) = g_username g"
  "g_source (rotate_refresh t h g) = g_source g" "g_scopes (rotate_refresh t h g) = g_scopes g"
  "g_resource (rotate_refresh t h g) = g_resource g" "g_credential_fp (rotate_refresh t h g) = g_credential_fp g"
  "g_created_at (rotate_refresh t h g) = g_created_at g"
  by (simp_all add: rotate_refresh_def Let_def)

lemma hashes_rotate: "set (hashes (rotate_refresh t h g)) \<subseteq> insert h (set (hashes g))"
  by (auto simp: rotate_refresh_def Let_def hashes_def dest!: in_set_dropD)

lemma grant_ok_rotate:
  assumes "grant_ok g" "h \<notin> set (hashes g)"
  shows "grant_ok (rotate_refresh t h g)"
proof -
  let ?r = "g_retired_refresh_hashes g @ [g_refresh_hash g]"
  have "distinct ?r" using assms(1) by (auto simp: grant_ok_def hashes_def)
  moreover have "h \<notin> set ?r" using assms(2) by (auto simp: hashes_def)
  ultimately have "distinct (h # drop (length ?r - RETIRED_REFRESH_KEEP) ?r)"
    using distinct_drop by (metis distinct.simps(2) in_set_dropD)
  with assms(1) show ?thesis
    by (simp add: grant_ok_def rotate_refresh_def Let_def hashes_def)
qed

lemma token_of_rotate [simp]: "token_of a (rotate_refresh t h g) = token_of a g"
  by (simp add: token_of_def)

lemma inner_ok_rotate:
  assumes "inner_ok d" "map_of (grants d) i = Some g" "sc \<noteq> []" "set sc \<subseteq> set (g_scopes g)"
    and fresh: "\<And>j g'. map_of (grants d) j = Some g' \<Longrightarrow> h \<notin> set (hashes g')"
    and r: "rotate_grant env rnd t h sc i d = Inr (acc, d')"
  shows "inner_ok d'"
proof -
  let ?g = "rotate_refresh t h g"
  from assms have G: "grants_ok (grants d)" "g_id g = i" "grant_ok g"
    by (auto simp: inner_ok_def grants_ok_def)
  let ?e = "rebuild_indexes (d\<lparr>grants := AList.update i ?g (grants d)\<rparr>)"
  have d': "d' = snd (issue_access env rnd ?g sc t ?e)"
    using r assms(2) by (simp add: rotate_grant_def Let_def case_prod_beta)
  have ok: "grants_ok (AList.update i ?g (grants d))"
  proof -
    have "grants_ok (AList.update (g_id ?g) ?g (grants d))"
    proof (rule grants_ok_insert [OF G(1) grant_ok_rotate [OF G(3) fresh [OF assms(2)]]])
      fix j g' h' assume j: "map_of (grants d) j = Some g'" "j \<noteq> g_id ?g" "h' \<in> set (hashes ?g)"
      with hashes_rotate have "h' = h \<or> h' \<in> set (hashes g)" by blast
      with j G assms(2) fresh [OF j(1)] show "h' \<notin> set (hashes g')" unfolding grants_ok_def by auto
    qed
    with G(2) show ?thesis by simp
  qed
  have "access_ok d'"
  proof (rule access_ok_issue [of ?e])
    show "distinct (map fst (access ?e))" using assms(1) by (simp add: inner_ok_def access_ok_def)
    show "\<exists>g. map_of (grants d') (ai_grant_id a) = Some g \<and> token_of a g" if "map_of (access ?e) h = Some a" for h a
      using assms(1,2) that unfolding inner_ok_def access_ok_def d' by (fastforce simp: update_conv')
    show "map_of (grants d') (g_id ?g) = Some ?g" by (simp add: d' update_conv' G)
  qed (use assms in \<open>simp_all add: d'\<close>)
  moreover have "index_ok d'"
    using index_ok_rebuild [of "d\<lparr>grants := AList.update i ?g (grants d)\<rparr>"] ok
    by (simp add: d' index_ok_def)
  ultimately show ?thesis
    using assms(1) ok unfolding inner_ok_def codes_ok_def by (simp add: d')
qed

lemma inner_ok_touch:
  assumes "inner_ok d" shows "inner_ok (touch_grant t i d)"
proof (cases "map_of (grants d) i")
  case (Some g)
  let ?g = "g\<lparr>g_last_used_at := t\<rparr>"
  have m: "grants_ok (grants d)" using assms by (simp add: inner_ok_def)
  have G: "grants_ok (grants d)" "g_id g = i" "grant_ok g" "hashes ?g = hashes g"
    using m grants_okD [OF m Some] by (simp_all add: hashes_def)
  have "grants_ok (AList.update (g_id ?g) ?g (grants d))"
  proof (rule grants_ok_insert [OF G(1)])
    show "grant_ok ?g" using G(3) by (simp add: grant_ok_def hashes_def)
    show "h \<notin> set (hashes g')" if "map_of (grants d) j = Some g'" "j \<noteq> g_id ?g" "h \<in> set (hashes ?g)" for j g' h
      using that G grants_okD(3) [OF G(1) Some, of j g' h] by auto
  qed
  then have "grants_ok (AList.update i ?g (grants d))" using G(2) by simp
  moreover have "token_of a ?g = token_of a g" for a by (simp add: token_of_def)
  moreover have "touch_grant t i d = d\<lparr>grants := AList.update i ?g (grants d)\<rparr>"
    using Some by (simp add: touch_grant_def)
  moreover have "index_ok (d\<lparr>grants := AList.update i ?g (grants d)\<rparr>)"
    using assms Some unfolding inner_ok_def index_ok_def by (auto simp: update_conv')
  moreover have "access_ok (d\<lparr>grants := AList.update i ?g (grants d)\<rparr>)"
    using assms Some calculation(2) unfolding inner_ok_def access_ok_def by (fastforce simp: update_conv')
  ultimately show ?thesis using assms by (simp add: inner_ok_def codes_ok_def)
qed (use assms in \<open>simp add: touch_grant_def\<close>)

section \<open>Requests in flight\<close>

text \<open>
  The server with its requests: \<open>exch\<close> are code exchanges and \<open>refr\<close> refreshes between
  their two locked phases. Each action is one critical section of the store (or a restart, which
  reloads the state file and forgets the requests). The user's authority, looked up without the
  lock, is an argument of the finishing action.
\<close>

record oauth_sys =
  store :: oauth_store
  exch :: "(int \<times> string \<times> string \<times> auth_code) list"
  refr :: "(int \<times> grant \<times> string list option) list"

datatype oauth_action =
    Register int "string option" string "code_points option" "string list" string
  | ListClients int
  | DeleteClient "string option" string
  | BeginPending int string pending_auth
  | PeekPending int string
  | TakePending int string
  | IssueCode int "string option" string pending_auth string auth_source "string list"
  | ExchangeStart int "string option" string string string string "string option"
  | ExchangeFinish nat "string option" string string string "user_authority option"
  | RefreshStart int "string option" string string "string option" "string list option"
  | RefreshFinish nat "string option" string string "user_authority option"
  | ValidateAccess int string string
  | RevokeToken "string option" string "string option"
  | RevokeGrant "string option" string
  | RevokeUser "string option" string
  | RevokeAll "string option"
  | ListGrants int
  | Restart

definition drop_nth :: "nat \<Rightarrow> 'a list \<Rightarrow> 'a list" where
  "drop_nth n xs = take n xs @ drop (Suc n) xs"

fun oauth_step :: "oauth_env \<Rightarrow> oauth_action \<Rightarrow> oauth_sys \<Rightarrow> oauth_sys" where
  "oauth_step env (Register t io rnd nm us from) y =
     y\<lparr>store := snd (register_client env t io rnd nm us from (store y))\<rparr>"
| "oauth_step env (ListClients t) y = y\<lparr>store := snd (list_clients t (store y))\<rparr>"
| "oauth_step env (DeleteClient io cid) y = y\<lparr>store := snd (delete_client io cid (store y))\<rparr>"
| "oauth_step env (BeginPending t rnd p) y = y\<lparr>store := snd (begin_pending t rnd p (store y))\<rparr>"
| "oauth_step env (PeekPending t i) y = y\<lparr>store := snd (peek_pending t i (store y))\<rparr>"
| "oauth_step env (TakePending t i) y = y\<lparr>store := snd (take_pending t i (store y))\<rparr>"
| "oauth_step env (IssueCode t io rnd p u src granted) y =
     y\<lparr>store := snd (issue_code env t io rnd p u src granted (store y))\<rparr>"
| "oauth_step env (ExchangeStart t io code cid uri ver res) y =
     (let (r, s) = exchange_phase1 env t io code cid uri ver res (store y) in
      y\<lparr>store := s, exch := exch y @
        (case r of Inl _ \<Rightarrow> [] | Inr ac \<Rightarrow> [(t, secret_hash env ''code'' code, cid, ac)])\<rparr>)"
| "oauth_step env (ExchangeFinish n io ra rr rg auth) y =
     (if n < length (exch y) then
        let (t, ch, cid, ac) = exch y ! n in
        y\<lparr>store := snd (exchange_finish env t io ra rr rg ch cid ac auth (store y)),
          exch := drop_nth n (exch y)\<rparr>
      else y)"
| "oauth_step env (RefreshStart t io tok cid res req) y =
     (let (r, s) = refresh_phase1 env t io tok cid res (store y) in
      y\<lparr>store := s, refr := refr y @ (case r of Inl _ \<Rightarrow> [] | Inr g \<Rightarrow> [(t, g, req)])\<rparr>)"
| "oauth_step env (RefreshFinish n io ra rr auth) y =
     (if n < length (refr y) then
        let (t, g, req) = refr y ! n in
        y\<lparr>store := snd (refresh_phase3 env t io ra rr g req auth (store y)),
          refr := drop_nth n (refr y)\<rparr>
      else y)"
| "oauth_step env (ValidateAccess t tok res) y =
     y\<lparr>store := snd (validate_access env t tok res (store y))\<rparr>"
| "oauth_step env (RevokeToken io tok cid) y = y\<lparr>store := snd (revoke_token env io tok cid (store y))\<rparr>"
| "oauth_step env (RevokeGrant io i) y = y\<lparr>store := snd (revoke_grant io i (store y))\<rparr>"
| "oauth_step env (RevokeUser io u) y = y\<lparr>store := snd (revoke_user io u (store y))\<rparr>"
| "oauth_step env (RevokeAll io) y = y\<lparr>store := snd (revoke_all io (store y))\<rparr>"
| "oauth_step env (ListGrants t) y = y\<lparr>store := snd (list_grants t (store y))\<rparr>"
| "oauth_step env Restart y = \<lparr>store = load (Some (disk (store y))), exch = [], refr = []\<rparr>"

section \<open>Invariants of the store\<close>

text \<open>
  What a predicate \<open>ok\<close> on the live state and \<open>okd\<close> on the state file must promise to be kept
  by every operation that only looks up, drops or marks entries. The operations that create
  something (a code, a grant, a rotated grant) keep it when their one insertion does.
\<close>

locale oauth_invariant =
  fixes ok :: "inner \<Rightarrow> bool" and okd :: "persisted \<Rightarrow> bool"
  assumes ok_snapshot: "ok d \<Longrightarrow> okd (snapshot d)"
    and ok_prune: "ok d \<Longrightarrow> ok (prune t d)"
    and ok_remove: "ok d \<Longrightarrow> ok (snd (remove_grant i d))"
    and ok_clients: "ok d \<Longrightarrow> ok (d\<lparr>clients := cs\<rparr>)"
    and ok_pending: "ok d \<Longrightarrow> ok (d\<lparr>pending_auths := ps\<rparr>)"
    and ok_delete_code: "ok d \<Longrightarrow> ok (d\<lparr>codes := AList.delete h (codes d)\<rparr>)"
    and ok_delete_access: "ok d \<Longrightarrow> ok (d\<lparr>access := AList.delete h (access d)\<rparr>)"
    and ok_touch: "ok d \<Longrightarrow> ok (touch_grant t i d)"
begin

definition okS :: "oauth_store \<Rightarrow> bool" where
  "okS s \<longleftrightarrow> ok (live s) \<and> okd (disk s)"

lemma commit_okS:
  assumes "okS s" and "\<And>r d. f (live s) = Inr (r, d) \<Longrightarrow> ok d"
  shows "okS (snd (commit io from f s))"
  using assms ok_snapshot by (auto simp: commit_def okS_def split: sum.splits option.splits)

lemma okS_live: "okS s \<Longrightarrow> ok (live s)"
  by (simp add: okS_def)

lemma prune_okS: "okS s \<Longrightarrow> okS (prune_live t s)"
  by (simp add: okS_def prune_live_def ok_prune)

lemma remove_ok_all: "ok d \<Longrightarrow> ok (remove_grants is d)"
  by (induction "is" arbitrary: d) (simp_all add: remove_grants_def ok_remove)

lemma revoke_commit_okS: "okS s \<Longrightarrow> okS (snd (commit io from (\<lambda>d. Ok (remove_grant i d)) s))"
  by (rule commit_okS) (auto simp: okS_def dest: ok_remove [of _ i] split: prod.splits)

lemma register_okS: "okS s \<Longrightarrow> okS (snd (register_client env t io rnd nm us from s))"
proof -
  assume "okS s"
  then have "okS (prune_live t s)" by (rule prune_okS)
  then show ?thesis using \<open>okS s\<close>
    by (auto simp: register_client_def Let_def case_prod_beta evict_unapproved_client_def okS_def
        intro!: commit_okS [unfolded okS_def] ok_clients split: sum.splits if_splits option.splits)
qed

lemma delete_client_okS: "okS s \<Longrightarrow> okS (snd (delete_client io cid s))"
  unfolding delete_client_def
  by (rule commit_okS) (auto simp: Let_def okS_def intro!: remove_ok_all ok_clients)

lemma pending_okS:
  "okS s \<Longrightarrow> okS (snd (begin_pending t rnd p s))" "okS s \<Longrightarrow> okS (snd (peek_pending t i s))"
  "okS s \<Longrightarrow> okS (snd (take_pending t i s))"
  by (auto simp: begin_pending_def peek_pending_def take_pending_def Let_def okS_def prune_live_def
      intro!: ok_pending ok_prune split: option.splits)

lemma list_okS: "okS s \<Longrightarrow> okS (snd (list_clients t s))" "okS s \<Longrightarrow> okS (snd (list_grants t s))"
  by (simp_all add: list_clients_def list_grants_def Let_def prune_okS)

lemma approve_ok: "ok d \<Longrightarrow> ok (approve_client cid t d)"
  by (simp add: approve_client_def ok_clients split: option.splits)

lemma issue_code_okS:
  assumes "okS s" and "\<And>d ac. ok d \<Longrightarrow> set (ac_scopes ac) \<subseteq> set ALL_SCOPES \<Longrightarrow>
      ok (d\<lparr>codes := AList.update (secret_hash env ''code'' (random_token ''wsa_'' rnd)) ac (codes d)\<rparr>)"
  shows "okS (snd (issue_code env t io rnd p u src granted s))"
proof -
  note s = prune_okS [OF assms(1), of t]
  then show ?thesis
    unfolding issue_code_def Let_def
    by (auto intro!: commit_okS assms(2) approve_ok okS_live)
qed

lemma exchange1_okS: "okS s \<Longrightarrow> okS (snd (exchange_phase1 env t io code cid uri ver res s))"
  using prune_okS [of s t] ok_delete_code [of "live (prune_live t s)"]
  by (auto simp: exchange_phase1_def Let_def okS_def intro!: revoke_commit_okS [unfolded okS_def]
      split: option.splits)

lemma exchange_finish_okS:
  assumes "okS s" and "\<And>nm sc fp d. ok d \<Longrightarrow> set sc \<subseteq> set (ac_scopes ac) \<Longrightarrow> sc \<noteq> [] \<Longrightarrow> d = live s \<Longrightarrow>
     ok (snd (record_grant env ra ch t (new_grant env t rg (random_token ''wsrt_'' rr) cid nm ac sc fp) d))"
  shows "okS (snd (exchange_finish env t io ra rr rg ch cid ac auth s))"
proof (cases "exchange_phase2 ac auth")
  case (Inr p)
  then obtain sc fp where p: "p = (sc, fp)" "sc \<noteq> []" "set sc \<subseteq> set (ac_scopes ac)"
    by (auto simp: exchange_phase2_def Let_def split: option.splits if_splits)
  have "okS (snd (commit io ServerError (\<lambda>d. Ok (record_grant env ra ch t
      (new_grant env t rg (random_token ''wsrt_'' rr) cid nm ac sc fp) d)) s))" for nm
    by (rule commit_okS [OF assms(1)])
      (use assms(1) assms(2) [of "live s" sc nm fp] p in \<open>auto simp: okS_def split: prod.splits\<close>)
  then show ?thesis
    using Inr p assms(1)
    by (auto simp: exchange_finish_def exchange_phase3_def Let_def case_prod_beta split: option.splits)
qed (use assms(1) in \<open>simp add: exchange_finish_def\<close>)

lemma refresh1_okS: "okS s \<Longrightarrow> okS (snd (refresh_phase1 env t io tok cid res s))"
  using prune_okS [of s t] revoke_commit_okS [of "prune_live t s" io ServerError]
  by (auto simp: refresh_phase1_def Let_def case_prod_beta split: option.splits prod.splits sum.splits)

lemma refresh3_okS:
  assumes "okS s" and "\<And>sc acc d'. ok (live s) \<Longrightarrow> sc \<noteq> [] \<Longrightarrow> set sc \<subseteq> set (g_scopes g) \<Longrightarrow>
     map_of (refresh_index (live s)) (g_refresh_hash g) = Some (g_id g) \<Longrightarrow>
     rotate_grant env ra t (secret_hash env ''refresh'' (random_token ''wsrt_'' rr)) sc (g_id g) (live s) = Inr (acc, d') \<Longrightarrow>
     ok d'"
  shows "okS (snd (refresh_phase3 env t io ra rr g req auth s))"
proof -
  have rot: "okS (snd (commit io ServerError (rotate_grant env ra t
      (secret_hash env ''refresh'' (random_token ''wsrt_'' rr)) sc (g_id g)) s))"
    if "refresh_scopes g req a = Inr sc" "map_of (refresh_index (live s)) (g_refresh_hash g) = Some (g_id g)" for a sc
  proof (rule commit_okS [OF assms(1)])
    fix acc d' assume "rotate_grant env ra t (secret_hash env ''refresh'' (random_token ''wsrt_'' rr)) sc
      (g_id g) (live s) = Inr (acc, d')"
    moreover have "sc \<noteq> []" "set sc \<subseteq> set (g_scopes g)"
      using that(1) by (auto simp: refresh_scopes_def Let_def list_ex_iff res_bind_Inr_iff split: option.splits if_splits)
    ultimately show "ok d'" using assms that(2) by (auto simp: okS_def)
  qed
  have rm: "okS (snd (commit io ServerError (\<lambda>d. Ok (remove_grant (g_id g) d)) s))"
    by (rule revoke_commit_okS [OF assms(1)])
  show ?thesis
    using assms(1) rm rot
    by (auto simp: refresh_phase3_def Let_def case_prod_beta split: option.splits sum.splits prod.splits)
qed

lemma validate_okS: "okS s \<Longrightarrow> okS (snd (validate_access env t tok res s))"
  by (auto simp: validate_access_def Let_def okS_def ok_delete_access ok_touch split: option.splits)

lemma revoke_okS:
  "okS s \<Longrightarrow> okS (snd (revoke_token env io tok cid s))" "okS s \<Longrightarrow> okS (snd (revoke_grant io i s))"
  "okS s \<Longrightarrow> okS (snd (revoke_user io u s))" "okS s \<Longrightarrow> okS (snd (revoke_all io s))"
  by (auto simp: revoke_token_def revoke_grant_def revoke_user_def revoke_all_def revoke_ids_def okS_def
      intro!: commit_okS [unfolded okS_def] ok_remove remove_ok_all split: option.splits prod.splits)
    (metis ok_remove snd_conv)+

lemma step_okS:
  assumes "okS (store y)"
    and iss: "\<And>t io rnd p u src gr d ac. a = IssueCode t io rnd p u src gr \<Longrightarrow> ok d \<Longrightarrow>
      set (ac_scopes ac) \<subseteq> set ALL_SCOPES \<Longrightarrow>
      ok (d\<lparr>codes := AList.update (secret_hash env ''code'' (random_token ''wsa_'' rnd)) ac (codes d)\<rparr>)"
    and fin: "\<And>n io ra rr rg auth t ch cid ac nm sc fp. a = ExchangeFinish n io ra rr rg auth \<Longrightarrow>
      (t, ch, cid, ac) \<in> set (exch y) \<Longrightarrow> set sc \<subseteq> set (ac_scopes ac) \<Longrightarrow> sc \<noteq> [] \<Longrightarrow>
      ok (snd (record_grant env ra ch t
        (new_grant env t rg (random_token ''wsrt_'' rr) cid nm ac sc fp) (live (store y))))"
    and rot: "\<And>n io ra rr auth t g req sc acc d'. a = RefreshFinish n io ra rr auth \<Longrightarrow>
      (t, g, req) \<in> set (refr y) \<Longrightarrow> sc \<noteq> [] \<Longrightarrow> set sc \<subseteq> set (g_scopes g) \<Longrightarrow>
      map_of (refresh_index (live (store y))) (g_refresh_hash g) = Some (g_id g) \<Longrightarrow>
      rotate_grant env ra t (secret_hash env ''refresh'' (random_token ''wsrt_'' rr)) sc (g_id g)
        (live (store y)) = Inr (acc, d') \<Longrightarrow> ok d'"
    and load: "a = Restart \<Longrightarrow> okS (load (Some (disk (store y))))"
  shows "okS (store (oauth_step env a y))"
proof (cases a)
  case (ExchangeFinish n io ra rr rg auth)
  show ?thesis
  proof (cases "n < length (exch y)")
    case True
    obtain t ch cid ac where e: "exch y ! n = (t, ch, cid, ac)" using prod_cases4 by blast
    with True have "(t, ch, cid, ac) \<in> set (exch y)" by (metis nth_mem)
    with fin [OF ExchangeFinish this] True e assms(1) show ?thesis
      by (simp add: ExchangeFinish exchange_finish_okS)
  qed (use assms(1) in \<open>simp add: ExchangeFinish\<close>)
next
  case (RefreshFinish n io ra rr auth)
  show ?thesis
  proof (cases "n < length (refr y)")
    case True
    obtain t g req where e: "refr y ! n = (t, g, req)" using prod_cases3 by blast
    with True have "(t, g, req) \<in> set (refr y)" by (metis nth_mem)
    with rot [OF RefreshFinish this] True e assms(1) show ?thesis
      by (simp add: RefreshFinish refresh3_okS)
  qed (use assms(1) in \<open>simp add: RefreshFinish\<close>)
next
  case (IssueCode t io rnd p u src gr)
  with iss [OF IssueCode] assms(1) show ?thesis by (simp add: issue_code_okS)
qed (use assms(1) load in \<open>auto simp: register_okS delete_client_okS pending_okS list_okS validate_okS revoke_okS
    exchange1_okS refresh1_okS case_prod_beta Let_def\<close>)

end

subsection \<open>Well-formed stores\<close>

definition keyed_grants :: "grant list \<Rightarrow> (string, grant) hashmap" where
  "keyed_grants gs = map (\<lambda>g. (g_id g, g)) gs"

definition disk_ok :: "persisted \<Rightarrow> bool" where
  "disk_ok p = grants_ok (keyed_grants (ps_grants p))"

lemma keyed_vals: "grants_ok m \<Longrightarrow> keyed_grants (vals m) = m"
proof -
  assume ok: "grants_ok m"
  have "\<forall>p \<in> set m. (g_id (snd p), snd p) = p"
  proof
    fix p assume "p \<in> set m"
    then have "map_of m (fst p) = Some (snd p)"
      using ok by (simp add: grants_ok_def map_of_eq_Some_iff)
    from grants_okD(1) [OF ok this] show "(g_id (snd p), snd p) = p" by simp
  qed
  then show ?thesis by (simp add: keyed_grants_def comp_def map_idI)
qed

lemma grants_ok_mset:
  assumes "mset m' = mset m" "grants_ok m" shows "grants_ok m'"
proof -
  have "distinct (map fst m')" using assms by (metis grants_ok_def mset_eq_imp_distinct_iff mset_map)
  moreover from assms(2) have "distinct (map fst m)" by (simp add: grants_ok_def)
  ultimately have "map_of m' = map_of m"
    using assms(1) by (metis map_of_eqI mset_eq_setD set_map map_of_inject_set)
  with \<open>distinct (map fst m')\<close> assms(2) show ?thesis by (simp add: grants_ok_def)
qed

lemma disk_ok_snapshot: "grants_ok (grants d) \<Longrightarrow> disk_ok (snapshot d)"
proof -
  assume g: "grants_ok (grants d)"
  have "mset (keyed_grants (ps_grants (snapshot d))) = mset (keyed_grants (vals (grants d)))"
    unfolding keyed_grants_def mset_map by (simp add: snapshot_def)
  then have "mset (keyed_grants (ps_grants (snapshot d))) = mset (grants d)"
    by (simp only: keyed_vals [OF g])
  from grants_ok_mset [OF this g] show ?thesis by (simp only: disk_ok_def)
qed

lemma update_new: "k \<notin> fst ` set m \<Longrightarrow> AList.update k v m = m @ [(k, v)]"
  by (induction m) auto

lemma fold_update_keyed:
  "distinct (map fst m @ map g_id gs) \<Longrightarrow>
   fold (\<lambda>g. AList.update (g_id g) g) gs m = m @ keyed_grants gs"
  by (induction gs arbitrary: m) (auto simp: update_new keyed_grants_def)

lemma load_grants:
  assumes "disk_ok p" shows "grants (live (load (Some p))) = keyed_grants (ps_grants p)"
proof -
  have "distinct (map g_id (ps_grants p))"
    using assms by (simp add: disk_ok_def grants_ok_def keyed_grants_def comp_def)
  then show ?thesis by (simp add: load_def Let_def fold_update_keyed)
qed

lemma inner_ok_load: "disk_ok p \<Longrightarrow> inner_ok (live (load (Some p)))"
proof -
  assume p: "disk_ok p"
  let ?d = "empty_inner\<lparr>clients := fold (\<lambda>c. AList.update (c_client_id c) c) (ps_clients p) [],
       grants := fold (\<lambda>g. AList.update (g_id g) g) (ps_grants p) []\<rparr>"
  have l: "live (load (Some p)) = rebuild_indexes ?d" by (simp add: load_def Let_def)
  have g: "grants_ok (grants ?d)" using load_grants [OF p] p by (simp add: l disk_ok_def)
  from index_ok_rebuild [OF g] g show ?thesis
    unfolding inner_ok_def l by (simp add: access_ok_def codes_ok_def empty_inner_def)
qed

interpretation wf: oauth_invariant inner_ok disk_ok
proof
  show "inner_ok d \<Longrightarrow> disk_ok (snapshot d)" for d by (rule disk_ok_snapshot) (simp add: inner_ok_def)
  show "inner_ok d \<Longrightarrow> inner_ok (d\<lparr>codes := AList.delete h (codes d)\<rparr>)" for d h
    by (auto simp: inner_ok_def index_ok_def access_ok_def codes_ok_def distinct_delete AList.delete_eq
        distinct_map_filter_key)
  show "inner_ok d \<Longrightarrow> inner_ok (d\<lparr>access := AList.delete h (access d)\<rparr>)" for d h
    by (auto simp: inner_ok_def index_ok_def access_ok_def codes_ok_def distinct_delete delete_conv' split: if_splits)
qed (simp_all add: inner_ok_prune inner_ok_remove inner_ok_touch)

subsection \<open>Approvals in flight\<close>

text \<open>The part of a grant the user approved; rotation and use change only the rest.\<close>

definition same_approval :: "grant \<Rightarrow> grant \<Rightarrow> bool" where
  "same_approval g g' =
     (g_id g = g_id g' \<and> g_client_id g = g_client_id g' \<and> g_username g = g_username g' \<and>
      g_source g = g_source g' \<and> g_scopes g = g_scopes g' \<and> g_resource g = g_resource g' \<and>
      g_credential_fp g = g_credential_fp g' \<and> g_created_at g = g_created_at g')"

lemma same_approval_simps [simp]:
  "same_approval g (g'\<lparr>g_last_used_at := t\<rparr>) = same_approval g g'"
  "same_approval g (rotate_refresh t h g') = same_approval g g'"
  by (simp_all add: same_approval_def)

definition approves :: "grant set \<Rightarrow> inner \<Rightarrow> bool" where
  "approves J d \<longleftrightarrow> (\<forall>g \<in> J. \<forall>g'. map_of (grants d) (g_id g) = Some g' \<longrightarrow> same_approval g g')"

interpretation appr: oauth_invariant "approves J" "\<lambda>_. True" for J
proof
  show "approves J d \<Longrightarrow> approves J (prune t d)" for d t
    by (auto simp: approves_def dest!: prune_grants_le)
  show "approves J d \<Longrightarrow> approves J (snd (remove_grant i d))" for d i
    by (auto simp: approves_def hm_simps split: if_splits)
  show "approves J d \<Longrightarrow> approves J (touch_grant t i d)" for d t i
    by (auto simp: approves_def touch_grant_def update_conv' split: option.splits if_splits)
qed (simp_all add: approves_def)

subsection \<open>Grants that are gone, codes that are spent\<close>

definition gone :: "string \<Rightarrow> inner \<Rightarrow> bool" where
  "gone i d \<longleftrightarrow> (\<forall>p \<in> set (grants d). fst p \<noteq> i \<and> g_id (snd p) \<noteq> i)"

definition gone_disk :: "string \<Rightarrow> persisted \<Rightarrow> bool" where
  "gone_disk i p \<longleftrightarrow> i \<notin> g_id ` set (ps_grants p)"

lemma gone_grants: "set (grants d') \<subseteq> set (grants d) \<Longrightarrow> gone i d \<Longrightarrow> gone i d'"
  by (auto simp: gone_def)

lemma set_grants_remove: "set (grants (snd (remove_grant i d))) \<subseteq> set (grants d)"
  by (auto simp: remove_grant_def AList.delete_eq split: option.splits)

lemma set_grants_prune: "set (grants (prune t d)) \<subseteq> set (grants d)"
proof -
  have "set (grants (remove_grants is d)) \<subseteq> set (grants d)" for "is" d
    by (induction "is" arbitrary: d) (use set_grants_remove in \<open>fastforce simp: remove_grants_def\<close>)+
  from this [of _ "prune_transient t d"] show ?thesis
    by (simp add: prune_def Let_def) (simp add: prune_transient_def)
qed

lemma set_update_cases: "p \<in> set (AList.update k v m) \<Longrightarrow> p = (k, v) \<or> p \<in> set m"
  by (induction m) (auto split: if_splits)

lemma gone_update: "gone i d \<Longrightarrow> k \<noteq> i \<Longrightarrow> g_id g \<noteq> i \<Longrightarrow> gone i (d\<lparr>grants := AList.update k g (grants d)\<rparr>)"
  by (auto simp: gone_def dest!: set_update_cases)

lemma gone_lookup: "gone i d \<Longrightarrow> map_of (grants d) k = Some g \<Longrightarrow> k \<noteq> i \<and> g_id g \<noteq> i"
  by (auto simp: gone_def dest!: map_of_SomeD)

interpretation gone: oauth_invariant "gone i" "gone_disk i" for i
proof
  show "gone i d \<Longrightarrow> gone_disk i (snapshot d)" for d
    by (auto simp: gone_def gone_disk_def snapshot_def)
  show "gone i d \<Longrightarrow> gone i (prune t d)" for d t by (rule gone_grants [OF set_grants_prune])
  show "gone i d \<Longrightarrow> gone i (snd (remove_grant j d))" for d j by (rule gone_grants [OF set_grants_remove])
  show "gone i d \<Longrightarrow> gone i (touch_grant t j d)" for d t j
    by (auto simp: touch_grant_def split: option.splits dest: gone_lookup intro!: gone_update)
qed (simp_all add: gone_def)

definition spent :: "string \<Rightarrow> inner \<Rightarrow> bool" where
  "spent h d \<longleftrightarrow> h \<notin> fst ` set (codes d)"

interpretation spent: oauth_invariant "spent h" "\<lambda>_. True" for h
proof
  show "spent h d \<Longrightarrow> spent h (prune t d)" for d t by (auto simp: spent_def prune_codes set_hm_retain)
  show "spent h d \<Longrightarrow> spent h (touch_grant t i d)" for d t i
    by (simp add: spent_def touch_grant_def split: option.splits)
  show "spent h d \<Longrightarrow> spent h (d\<lparr>codes := AList.delete k (codes d)\<rparr>)" for d k
    by (auto simp: spent_def AList.delete_eq)
qed (simp_all add: spent_def)

section \<open>Reachable servers\<close>

text \<open>
  The randomness of \<^verbatim>\<open>random_token\<close>: a new grant id and a new refresh token's hash differ from
  those in the store and in flight.
\<close>

definition fresh_refresh :: "oauth_env \<Rightarrow> string \<Rightarrow> inner \<Rightarrow> bool" where
  "fresh_refresh env rr d =
     list_all (\<lambda>g. secret_hash env ''refresh'' (random_token ''wsrt_'' rr) \<notin> set (hashes g)) (vals (grants d))"

fun oauth_fresh :: "oauth_env \<Rightarrow> oauth_action \<Rightarrow> oauth_sys \<Rightarrow> bool" where
  "oauth_fresh env (ExchangeFinish n io ra rr rg auth) y =
     (fresh_refresh env rr (live (store y)) \<and>
      random_token ''wsg_'' rg \<notin> fst ` set (grants (live (store y))) \<and>
      list_all (\<lambda>(t, g, req). g_id g \<noteq> random_token ''wsg_'' rg) (refr y))"
| "oauth_fresh env (RefreshFinish n io ra rr auth) y = fresh_refresh env rr (live (store y))"
| "oauth_fresh env a y = True"

definition oauth_init :: oauth_sys where
  "oauth_init = \<lparr>store = load None, exch = [], refr = []\<rparr>"

inductive oauth_reachable :: "oauth_env \<Rightarrow> oauth_sys \<Rightarrow> bool" for env where
  start: "oauth_reachable env oauth_init"
| step: "oauth_reachable env y \<Longrightarrow> oauth_fresh env a y \<Longrightarrow> oauth_reachable env (oauth_step env a y)"

definition sys_ok :: "oauth_sys \<Rightarrow> bool" where
  "sys_ok y \<longleftrightarrow> inner_ok (live (store y)) \<and> disk_ok (disk (store y)) \<and>
     (\<forall>(t, ch, cid, ac) \<in> set (exch y). set (ac_scopes ac) \<subseteq> set ALL_SCOPES) \<and>
     approves {g. \<exists>t req. (t, g, req) \<in> set (refr y)} (live (store y))"

lemma fresh_refreshD:
  "fresh_refresh env rr d \<Longrightarrow> map_of (grants d) j = Some g \<Longrightarrow>
   secret_hash env ''refresh'' (random_token ''wsrt_'' rr) \<notin> set (hashes g)"
  by (force simp: fresh_refresh_def list_all_iff dest: map_of_SomeD)

end
