(* ===== verification/Oauth_Theorems.thy ===== *)
theory Oauth_Theorems
  imports Oauth_Safety
begin

text \<open>
  The properties of the OAuth server: the invariant of every reachable state, what a successful
  exchange, refresh and validation guarantee, single use of codes, detection of refresh token
  theft, and revocations that survive restarts.
\<close>

section \<open>The invariant holds\<close>

lemma inner_ok_add_code:
  assumes "inner_ok d" "set (ac_scopes ac) \<subseteq> set ALL_SCOPES"
  shows "inner_ok (d\<lparr>codes := AList.update h ac (codes d)\<rparr>)"
  using assms
  by (auto simp: inner_ok_def index_ok_def access_ok_def codes_ok_def distinct_update dest!: set_update_cases)

text \<open>Outside the retry window a retired token ends in an error, whether or not the write succeeds.\<close>

lemma refresh_phase1_unfold:
  "refresh_phase1 env t io tok cid res s =
     (let h = secret_hash env ''refresh'' tok; s = prune_live t s;
          c = (\<lambda>i. commit io ServerError (\<lambda>d. Ok (remove_grant i d)) s)
      in case map_of (retired_index (live s)) h of
        Some i \<Rightarrow>
          (case retry_of h t (map_of (grants (live s)) i) of
             Some g \<Rightarrow> (refresh_check cid res g, s)
           | None \<Rightarrow> (Err (case fst (c i) of Inl e \<Rightarrow> e
                | Inr _ \<Rightarrow> InvalidGrant ''refresh token was already used; the grant has been revoked''), snd (c i)))
      | None \<Rightarrow>
          (case Option.bind (map_of (refresh_index (live s)) h) (map_of (grants (live s))) of
             None \<Rightarrow> (Err (InvalidGrant ''refresh token is invalid or expired''), s)
           | Some g \<Rightarrow> (refresh_check cid res g, s)))"
  unfolding refresh_phase1_def Let_def
  by (intro option.case_cong refl) (auto split: prod.splits sum.splits)

lemma refresh_phase1_grant:
  assumes "inner_ok (live s)" "refresh_phase1 env t io tok cid res s = (Inr g, s')"
  shows "s' = prune_live t s" "map_of (grants (live s')) (g_id g) = Some g" "g_client_id g = cid"
    "t < g_refresh_expires_at g" "\<And>r. res = Some r \<Longrightarrow> r = g_resource g"
    "secret_hash env ''refresh'' tok = g_refresh_hash g \<or>
      (g_retired_refresh_hashes g \<noteq> [] \<and> last (g_retired_refresh_hashes g) = secret_hash env ''refresh'' tok \<and>
       t - g_last_rotated_at g \<le> REFRESH_RETRY_GRACE_SECS)"
proof -
  let ?h = "secret_hash env ''refresh'' tok" and ?s = "prune_live t s"
  have ok: "inner_ok (live ?s)" using assms(1) by (simp add: prune_live_def inner_ok_prune)
  have check: "refresh_check cid res g' = Inr g \<Longrightarrow> g' = g \<and> g_client_id g = cid \<and> (\<forall>r. res = Some r \<longrightarrow> r = g_resource g)" for g'
    by (auto simp: refresh_check_def split: if_splits option.splits)
  have r: "fst (refresh_phase1 env t io tok cid res s) = Inr g" "snd (refresh_phase1 env t io tok cid res s) = s'"
    using assms(2) by simp_all
  consider (retry) i g' where "map_of (retired_index (live ?s)) ?h = Some i"
      "retry_of ?h t (map_of (grants (live ?s)) i) = Some g'" "refresh_check cid res g' = Inr g" "s' = ?s"
    | (cur) i g' where "map_of (refresh_index (live ?s)) ?h = Some i"
      "map_of (grants (live ?s)) i = Some g'" "refresh_check cid res g' = Inr g" "s' = ?s"
  proof (cases "map_of (retired_index (live ?s)) ?h")
    case None
    from r show thesis
      by (cases "Option.bind (map_of (refresh_index (live ?s)) ?h) (map_of (grants (live ?s)))")
        (auto simp: refresh_phase1_unfold Let_def None bind_eq_Some_conv intro: that(2))
  next
    case (Some i)
    from r show thesis
      by (cases "retry_of ?h t (map_of (grants (live ?s)) i)")
        (auto simp: refresh_phase1_unfold Let_def Some intro: that(1) [OF Some])
  qed
  then have main: "s' = ?s \<and> map_of (grants (live ?s)) (g_id g) = Some g \<and> g_client_id g = cid \<and>
      (\<forall>r. res = Some r \<longrightarrow> r = g_resource g) \<and> (?h = g_refresh_hash g \<or>
      (g_retired_refresh_hashes g \<noteq> [] \<and> last (g_retired_refresh_hashes g) = ?h \<and>
       t - g_last_rotated_at g \<le> REFRESH_RETRY_GRACE_SECS))"
  proof cases
    case retry
    then have "map_of (grants (live ?s)) i = Some g" "g_retired_refresh_hashes g \<noteq> []"
      "last (g_retired_refresh_hashes g) = ?h" "t - g_last_rotated_at g \<le> REFRESH_RETRY_GRACE_SECS"
      using check [OF retry(3)] by (auto simp: retry_of_def split: option.splits if_splits)
    moreover from this ok have "g_id g = i" by (auto simp: inner_ok_def dest: grants_okD(1))
    ultimately show ?thesis using check [OF retry(3)] retry(4) by auto
  next
    case cur
    then have "map_of (grants (live ?s)) i = Some g" using check [OF cur(3)] by auto
    moreover from this ok have "g_id g = i" by (auto simp: inner_ok_def dest: grants_okD(1))
    moreover have "g_refresh_hash g = ?h"
      using ok cur(1) calculation(1) unfolding inner_ok_def index_ok_def by auto
    ultimately show ?thesis using check [OF cur(3)] cur(4) by auto
  qed
  then show "s' = ?s" "map_of (grants (live s')) (g_id g) = Some g" "g_client_id g = cid"
    "\<And>r. res = Some r \<Longrightarrow> r = g_resource g" by auto
  from main show "?h = g_refresh_hash g \<or>
      (g_retired_refresh_hashes g \<noteq> [] \<and> last (g_retired_refresh_hashes g) = ?h \<and>
       t - g_last_rotated_at g \<le> REFRESH_RETRY_GRACE_SECS)" by blast
  from main have "map_of (grants (prune t (live s))) (g_id g) = Some g" by (simp add: prune_live_def)
  with assms(1) show "t < g_refresh_expires_at g"
    by (intro prune_grants_live) (auto simp: inner_ok_def)
qed

lemma exchange_phase1_code:
  assumes "exchange_phase1 env t io code cid uri ver res s = (Inr ac, s')"
  shows "map_of (codes (live (prune_live t s))) (secret_hash env ''code'' code) = Some ac"
    "ac_client_id ac = cid" "ac_redirect_uri ac = uri" "pkce_s256_matches env ver (ac_code_challenge ac)"
    "\<And>r. res = Some r \<Longrightarrow> r = ac_resource ac"
    "s' = (prune_live t s)\<lparr>live := (live (prune_live t s))\<lparr>codes :=
       AList.delete (secret_hash env ''code'' code) (codes (live (prune_live t s)))\<rparr>\<rparr>"
  using assms
  by (auto simp: exchange_phase1_def exchange_check_def Let_def split: option.splits if_splits)

lemma wf_step:
  assumes "sys_ok y" "oauth_fresh env a y" shows "wf.okS (store (oauth_step env a y))"
proof (rule wf.step_okS)
  from assms(1) have ok: "inner_ok (live (store y))" "disk_ok (disk (store y))"
    and ap: "approves {g. \<exists>t req. (t, g, req) \<in> set (refr y)} (live (store y))"
    and ex: "\<And>t ch cid ac. (t, ch, cid, ac) \<in> set (exch y) \<Longrightarrow> set (ac_scopes ac) \<subseteq> set ALL_SCOPES"
    by (auto simp: sys_ok_def)
  show "wf.okS (store y)" using ok by (simp add: wf.okS_def)
  fix n io ra rr rg auth t ch cid ac nm sc fp
  assume a: "a = ExchangeFinish n io ra rr rg auth" and e: "(t, ch, cid, ac) \<in> set (exch y)"
    and sc: "set sc \<subseteq> set (ac_scopes ac)" "sc \<noteq> []"
  have "set (normalize_scopes sc) = set sc" using sc ex [OF e] by auto
  with sc(2) have "normalize_scopes sc \<noteq> []" by (metis set_empty)
  then have "grant_ok (new_grant env t rg (random_token ''wsrt_'' rr) cid nm ac sc fp)" by (rule grant_ok_new)
  moreover have "map_of (grants (live (store y))) (random_token ''wsg_'' rg) = None"
    using assms(2) a by (simp add: map_of_eq_None_iff)
  ultimately show "inner_ok (snd (record_grant env ra ch t
      (new_grant env t rg (random_token ''wsrt_'' rr) cid nm ac sc fp) (live (store y))))"
    using assms(2) a fresh_refreshD [of env rr "live (store y)"]
    by (intro inner_ok_record [OF ok(1)]) (auto simp: new_grant_def)
next
  from assms(1) have ok: "inner_ok (live (store y))"
    and ap: "approves {g. \<exists>t req. (t, g, req) \<in> set (refr y)} (live (store y))"
    by (auto simp: sys_ok_def)
  fix n io ra rr auth t g req sc acc d'
  assume a: "a = RefreshFinish n io ra rr auth" and r: "(t, g, req) \<in> set (refr y)"
    and sc: "sc \<noteq> []" "set sc \<subseteq> set (g_scopes g)"
    and rot: "rotate_grant env ra t (secret_hash env ''refresh'' (random_token ''wsrt_'' rr)) sc (g_id g)
        (live (store y)) = Inr (acc, d')"
  then obtain g' where g': "map_of (grants (live (store y))) (g_id g) = Some g'"
    by (auto simp: rotate_grant_def split: option.splits)
  with ap r have "g_scopes g = g_scopes g'" unfolding approves_def same_approval_def by blast
  with sc have "set sc \<subseteq> set (g_scopes g')" by simp
  from inner_ok_rotate [OF ok g' sc(1) this _ rot] assms(2) a fresh_refreshD show "inner_ok d'" by simp
qed (use assms(1) inner_ok_load in \<open>auto simp: inner_ok_add_code sys_ok_def wf.okS_def load_def Let_def\<close>)

text \<open>Requests in flight keep agreeing with the store about what was approved.\<close>

lemma approves_update:
  assumes "approves J d" "map_of (grants d) i = Some g" "grants d' = AList.update i g' (grants d)"
    and "\<And>x. same_approval x g \<Longrightarrow> same_approval x g'"
  shows "approves J d'"
  using assms by (auto simp: approves_def update_conv')

lemma approves_step:
  assumes "sys_ok y" "oauth_fresh env a y" "a \<noteq> Restart"
    and "J = {g. \<exists>t req. (t, g, req) \<in> set (refr y)}"
  shows "approves J (live (store (oauth_step env a y)))"
proof -
  have ap: "approves J (live (store y))" using assms(1,4) by (simp add: sys_ok_def)
  have "appr.okS J (store (oauth_step env a y))"
  proof (rule appr.step_okS)
    show "appr.okS J (store y)" using assms(1,4) by (simp add: appr.okS_def sys_ok_def)
    show "approves J (d\<lparr>codes := AList.update h ac (codes d)\<rparr>)" if "approves J d" for d h ac
      using that by (simp add: approves_def)
    show "approves J (snd (record_grant env ra ch t
        (new_grant env t rg (random_token ''wsrt_'' rr) cid nm ac sc fp) (live (store y))))"
      if "a = ExchangeFinish n io ra rr rg auth" for n io ra rr rg auth ch t cid nm ac sc fp
    proof -
      have "\<forall>g \<in> J. g_id g \<noteq> random_token ''wsg_'' rg" using that assms(2,4) by (auto simp: list_all_iff)
      with ap show ?thesis
        by (simp add: approves_def record_grant_def case_prod_beta Let_def update_conv' new_grant_def)
    qed
    show "approves J d'"
      if "rotate_grant env ra t h sc (g_id g) (live (store y)) = Inr (acc, d')" for ra t h sc g acc d'
    proof -
      from that obtain g' where "map_of (grants (live (store y))) (g_id g) = Some g'"
        and "grants d' = AList.update (g_id g) (rotate_refresh t h g') (grants (live (store y)))"
        by (auto simp: rotate_grant_def case_prod_beta Let_def split: option.splits)
      with ap show ?thesis by (rule approves_update) simp
    qed
  qed (use assms(3) in simp)
  then show ?thesis by (simp add: appr.okS_def)
qed

lemma set_drop_nth: "set (drop_nth n xs) \<subseteq> set xs"
  by (auto simp: drop_nth_def dest: in_set_takeD in_set_dropD)

lemma exch_step:
  assumes "sys_ok y" "(t, ch, cid, ac) \<in> set (exch (oauth_step env a y))"
  shows "set (ac_scopes ac) \<subseteq> set ALL_SCOPES"
proof (cases "(t, ch, cid, ac) \<in> set (exch y)")
  case True
  with assms(1) show ?thesis by (auto simp: sys_ok_def)
next
  case False
  with assms(2) obtain t io code cid uri ver res s' where
    p: "exchange_phase1 env t io code cid uri ver res (store y) = (Inr ac, s')"
    by (cases a) (auto simp: Let_def case_prod_beta split: sum.splits if_splits dest!: set_drop_nth [THEN subsetD],
        metis prod.collapse)
  then have "map_of (codes (live (prune_live t (store y)))) (secret_hash env ''code'' code) = Some ac"
    by (rule exchange_phase1_code)
  then have "ac \<in> set (vals (codes (live (prune_live t (store y)))))" by (force dest: map_of_SomeD)
  moreover have "inner_ok (live (prune_live t (store y)))"
    using assms(1) by (simp add: sys_ok_def prune_live_def inner_ok_prune)
  ultimately show ?thesis by (auto simp: inner_ok_def codes_ok_def)
qed

lemma refr_step:
  assumes "sys_ok y" "(t, g, req) \<in> set (refr (oauth_step env a y))" "(t, g, req) \<notin> set (refr y)"
  shows "map_of (grants (live (store (oauth_step env a y)))) (g_id g) = Some g"
proof -
  from assms(2,3) obtain t io tok cid res req where a: "a = RefreshStart t io tok cid res req"
    and "fst (refresh_phase1 env t io tok cid res (store y)) = Inr g"
    by (cases a) (auto simp: Let_def case_prod_beta split: sum.splits if_splits dest!: set_drop_nth [THEN subsetD])
  then obtain s' where p: "refresh_phase1 env t io tok cid res (store y) = (Inr g, s')"
    by (metis prod.collapse)
  from assms(1) have "inner_ok (live (store y))" by (simp add: sys_ok_def)
  from refresh_phase1_grant(2) [OF this p] a p show ?thesis by simp
qed

lemma sys_ok_step:
  assumes "sys_ok y" "oauth_fresh env a y" shows "sys_ok (oauth_step env a y)"
proof -
  have "approves {g. \<exists>t req. (t, g, req) \<in> set (refr (oauth_step env a y))} (live (store (oauth_step env a y)))"
  proof (cases "a = Restart")
    case False
    show ?thesis
      unfolding approves_def
    proof (intro ballI allI impI)
      fix g g' assume "g \<in> {g. \<exists>t req. (t, g, req) \<in> set (refr (oauth_step env a y))}"
        and g': "map_of (grants (live (store (oauth_step env a y)))) (g_id g) = Some g'"
      then obtain t req where "(t, g, req) \<in> set (refr (oauth_step env a y))" by blast
      then show "same_approval g g'"
      proof (cases "(t, g, req) \<in> set (refr y)")
        case True
        with approves_step [OF assms False refl] g' show ?thesis unfolding approves_def by blast
      next
        case False
        with refr_step [OF assms(1) \<open>(t, g, req) \<in> set (refr (oauth_step env a y))\<close>] g'
        show ?thesis by (simp add: same_approval_def)
      qed
    qed
  qed (simp add: approves_def)
  moreover have "wf.okS (store (oauth_step env a y))" by (rule wf_step [OF assms])
  moreover have "\<forall>(t, ch, cid, ac) \<in> set (exch (oauth_step env a y)). set (ac_scopes ac) \<subseteq> set ALL_SCOPES"
    using exch_step [OF assms(1)] by fast
  ultimately show ?thesis by (simp add: sys_ok_def wf.okS_def)
qed

lemma sys_ok_init: "sys_ok oauth_init"
proof -
  have "disk_ok \<lparr>ps_clients = [], ps_grants = []\<rparr>" by (simp add: disk_ok_def keyed_grants_def grants_ok_def)
  from inner_ok_load [OF this] this show ?thesis
    by (simp add: sys_ok_def oauth_init_def load_def Let_def approves_def)
qed

section \<open>Lemmas for the properties\<close>

lemma reachable_ok: "oauth_reachable env y \<Longrightarrow> sys_ok y"
  by (induction rule: oauth_reachable.induct) (simp add: sys_ok_init, rule sys_ok_step)

lemma reachable_inner_ok: "oauth_reachable env y \<Longrightarrow> inner_ok (live (store y))"
  using reachable_ok by (auto simp: sys_ok_def)

lemma prune_grants_keep:
  assumes "grants_ok (grants d)" "map_of (grants d) i = Some g" "t < g_refresh_expires_at g"
  shows "map_of (grants (prune t d)) i = Some g"
proof -
  have "i \<notin> set (expired_grants t (prune_transient t d))"
  proof
    assume "i \<in> set (expired_grants t (prune_transient t d))"
    then obtain g' where "g' \<in> set (vals (grants d))" "g_refresh_expires_at g' \<le> t" "g_id g' = i"
      by (auto simp: expired_grants_def prune_transient_def)
    with grants_ok_vals [OF assms(1), of g'] assms(2,3) show False by auto
  qed
  with assms(2) show ?thesis by (simp add: prune_def Let_def hm_simps) (simp add: prune_transient_def)
qed

lemma gone_remove:
  assumes "inner_ok d" shows "gone i (snd (remove_grant i d))"
proof -
  have ok: "grants_ok (grants d)" using assms by (simp add: inner_ok_def)
  have "fst p \<noteq> i \<and> g_id (snd p) \<noteq> i" if "p \<in> set (grants (snd (remove_grant i d)))" for p
  proof -
    from that have p: "p \<in> set (grants d)" using set_grants_remove by blast
    then have m: "map_of (grants d) (fst p) = Some (snd p)"
      using ok by (simp add: grants_ok_def map_of_eq_Some_iff)
    moreover have "fst p \<noteq> i"
      using that m by (auto simp: remove_grant_def AList.delete_eq split: option.splits)
    ultimately show ?thesis using grants_okD(1) [OF ok m] by simp
  qed
  then show ?thesis by (simp add: gone_def)
qed

lemma gone_None: "gone i d \<Longrightarrow> map_of (grants d) i = None"
  using gone_lookup by (metis option.exhaust)

text \<open>A run that never creates grant \<open>i\<close> again leaves it gone.\<close>

fun creates_grant :: "oauth_action \<Rightarrow> string option" where
  "creates_grant (ExchangeFinish n io ra rr rg auth) = Some (random_token ''wsg_'' rg)"
| "creates_grant a = None"

lemma gone_step:
  assumes "gone.okS i (store y)" "creates_grant a \<noteq> Some i"
  shows "gone.okS i (store (oauth_step env a y))"
proof (rule gone.step_okS [OF assms(1)])
  have g: "gone i (live (store y))" "gone_disk i (disk (store y))" using assms(1) by (simp_all add: gone.okS_def)
  show "gone i (snd (record_grant env ra ch t
      (new_grant env t rg (random_token ''wsrt_'' rr) cid nm ac sc fp) (live (store y))))"
    if "a = ExchangeFinish n io ra rr rg auth" for n io ra rr rg auth ch t cid nm ac sc fp
    using that assms(2) g(1)
    by (auto simp: gone_def record_grant_def case_prod_beta Let_def new_grant_def dest!: set_update_cases)
  show "gone i d'" if "rotate_grant env ra t h sc (g_id g) (live (store y)) = Inr (acc, d')"
    for ra t h sc g acc d'
  proof -
    from that obtain g' where "map_of (grants (live (store y))) (g_id g) = Some g'"
      and "grants d' = AList.update (g_id g) (rotate_refresh t h g') (grants (live (store y)))"
      by (auto simp: rotate_grant_def case_prod_beta Let_def split: option.splits)
    with gone_lookup [OF g(1) this(1)] g(1) show ?thesis by (auto simp: gone_def dest!: set_update_cases)
  qed
  show "gone.okS i (load (Some (disk (store y))))"
  proof -
    have "p \<in> set (fold (\<lambda>g. AList.update (g_id g) g) gs m) \<Longrightarrow> p \<in> set m \<or> (\<exists>g \<in> set gs. p = (g_id g, g))" for p gs m
      by (induction gs arbitrary: m) (auto dest!: set_update_cases)
    with g(2) show ?thesis
      by (fastforce simp: gone.okS_def gone_def gone_disk_def load_def Let_def)
  qed
qed (simp add: gone_def)

lemma gone_run:
  assumes "gone.okS i (store y)" "\<forall>a \<in> set as. creates_grant a \<noteq> Some i"
  shows "gone.okS i (store (fold (oauth_step env) as y))"
  using assms by (induction as arbitrary: y) (auto intro: gone_step)

fun issues_code :: "oauth_env \<Rightarrow> oauth_action \<Rightarrow> string option" where
  "issues_code env (IssueCode t io rnd p u src granted) = Some (secret_hash env ''code'' (random_token ''wsa_'' rnd))"
| "issues_code env a = None"

lemma spent_step:
  assumes "spent.okS h (store y)" "issues_code env a \<noteq> Some h"
  shows "spent.okS h (store (oauth_step env a y))"
proof (rule spent.step_okS [OF assms(1)])
  show "spent h (d\<lparr>codes := AList.update (secret_hash env ''code'' (random_token ''wsa_'' rnd)) ac (codes d)\<rparr>)"
    if "a = IssueCode t io rnd p u src gr" "spent h d" for t io rnd p u src gr d ac
    using that assms(2) by (auto simp: spent_def dest!: set_update_cases)
qed (use assms(1) in \<open>auto simp: spent_def spent.okS_def record_grant_def rotate_grant_def case_prod_beta Let_def
    load_def empty_inner_def split: option.splits\<close>)

lemma spent_run:
  assumes "spent.okS h (store y)" "\<forall>a \<in> set as. issues_code env a \<noteq> Some h"
  shows "spent.okS h (store (fold (oauth_step env) as y))"
  using assms by (induction as arbitrary: y) (auto intro: spent_step)

lemma exchange_phase1_spends:
  "spent (secret_hash env ''code'' code) (live (snd (exchange_phase1 env t io code cid uri ver res s)))"
proof (cases "map_of (codes (live (prune_live t s))) (secret_hash env ''code'' code)")
  case None
  then have "spent.okS (secret_hash env ''code'' code) (prune_live t s)"
    by (simp add: spent.okS_def spent_def map_of_eq_None_iff)
  then have "spent.okS (secret_hash env ''code'' code) (snd (exchange_phase1 env t io code cid uri ver res s))"
    using None by (auto simp: exchange_phase1_def Let_def split: option.splits intro!: spent.revoke_commit_okS)
  then show ?thesis by (simp add: spent.okS_def)
next
  case (Some ac)
  then show ?thesis by (auto simp: exchange_phase1_def Let_def spent_def AList.delete_eq)
qed

section \<open>A run\<close>

text \<open>One client registered, approved and exchanged: the run the witnesses below are about.\<close>

definition demo_env :: oauth_env where
  "demo_env = \<lparr>sha256_hex = (\<lambda>s. s), sha256_b64url = (\<lambda>s. s),
     url_parse = (\<lambda>s. Ok \<lparr>url_scheme = ''https'', url_username = [], url_password = None,
       url_host = Some ''app'', url_fragment = None\<rparr>)\<rparr>"

definition demo_verifier :: string where "demo_verifier = replicate 43 (CHR ''v'')"

definition demo_pending :: pending_auth where
  "demo_pending = \<lparr>pa_client_id = ''wsc_c'', pa_client_name = [], pa_redirect_uri = ''https://app'',
     pa_state = None, pa_code_challenge = demo_verifier, pa_scopes = [''read''], pa_resource = ''r'',
     pa_created_at = 0, pa_from = ''a''\<rparr>"

definition demo_auth :: user_authority where
  "demo_auth = \<lparr>ua_allowed_scopes = [''read'', ''logs''], ua_credential_fp = ''fp''\<rparr>"

definition demo_actions :: "oauth_action list" where
  "demo_actions =
     [Register 0 None ''c'' None [''https://app''] ''a'',
      IssueCode 10 None ''k'' demo_pending ''paul'' WolfStackUser [''read'', ''vms''],
      ExchangeStart 20 None ''wsa_k'' ''wsc_c'' ''https://app'' demo_verifier None,
      ExchangeFinish 0 None ''a1'' ''r1'' ''g'' (Some demo_auth)]"

definition demo_sys :: oauth_sys where
  "demo_sys = fold (oauth_step demo_env) demo_actions oauth_init"

fun fresh_run :: "oauth_env \<Rightarrow> oauth_action list \<Rightarrow> oauth_sys \<Rightarrow> bool" where
  "fresh_run env [] y = True"
| "fresh_run env (a # as) y = (oauth_fresh env a y \<and> fresh_run env as (oauth_step env a y))"

lemma reachable_run:
  "oauth_reachable env y \<Longrightarrow> fresh_run env as y \<Longrightarrow> oauth_reachable env (fold (oauth_step env) as y)"
  by (induction as arbitrary: y) (auto intro: oauth_reachable.step)

lemma demo_sys_reachable: "oauth_reachable demo_env demo_sys"
  unfolding demo_sys_def
  by (rule reachable_run [OF oauth_reachable.start]) code_simp

lemma demo_sys_grant: "map_option g_scopes (map_of (grants (live (store demo_sys))) ''wsg_g'') = Some [''read'']"
  by code_simp

section \<open>Properties\<close>

text \<open>
  C19 (every reachable server): whatever requests interleave, and across restarts, the store is
  well formed. Grants are keyed by their ids and share no refresh token; the two indexes hold
  exactly the current and the retired refresh tokens of live grants; every access token belongs
  to a live grant and repeats its approval with no more scopes; no grant outlives 90 days from
  its approval or remembers more than 20 retired tokens; the state file is well formed too, and
  a request in flight agrees with the store about what was approved.
\<close>

theorem oauth_reachable_ok: "oauth_reachable env y \<Longrightarrow> sys_ok y"
  by (rule reachable_ok)

theorem oauth_reachable_ok_witness: "sys_ok demo_sys"
  by (rule oauth_reachable_ok [OF demo_sys_reachable])

text \<open>
  A valid access token: in a reachable server, a token accepted for a resource is
  unexpired, was issued for exactly that resource, and stands for a live grant whose user,
  client and credentials it carries, with scopes the user approved.
\<close>

theorem access_token_bounded:
  assumes "oauth_reachable env y" and "fst (validate_access env t tok res (store y)) = Some info"
  shows "t < ai_expires_at info \<and> ai_resource info = res \<and>
    (\<exists>g. map_of (grants (live (store y))) (ai_grant_id info) = Some g \<and> token_of info g \<and>
      g_refresh_expires_at g \<le> g_created_at g + GRANT_MAX_LIFETIME_SECS)"
proof -
  from assms(2) have i: "map_of (access (live (store y))) (secret_hash env ''access'' tok) = Some info"
    "t < ai_expires_at info" "ai_resource info = res"
    by (auto simp: validate_access_def Let_def split: option.splits if_splits)
  have ok: "grants_ok (grants (live (store y)))" "access_ok (live (store y))"
    using reachable_inner_ok [OF assms(1)] by (simp_all add: inner_ok_def)
  from i(1) ok(2) obtain g where g: "map_of (grants (live (store y))) (ai_grant_id info) = Some g" "token_of info g"
    unfolding access_ok_def by blast
  with grants_okD(2) [OF ok(1) g(1)] i show ?thesis by (auto simp: grant_ok_def)
qed

theorem access_token_bounded_witness:
  "map_option ai_scopes (fst (validate_access demo_env 30 ''wsat_a1'' ''r'' (store demo_sys))) = Some [''read''] \<and>
   30 < ai_expires_at (the (fst (validate_access demo_env 30 ''wsat_a1'' ''r'' (store demo_sys))))"
proof -
  have s: "map_option ai_scopes (fst (validate_access demo_env 30 ''wsat_a1'' ''r'' (store demo_sys))) = Some [''read'']"
    by code_simp
  then obtain info where "fst (validate_access demo_env 30 ''wsat_a1'' ''r'' (store demo_sys)) = Some info"
    by auto
  with access_token_bounded [OF demo_sys_reachable this] s show ?thesis by simp
qed

text \<open>
  A successful code exchange: it happens only for a live, unexpired code, from the client
  and with the redirect address it was issued for, with the matching PKCE verifier and resource,
  for a user who still exists; the grant carries exactly the approved scopes the user may still
  hold, at least one, and is on disk before the answer; the code is spent.
\<close>

theorem exchange_code_success:
  assumes "inner_ok (live s)"
    and "exchange_code env t io ra rr rg code cid uri ver res authority s = (Inr ts, s')"
  shows "\<exists>ac a g. map_of (codes (live s)) (secret_hash env ''code'' code) = Some ac \<and> t < ac_expires_at ac \<and>
    ac_client_id ac = cid \<and> ac_redirect_uri ac = uri \<and> pkce_s256_matches env ver (ac_code_challenge ac) \<and>
    (case res of None \<Rightarrow> True | Some r \<Rightarrow> r = ac_resource ac) \<and>
    authority (ac_username ac) (ac_source ac) = Some a \<and>
    map_of (grants (live s')) (g_id g) = Some g \<and> g_client_id g = cid \<and> g_username g = ac_username ac \<and>
    g_resource g = ac_resource ac \<and> g_credential_fp g = ua_credential_fp a \<and>
    g_scopes g = normalize_scopes (filter (\<lambda>x. x \<in> set (ua_allowed_scopes a)) (ac_scopes ac)) \<and>
    ts_scope ts = scopes_string (g_scopes g) \<and>
    g_refresh_hash g = secret_hash env ''refresh'' (ts_refresh_token ts) \<and>
    disk s' = snapshot (live s') \<and> spent (secret_hash env ''code'' code) (live s')"
proof -
  let ?h = "secret_hash env ''code'' code"
  obtain r s1 where p: "exchange_phase1 env t io code cid uri ver res s = (r, s1)" by force
  with assms(2) obtain ac where r: "r = Inr ac"
    and fin: "exchange_finish env t io ra rr rg ?h cid ac (authority (ac_username ac) (ac_source ac)) s1 = (Inr ts, s')"
    by (cases r) (auto simp: exchange_code_def)
  note c = exchange_phase1_code [OF p [unfolded r]]
  have "distinct (map fst (codes (live s)))" using assms(1) by (simp add: inner_ok_def codes_ok_def)
  with c(1) have code: "map_of (codes (live s)) ?h = Some ac" "t < ac_expires_at ac"
    by (auto simp: prune_live_def prune_codes hm_simps split: option.splits if_splits)
  have sp: "spent ?h (live s1)" using exchange_phase1_spends [of env code t io cid uri ver res s] p by simp
  from fin obtain a where a: "authority (ac_username ac) (ac_source ac) = Some a"
    by (auto simp: exchange_finish_def exchange_phase2_def split: option.splits)
  let ?sc = "filter (\<lambda>x. x \<in> set (ua_allowed_scopes a)) (ac_scopes ac)"
  from fin a have
    p3: "exchange_phase3 env t io ra rr rg ?h cid ac ?sc (ua_credential_fp a) s1 = (Inr ts, s')"
    by (auto simp: exchange_finish_def exchange_phase2_def Let_def split: if_splits)
  then obtain cl where cl: "map_of (clients (live s1)) cid = Some cl"
    by (auto simp: exchange_phase3_def split: option.splits)
  let ?g = "new_grant env t rg (random_token ''wsrt_'' rr) cid (c_client_name cl) ac ?sc (ua_credential_fp a)"
  from p3 cl have s': "io = None" "live s' = snd (record_grant env ra ?h t ?g (live s1))"
      "disk s' = snapshot (live s')" "ts_refresh_token ts = random_token ''wsrt_'' rr"
      "ts_scope ts = scopes_string (g_scopes ?g)"
    by (auto simp: exchange_phase3_def Let_def commit_def case_prod_beta res_bind_Inr_iff
        split: if_splits option.splits)
  have "map_of (grants (live s')) (g_id ?g) = Some ?g" "spent ?h (live s')"
    using sp by (simp_all add: s' record_grant_def case_prod_beta Let_def update_conv' spent_def)
  with code c(2-5) a s' show ?thesis
    by (intro exI [of _ ac] exI [of _ a] exI [of _ ?g]) (auto simp: new_grant_def split: option.splits)
qed

theorem exchange_code_success_witness:
  "\<exists>ts s'. exchange_code demo_env 20 None ''a1'' ''r1'' ''g'' ''wsa_k'' ''wsc_c'' ''https://app'' demo_verifier
      None (\<lambda>_ _. Some demo_auth) (store (fold (oauth_step demo_env) (take 2 demo_actions) oauth_init)) = (Inr ts, s') \<and>
    spent (secret_hash demo_env ''code'' ''wsa_k'') (live s')"
proof -
  let ?s = "store (fold (oauth_step demo_env) (take 2 demo_actions) oauth_init)"
  let ?r = "exchange_code demo_env 20 None ''a1'' ''r1'' ''g'' ''wsa_k'' ''wsc_c'' ''https://app'' demo_verifier
      None (\<lambda>_ _. Some demo_auth) ?s"
  have "oauth_reachable demo_env (fold (oauth_step demo_env) (take 2 demo_actions) oauth_init)"
    by (rule reachable_run [OF oauth_reachable.start]) code_simp
  then have ok: "inner_ok (live ?s)" by (rule reachable_inner_ok)
  have "is_ok (fst ?r)" by code_simp
  then obtain ts where r: "?r = (Inr ts, snd ?r)" by (cases "fst ?r") (auto simp: prod_eq_iff)
  from exchange_code_success [OF ok r] show ?thesis by (subst r) auto
qed

text \<open>
  C16 (codes are single use): once a code has been presented, with whatever outcome, no later
  presentation of it succeeds, after any interleaving of other requests, refreshes, revocations
  and restarts, as long as the random generator does not issue the same code again.
\<close>

theorem code_single_use:
  assumes "\<forall>a \<in> set as. issues_code env a \<noteq> Some (secret_hash env ''code'' code)"
  shows "fst (exchange_phase1 env t' io' code cid' uri' ver' res'
      (store (fold (oauth_step env) as (oauth_step env (ExchangeStart t io code cid uri ver res) y)))) =
    Err (InvalidGrant ''authorization code is invalid, expired or already used'')"
proof -
  let ?h = "secret_hash env ''code'' code"
  let ?y = "oauth_step env (ExchangeStart t io code cid uri ver res) y"
  have "spent ?h (live (store ?y))"
    using exchange_phase1_spends [of env code t io cid uri ver res "store y"]
    by (simp add: Let_def case_prod_beta)
  then have "spent.okS ?h (store (fold (oauth_step env) as ?y))"
    by (intro spent_run [OF _ assms]) (simp add: spent.okS_def)
  then have "spent.okS ?h (prune_live t' (store (fold (oauth_step env) as ?y)))" by (rule spent.prune_okS)
  then show ?thesis
    by (auto simp: spent.okS_def spent_def exchange_phase1_def Let_def map_of_eq_None_iff [THEN iffD2]
        split: option.splits dest!: map_of_SomeD)
qed

theorem code_single_use_witness:
  "fst (exchange_phase1 demo_env 25 None ''wsa_k'' ''wsc_c'' ''https://app'' demo_verifier None
      (store (fold (oauth_step demo_env) [Restart] (oauth_step demo_env
        (ExchangeStart 20 None ''wsa_k'' ''wsc_c'' ''https://app'' demo_verifier None)
        (fold (oauth_step demo_env) (take 2 demo_actions) oauth_init))))) =
    Err (InvalidGrant ''authorization code is invalid, expired or already used'')"
  by (rule code_single_use) simp

text \<open>
  C5 (a revocation is final): after the revocation of a grant was reported as done, neither the
  live state nor the state file ever holds that grant again, in any continuation with restarts
  and requests that were already in flight; none of its access tokens is accepted.
\<close>

theorem revocation_durable:
  assumes "oauth_reachable env y" and "fst (revoke_grant io i (store y)) = Ok True"
    and "\<forall>a \<in> set as. creates_grant a \<noteq> Some i"
    and "y' = fold (oauth_step env) as (oauth_step env (RevokeGrant io i) y)"
  shows "map_of (grants (live (store y'))) i = None \<and> i \<notin> g_id ` set (ps_grants (disk (store y'))) \<and>
    (case fst (validate_access env t tok res (store y')) of None \<Rightarrow> True | Some info \<Rightarrow> ai_grant_id info \<noteq> i)"
proof -
  have ok: "inner_ok (live (store y))" by (rule reachable_inner_ok [OF assms(1)])
  have "gone.okS i (snd (revoke_grant io i (store y)))"
    using assms(2) gone_remove [OF ok, of i] gone.ok_snapshot [of i "snd (remove_grant i (live (store y)))"]
    by (auto simp: revoke_grant_def commit_def gone.okS_def case_prod_beta split: if_splits option.splits)
  then have "gone.okS i (store y')"
    unfolding assms(4) by (intro gone_run [OF _ assms(3)]) simp
  then have g: "gone i (live (store y'))" "gone_disk i (disk (store y'))" by (simp_all add: gone.okS_def)
  from gone_None [OF g(1)] g(2) show ?thesis
    by (auto simp: gone_disk_def validate_access_def Let_def split: option.splits if_splits)
qed

theorem revocation_durable_witness:
  "map_of (grants (live (store (fold (oauth_step demo_env) [Restart]
     (oauth_step demo_env (RevokeGrant None ''wsg_g'') demo_sys))))) ''wsg_g'' = None"
proof -
  have "fst (revoke_grant None ''wsg_g'' (store demo_sys)) = Ok True" by code_simp
  from revocation_durable [OF demo_sys_reachable this, of "[Restart]", OF _ refl] show ?thesis by simp
qed

text \<open>
  C33 (theft of a refresh token): presenting a refresh token that was rotated away, other than
  the latest one within ten seconds of its rotation, is refused and ends the grant: it is gone
  from the live state and from the state file together with all its access tokens.
\<close>

theorem refresh_theft_revokes:
  assumes "oauth_reachable env y" and "map_of (grants (live (store y))) i = Some g"
    and "t < g_refresh_expires_at g"
    and "secret_hash env ''refresh'' tok \<in> set (g_retired_refresh_hashes g)"
    and "\<not> (last (g_retired_refresh_hashes g) = secret_hash env ''refresh'' tok \<and>
           t - g_last_rotated_at g \<le> REFRESH_RETRY_GRACE_SECS)"
  shows "fst (refresh_phase1 env t None tok cid res (store y)) =
      Err (InvalidGrant ''refresh token was already used; the grant has been revoked'') \<and>
    (let y' = oauth_step env (RefreshStart t None tok cid res req) y in
     refr y' = refr y \<and> map_of (grants (live (store y'))) i = None \<and>
     i \<notin> g_id ` set (ps_grants (disk (store y'))) \<and>
     i \<notin> ai_grant_id ` set (vals (access (live (store y')))))"
proof -
  let ?h = "secret_hash env ''refresh'' tok" and ?s = "prune_live t (store y)"
  have ok: "inner_ok (live (store y))" by (rule reachable_inner_ok [OF assms(1)])
  then have ok': "inner_ok (live ?s)" by (simp add: prune_live_def inner_ok_prune)
  have g: "map_of (grants (live ?s)) i = Some g"
    using ok assms(2,3) by (simp add: prune_live_def prune_grants_keep inner_ok_def)
  with ok' assms(4) have r: "map_of (retired_index (live ?s)) ?h = Some i"
    by (auto simp: inner_ok_def index_ok_def)
  have n: "retry_of ?h t (Some g) = None" using assms(5) by (auto simp: retry_of_def)
  let ?d = "snd (remove_grant i (live ?s))"
  have ph: "refresh_phase1 env t None tok cid res (store y) =
      (Err (InvalidGrant ''refresh token was already used; the grant has been revoked''),
       ?s\<lparr>live := ?d, disk := snapshot ?d\<rparr>)"
    using r g n by (simp add: refresh_phase1_unfold Let_def commit_def case_prod_beta)
  have gone: "gone i ?d" by (rule gone_remove [OF ok'])
  moreover have "i \<notin> ai_grant_id ` set (vals (access ?d))"
    using g by (auto simp: remove_grant_def set_hm_retain)
  ultimately show ?thesis
    using gone.ok_snapshot [OF gone] by (simp add: ph Let_def gone_None gone_disk_def)
qed

text \<open>The run continued by one rotation, at time 100.\<close>

definition demo_rotated :: oauth_sys where
  "demo_rotated = fold (oauth_step demo_env)
     [RefreshStart 100 None ''wsrt_r1'' ''wsc_c'' None None,
      RefreshFinish 0 None ''a2'' ''r2'' (Some demo_auth)] demo_sys"

lemma demo_rotated_reachable: "oauth_reachable demo_env demo_rotated"
  unfolding demo_rotated_def by (rule reachable_run [OF demo_sys_reachable]) code_simp

lemma demo_rotated_grant:
  "map_option (\<lambda>g. (g_last_rotated_at g, g_refresh_expires_at g, g_retired_refresh_hashes g, g_client_id g,
      g_username g, g_credential_fp g, g_scopes g))
     (map_of (grants (live (store demo_rotated))) ''wsg_g'') =
   Some (100, 100 + REFRESH_TTL_SECS, [secret_hash demo_env ''refresh'' ''wsrt_r1''], ''wsc_c'', ''paul'', ''fp'', [''read''])"
  by code_simp

theorem refresh_theft_revokes_witness:
  "map_of (grants (live (store (oauth_step demo_env
      (RefreshStart 200 None ''wsrt_r1'' ''wsc_c'' None None) demo_rotated)))) ''wsg_g'' = None"
proof -
  obtain g where g: "map_of (grants (live (store demo_rotated))) ''wsg_g'' = Some g"
    "g_last_rotated_at g = 100" "g_refresh_expires_at g = 100 + REFRESH_TTL_SECS"
    "g_retired_refresh_hashes g = [secret_hash demo_env ''refresh'' ''wsrt_r1'']"
    using demo_rotated_grant by auto
  then have "200 < g_refresh_expires_at g"
    "secret_hash demo_env ''refresh'' ''wsrt_r1'' \<in> set (g_retired_refresh_hashes g)"
    "\<not> (last (g_retired_refresh_hashes g) = secret_hash demo_env ''refresh'' ''wsrt_r1'' \<and>
        200 - g_last_rotated_at g \<le> REFRESH_RETRY_GRACE_SECS)"
    by (simp_all add: REFRESH_TTL_SECS_def REFRESH_RETRY_GRACE_SECS_def)
  from refresh_theft_revokes [OF demo_rotated_reachable g(1) this, of "''wsc_c''" None None]
  show ?thesis by (simp add: Let_def)
qed

text \<open>
  A successful refresh: it happens only for a live, unexpired grant of that client whose
  user is confirmed with unchanged credentials. The answer's scopes are approved ones the user
  may still hold, at least one; the new refresh token replaces the current one, which joins the
  retired ones, and the grant never lives past 90 days from its approval.
\<close>

theorem refresh_success:
  assumes "oauth_reachable env y"
    and "refresh env t io ra rr tok cid res req authority (store y) = (Inr ts, s')"
  shows "\<exists>g a sc. map_of (grants (live (store y))) (g_id g) = Some g \<and> t < g_refresh_expires_at g \<and>
    g_client_id g = cid \<and> authority (g_username g) (g_source g) = Some a \<and>
    ua_credential_fp a = g_credential_fp g \<and>
    sc \<noteq> [] \<and> set sc \<subseteq> set (g_scopes g) \<inter> set (ua_allowed_scopes a) \<and> ts_scope ts = scopes_string sc \<and>
    map_of (grants (live s')) (g_id g) =
      Some (rotate_refresh t (secret_hash env ''refresh'' (ts_refresh_token ts)) g) \<and>
    g_refresh_hash g \<in> set (g_retired_refresh_hashes
      (rotate_refresh t (secret_hash env ''refresh'' (ts_refresh_token ts)) g)) \<and>
    disk s' = snapshot (live s')"
proof -
  have ok: "inner_ok (live (store y))" by (rule reachable_inner_ok [OF assms(1)])
  obtain r s1 where p: "refresh_phase1 env t io tok cid res (store y) = (r, s1)" by force
  with assms(2) obtain g where r: "r = Inr g"
    and p3: "refresh_phase3 env t io ra rr g req (authority (g_username g) (g_source g)) s1 = (Inr ts, s')"
    by (cases r) (auto simp: refresh_def)
  note g = refresh_phase1_grant [OF ok p [unfolded r]]
  then have live: "map_of (grants (live (store y))) (g_id g) = Some g"
    by (auto simp: prune_live_def dest: prune_grants_le)
  from p3 obtain a sc where a: "authority (g_username g) (g_source g) = Some a"
    "ua_credential_fp a = g_credential_fp g" "refresh_scopes g req a = Inr sc"
    by (auto simp: refresh_phase3_def split: if_splits option.splits prod.splits sum.splits)
  let ?h = "secret_hash env ''refresh'' (random_token ''wsrt_'' rr)"
  from p3 a g(2) have s': "grants (live s') = AList.update (g_id g) (rotate_refresh t ?h g) (grants (live s1))"
      "disk s' = snapshot (live s')" "ts_refresh_token ts = random_token ''wsrt_'' rr" "ts_scope ts = scopes_string sc"
    by (auto simp: refresh_phase3_def Let_def commit_def rotate_grant_def case_prod_beta res_bind_Inr_iff
        split: if_splits option.splits)
  have "sc \<noteq> []" "set sc \<subseteq> set (g_scopes g) \<inter> set (ua_allowed_scopes a)"
    using a(3) by (auto simp: refresh_scopes_def Let_def list_ex_iff res_bind_Inr_iff split: option.splits if_splits)
  moreover have "g_refresh_hash g \<in> set (g_retired_refresh_hashes (rotate_refresh t ?h g))"
    by (simp add: rotate_refresh_def Let_def RETIRED_REFRESH_KEEP_def)
  ultimately show ?thesis
    using live g(3,4) a s' by (intro exI [of _ g] exI [of _ a] exI [of _ sc]) (simp add: update_conv')
qed

theorem refresh_success_witness:
  "\<exists>ts s' (g :: grant). refresh demo_env 100 None ''a2'' ''r2'' ''wsrt_r1'' ''wsc_c'' None None (\<lambda>_ _. Some demo_auth)
      (store demo_sys) = (Inr ts, s') \<and> 100 < g_refresh_expires_at g \<and> g_client_id g = ''wsc_c''"
proof -
  let ?r = "refresh demo_env 100 None ''a2'' ''r2'' ''wsrt_r1'' ''wsc_c'' None None (\<lambda>_ _. Some demo_auth) (store demo_sys)"
  have "is_ok (fst ?r)" by code_simp
  then obtain ts where r: "?r = (Inr ts, snd ?r)" by (cases "fst ?r") (auto simp: prod_eq_iff)
  from refresh_success [OF demo_sys_reachable r] obtain g :: grant where
    "100 < g_refresh_expires_at g" "g_client_id g = ''wsc_c''" by blast
  with r show ?thesis by blast
qed

text \<open>
  A retry inside the grace window is served: the refresh token rotated away within the last
  ten seconds is accepted again. For a confirmed user with unchanged credentials it rotates the
  grant once more and returns new tokens.
\<close>

theorem refresh_retry_rotates:
  assumes "oauth_reachable env y" and "map_of (grants (live (store y))) i = Some g"
    and "t < g_refresh_expires_at g" and "g_retired_refresh_hashes g \<noteq> []"
    and "last (g_retired_refresh_hashes g) = secret_hash env ''refresh'' tok"
    and "t - g_last_rotated_at g \<le> REFRESH_RETRY_GRACE_SECS"
    and "authority (g_username g) (g_source g) = Some a" and "ua_credential_fp a = g_credential_fp g"
    and "refresh_scopes g None a = Ok sc" and "length (access (prune t (live (store y)))) < MAX_ACCESS_TOKENS"
  shows "\<exists>ts. fst (refresh env t None ra rr tok (g_client_id g) None None authority (store y)) = Ok ts \<and>
    ts_refresh_token ts = random_token ''wsrt_'' rr"
proof -
  let ?h = "secret_hash env ''refresh'' tok" and ?s = "prune_live t (store y)"
  have ok: "inner_ok (live (store y))" by (rule reachable_inner_ok [OF assms(1)])
  then have ok': "inner_ok (live ?s)" by (simp add: prune_live_def inner_ok_prune)
  have g: "map_of (grants (live ?s)) i = Some g"
    using ok assms(2,3) by (simp add: prune_live_def prune_grants_keep inner_ok_def)
  have id: "g_id g = i" using ok' g by (auto simp: inner_ok_def dest: grants_okD(1))
  from ok' g assms(4,5) have r: "map_of (retired_index (live ?s)) ?h = Some i"
    by (auto simp: inner_ok_def index_ok_def dest: last_in_set)
  have "refresh_phase1 env t None tok (g_client_id g) None (store y) = (Ok g, ?s)"
    using r g assms(4-6) by (simp add: refresh_phase1_unfold Let_def retry_of_def refresh_check_def)
  moreover have "map_of (refresh_index (live ?s)) (g_refresh_hash g) = Some (g_id g)"
    using ok' g id by (auto simp: inner_ok_def index_ok_def)
  ultimately show ?thesis
    using assms(7-10) g id
    by (simp add: refresh_def refresh_phase3_def Let_def commit_def rotate_grant_def case_prod_beta prune_live_def)
qed

theorem refresh_retry_rotates_witness:
  "\<exists>ts. fst (refresh demo_env 105 None ''a3'' ''r3'' ''wsrt_r1'' ''wsc_c'' None None (\<lambda>_ _. Some demo_auth)
      (store demo_rotated)) = Ok ts \<and> ts_refresh_token ts = random_token ''wsrt_'' ''r3''"
proof -
  obtain g where g: "map_of (grants (live (store demo_rotated))) ''wsg_g'' = Some g"
    "g_last_rotated_at g = 100" "g_refresh_expires_at g = 100 + REFRESH_TTL_SECS"
    "g_retired_refresh_hashes g = [secret_hash demo_env ''refresh'' ''wsrt_r1'']" "g_client_id g = ''wsc_c''"
    "g_username g = ''paul''" "g_credential_fp g = ''fp''" "g_scopes g = [''read'']"
    using demo_rotated_grant by auto
  have n: "length (access (prune 105 (live (store demo_rotated)))) < MAX_ACCESS_TOKENS" by code_simp
  have "refresh_scopes g None demo_auth = Ok [''read'']"
    by (simp add: refresh_scopes_def g demo_auth_def normalize_scopes_def ALL_SCOPES_def)
  from refresh_retry_rotates [OF demo_rotated_reachable g(1) _ _ _ _ _ _ this n, of "''wsrt_r1''" "\<lambda>_ _. Some demo_auth" "''a3''" "''r3''"]
  show ?thesis by (simp add: g REFRESH_TTL_SECS_def REFRESH_RETRY_GRACE_SECS_def demo_auth_def)
qed

text \<open>
  A replay that arrives too early: the grant of a code is remembered only when the exchange
  finishes. A replay that reaches the server between the two phases of the first exchange is
  refused, but nothing is revoked, and the first exchange still creates its grant.
\<close>

theorem replay_in_flight_keeps_grant:
  fixes code :: string and env :: oauth_env
  defines "h \<equiv> secret_hash env ''code'' code"
  assumes "exch y = [(t, h, cid, ac)]" and "spent h (live (store y))"
    and "map_of (used_codes (live (prune_live t1 (store y)))) h = None"
    and "exchange_phase2 ac auth = Ok (sc, fp)"
    and "y1 = oauth_step env (ExchangeStart t1 io1 code cid1 uri1 ver1 res1) y"
    and "map_of (clients (live (store y1))) cid = Some c"
    and "length (grants (live (store y1))) < MAX_GRANTS" and "length (access (live (store y1))) < MAX_ACCESS_TOKENS"
  shows "is_ok (fst (exchange_phase1 env t1 io1 code cid1 uri1 ver1 res1 (store y))) = False \<and>
    map_of (grants (live (store (oauth_step env (ExchangeFinish 0 None ra rr rg auth) y1)))) (random_token ''wsg_'' rg) =
      Some (new_grant env t rg (random_token ''wsrt_'' rr) cid (c_client_name c) ac sc fp)"
proof -
  have "spent h (live (prune_live t1 (store y)))"
    using assms(3) by (simp add: prune_live_def spent.ok_prune)
  then have "map_of (codes (live (prune_live t1 (store y)))) h = None"
    by (simp add: spent_def map_of_eq_None_iff)
  then have p: "exchange_phase1 env t1 io1 code cid1 uri1 ver1 res1 (store y) =
      (Err (InvalidGrant ''authorization code is invalid, expired or already used''), prune_live t1 (store y))"
    using assms(4) by (simp add: exchange_phase1_def Let_def h_def)
  then have "exch y1 = [(t, h, cid, ac)]" using assms(2,6) by simp
  with assms(5,7-9) p show ?thesis
    by (simp add: exchange_finish_def exchange_phase3_def Let_def commit_def case_prod_beta record_grant_def
        update_conv' new_grant_def)
qed

theorem replay_in_flight_keeps_grant_witness:
  "map_of (grants (live (store (oauth_step demo_env (ExchangeFinish 0 None ''a1'' ''r1'' ''g'' (Some demo_auth))
     (oauth_step demo_env (ExchangeStart 21 None ''wsa_k'' ''wsc_x'' [] [] None)
       (fold (oauth_step demo_env) (take 3 demo_actions) oauth_init)))))) (random_token ''wsg_'' ''g'') \<noteq> None"
proof -
  let ?y = "fold (oauth_step demo_env) (take 3 demo_actions) oauth_init"
  let ?y1 = "oauth_step demo_env (ExchangeStart 21 None ''wsa_k'' ''wsc_x'' [] [] None) ?y"
  have "length (exch ?y) = 1 \<and> map (fst \<circ> snd) (exch ?y) = [secret_hash demo_env ''code'' ''wsa_k'']" by code_simp
  then obtain t cid ac where e: "exch ?y = [(t, secret_hash demo_env ''code'' ''wsa_k'', cid, ac)]"
    by (cases "exch ?y") auto
  have "map (fst \<circ> snd \<circ> snd) (exch ?y) = [''wsc_c''] \<and>
      map (\<lambda>x. is_ok (exchange_phase2 (snd (snd (snd x))) (Some demo_auth))) (exch ?y) = [True]" by code_simp
  with e have c: "cid = ''wsc_c''" and ok: "is_ok (exchange_phase2 ac (Some demo_auth))" by auto
  then obtain sc fp where s: "exchange_phase2 ac (Some demo_auth) = Ok (sc, fp)"
    by (cases "exchange_phase2 ac (Some demo_auth)") auto
  have sp: "spent (secret_hash demo_env ''code'' ''wsa_k'') (live (store ?y))" by code_simp
  have u: "map_of (used_codes (live (prune_live 21 (store ?y)))) (secret_hash demo_env ''code'' ''wsa_k'') = None"
    by code_simp
  have "map_option c_client_id (map_of (clients (live (store ?y1))) ''wsc_c'') = Some ''wsc_c''" by code_simp
  then obtain cl where cl: "map_of (clients (live (store ?y1))) cid = Some cl" using c by auto
  have n: "length (grants (live (store ?y1))) < MAX_GRANTS" "length (access (live (store ?y1))) < MAX_ACCESS_TOKENS"
    by code_simp+
  from replay_in_flight_keeps_grant [OF e sp u s refl cl n] show ?thesis by simp
qed

lemma collect_known:
  "set ss \<subseteq> set ALL_SCOPES \<Longrightarrow> \<exists>out'. collect_scopes ss out = Ok out' \<and> set out' = set out \<union> set ss"
proof (induction ss arbitrary: out)
  case (Cons s ss)
  let ?out = "if s \<in> set out then out else out @ [s]"
  from Cons obtain out' where "collect_scopes ss ?out = Ok out'" "set out' = set ?out \<union> set ss" by fastforce
  with Cons.prems show ?case by auto
qed simp

text \<open>
  Scope strings: printing a list of known scopes and parsing it gives back the same scopes
  in canonical order; a canonical list is reproduced exactly.
\<close>

theorem parse_scopes_string:
  assumes "set xs \<subseteq> set ALL_SCOPES" and "xs \<noteq> []"
  shows "parse_scopes (Some (scopes_string xs)) = Ok (normalize_scopes xs) \<and>
    parse_scopes (Some (scopes_string (normalize_scopes xs))) = Ok (normalize_scopes xs)"
proof -
  have main: "parse_scopes (Some (scopes_string ys)) = Ok (normalize_scopes ys)"
    if "set ys \<subseteq> set ALL_SCOPES" "ys \<noteq> []" for ys
  proof -
    have known: "CHR '' '' \<notin> set x \<and> x \<noteq> []" if "x \<in> set ALL_SCOPES" for x
      using that by (auto simp: ALL_SCOPES_def)
    with that have "split_char (CHR '' '') (scopes_string ys) = ys"
      unfolding scopes_string_def by (intro split_char_join) auto
    moreover have "filter (\<lambda>s. s \<noteq> []) ys = ys" using that known by (auto intro!: filter_True)
    moreover have "\<exists>out. collect_scopes ys [] = Ok out \<and> set out = set ys"
      using collect_known [of ys "[]"] that(1) by simp
    ultimately show ?thesis using that(2) by (auto simp: parse_scopes_def normalize_scopes_def)
  qed
  have n: "set (normalize_scopes xs) = set xs" using assms(1) by auto
  then have "normalize_scopes (normalize_scopes xs) = normalize_scopes xs"
    by (simp add: normalize_scopes_def)
  moreover have "normalize_scopes xs \<noteq> []" using n assms(2) by (metis set_empty)
  ultimately show ?thesis using main [OF assms] main [of "normalize_scopes xs"] n assms(1) by simp
qed

theorem parse_scopes_string_witness:
  "parse_scopes (Some (scopes_string [''vms'', ''read''])) = Ok [''read'', ''vms'']"
  using parse_scopes_string [of "[''vms'', ''read'']"] by (simp add: normalize_scopes_def ALL_SCOPES_def)

end
