(* ===== verification/Text_Lines.thy ===== *)
theory Text_Lines
  imports Rust_Prelude
begin

text \<open>
  Generated text: files the code writes line by line and other code (or a daemon) reads back line
  by line. Shared by the firewall compiler and the share gateway.
\<close>

text \<open>Text pushed line by line, each with its newline.\<close>

definition unlines :: "string list \<Rightarrow> string" where
  "unlines ls = concat (map (\<lambda>l. l @ [nl]) ls)"

lemma unlines_append: "unlines (a @ b) = unlines a @ unlines b"
  by (simp add: unlines_def)

text \<open>Text without line breaks.\<close>

definition clean :: "string \<Rightarrow> bool" where
  "clean s = list_all (\<lambda>c. c \<noteq> nl \<and> c \<noteq> CHR 0x0D) s"

lemma clean_simps [simp]:
  "clean []" "clean (c # s) = (c \<noteq> CHR 0x0A \<and> c \<noteq> CHR 0x0D \<and> clean s)"
  by (simp_all add: clean_def nl_def)

lemma clean_em_dash [simp]: "clean em_dash"
  by code_simp

lemma clean_append [simp]: "clean (a @ b) = (clean a \<and> clean b)"
  by (simp add: clean_def)

lemma clean_join: "list_all clean ws \<Longrightarrow> clean sep \<Longrightarrow> clean (join sep ws)"
  by (induction ws rule: induct_list012) simp_all

lemma split_unlines: "list_all clean ls \<Longrightarrow> split_char nl (unlines ls) = ls @ [[]]"
proof (induction ls)
  case (Cons l ls)
  then have "nl \<notin> set l" by (auto simp: clean_def list_all_iff)
  with Cons show ?case by (simp add: unlines_def split_char_append)
qed (simp add: unlines_def)

lemma lines_unlines:
  assumes "list_all clean ls" shows "lines (unlines ls) = ls"
proof -
  have "strip_cr l = l" if "l \<in> set ls" for l
    using that assms by (cases l rule: rev_cases) (auto simp: strip_cr_def clean_def list_all_iff)
  then show ?thesis by (simp add: lines_def split_unlines [OF assms] Let_def map_idI)
qed

end
