(* ===== verification/Firewall.thy ===== *)
theory Firewall
  imports Ip_Addr Text_Lines
begin

text \<open>
  The firewall compiler of WolfRouter: \<^verbatim>\<open>networking/router/firewall.rs\<close> (rules to
  \<^verbatim>\<open>iptables-restore\<close> text, and the pre-flight check of that text), the rule and zone types of
  \<^verbatim>\<open>networking/router/mod.rs\<close>, and the threat-intel lines of \<^verbatim>\<open>threat_intel/firewall.rs\<close>.

  What the code reads from the host is an argument: the threat-intel configuration and the list
  of guests with their WolfNet addresses. A panic of the compiler is \<^term>\<open>None\<close>.
\<close>

section \<open>Configuration\<close>

datatype zone = Wan | LanZone nat | Dmz | Wolfnet | Trusted | CustomZone string

definition slug :: "zone \<Rightarrow> string" where
  "slug z =
     (case z of
        Wan \<Rightarrow> ''wan''
      | LanZone n \<Rightarrow> ''lan'' @ show_nat n
      | Dmz \<Rightarrow> ''dmz''
      | Wolfnet \<Rightarrow> ''wolfnet''
      | Trusted \<Rightarrow> ''trusted''
      | CustomZone s \<Rightarrow>
          (let clean = take 16 (filter (\<lambda>c. is_ascii_alphanumeric c \<or> c = CHR ''-'') s) in
           if clean = [] then ''custom'' else clean))"

definition zone_human :: "zone \<Rightarrow> string" where
  "zone_human z =
     (case z of
        Wan \<Rightarrow> ''WAN''
      | LanZone n \<Rightarrow> ''LAN '' @ show_nat n
      | Dmz \<Rightarrow> ''DMZ''
      | Wolfnet \<Rightarrow> ''WolfNet''
      | Trusted \<Rightarrow> ''Trusted''
      | CustomZone s \<Rightarrow> s)"

datatype action = Allow | Deny | Reject | Log

datatype direction = Forward | Input | Output

datatype endpoint =
    AnyEnd
  | ZoneEnd zone
  | InterfaceEnd string
  | IpEnd string
  | VmEnd string
  | ContainerEnd string
  | LanEnd string

datatype protocol = AnyProto | Tcp | Udp | Icmp | Tcpudp

datatype port_side = Dst | Src

record port_spec =
  po_port :: string
  po_side :: port_side

record firewall_rule =
  fr_id :: string
  fr_enabled :: bool
  fr_order :: int
  fr_action :: action
  fr_direction :: direction
  fr_from :: endpoint
  fr_to :: endpoint
  fr_protocol :: protocol
  fr_ports :: "port_spec list"
  fr_state_track :: bool
  fr_log_match :: bool
  fr_comment :: string
  fr_node_id :: "string option"

type_synonym zone_assignments = "(string, (string, zone) hashmap) hashmap"

definition za_get :: "string \<Rightarrow> string \<Rightarrow> zone_assignments \<Rightarrow> zone option" where
  "za_get node_id iface z = Option.bind (map_of z node_id) (\<lambda>m. map_of m iface)"

definition za_set :: "string \<Rightarrow> string \<Rightarrow> zone \<Rightarrow> zone_assignments \<Rightarrow> zone_assignments" where
  "za_set node_id iface zn z =
     AList.update node_id (AList.update iface zn (unwrap_or [] (map_of z node_id))) z"

definition za_remove :: "string \<Rightarrow> string \<Rightarrow> zone_assignments \<Rightarrow> zone_assignments" where
  "za_remove node_id iface z =
     (case map_of z node_id of
        None \<Rightarrow> z
      | Some m \<Rightarrow> AList.update node_id (AList.delete iface m) z)"

definition members_for_zone_on_node :: "string \<Rightarrow> zone \<Rightarrow> zone_assignments \<Rightarrow> string list" where
  "members_for_zone_on_node node_id zn z =
     (case map_of z node_id of
        None \<Rightarrow> []
      | Some m \<Rightarrow> map fst (filter (\<lambda>p. snd p = zn) m))"

text \<open>The DHCP and DNS parts of a segment, and the parts of the router the compiler does not read, are left out.\<close>

record lan_segment =
  la_id :: string
  la_name :: string
  la_node_id :: string
  la_interface :: string
  la_zone :: zone
  la_subnet_cidr :: string
  la_router_ip :: string
  la_description :: string

record router_config =
  rc_zones :: zone_assignments
  rc_lans :: "lan_segment list"
  rc_rules :: "firewall_rule list"
  rc_auto_apply :: bool
  rc_safe_mode_seconds :: nat

record threat_intel_config =
  ti_enabled :: bool
  ti_dry_run :: bool
  ti_paused :: bool

definition enforcement_active :: "threat_intel_config \<Rightarrow> bool" where
  "enforcement_active c = (ti_enabled c \<and> \<not> ti_dry_run c \<and> \<not> ti_paused c)"

definition IPSET_NAME_V4 :: string where "IPSET_NAME_V4 = ''wolfstack-threat-intel''"
definition IPSET_NAME_V6 :: string where "IPSET_NAME_V6 = ''wolfstack-threat-intel-6''"
definition CHAIN_NAME :: string where "CHAIN_NAME = ''WOLFSTACK_THREAT_INTEL''"

section \<open>Compiling rules\<close>

definition FILTER_CHAINS :: "string list" where
  "FILTER_CHAINS = [''WOLFROUTER_FWD'', ''WOLFROUTER_IN'', ''WOLFROUTER_OUT'']"

definition threat_lines :: "string \<Rightarrow> threat_intel_config \<Rightarrow> string list" where
  "threat_lines ipset c =
     (if \<not> enforcement_active c then []
      else
        ['':'' @ CHAIN_NAME @ '' - [0:0]'',
         ''-A '' @ CHAIN_NAME @ '' -m conntrack --ctstate NEW -m set --match-set '' @ ipset @ '' src -j DROP'',
         ''-A '' @ CHAIN_NAME @ '' -m set --match-set '' @ ipset @ '' dst -j DROP'',
         ''-A WOLFROUTER_IN -j '' @ CHAIN_NAME,
         ''-A WOLFROUTER_FWD -j '' @ CHAIN_NAME,
         ''-A WOLFROUTER_OUT -j '' @ CHAIN_NAME])"

definition iptables_lines_v4 :: "threat_intel_config \<Rightarrow> string" where
  "iptables_lines_v4 c = unlines (threat_lines IPSET_NAME_V4 c)"

definition ip6tables_lines :: "threat_intel_config \<Rightarrow> string" where
  "ip6tables_lines c = unlines (threat_lines IPSET_NAME_V6 c)"

type_synonym guests = "(string \<times> string option) list"

definition expand_endpoint ::
  "guests \<Rightarrow> endpoint \<Rightarrow> string \<Rightarrow> router_config \<Rightarrow> string \<Rightarrow> string + string list list" where
  "expand_endpoint vms ep side config self_node_id =
     (let ipflag = (if side = ''src'' then ''-s'' else ''-d'');
          ifflag = (if side = ''src'' then ''-i'' else ''-o'');
          guest = (\<lambda>name.
            case find (\<lambda>v. fst v = name) vms of
              Some v \<Rightarrow>
                (case snd v of
                   Some ip \<Rightarrow> Ok [[ipflag @ '' '' @ ip @ ''/32'']]
                 | None \<Rightarrow> Err (''VM '' @ [CHR 0x27] @ name @ [CHR 0x27] @ '' has no WolfNet IP '' @ em_dash @
                     '' assign one before referencing it in a rule''))
            | None \<Rightarrow> Err (''VM/container '' @ [CHR 0x27] @ name @ [CHR 0x27] @ '' not found''))
      in case ep of
        AnyEnd \<Rightarrow> Ok [[]]
      | IpEnd cidr \<Rightarrow> Ok [[ipflag @ '' '' @ cidr]]
      | InterfaceEnd name \<Rightarrow> Ok [[ifflag @ '' '' @ name]]
      | ZoneEnd z \<Rightarrow>
          Ok (map (\<lambda>m. [ifflag @ '' '' @ m]) (members_for_zone_on_node self_node_id z (rc_zones config)))
      | LanEnd i \<Rightarrow>
          (case find (\<lambda>l. la_id l = i) (rc_lans config) of
             Some l \<Rightarrow> Ok [[ipflag @ '' '' @ la_subnet_cidr l]]
           | None \<Rightarrow> Err (''LAN '' @ [CHR 0x27] @ i @ [CHR 0x27] @ '' not found''))
      | VmEnd name \<Rightarrow> guest name
      | ContainerEnd name \<Rightarrow> guest name)"

definition chain_of :: "direction \<Rightarrow> string" where
  "chain_of d =
     (case d of Forward \<Rightarrow> ''WOLFROUTER_FWD'' | Input \<Rightarrow> ''WOLFROUTER_IN'' | Output \<Rightarrow> ''WOLFROUTER_OUT'')"

definition action_flag :: "action \<Rightarrow> string" where
  "action_flag a =
     (case a of Allow \<Rightarrow> ''-j ACCEPT'' | Deny \<Rightarrow> ''-j DROP'' | Reject \<Rightarrow> ''-j REJECT'' | Log \<Rightarrow> ''-j RETURN'')"

definition match_parts ::
  "firewall_rule \<Rightarrow> string \<Rightarrow> string option \<Rightarrow> string list \<Rightarrow> string list \<Rightarrow> string list" where
  "match_parts rule chain proto from to =
     [''-A '' @ chain] @ (case proto of None \<Rightarrow> [] | Some p \<Rightarrow> [''-p '' @ p]) @ from @ to @
     (if proto \<in> {Some ''tcp'', Some ''udp''} then
        map (\<lambda>ps. (if po_side ps = Dst then ''--dport'' else ''--sport'') @ '' '' @
               replace_char (CHR ''-'') (CHR '':'') (po_port ps)) (fr_ports rule)
      else []) @
     (if fr_state_track rule then [''-m conntrack --ctstate NEW''] else [])"

definition emit_rule ::
  "firewall_rule \<Rightarrow> string \<Rightarrow> string option \<Rightarrow> string list \<Rightarrow> string list \<Rightarrow> string list option" where
  "emit_rule rule chain proto from to =
     (let parts = match_parts rule chain proto from to;
          action_line = join '' '' (parts @ [action_flag (fr_action rule)])
      in if fr_log_match rule \<or> fr_action rule = Log then
           map_option (\<lambda>short.
             [join '' '' (parts @ [''-j NFLOG'', ''--nflog-group 1'',
                ''--nflog-prefix '' @ [CHR 0x22] @ ''wolfrouter-'' @ short @ '' '' @ [CHR 0x22]]), action_line])
             (str_slice_to (min (length (fr_id rule)) 8) (fr_id rule))
         else Some [action_line])"

definition skipped :: "string \<Rightarrow> string \<Rightarrow> string" where
  "skipped i reason = ''# wolfrouter rule '' @ i @ '' skipped: '' @ reason"

definition resolve_end ::
  "guests \<Rightarrow> string \<Rightarrow> string \<Rightarrow> endpoint \<Rightarrow> string \<Rightarrow> router_config \<Rightarrow> string \<Rightarrow> string + string list list" where
  "resolve_end vms rid nm ep side config self_node_id =
     (case expand_endpoint vms ep side config self_node_id of
        Inr v \<Rightarrow>
          if v = [] then Err (skipped rid (quoted nm @ '' endpoint resolved to nothing on this node'')) else Ok v
      | Inl reason \<Rightarrow> Err (skipped rid reason))"

definition protos_of :: "protocol \<Rightarrow> string option list" where
  "protos_of p =
     (case p of
        Tcp \<Rightarrow> [Some ''tcp''] | Udp \<Rightarrow> [Some ''udp''] | Icmp \<Rightarrow> [Some ''icmp'']
      | Tcpudp \<Rightarrow> [Some ''tcp'', Some ''udp''] | AnyProto \<Rightarrow> [None])"

definition compile_rule :: "guests \<Rightarrow> firewall_rule \<Rightarrow> router_config \<Rightarrow> string \<Rightarrow> string list option" where
  "compile_rule vms rule config self_node_id =
     (case resolve_end vms (fr_id rule) ''from'' (fr_from rule) ''src'' config self_node_id of
        Inl c \<Rightarrow> Some [c]
      | Inr from_opts \<Rightarrow>
          (case resolve_end vms (fr_id rule) ''to'' (fr_to rule) ''dst'' config self_node_id of
             Inl c \<Rightarrow> Some [c]
           | Inr to_opts \<Rightarrow>
               map_option concat (those (concat (map (\<lambda>proto. concat (map (\<lambda>from. map (\<lambda>to.
                 emit_rule rule (chain_of (fr_direction rule)) proto from to) to_opts) from_opts))
                 (protos_of (fr_protocol rule)))))))"

definition active_rules :: "router_config \<Rightarrow> string \<Rightarrow> firewall_rule list" where
  "active_rules config self_node_id =
     sort_key fr_order (filter (\<lambda>r. fr_enabled r \<and>
       (case fr_node_id r of None \<Rightarrow> True | Some n \<Rightarrow> n = self_node_id)) (rc_rules config))"

definition scaffold_lines :: "string list" where
  "scaffold_lines =
     [''*filter''] @ map (\<lambda>ch. '':'' @ ch @ '' - [0:0]'') FILTER_CHAINS @
     concat (map (\<lambda>ch. [''-A '' @ ch @ '' -m conntrack --ctstate ESTABLISHED,RELATED -j ACCEPT'',
                        ''-A '' @ ch @ '' -i lo -j ACCEPT'']) FILTER_CHAINS)"

definition build_ruleset ::
  "guests \<Rightarrow> threat_intel_config \<Rightarrow> router_config \<Rightarrow> string \<Rightarrow> string option" where
  "build_ruleset vms ti config self_node_id =
     map_option (\<lambda>rules. unlines scaffold_lines @ iptables_lines_v4 ti @ unlines (concat rules) @ unlines [''COMMIT''])
       (those (map (\<lambda>r. compile_rule vms r config self_node_id) (active_rules config self_node_id)))"

definition build_ruleset_v6 :: "threat_intel_config \<Rightarrow> string" where
  "build_ruleset_v6 ti = unlines scaffold_lines @ ip6tables_lines ti @ unlines [''COMMIT'']"

section \<open>The pre-flight check\<close>

definition find_flag_value :: "string \<Rightarrow> string \<Rightarrow> string option" where
  "find_flag_value rule flag =
     (case dropWhile (\<lambda>t. t \<noteq> flag) (split_whitespace rule) of
        _ # v # _ \<Rightarrow> Some v
      | _ \<Rightarrow> None)"

definition port_spec_covers_any :: "string \<Rightarrow> nat list \<Rightarrow> bool" where
  "port_spec_covers_any spec wanted =
     (case split_once (CHR '':'') spec of
        Some (lo_s, hi_s) \<Rightarrow>
          (case (parse_uint 65535 lo_s, parse_uint 65535 hi_s) of
             (Some lo, Some hi) \<Rightarrow> lo \<le> hi \<and> list_ex (\<lambda>p. lo \<le> p \<and> p \<le> hi) wanted
           | _ \<Rightarrow> False)
      | None \<Rightarrow> (case parse_uint 65535 spec of None \<Rightarrow> False | Some p \<Rightarrow> p \<in> set wanted))"

definition rule_matches_any_port :: "string \<Rightarrow> nat list \<Rightarrow> bool" where
  "rule_matches_any_port rule mgmt_ports =
     ((case find_flag_value rule ''--dport'' of None \<Rightarrow> False | Some v \<Rightarrow> port_spec_covers_any v mgmt_ports) \<or>
      (case find_flag_value rule ''--dports'' of
         None \<Rightarrow> False
       | Some v \<Rightarrow> list_ex (\<lambda>chunk. port_spec_covers_any (trim chunk) mgmt_ports) (split_char (CHR '','') v)))"

definition octets_of :: "string \<Rightarrow> nat list" where
  "octets_of s = List.map_filter (parse_uint 255) (split_char (CHR ''.'') s)"

definition octets_u32 :: "nat list \<Rightarrow> u32" where
  "octets_u32 os =
     (push_bit 24 (of_nat (os ! 0)) OR push_bit 16 (of_nat (os ! 1)) OR
      push_bit 8 (of_nat (os ! 2)) OR of_nat (os ! 3))"

definition cidr_matches_ip :: "string \<Rightarrow> string \<Rightarrow> bool" where
  "cidr_matches_ip cidr ip =
     (let ip_octets = octets_of ip in
      if length ip_octets \<noteq> 4 then True
      else
        let (addr_part, mask_str) = (case split_once (CHR ''/'') cidr of Some p \<Rightarrow> p | None \<Rightarrow> (cidr, ''32''));
            mask = unwrap_or 32 (parse_uint 255 mask_str)
        in if mask > 32 then True
           else
             let addr_octets = octets_of addr_part in
             if length addr_octets \<noteq> 4 then True
             else
               let mask_u32 = (if mask = 0 then 0 else push_bit (32 - mask) (- 1) :: u32) in
               octets_u32 ip_octets AND mask_u32 = octets_u32 addr_octets AND mask_u32)"

definition line_concern :: "string \<Rightarrow> nat list \<Rightarrow> string \<Rightarrow> string option" where
  "line_concern peer mgmt_ports line =
     (let trimmed = trim line in
      if \<not> starts_with ''-A INPUT '' trimmed \<and> \<not> starts_with ''-I INPUT '' trimmed then None
      else if \<not> (contains ''-j DROP'' trimmed \<or> contains ''-j REJECT'' trimmed) then None
      else if \<not> rule_matches_any_port trimmed mgmt_ports then None
      else
        let source_matches = (case after ''-s '' trimmed of
              Some rest \<Rightarrow> cidr_matches_ip (case split_whitespace rest of [] \<Rightarrow> [] | w # _ \<Rightarrow> w) peer
            | None \<Rightarrow> True)
        in if source_matches then
             Some (''rule `'' @ trimmed @ ''` would DROP/REJECT traffic from your current session source ('' @ peer @
               '') to a WolfStack management port. Applying this would lock your browser out of this node.'')
           else None)"

definition analyse_ruleset_against_session :: "string \<Rightarrow> string option \<Rightarrow> nat list \<Rightarrow> string list" where
  "analyse_ruleset_against_session ruleset peer_ip mgmt_ports =
     (case peer_ip of
        None \<Rightarrow> []
      | Some peer \<Rightarrow>
          if peer = [] then [] else List.map_filter (line_concern peer mgmt_ports) (lines ruleset))"

text \<open>\<^verbatim>\<open>validate\<close>: the static part; the test run of \<^verbatim>\<open>iptables-restore\<close> is the argument \<open>test\<close>.\<close>

fun rule_issues :: "string list \<Rightarrow> firewall_rule list \<Rightarrow> (string \<times> string) list" where
  "rule_issues seen [] = []"
| "rule_issues seen (r # rs) =
     (if fr_id r \<in> set seen then [(fr_id r, ''Duplicate rule id: '' @ fr_id r)] else []) @
     (if fr_protocol r = AnyProto \<and> fr_ports r \<noteq> [] then
        [(fr_id r, ''Port match has no effect when protocol is Any '' @ em_dash @ '' set protocol to TCP or UDP'')]
      else []) @ rule_issues (fr_id r # seen) rs"

definition validate_rules ::
  "guests \<Rightarrow> threat_intel_config \<Rightarrow> (string \<Rightarrow> string + string) \<Rightarrow> router_config \<Rightarrow> string \<Rightarrow>
   (string \<times> string) list option" where
  "validate_rules vms ti test config self_node_id =
     map_option (\<lambda>ruleset. rule_issues [] (rc_rules config) @
        (case test ruleset of Inl e \<Rightarrow> [(''_ruleset_'', e)] | Inr _ \<Rightarrow> []))
       (build_ruleset vms ti config self_node_id)"

section \<open>Lines of the ruleset\<close>

lemma those_Some: "those xs = Some ys \<longleftrightarrow> xs = map Some ys"
  by (induction xs arbitrary: ys) (auto split: option.splits)

lemma those_None: "those xs = None \<longleftrightarrow> None \<in> set xs"
  by (induction xs) (auto split: option.splits)

lemma build_ruleset_lines:
  "build_ruleset vms ti config n = Some txt \<longleftrightarrow>
   (\<exists>rules. map (\<lambda>r. compile_rule vms r config n) (active_rules config n) = map Some rules \<and>
     txt = unlines (scaffold_lines @ threat_lines IPSET_NAME_V4 ti @ concat rules @ [''COMMIT'']))"
  by (auto simp: build_ruleset_def those_Some unlines_append iptables_lines_v4_def)

text \<open>The lines the compiler may write: a comment, or a declaration of or an append to a chain it owns.\<close>

definition own_chains :: "string list" where
  "own_chains = CHAIN_NAME # FILTER_CHAINS"

definition own_line :: "string \<Rightarrow> bool" where
  "own_line l \<longleftrightarrow> l \<in> {''*filter'', ''COMMIT''} \<or> (\<exists>r. l = ''# '' @ r) \<or>
     (\<exists>c \<in> set own_chains. \<exists>r. l = '':'' @ c @ '' '' @ r \<or> l = ''-A '' @ c @ '' '' @ r)"

lemma own_append: "c \<in> set own_chains \<Longrightarrow> own_line (''-A '' @ c @ '' '' @ r)"
  by (auto simp: own_line_def)

lemma scaffold_own: "list_all (\<lambda>l. own_line l \<and> clean l) scaffold_lines"
proof -
  have "own_line ('':'' @ c @ '' - [0:0]'')" "own_line (''-A '' @ c @ '' -m conntrack --ctstate ESTABLISHED,RELATED -j ACCEPT'')"
    "own_line (''-A '' @ c @ '' -i lo -j ACCEPT'')" if "c \<in> set FILTER_CHAINS" for c
    using that by (fastforce simp: own_line_def own_chains_def)+
  moreover have "list_all clean scaffold_lines" by code_simp
  ultimately show ?thesis
    by (auto simp: list_all_iff scaffold_lines_def own_line_def [of "''*filter''"])
qed

lemma threat_own: "list_all (\<lambda>l. own_line l \<and> clean l) (threat_lines IPSET_NAME_V4 ti)"
proof -
  let ?on = "\<lparr>ti_enabled = True, ti_dry_run = False, ti_paused = False\<rparr>"
  have "list_all clean (threat_lines IPSET_NAME_V4 ?on)" by code_simp
  moreover have "own_line ('':'' @ CHAIN_NAME @ '' - [0:0]'')" by (auto simp: own_line_def own_chains_def)
  moreover have "own_line (''-A '' @ c @ '' '' @ r)" if "c \<in> set own_chains" for c r using that by (rule own_append)
  note this [of CHAIN_NAME "''-m conntrack --ctstate NEW -m set --match-set '' @ IPSET_NAME_V4 @ '' src -j DROP''"]
    this [of CHAIN_NAME "''-m set --match-set '' @ IPSET_NAME_V4 @ '' dst -j DROP''"]
    this [of "''WOLFROUTER_IN''" "''-j '' @ CHAIN_NAME"] this [of "''WOLFROUTER_FWD''" "''-j '' @ CHAIN_NAME"]
    this [of "''WOLFROUTER_OUT''" "''-j '' @ CHAIN_NAME"]
  ultimately show ?thesis
    by (simp add: threat_lines_def enforcement_active_def own_chains_def FILTER_CHAINS_def)
qed

section \<open>Compiled rules\<close>

fun endpoint_clean :: "endpoint \<Rightarrow> bool" where
  "endpoint_clean (InterfaceEnd s) = clean s"
| "endpoint_clean (IpEnd s) = clean s"
| "endpoint_clean (VmEnd s) = clean s"
| "endpoint_clean (ContainerEnd s) = clean s"
| "endpoint_clean (LanEnd s) = clean s"
| "endpoint_clean _ = True"

definition rule_clean :: "firewall_rule \<Rightarrow> bool" where
  "rule_clean r =
     (clean (fr_id r) \<and> endpoint_clean (fr_from r) \<and> endpoint_clean (fr_to r) \<and>
      list_all (\<lambda>p. clean (po_port p)) (fr_ports r))"

definition config_clean :: "guests \<Rightarrow> router_config \<Rightarrow> bool" where
  "config_clean vms c =
     (list_all rule_clean (rc_rules c) \<and> list_all (\<lambda>l. clean (la_subnet_cidr l)) (rc_lans c) \<and>
      list_all (\<lambda>(n, m). list_all (\<lambda>(i, z). clean i) m) (rc_zones c) \<and>
      list_all (\<lambda>(n, ip). case ip of None \<Rightarrow> True | Some a \<Rightarrow> clean a) vms)"

lemma members_clean:
  assumes "config_clean vms c" "m \<in> set (members_for_zone_on_node n z (rc_zones c))" shows "clean m"
proof -
  from assms(2) obtain ms where "map_of (rc_zones c) n = Some ms" "(m, z) \<in> set ms"
    by (cases "map_of (rc_zones c) n") (auto simp: members_for_zone_on_node_def)
  then have "(n, ms) \<in> set (rc_zones c)" "(m, z) \<in> set ms" by (auto dest: map_of_SomeD)
  with assms(1) show ?thesis unfolding config_clean_def list_all_iff by blast
qed

lemma expand_clean:
  assumes "config_clean vms c" "endpoint_clean ep"
  shows "case expand_endpoint vms ep side c n of
     Inl e \<Rightarrow> clean e | Inr v \<Rightarrow> list_all (list_all clean) v"
proof -
  have guest: "clean ip" if "find (\<lambda>v. fst v = name) vms = Some (nm, Some ip)" for name nm ip
    using that assms(1) by (auto simp: config_clean_def list_all_iff dest!: find_SomeD)
  have lan: "clean (la_subnet_cidr l)" if "find (\<lambda>l. la_id l = i) (rc_lans c) = Some l" for i l
    using that assms(1) by (auto simp: config_clean_def list_all_iff dest!: find_SomeD)
  show ?thesis
    using assms(2) guest lan members_clean [OF assms(1)]
    by (cases ep) (auto simp: expand_endpoint_def Let_def list_all_iff split: option.splits prod.splits)
qed

lemma resolve_end_cases:
  assumes "config_clean vms c" "endpoint_clean ep" "clean rid" "clean nm"
  shows "case resolve_end vms rid nm ep side c n of
     Inl l \<Rightarrow> own_line l \<and> clean l | Inr v \<Rightarrow> list_all (list_all clean) v"
proof -
  have sk: "own_line (skipped i r)" "clean (skipped i r) = (clean i \<and> clean r)" for i r
    by (auto simp: skipped_def own_line_def)
  show ?thesis
    using expand_clean [OF assms(1,2), of side n] assms(3,4)
    by (auto simp: resolve_end_def sk quoted_def split: sum.splits)
qed

lemma join_Cons: "ws \<noteq> [] \<Longrightarrow> join sep (w # ws) = w @ sep @ join sep ws"
  by (cases ws) simp_all

lemma match_parts_Cons:
  "\<exists>ps. match_parts rule chain proto from to = (''-A '' @ chain) # ps"
  by (simp add: match_parts_def)

lemma match_parts_clean:
  assumes "clean chain" "case proto of None \<Rightarrow> True | Some p \<Rightarrow> clean p" "list_all clean from" "list_all clean to"
    "list_all (\<lambda>p. clean (po_port p)) (fr_ports rule)"
  shows "list_all clean (match_parts rule chain proto from to)"
proof -
  have "clean (replace_char (CHR ''-'') (CHR '':'') s)" if "clean s" for s
    using that by (induction s) (auto simp: replace_char_def)
  with assms show ?thesis
    by (auto simp: match_parts_def list_all_iff split: option.splits)
qed

lemma emit_rule_lines:
  assumes "rule_clean rule" "chain \<in> set FILTER_CHAINS" "proto \<in> set (protos_of (fr_protocol rule))"
    "list_all clean from" "list_all clean to" "emit_rule rule chain proto from to = Some ls"
  shows "list_all (\<lambda>l. own_line l \<and> clean l) ls"
proof -
  have ch: "clean chain" "chain \<in> set own_chains" using assms(2) by (auto simp: FILTER_CHAINS_def own_chains_def)
  have pr: "case proto of None \<Rightarrow> True | Some p \<Rightarrow> clean p"
    using assms(3) by (auto simp: protos_of_def split: protocol.splits)
  have parts: "list_all clean (match_parts rule chain proto from to)"
    using assms(1,4,5) ch pr by (intro match_parts_clean) (auto simp: rule_clean_def)
  have own: "own_line (join '' '' (match_parts rule chain proto from to @ x # xs))" for x xs
  proof -
    obtain ps where "match_parts rule chain proto from to = (''-A '' @ chain) # ps"
      using match_parts_Cons by blast
    then have "join '' '' (match_parts rule chain proto from to @ x # xs) = ''-A '' @ chain @ '' '' @ join '' '' (ps @ x # xs)"
      using join_Cons [of "ps @ x # xs" "'' ''" "''-A '' @ chain"] by simp
    with own_append [OF ch(2)] show ?thesis by simp
  qed
  have "clean (action_flag (fr_action rule))" by (cases "fr_action rule") (simp_all add: action_flag_def)
  then have cl: "clean (join '' '' (match_parts rule chain proto from to @ xs @ [action_flag (fr_action rule)]))"
    if "list_all clean xs" for xs
    using that parts by (intro clean_join) simp_all
  have short: "clean w" if "str_slice_to k (fr_id rule) = Some w" for k w
    using that assms(1) by (auto simp: str_slice_to_def rule_clean_def clean_def list_all_iff
        split: if_splits dest!: in_set_takeD)
  show ?thesis
    using assms(6) own [of _ "[]"] own cl [of "[]"] parts short
    by (auto simp: emit_rule_def Let_def split: if_splits intro!: clean_join)
qed

text \<open>A property of lines that comments and emitted lines have is a property of every line of a ruleset.\<close>

lemma compile_rule_all:
  assumes "compile_rule vms rule c n = Some ls"
    and F: "case resolve_end vms (fr_id rule) ''from'' (fr_from rule) ''src'' c n of Inl l \<Rightarrow> Q l | Inr v \<Rightarrow> list_all P v"
    and T: "case resolve_end vms (fr_id rule) ''to'' (fr_to rule) ''dst'' c n of Inl l \<Rightarrow> Q l | Inr v \<Rightarrow> list_all P v"
    and E: "\<And>proto fa ta ls. proto \<in> set (protos_of (fr_protocol rule)) \<Longrightarrow> P fa \<Longrightarrow> P ta \<Longrightarrow>
      emit_rule rule (chain_of (fr_direction rule)) proto fa ta = Some ls \<Longrightarrow> list_all Q ls"
  shows "list_all Q ls"
proof (cases "resolve_end vms (fr_id rule) ''from'' (fr_from rule) ''src'' c n")
  case (Inl l)
  with F assms(1) show ?thesis by (auto simp: compile_rule_def)
next
  case (Inr fs)
  note fs = this
  show ?thesis
  proof (cases "resolve_end vms (fr_id rule) ''to'' (fr_to rule) ''dst'' c n")
    case (Inl l)
    with T fs assms(1) show ?thesis by (auto simp: compile_rule_def)
  next
    case (Inr ts)
    from assms(1) fs Inr obtain lss where ls: "ls = concat lss" and
      e: "concat (map (\<lambda>proto. concat (map (\<lambda>from. map (\<lambda>to.
           emit_rule rule (chain_of (fr_direction rule)) proto from to) ts) fs)) (protos_of (fr_protocol rule))) = map Some lss"
      by (auto simp: compile_rule_def those_Some)
    have "list_all Q xs" if "xs \<in> set lss" for xs
    proof -
      from that have "Some xs \<in> set (map Some lss)" by simp
      then obtain proto fa ta where "proto \<in> set (protos_of (fr_protocol rule))" "fa \<in> set fs" "ta \<in> set ts"
        "emit_rule rule (chain_of (fr_direction rule)) proto fa ta = Some xs"
        unfolding e [symmetric] by auto
      moreover from this F T fs Inr have "P fa" "P ta" by (simp_all add: list_all_iff)
      ultimately show ?thesis using E by blast
    qed
    then show ?thesis by (auto simp: ls list_all_iff)
  qed
qed

lemma chain_of_filter: "chain_of d \<in> set FILTER_CHAINS"
  by (cases d) (simp_all add: chain_of_def FILTER_CHAINS_def)

lemma compile_rule_lines:
  assumes "config_clean vms c" "rule_clean rule" "compile_rule vms rule c n = Some ls"
  shows "list_all (\<lambda>l. own_line l \<and> clean l) ls"
proof -
  have fc: "clean (fr_id rule)" "endpoint_clean (fr_from rule)" "endpoint_clean (fr_to rule)"
    using assms(2) by (auto simp: rule_clean_def)
  show ?thesis
    by (rule compile_rule_all [where P = "list_all clean", OF assms(3) resolve_end_cases resolve_end_cases])
      (use assms(1) fc emit_rule_lines [OF assms(2) chain_of_filter] in simp_all)
qed

lemma ruleset_text:
  assumes "config_clean vms c" "build_ruleset vms ti c n = Some txt"
  shows "\<exists>rules. lines txt = scaffold_lines @ threat_lines IPSET_NAME_V4 ti @ concat rules @ [''COMMIT''] \<and>
    list_all own_line (lines txt) \<and>
    (\<forall>ls \<in> set rules. \<exists>r \<in> set (rc_rules c). compile_rule vms r c n = Some ls)"
proof -
  from assms(2) obtain rules where r: "map (\<lambda>r. compile_rule vms r c n) (active_rules c n) = map Some rules"
    and tx: "txt = unlines (scaffold_lines @ threat_lines IPSET_NAME_V4 ti @ concat rules @ [''COMMIT''])"
    unfolding build_ruleset_lines by blast
  have from_rule: "\<exists>r \<in> set (rc_rules c). compile_rule vms r c n = Some ls" if "ls \<in> set rules" for ls
  proof -
    from that have "Some ls \<in> set (map Some rules)" by simp
    then show ?thesis unfolding r [symmetric] by (auto simp: active_rules_def)
  qed
  then have "list_all (\<lambda>l. own_line l \<and> clean l) ls" if "ls \<in> set rules" for ls
    using that assms(1) compile_rule_lines [OF assms(1)] by (fastforce simp: config_clean_def list_all_iff)
  then have all: "list_all (\<lambda>l. own_line l \<and> clean l)
      (scaffold_lines @ threat_lines IPSET_NAME_V4 ti @ concat rules @ [''COMMIT''])"
    using scaffold_own threat_own by (auto simp: list_all_iff own_line_def [of "''COMMIT''"])
  then have "lines txt = scaffold_lines @ threat_lines IPSET_NAME_V4 ti @ concat rules @ [''COMMIT'']"
    unfolding tx by (intro lines_unlines) (auto simp: list_all_iff)
  with all from_rule show ?thesis by (auto simp: list_all_iff)
qed

lemma ruleset_lines:
  assumes "config_clean vms c" "build_ruleset vms ti c n = Some txt"
  shows "list_all own_line (lines txt)"
  using ruleset_text [OF assms] by blast

section \<open>The words of a rule line\<close>

text \<open>
  \<open>flags_ok\<close>: every word of the text that starts with a dash is one of the match and target options the
  compiler writes. A value is bare when it has no white space and does not start with a dash.
\<close>

definition match_flags :: "string list" where
  "match_flags = [''-p'', ''-s'', ''-d'', ''-i'', ''-o'', ''-m'', ''-j'', ''--ctstate'', ''--dport'', ''--sport'',
     ''--match-set'', ''--nflog-group'', ''--nflog-prefix'']"

definition flags_ok :: "string list \<Rightarrow> bool" where
  "flags_ok ws = list_all (\<lambda>w. starts_with ''-'' w \<longrightarrow> w \<in> set match_flags) ws"

definition bare :: "string \<Rightarrow> bool" where
  "bare s = (list_all (\<lambda>c. \<not> is_ws c) s \<and> \<not> starts_with ''-'' s)"

fun endpoint_bare :: "endpoint \<Rightarrow> bool" where
  "endpoint_bare (InterfaceEnd s) = bare s"
| "endpoint_bare (IpEnd s) = bare s"
| "endpoint_bare _ = True"

definition config_bare :: "guests \<Rightarrow> router_config \<Rightarrow> bool" where
  "config_bare vms c =
     (list_all (\<lambda>r. bare (fr_id r) \<and> endpoint_bare (fr_from r) \<and> endpoint_bare (fr_to r) \<and>
        list_all (\<lambda>p. bare (po_port p)) (fr_ports r)) (rc_rules c) \<and>
      list_all (\<lambda>l. bare (la_subnet_cidr l)) (rc_lans c) \<and>
      list_all (\<lambda>(n, m). list_all (\<lambda>(i, z). bare i) m) (rc_zones c) \<and>
      list_all (\<lambda>(n, ip). case ip of None \<Rightarrow> True | Some a \<Rightarrow> bare a) vms)"

lemma split_by_not_Nil: "split_by p s \<noteq> []"
  by (induction s) (auto split: list.splits)

lemma split_by_cut: "p x \<Longrightarrow> split_by p (a @ x # b) = split_by p a @ split_by p b"
proof (induction a)
  case (Cons y a)
  then show ?case using split_by_not_Nil [of p a] by (auto split: list.splits)
qed simp

lemma flags_ok_append [simp]: "flags_ok (a @ b) = (flags_ok a \<and> flags_ok b)"
  by (simp add: flags_ok_def)

lemma split_whitespace_cut: "split_whitespace (a @ CHR '' '' # b) = split_whitespace a @ split_whitespace b"
  by (simp add: split_whitespace_def split_by_cut is_ws_def)

lemma split_whitespace_word: "list_all (\<lambda>c. \<not> is_ws c) s \<Longrightarrow> split_whitespace s = (if s = [] then [] else [s])"
proof -
  assume "list_all (\<lambda>c. \<not> is_ws c) s"
  then have "split_by is_ws s = [s]" by (induction s) auto
  then show ?thesis by (simp add: split_whitespace_def)
qed

lemma bare_flags: "bare s \<Longrightarrow> flags_ok (split_whitespace s)"
  by (simp add: bare_def split_whitespace_word flags_ok_def)

lemma bare_value: "f \<in> set match_flags \<Longrightarrow> bare s \<Longrightarrow> flags_ok (split_whitespace (f @ '' '' @ s))"
  using bare_flags [of s] by (auto simp: split_whitespace_cut match_flags_def rust_eval flags_ok_def)

lemma join_flags: "list_all (\<lambda>p. flags_ok (split_whitespace p)) ps \<Longrightarrow> flags_ok (split_whitespace (join '' '' ps))"
  by (induction ps rule: induct_list012) (simp_all add: split_whitespace_cut split_whitespace_word flags_ok_def)

lemma members_bare:
  assumes "config_bare vms c" "m \<in> set (members_for_zone_on_node n z (rc_zones c))" shows "bare m"
proof -
  from assms(2) obtain ms where "map_of (rc_zones c) n = Some ms" "(m, z) \<in> set ms"
    by (cases "map_of (rc_zones c) n") (auto simp: members_for_zone_on_node_def)
  then have "(n, ms) \<in> set (rc_zones c)" "(m, z) \<in> set ms" by (auto dest: map_of_SomeD)
  with assms(1) show ?thesis unfolding config_bare_def list_all_iff by blast
qed

lemma expand_flags:
  assumes "config_bare vms c" "endpoint_bare ep" "expand_endpoint vms ep side c n = Ok v"
  shows "list_all (list_all (\<lambda>p. flags_ok (split_whitespace p))) v"
proof -
  have fl: "(if side = ''src'' then ''-s'' else ''-d'') \<in> set match_flags"
    "(if side = ''src'' then ''-i'' else ''-o'') \<in> set match_flags" by (simp_all add: match_flags_def)
  have ip: "bare (a @ ''/32'')" if "bare a" for a
    using that by (cases a) (auto simp: bare_def starts_with_def is_ws_def)
  have guest: "bare a" if "find (\<lambda>v. fst v = name) vms = Some (nm, Some a)" for name nm a
    using that assms(1) by (auto simp: config_bare_def list_all_iff dest!: find_SomeD)
  have lan: "bare (la_subnet_cidr l)" if "find (\<lambda>l. la_id l = i) (rc_lans c) = Some l" for i l
    using that assms(1) by (auto simp: config_bare_def list_all_iff dest!: find_SomeD)
  show ?thesis
    using assms(2,3) bare_value [OF fl(1) ip [OF guest]] bare_value [OF fl(1) lan] bare_value [OF fl(1)] bare_value [OF fl(2)]
      members_bare [OF assms(1)]
    by (cases ep) (auto simp: expand_endpoint_def Let_def list_all_iff split: option.splits prod.splits if_splits)
qed

text \<open>A line that starts with a dash appends to one chain, an own one, and holds no other command.\<close>

definition own_rule :: "string \<Rightarrow> bool" where
  "own_rule l =
     (starts_with ''-'' l \<longrightarrow>
        (case split_whitespace l of a # c # ws \<Rightarrow> a = ''-A'' \<and> c \<in> set own_chains \<and> flags_ok ws | _ \<Rightarrow> False))"

lemma own_rule_append:
  assumes "c \<in> set own_chains" "flags_ok (split_whitespace r)"
  shows "own_rule (''-A '' @ c @ '' '' @ r)"
proof -
  have "split_whitespace (''-A '' @ c @ '' '' @ r) = split_whitespace ''-A'' @ split_whitespace c @ split_whitespace r"
    using split_whitespace_cut [of "''-A''"] by (simp add: split_whitespace_cut)
  moreover have "split_whitespace c = [c]" "split_whitespace ''-A'' = [''-A'']"
    using assms(1) by (auto simp: own_chains_def FILTER_CHAINS_def CHAIN_NAME_def split_whitespace_word is_ws_def)
  ultimately show ?thesis using assms by (simp add: own_rule_def)
qed

lemma match_parts_flags:
  assumes "proto \<in> set (protos_of p)" "list_all (\<lambda>p. flags_ok (split_whitespace p)) (from @ to)"
    "list_all (\<lambda>p. bare (po_port p)) (fr_ports rule)"
  shows "\<exists>ps. match_parts rule chain proto from to = (''-A '' @ chain) # ps \<and> list_all (\<lambda>p. flags_ok (split_whitespace p)) ps"
proof -
  have port: "bare (replace_char (CHR ''-'') (CHR '':'') s)" if "bare s" for s
    using that by (cases s) (auto simp: bare_def replace_char_def starts_with_def list_all_iff is_ws_def)
  have pr: "flags_ok (split_whitespace (''-p '' @ x))" if "proto = Some x" for x
    using that assms(1) bare_value [of "''-p''" x]
    by (auto simp: protos_of_def match_flags_def bare_def starts_with_def is_ws_def split: protocol.splits)
  have po: "flags_ok (split_whitespace (''--dport '' @ replace_char (CHR ''-'') (CHR '':'') (po_port x)))"
    "flags_ok (split_whitespace (''--sport '' @ replace_char (CHR ''-'') (CHR '':'') (po_port x)))"
    if "x \<in> set (fr_ports rule)" for x
    using bare_value [of "''--dport''", OF _ port] bare_value [of "''--sport''", OF _ port] that assms(3)
    by (auto simp: match_flags_def list_all_iff)
  have "flags_ok (split_whitespace ''-m conntrack --ctstate NEW'')" by code_simp
  with pr po assms(2) show ?thesis
    by (auto simp: match_parts_def list_all_iff split: option.splits)
qed

lemma emit_rule_own:
  assumes "bare (fr_id rule)" "chain \<in> set FILTER_CHAINS" "proto \<in> set (protos_of p)"
    "list_all (\<lambda>p. flags_ok (split_whitespace p)) (from @ to)" "list_all (\<lambda>p. bare (po_port p)) (fr_ports rule)"
    "emit_rule rule chain proto from to = Some ls"
  shows "list_all own_rule ls"
proof -
  obtain ps where ps: "match_parts rule chain proto from to = (''-A '' @ chain) # ps"
    "list_all (\<lambda>p. flags_ok (split_whitespace p)) ps" using match_parts_flags [OF assms(3-5)] by blast
  have own: "own_rule (join '' '' (match_parts rule chain proto from to @ xs))"
    if "xs \<noteq> []" "list_all (\<lambda>p. flags_ok (split_whitespace p)) xs" for xs
    using own_rule_append [OF _ join_flags, of chain "ps @ xs"] that ps assms(2) join_Cons [of "ps @ xs" "'' ''" "''-A '' @ chain"]
    by (simp add: own_chains_def)
  have act: "flags_ok (split_whitespace (action_flag a))" for a
  proof -
    have "list_all (\<lambda>a. flags_ok (split_whitespace (action_flag a))) [Allow, Deny, Reject, Log]" by code_simp
    then show ?thesis by (cases a) simp_all
  qed
  have log: "flags_ok (split_whitespace ''-j NFLOG'')" "flags_ok (split_whitespace ''--nflog-group 1'')" by code_simp+
  have tag: "flags_ok (split_whitespace (''--nflog-prefix '' @ [CHR 0x22] @ ''wolfrouter-'' @ w @ '' '' @ [CHR 0x22]))"
    if "str_slice_to k (fr_id rule) = Some w" for k w
  proof -
    have w: "list_all (\<lambda>c. \<not> is_ws c) (CHR 0x22 # ''wolfrouter-'' @ w)"
      using that assms(1)
      by (auto simp: str_slice_to_def bare_def list_all_iff is_ws_def split: if_splits dest!: in_set_takeD)
    have "split_whitespace ([CHR 0x22] @ ''wolfrouter-'' @ w @ '' '' @ [CHR 0x22]) = [CHR 0x22 # ''wolfrouter-'' @ w, [CHR 0x22]]"
      using split_whitespace_cut [of "CHR 0x22 # ''wolfrouter-'' @ w" "[CHR 0x22]"] split_whitespace_word [OF w]
      by (simp add: split_whitespace_word is_ws_def)
    then show ?thesis
      using split_whitespace_cut [of "''--nflog-prefix''" "[CHR 0x22] @ ''wolfrouter-'' @ w @ '' '' @ [CHR 0x22]"]
      by (simp add: split_whitespace_word is_ws_def flags_ok_def match_flags_def starts_with_def)
  qed
  show ?thesis using assms(6) own act log tag by (auto simp: emit_rule_def Let_def split: if_splits)
qed

lemma resolve_end_own:
  assumes "config_bare vms c" "endpoint_bare ep"
  shows "case resolve_end vms rid nm ep side c n of
     Inl l \<Rightarrow> own_rule l | Inr v \<Rightarrow> list_all (list_all (\<lambda>p. flags_ok (split_whitespace p))) v"
  using expand_flags [OF assms]
  by (auto simp: resolve_end_def own_rule_def skipped_def starts_with_def split: sum.splits)

lemma ruleset_own_rules:
  assumes "config_clean vms c" "config_bare vms c" "build_ruleset vms ti c n = Some txt"
  shows "list_all own_rule (lines txt)"
proof -
  obtain rules where rs: "lines txt = scaffold_lines @ threat_lines IPSET_NAME_V4 ti @ concat rules @ [''COMMIT'']"
    "\<And>ls. ls \<in> set rules \<Longrightarrow> \<exists>r \<in> set (rc_rules c). compile_rule vms r c n = Some ls"
    using ruleset_text [OF assms(1,3)] by blast
  have "list_all own_rule ls" if l: "ls \<in> set rules" for ls
  proof -
    from rs(2) [OF l] obtain r where r: "r \<in> set (rc_rules c)" "compile_rule vms r c n = Some ls" by blast
    then have b: "bare (fr_id r)" "endpoint_bare (fr_from r)" "endpoint_bare (fr_to r)" "list_all (\<lambda>p. bare (po_port p)) (fr_ports r)"
      using assms(2) by (auto simp: config_bare_def list_all_iff)
    show ?thesis
      by (rule compile_rule_all [OF r(2) resolve_end_own [OF assms(2) b(2)] resolve_end_own [OF assms(2) b(3)]])
        (use emit_rule_own [OF b(1) chain_of_filter _ _ b(4)] in simp)
  qed
  moreover have "list_all own_rule (scaffold_lines @ [''COMMIT''])" by code_simp
  moreover have "list_all own_rule (threat_lines IPSET_NAME_V4 \<lparr>ti_enabled = True, ti_dry_run = False, ti_paused = False\<rparr>)" by code_simp
  then have "list_all own_rule (threat_lines IPSET_NAME_V4 ti)" by (simp add: threat_lines_def enforcement_active_def)
  ultimately show ?thesis using rs(1) by (auto simp: list_all_iff)
qed

lemma starts_with_trim:
  assumes "starts_with pat (trim l)" "l \<noteq> [] \<Longrightarrow> \<not> is_ws (hd l)"
  shows "starts_with pat l"
proof -
  have "dropWhile is_ws l = l" using assms(2) by (cases l) auto
  then have "trim l = rev (dropWhile is_ws (rev l))" by (simp add: trim_def)
  moreover have "rev l = takeWhile is_ws (rev l) @ dropWhile is_ws (rev l)" by simp
  ultimately have "l = trim l @ rev (takeWhile is_ws (rev l))" by (metis rev_append rev_rev_ident)
  with assms(1) show ?thesis by (metis append_assoc starts_with_iff)
qed

lemma own_line_no_concern: "own_line l \<Longrightarrow> line_concern peer ports l = None"
proof -
  assume own: "own_line l"
  then have "l \<noteq> [] \<and> \<not> is_ws (hd l)" by (auto simp: own_line_def is_ws_def)
  moreover have "\<not> starts_with ''-A INPUT '' l \<and> \<not> starts_with ''-I INPUT '' l"
    using own by (auto simp: own_line_def own_chains_def FILTER_CHAINS_def CHAIN_NAME_def starts_with_def)
  ultimately show ?thesis using starts_with_trim by (auto simp: line_concern_def Let_def)
qed

section \<open>Addresses in the pre-flight check\<close>

lemma bit_of_nat_byte: "d < 256 \<Longrightarrow> bit (of_nat d :: u32) i \<Longrightarrow> i < 8"
proof -
  assume d: "d < 256" and b: "bit (of_nat d :: u32) i"
  then have "take_bit 8 d = d" by (simp add: take_bit_nat_eq_self)
  moreover from b have "bit d i" by (simp add: bit_of_nat_iff)
  ultimately show "i < 8" by (metis bit_take_bit_iff)
qed

lemma or_byte:
  fixes x :: u32
  assumes "d < 256" shows "push_bit 8 x OR of_nat d = x * 256 + of_nat d"
proof -
  have "push_bit 8 x AND of_nat d = 0"
    by (rule bit_word_eqI) (use bit_of_nat_byte [OF assms] in \<open>fastforce simp: bit_simps\<close>)
  then show ?thesis
    by (simp add: disjunctive_add_eq_or [symmetric] push_bit_eq_mult)
qed

lemma octets_u32_value:
  assumes "b < 256" "c < 256" "d < 256"
  shows "octets_u32 [a, b, c, d] = ipv4_of_octets a b c d"
proof -
  have "octets_u32 [a, b, c, d] =
      push_bit 8 (push_bit 8 (push_bit 8 (of_nat a) OR of_nat b) OR of_nat c) OR (of_nat d :: u32)"
    by (simp add: octets_u32_def push_bit_or or.assoc)
  also have "\<dots> = ipv4_of_octets a b c d"
    using assms by (simp add: or_byte ipv4_of_octets_def)
  finally show ?thesis .
qed

lemma octets_of_show:
  assumes "octets x = (a, b, c, d)" shows "octets_of (show_ipv4 x) = [a, b, c, d]"
proof -
  note rng = octets_range [OF assms]
  have n: "CHR ''.'' \<notin> set (show_nat k)" for k using digits_not_char [OF show_nat_digits] by simp
  have "split_char (CHR ''.'') (show_ipv4 x) = [show_nat a, show_nat b, show_nat c, show_nat d]"
    using n by (simp add: show_ipv4_def assms split_char_append split_char_no_sep)
  with rng show ?thesis by (simp add: octets_of_def parse_uint_show_nat map_filter_simps)
qed

lemma octets_u32_show:
  "length (octets_of (show_ipv4 x)) = 4 \<and> octets_u32 (octets_of (show_ipv4 x)) = x"
proof -
  obtain a b c d where o: "octets x = (a, b, c, d)" by (cases "octets x") auto
  note octets_range [OF o]
  then show ?thesis
    using octets_u32_value [of b c d a] by (simp add: octets_of_show [OF o] ipv4_of_octets_octets [OF o])
qed

section \<open>Properties\<close>

definition demo_rule :: "string \<Rightarrow> action \<Rightarrow> firewall_rule" where
  "demo_rule i a = \<lparr>fr_id = i, fr_enabled = True, fr_order = 1, fr_action = a, fr_direction = Input,
     fr_from = AnyEnd, fr_to = AnyEnd, fr_protocol = Tcp, fr_ports = [\<lparr>po_port = ''8553'', po_side = Dst\<rparr>],
     fr_state_track = True, fr_log_match = False, fr_comment = [], fr_node_id = None\<rparr>"

definition demo_config :: "firewall_rule \<Rightarrow> router_config" where
  "demo_config r = \<lparr>rc_zones = [], rc_lans = [], rc_rules = [r], rc_auto_apply = True, rc_safe_mode_seconds = 30\<rparr>"

definition demo_ti :: threat_intel_config where
  "demo_ti = \<lparr>ti_enabled = True, ti_dry_run = False, ti_paused = False\<rparr>"

text \<open>
  C28 (ruleset_own_chains). When no text of the configuration (rule ids, endpoints, ports, LAN ranges, zone interfaces, guest
  addresses) has a line break, every line of a compiled ruleset starts as the table header, \<^verbatim>\<open>COMMIT\<close>, a comment, or a
  declaration of or an append to a WolfRouter chain or the threat-intel chain, never a built-in
  one, Docker's or the operator's. When moreover none of the values has white space or starts with a dash, an append line is, word by word,
  \<^verbatim>\<open>-A\<close>, one of these chains, and then only match and target options with their values: no second
  command follows. Neither \<^verbatim>\<open>create_rule\<close> nor \<^verbatim>\<open>update_rule\<close> checks these conditions; an
  endpoint with a line break adds a line of its own (\<open>endpoint_injects_line\<close>).
\<close>

theorem ruleset_own_chains:
  assumes "config_clean vms c" and "build_ruleset vms ti c n = Some rs"
  shows "list_all own_line (lines rs) \<and> (config_bare vms c \<longrightarrow> list_all own_rule (lines rs))"
  using ruleset_lines [OF assms] ruleset_own_rules [OF assms(1) _ assms(2)] by blast

theorem ruleset_own_chains_witness:
  "list_all own_line (lines (the (build_ruleset [] demo_ti (demo_config (demo_rule ''r1'' Deny)) ''n''))) \<and>
   list_all own_rule (lines (the (build_ruleset [] demo_ti (demo_config (demo_rule ''r1'' Deny)) ''n'')))"
proof -
  have "config_clean [] (demo_config (demo_rule ''r1'' Deny))" "config_bare [] (demo_config (demo_rule ''r1'' Deny))" by code_simp+
  moreover have "build_ruleset [] demo_ti (demo_config (demo_rule ''r1'' Deny)) ''n'' \<noteq> None" by code_simp
  then have "build_ruleset [] demo_ti (demo_config (demo_rule ''r1'' Deny)) ''n'' =
      Some (the (build_ruleset [] demo_ti (demo_config (demo_rule ''r1'' Deny)) ''n''))" by simp
  ultimately show ?thesis using ruleset_own_chains by blast
qed

text \<open>
  A line break in an endpoint writes a line of its own: a rule whose source is an address followed by a
  line break and any text puts that text, with the rest of its own line after it, into the ruleset as a separate line, which
  \<^verbatim>\<open>iptables-restore\<close> applies to whatever chain it names.
\<close>

theorem endpoint_injects_line:
  assumes "r = (demo_rule i a)\<lparr>fr_from := IpEnd (ip @ nl # evil)\<rparr>" "clean ip" "clean evil" "a \<noteq> Log"
  shows "\<exists>rs rest. build_ruleset vms ti (demo_config r) n = Some rs \<and> evil @ rest \<in> set (lines rs)"
proof -
  let ?rest = "'' --dport 8553 -m conntrack --ctstate NEW '' @ action_flag a"
  have port: "replace_char (CHR ''-'') (CHR '':'') ''8553'' = ''8553''" by code_simp
  have "compile_rule vms r (demo_config r) n =
      Some [''-A WOLFROUTER_IN -p tcp -s '' @ ip @ nl # evil @ ?rest]"
    using assms(4) by (simp add: assms(1) compile_rule_def resolve_end_def expand_endpoint_def demo_rule_def protos_of_def emit_rule_def
        match_parts_def chain_of_def port)
  moreover have "active_rules (demo_config r) n = [r]" by (simp add: active_rules_def demo_config_def assms(1) demo_rule_def)
  ultimately have b: "build_ruleset vms ti (demo_config r) n = Some (unlines (scaffold_lines @ threat_lines IPSET_NAME_V4 ti @
      [''-A WOLFROUTER_IN -p tcp -s '' @ ip, evil @ ?rest, ''COMMIT'']))"
    by (simp add: build_ruleset_def unlines_append iptables_lines_v4_def unlines_def)
  have "clean ?rest" by (cases a) (simp_all add: action_flag_def)
  then have "list_all clean (scaffold_lines @ threat_lines IPSET_NAME_V4 ti @
      [''-A WOLFROUTER_IN -p tcp -s '' @ ip, evil @ ?rest, ''COMMIT''])"
    using scaffold_own threat_own assms(2,3) by (auto simp: list_all_iff)
  from lines_unlines [OF this] b show ?thesis by auto
qed

theorem endpoint_injects_line_witness:
  "\<exists>rs rest. build_ruleset [] demo_ti (demo_config ((demo_rule ''r1'' Allow)\<lparr>fr_from := IpEnd (''10.0.0.0/8'' @ nl # ''-I INPUT -j ACCEPT'')\<rparr>)) ''n''
     = Some rs \<and> ''-I INPUT -j ACCEPT'' @ rest \<in> set (lines rs)"
  by (rule endpoint_injects_line [OF refl]) simp_all

text \<open>
  The lock-out check never fires: the pre-flight check of an apply reads the compiled
  ruleset for appends to the built-in INPUT chain, which the compiler never writes. It therefore
  reports no concern for any configuration, peer and ports; a rule that drops the management
  port for everyone passes.
\<close>

theorem preflight_never_flags:
  assumes "config_clean vms c" and "build_ruleset vms ti c n = Some rs"
  shows "analyse_ruleset_against_session rs peer ports = []"
proof -
  have "line_concern p ports l = None" if "l \<in> set (lines rs)" for p l
    using ruleset_lines [OF assms] that by (auto simp: list_all_iff own_line_no_concern)
  then have "List.map_filter (line_concern p ports) (lines rs) = []" for p
    by (induction "lines rs") (auto simp: map_filter_def filter_empty_conv)
  then show ?thesis by (simp add: analyse_ruleset_against_session_def split: option.splits)
qed

theorem preflight_never_flags_witness:
  "analyse_ruleset_against_session (the (build_ruleset [] demo_ti (demo_config (demo_rule ''r1'' Deny)) ''n''))
     (Some ''10.0.0.9'') [8553, 8554] = []"
proof (rule preflight_never_flags)
  show "config_clean [] (demo_config (demo_rule ''r1'' Deny))" by code_simp
  have "build_ruleset [] demo_ti (demo_config (demo_rule ''r1'' Deny)) ''n'' \<noteq> None" by code_simp
  then show "build_ruleset [] demo_ti (demo_config (demo_rule ''r1'' Deny)) ''n'' =
      Some (the (build_ruleset [] demo_ti (demo_config (demo_rule ''r1'' Deny)) ''n''))" by simp
qed

text \<open>
  A logging rule can stop the compiler: the log prefix is the first eight bytes of the rule
  id. When the eighth byte is inside a multi-byte character, an active logging rule that
  compiles for any packet makes the whole compilation panic, for every other rule too.
\<close>

theorem build_ruleset_panics:
  assumes "r \<in> set (active_rules c n)" and "fr_log_match r \<or> fr_action r = Log"
    and "fr_from r = AnyEnd" and "fr_to r = AnyEnd"
    and "str_slice_to (min (length (fr_id r)) 8) (fr_id r) = None"
  shows "build_ruleset vms ti c n = None"
proof -
  have "emit_rule r ch proto [] [] = None" for ch proto
    using assms(2,5) by (simp add: emit_rule_def Let_def)
  then have "compile_rule vms r c n = None"
    using assms(3,4)
    by (auto simp: compile_rule_def resolve_end_def expand_endpoint_def Let_def those_None protos_of_def
        split: protocol.splits)
  with assms(1) have "None \<in> set (map (\<lambda>r. compile_rule vms r c n) (active_rules c n))" by force
  then show ?thesis by (simp add: build_ruleset_def those_None)
qed

theorem build_ruleset_panics_witness:
  "build_ruleset [] demo_ti (demo_config (demo_rule (''regle-7'' @ [CHR 0xC3, CHR 0xA9]) Log)) ''n'' = None"
  by (rule build_ruleset_panics [of "demo_rule (''regle-7'' @ [CHR 0xC3, CHR 0xA9]) Log"])
    (simp_all add: demo_config_def demo_rule_def active_rules_def str_slice_to_def is_continuation_def)

text \<open>
  Logging is never lost: a rule that logs, by its flag or because its action is Log, is
  compiled to two lines with the same match: the copy to NFLOG first, then the action.
\<close>

theorem log_rule_logs:
  assumes "emit_rule r chain proto fa ta = Some ls" and "fr_log_match r \<or> fr_action r = Log"
  shows "\<exists>m short. ls = [m @ '' -j NFLOG --nflog-group 1 --nflog-prefix '' @ [CHR 0x22] @ ''wolfrouter-'' @ short @ '' '' @ [CHR 0x22],
     m @ '' '' @ action_flag (fr_action r)]"
proof -
  have snoc: "join '' '' ((w # ws) @ [x]) = join '' '' (w # ws) @ '' '' @ x" for w ws x
    by (induction ws arbitrary: w) (simp_all add: join_Cons)
  obtain ps where p: "match_parts r chain proto fa ta = (''-A '' @ chain) # ps" using match_parts_Cons by blast
  have "join '' '' (match_parts r chain proto fa ta @ [x, y, z]) =
      join '' '' (match_parts r chain proto fa ta) @ '' '' @ x @ '' '' @ y @ '' '' @ z" for x y z
    using snoc [of "''-A '' @ chain" "ps @ [x, y]" z] snoc [of "''-A '' @ chain" "ps @ [x]" y]
      snoc [of "''-A '' @ chain" ps x] by (simp add: p)
  with assms snoc [of "''-A '' @ chain" ps] show ?thesis
    by (auto simp: emit_rule_def Let_def p)
qed

theorem log_rule_logs_witness:
  "\<exists>m short. emit_rule (demo_rule ''r1'' Log) ''WOLFROUTER_IN'' (Some ''tcp'') [] [] =
     Some [m @ '' -j NFLOG --nflog-group 1 --nflog-prefix '' @ [CHR 0x22] @ ''wolfrouter-'' @ short @ '' '' @ [CHR 0x22],
     m @ '' -j RETURN'']"
proof -
  have "emit_rule (demo_rule ''r1'' Log) ''WOLFROUTER_IN'' (Some ''tcp'') [] [] \<noteq> None" by code_simp
  then obtain ls where ls: "emit_rule (demo_rule ''r1'' Log) ''WOLFROUTER_IN'' (Some ''tcp'') [] [] = Some ls" by auto
  from log_rule_logs [OF this] ls show ?thesis by (simp add: demo_rule_def action_flag_def)
qed

text \<open>
  The source match of the pre-flight check: on IPv4 text the check of a rule's source against
  the peer is membership of the address in the network, for every prefix length.
\<close>

theorem cidr_matches_ip_net:
  assumes "p \<le> 32"
  shows "cidr_matches_ip (show_ipv4 n @ ''/'' @ show_nat p) (show_ipv4 a) \<longleftrightarrow> a AND mask_v4 p = n AND mask_v4 p"
proof -
  have "CHR ''/'' \<notin> set (show_ipv4 n)"
    using digits_not_char [OF show_nat_digits] by (auto simp: show_ipv4_def split: prod.splits)
  then have "split_once (CHR ''/'') (show_ipv4 n @ ''/'' @ show_nat p) = Some (show_ipv4 n, show_nat p)"
    by (simp add: split_once_append)
  moreover have "parse_uint 255 (show_nat p) = Some p" using assms by (intro parse_uint_show_nat) simp
  ultimately show ?thesis
    using assms octets_u32_show [of a] octets_u32_show [of n]
    by (simp add: cidr_matches_ip_def Let_def mask_v4_def)
qed

theorem cidr_matches_ip_net_witness:
  "cidr_matches_ip (show_ipv4 0x0A000000 @ ''/'' @ show_nat 8) (show_ipv4 0x0A010203) = True"
  using cidr_matches_ip_net [of 8 "0x0A000000" "0x0A010203"] by (simp add: rust_eval)

end
