(* ===== verification/Wolfrun.thy ===== *)
theory Wolfrun
  imports Keyed_Store
begin

text \<open>
  WolfRun, the service orchestrator: the shared state of \<^verbatim>\<open>wolfrun/mod.rs\<close> (services,
  failover events, deletion tombstones), the gossip merge, and leader election.

  Times are seconds since the epoch. The clock, fresh ids, the WolfNet address allocator's answer
  and the host architecture are arguments. Each definition is one critical section of the code;
  \<^verbatim>\<open>delete\<close>, \<^verbatim>\<open>remove_if_exists\<close> and \<^verbatim>\<open>merge_from_peer\<close> take two locks one after the other and
  are the composition of their two sections. Saving to disk after a change is left out.
\<close>

section \<open>Data\<close>

datatype runtime = Docker | Lxc

datatype placement = AnyNode | PreferNode string | RequireNode string

datatype restart_policy = Always | OnFailure | Never

record service_instance =
  si_node_id :: string
  si_container_name :: string
  si_wolfnet_ip :: "string option"
  si_status :: string
  si_last_seen :: nat
  si_standby :: bool

record failover_event =
  fe_timestamp :: nat
  fe_service_id :: string
  fe_service_name :: string
  fe_from_node :: string
  fe_to_node :: string
  fe_container_name :: string
  fe_detail :: string

record lxc_config =
  lx_distribution :: string
  lx_release :: string
  lx_architecture :: string

record service =
  sv_id :: string
  sv_name :: string
  sv_image :: string
  sv_replicas :: nat
  sv_min_replicas :: nat
  sv_max_replicas :: nat
  sv_runtime :: runtime
  sv_lxc_config :: "lxc_config option"
  sv_env :: "string list"
  sv_ports :: "string list"
  sv_volumes :: "string list"
  sv_cluster_name :: string
  sv_placement :: placement
  sv_restart_policy :: restart_policy
  sv_instances :: "service_instance list"
  sv_service_ip :: "string option"
  sv_lb_policy :: string
  sv_allowed_nodes :: "string list"
  sv_failover :: bool
  sv_created_at :: nat
  sv_updated_at :: nat

record settings_update =
  su_min :: "nat option"
  su_max :: "nat option"
  su_desired :: "nat option"
  su_lb_policy :: "string option"
  su_allowed_nodes :: "string list option"
  su_failover :: "bool option"

record adopt_service =
  ad_name :: string
  ad_container_name :: string
  ad_node_id :: string
  ad_image :: string
  ad_runtime :: runtime
  ad_cluster_name :: string
  ad_env :: "string list"
  ad_ports :: "string list"
  ad_volumes :: "string list"

record wolfrun_state =
  services :: "service list"
  failover_events :: "failover_event list"
  deleted :: "(string, nat) hashmap"

definition TOMBSTONE_RETENTION_SECS :: nat where "TOMBSTONE_RETENTION_SECS = 30 * 24 * 3600"
definition TOMBSTONE_MAX :: nat where "TOMBSTONE_MAX = 500"

section \<open>Tombstones\<close>

text \<open>\<^verbatim>\<open>iter().min_by_key(ts)\<close> over the map: the first of the oldest entries.\<close>

fun oldest :: "(string, nat) hashmap \<Rightarrow> string option" where
  "oldest [] = None"
| "oldest [(i, ts)] = Some i"
| "oldest ((i, ts) # (j, us) # m) = (if us < ts then oldest ((j, us) # m) else oldest ((i, ts) # m))"

lemma oldest_in: "oldest m = Some i \<Longrightarrow> i \<in> fst ` set m"
  by (induction m rule: oldest.induct) (auto split: if_splits)

lemma oldest_None_iff [simp]: "oldest m = None \<longleftrightarrow> m = []"
  by (induction m rule: oldest.induct) auto

lemma length_delete_less: "i \<in> fst ` set m \<Longrightarrow> length (AList.delete i m) < length m"
  by (auto simp: AList.delete_eq intro: length_filter_less)

function drop_oldest :: "(string, nat) hashmap \<Rightarrow> (string, nat) hashmap" where
  "drop_oldest del =
     (if length del > TOMBSTONE_MAX then
        (case oldest del of None \<Rightarrow> del | Some i \<Rightarrow> drop_oldest (AList.delete i del))
      else del)"
  by auto
termination
  by (relation "measure length") (auto intro: length_delete_less dest: oldest_in)

declare drop_oldest.simps [simp del]

definition prune_tombstones :: "nat \<Rightarrow> (string, nat) hashmap \<Rightarrow> (string, nat) hashmap" where
  "prune_tombstones now del = drop_oldest (filter (\<lambda>(_, ts). now - ts < TOMBSTONE_RETENTION_SECS) del)"

definition record_tombstone :: "nat \<Rightarrow> string \<Rightarrow> wolfrun_state \<Rightarrow> wolfrun_state" where
  "record_tombstone now i s = s\<lparr>deleted := prune_tombstones now (AList.update i now (deleted s))\<rparr>"

definition is_tombstoned :: "string \<Rightarrow> wolfrun_state \<Rightarrow> bool" where
  "is_tombstoned i s = (map_of (deleted s) i \<noteq> None)"

section \<open>Operations\<close>

definition add_failover_event :: "failover_event \<Rightarrow> wolfrun_state \<Rightarrow> wolfrun_state" where
  "add_failover_event e s =
     (let evts = failover_events s @ [e] in
      s\<lparr>failover_events := (if length evts > 100 then drop (length evts - 100) evts else evts)\<rparr>)"

definition get_failover_events :: "string option \<Rightarrow> wolfrun_state \<Rightarrow> failover_event list" where
  "get_failover_events i s =
     (case i of Some i \<Rightarrow> filter (\<lambda>e. fe_service_id e = i) (failover_events s) | None \<Rightarrow> failover_events s)"

definition remap_instance :: "string \<Rightarrow> string \<Rightarrow> service_instance \<Rightarrow> service_instance" where
  "remap_instance old new inst = (if si_node_id inst = old then inst\<lparr>si_node_id := new\<rparr> else inst)"

definition remap_node_id :: "string \<Rightarrow> string \<Rightarrow> wolfrun_state \<Rightarrow> nat \<times> wolfrun_state" where
  "remap_node_id old new s =
     (if old = new \<or> old = [] then (0, s)
      else
        (length (filter (\<lambda>inst. si_node_id inst = old) (concat (map sv_instances (services s)))),
         s\<lparr>services := map (\<lambda>v. v\<lparr>sv_instances := map (remap_instance old new) (sv_instances v)\<rparr>) (services s)\<rparr>))"

definition rename_cluster :: "string \<Rightarrow> string \<Rightarrow> wolfrun_state \<Rightarrow> nat \<times> wolfrun_state" where
  "rename_cluster old new s =
     (length (filter (\<lambda>v. eq_ignore_ascii_case (sv_cluster_name v) old) (services s)),
      s\<lparr>services := map (\<lambda>v. if eq_ignore_ascii_case (sv_cluster_name v) old
          then v\<lparr>sv_cluster_name := new\<rparr> else v) (services s)\<rparr>)"

definition list_services :: "string option \<Rightarrow> wolfrun_state \<Rightarrow> service list" where
  "list_services cluster s =
     (case cluster of
        Some c \<Rightarrow> filter (\<lambda>v. sv_cluster_name v = c) (services s)
      | None \<Rightarrow> services s)"

definition get_service :: "string \<Rightarrow> wolfrun_state \<Rightarrow> service option" where
  "get_service i s = find (\<lambda>v. sv_id v = i) (services s)"

definition create_service ::
  "nat \<Rightarrow> string \<Rightarrow> string option \<Rightarrow> string \<Rightarrow> string \<Rightarrow> nat \<Rightarrow> string \<Rightarrow> string list \<Rightarrow> string list \<Rightarrow> string list \<Rightarrow>
   placement \<Rightarrow> restart_policy \<Rightarrow> runtime \<Rightarrow> lxc_config option \<Rightarrow> bool \<Rightarrow> wolfrun_state \<Rightarrow> service \<times> wolfrun_state" where
  "create_service now uuid vip name img replicas cluster env ports volumes pl rp rt lxc failover s =
     (let svc = \<lparr>sv_id = ''svc-'' @ take 8 uuid, sv_name = name, sv_image = img, sv_replicas = replicas,
            sv_min_replicas = 0, sv_max_replicas = 10, sv_runtime = rt, sv_lxc_config = lxc, sv_env = env,
            sv_ports = ports, sv_volumes = volumes, sv_cluster_name = cluster, sv_placement = pl,
            sv_restart_policy = rp, sv_instances = [], sv_service_ip = vip, sv_lb_policy = ''round_robin'',
            sv_allowed_nodes = [], sv_failover = failover, sv_created_at = now, sv_updated_at = now\<rparr>
      in (svc, s\<lparr>services := services s @ [svc]\<rparr>))"

text \<open>\<^verbatim>\<open>delete\<close>: its first section takes the service out, the second records the tombstone.\<close>

definition delete_remove :: "string \<Rightarrow> wolfrun_state \<Rightarrow> service option \<times> wolfrun_state" where
  "delete_remove i s =
     (find (\<lambda>v. sv_id v = i) (services s), s\<lparr>services := remove_first (\<lambda>v. sv_id v = i) (services s)\<rparr>)"

definition delete_service :: "nat \<Rightarrow> string \<Rightarrow> wolfrun_state \<Rightarrow> service option \<times> wolfrun_state" where
  "delete_service now i s =
     (case delete_remove i s of
        (None, s) \<Rightarrow> (None, s)
      | (Some v, s) \<Rightarrow> (Some v, record_tombstone now i s))"

definition on_service :: "string \<Rightarrow> (service \<Rightarrow> service) \<Rightarrow> wolfrun_state \<Rightarrow> bool \<times> wolfrun_state" where
  "on_service i f s =
     (find (\<lambda>v. sv_id v = i) (services s) \<noteq> None,
      s\<lparr>services := update_first (\<lambda>v. sv_id v = i) f (services s)\<rparr>)"

definition scale_one :: "nat \<Rightarrow> nat \<Rightarrow> service \<Rightarrow> service" where
  "scale_one now replicas v =
     (let v = (if replicas > sv_max_replicas v then v\<lparr>sv_max_replicas := replicas\<rparr> else v) in
      v\<lparr>sv_replicas := min (max replicas (sv_min_replicas v)) (sv_max_replicas v), sv_updated_at := now\<rparr>)"

definition scale :: "nat \<Rightarrow> string \<Rightarrow> nat \<Rightarrow> wolfrun_state \<Rightarrow> bool \<times> wolfrun_state" where
  "scale now i replicas s = on_service i (scale_one now replicas) s"

text \<open>\<^verbatim>\<open>if let Some(x) = o { f(x, v) }\<close>; the last two lines of \<^verbatim>\<open>update_settings\<close> are \<open>enforce_bounds\<close>.\<close>

definition if_some :: "'x option \<Rightarrow> ('x \<Rightarrow> 'a \<Rightarrow> 'a) \<Rightarrow> 'a \<Rightarrow> 'a" where
  "if_some x f v = (case x of Some y \<Rightarrow> f y v | None \<Rightarrow> v)"

definition enforce_bounds :: "nat \<Rightarrow> service \<Rightarrow> service" where
  "enforce_bounds now v =
     (let v = (if sv_min_replicas v > sv_max_replicas v then v\<lparr>sv_min_replicas := sv_max_replicas v\<rparr> else v)
      in v\<lparr>sv_replicas := min (max (sv_replicas v) (sv_min_replicas v)) (sv_max_replicas v), sv_updated_at := now\<rparr>)"

definition settings_one :: "nat \<Rightarrow> settings_update \<Rightarrow> service \<Rightarrow> service" where
  "settings_one now u v =
     (let v = if_some (su_min u) (\<lambda>n v. v\<lparr>sv_min_replicas := n\<rparr>) v;
          v = if_some (su_max u) (\<lambda>n v. v\<lparr>sv_max_replicas := n\<rparr>) v;
          v = if_some (su_desired u) (\<lambda>n v. v\<lparr>sv_replicas := n\<rparr>) v;
          v = if_some (su_lb_policy u)
                (\<lambda>p v. if p = ''ip_hash'' \<or> p = ''round_robin'' then v\<lparr>sv_lb_policy := p\<rparr> else v) v;
          v = if_some (su_allowed_nodes u) (\<lambda>ns v. v\<lparr>sv_allowed_nodes := ns\<rparr>) v;
          v = if_some (su_failover u) (\<lambda>b v. v\<lparr>sv_failover := b\<rparr>) v
      in enforce_bounds now v)"

definition update_settings :: "nat \<Rightarrow> string \<Rightarrow> settings_update \<Rightarrow> wolfrun_state \<Rightarrow> bool \<times> wolfrun_state" where
  "update_settings now i u s = on_service i (settings_one now u) s"

definition update_image :: "nat \<Rightarrow> string \<Rightarrow> string \<Rightarrow> wolfrun_state \<Rightarrow> bool \<times> wolfrun_state" where
  "update_image now i img s = on_service i (\<lambda>v. v\<lparr>sv_image := img, sv_updated_at := now\<rparr>) s"

definition update_instances :: "nat \<Rightarrow> string \<Rightarrow> service_instance list \<Rightarrow> wolfrun_state \<Rightarrow> wolfrun_state" where
  "update_instances now i insts s =
     snd (on_service i (\<lambda>v. v\<lparr>sv_instances := insts, sv_updated_at := now\<rparr>) s)"

definition lxc_of_image :: "string \<Rightarrow> string \<Rightarrow> lxc_config" where
  "lxc_of_image arch img =
     (case split_once (CHR '' '') img of
        Some (d, r) \<Rightarrow> \<lparr>lx_distribution = d, lx_release = r, lx_architecture = arch\<rparr>
      | None \<Rightarrow> \<lparr>lx_distribution = img, lx_release = ''24.04'', lx_architecture = arch\<rparr>)"

definition adopt :: "nat \<Rightarrow> string \<Rightarrow> string option \<Rightarrow> string \<Rightarrow> adopt_service \<Rightarrow> wolfrun_state \<Rightarrow> service \<times> wolfrun_state" where
  "adopt now uuid vip arch r s =
     (let inst = \<lparr>si_node_id = ad_node_id r, si_container_name = ad_container_name r, si_wolfnet_ip = None,
            si_status = ''running'', si_last_seen = now, si_standby = False\<rparr>;
          svc = \<lparr>sv_id = uuid, sv_name = ad_name r, sv_image = ad_image r, sv_replicas = 1,
            sv_min_replicas = 1, sv_max_replicas = 10, sv_runtime = ad_runtime r,
            sv_lxc_config = (case ad_runtime r of Lxc \<Rightarrow> Some (lxc_of_image arch (ad_image r)) | Docker \<Rightarrow> None),
            sv_env = ad_env r, sv_ports = ad_ports r, sv_volumes = ad_volumes r,
            sv_cluster_name = ad_cluster_name r, sv_placement = AnyNode, sv_restart_policy = Always,
            sv_instances = [inst], sv_service_ip = vip, sv_lb_policy = ''round_robin'', sv_allowed_nodes = [],
            sv_failover = False, sv_created_at = now, sv_updated_at = now\<rparr>
      in (svc, s\<lparr>services := services s @ [svc]\<rparr>))"

definition add_instance :: "string \<Rightarrow> service_instance \<Rightarrow> wolfrun_state \<Rightarrow> wolfrun_state" where
  "add_instance i inst s = snd (on_service i (\<lambda>v. v\<lparr>sv_instances := sv_instances v @ [inst]\<rparr>) s)"

definition remove_instance :: "string \<Rightarrow> string \<Rightarrow> wolfrun_state \<Rightarrow> wolfrun_state" where
  "remove_instance i c s =
     snd (on_service i (\<lambda>v. v\<lparr>sv_instances := filter (\<lambda>x. si_container_name x \<noteq> c) (sv_instances v)\<rparr>) s)"

definition services_managing :: "string \<Rightarrow> wolfrun_state \<Rightarrow> (string \<times> string) list" where
  "services_managing c s =
     map (\<lambda>v. (sv_id v, sv_name v))
       (filter (\<lambda>v. list_ex (\<lambda>x. si_container_name x = c) (sv_instances v)) (services s))"

text \<open>
  \<^verbatim>\<open>merge_from_peer\<close>: the first section partitions the payload under the tombstone lock, the
  second replaces the clusters of the payload under the services lock.
\<close>

definition merge_partition :: "service list \<Rightarrow> wolfrun_state \<Rightarrow> service list \<times> service list" where
  "merge_partition peer s =
     (filter (\<lambda>v. map_of (deleted s) (sv_id v) \<noteq> None) peer,
      filter (\<lambda>v. map_of (deleted s) (sv_id v) = None) peer)"

definition merge_replace :: "string list \<Rightarrow> service list \<Rightarrow> wolfrun_state \<Rightarrow> wolfrun_state" where
  "merge_replace peer_clusters accepted s =
     s\<lparr>services := filter (\<lambda>v. sv_cluster_name v \<notin> set peer_clusters) (services s) @ accepted\<rparr>"

definition merge_from_peer :: "service list \<Rightarrow> wolfrun_state \<Rightarrow> string list \<times> wolfrun_state" where
  "merge_from_peer peer s =
     (if peer = [] then ([], s)
      else
        let (rejected, accepted) = merge_partition peer s
        in (map sv_id rejected, merge_replace (map sv_cluster_name peer) accepted s))"

definition drop_if_exists :: "string \<Rightarrow> wolfrun_state \<Rightarrow> bool \<times> wolfrun_state" where
  "drop_if_exists i s =
     (let kept = filter (\<lambda>v. sv_id v \<noteq> i) (services s) in
      (length kept < length (services s), s\<lparr>services := kept\<rparr>))"

definition remove_if_exists :: "nat \<Rightarrow> string \<Rightarrow> wolfrun_state \<Rightarrow> bool \<times> wolfrun_state" where
  "remove_if_exists now i s =
     (let (removed, s) = drop_if_exists i s in (removed, record_tombstone now i s))"

section \<open>Leader election\<close>

text \<open>The fields of a cluster node the election reads.\<close>

record node =
  nd_id :: string
  nd_self_id :: "string option"
  nd_is_self :: bool
  nd_online :: bool
  nd_cluster_name :: "string option"

definition node_matches_id :: "node \<Rightarrow> string \<Rightarrow> bool" where
  "node_matches_id n i = (nd_id n = i \<or> nd_self_id n = Some i)"

definition self_cluster :: "node list \<Rightarrow> string" where
  "self_cluster nodes = unwrap_or ''WolfStack'' (Option.bind (find nd_is_self nodes) nd_cluster_name)"

definition cluster_node_ids :: "node list \<Rightarrow> string list" where
  "cluster_node_ids nodes =
     sort (map (\<lambda>n. unwrap_or (nd_id n) (nd_self_id n))
       (filter (\<lambda>n. nd_online n \<and> unwrap_or ''WolfStack'' (nd_cluster_name n) = self_cluster nodes) nodes))"

definition is_leader_among :: "node list \<Rightarrow> string \<Rightarrow> bool" where
  "is_leader_among nodes self_id =
     (case cluster_node_ids nodes of [] \<Rightarrow> True | leader_id # _ \<Rightarrow> leader_id = self_id)"

section \<open>Lemmas\<close>

declare map_of_eq_Some_iff [simp del]

lemma set_update_pair: "p \<in> set (AList.update k v m) \<Longrightarrow> p = (k, v) \<or> p \<in> set m"
  by (induction m) (auto split: if_splits)

lemma drop_oldest_small: "length del \<le> TOMBSTONE_MAX \<Longrightarrow> drop_oldest del = del"
  by (subst drop_oldest.simps) simp

lemma drop_oldest_subset: "set (drop_oldest del) \<subseteq> set del"
proof (induction del rule: drop_oldest.induct)
  case (1 del)
  show ?case
  proof (cases "length del > TOMBSTONE_MAX")
    case True
    then obtain i where i: "oldest del = Some i" by (cases "oldest del") auto
    from 1 [OF True i] have "set (drop_oldest (AList.delete i del)) \<subseteq> set (AList.delete i del)" .
    moreover have "drop_oldest del = drop_oldest (AList.delete i del)"
      using True i by (subst drop_oldest.simps) simp
    ultimately show ?thesis by (auto simp: AList.delete_eq)
  qed (simp add: drop_oldest_small)
qed

lemma length_drop_oldest: "length (drop_oldest del) \<le> TOMBSTONE_MAX"
proof (induction del rule: drop_oldest.induct)
  case (1 del)
  then show ?case by (subst drop_oldest.simps) (auto split: option.splits)
qed

lemma map_of_filter_value:
  "distinct (map fst m) \<Longrightarrow> map_of m i = Some v \<Longrightarrow> p (i, v) \<Longrightarrow> map_of (filter p m) i = Some v"
  by (induction m) (auto simp: map_of_eq_None_iff image_iff split: if_splits)

text \<open>A service id that has been deleted: remembered, and not among the services.\<close>

definition buried :: "string set \<Rightarrow> nat \<Rightarrow> string \<Rightarrow> wolfrun_state \<Rightarrow> bool" where
  "buried D t i s \<longleftrightarrow> distinct (map fst (deleted s)) \<and> fst ` set (deleted s) \<subseteq> D \<and>
     (\<exists>ts \<ge> t. map_of (deleted s) i = Some ts) \<and> i \<notin> sv_id ` set (services s)"

lemma record_tombstone_buried:
  assumes "buried D t i s" "finite D" "card D \<le> TOMBSTONE_MAX" "j \<in> D" "t \<le> now" "now < t + TOMBSTONE_RETENTION_SECS"
  shows "buried D t i (record_tombstone now j s)"
proof -
  let ?m = "AList.update j now (deleted s)"
  let ?p = "\<lambda>(_, ts). now - ts < TOMBSTONE_RETENTION_SECS"
  have m: "distinct (map fst ?m)" "fst ` set ?m \<subseteq> D"
    using assms(1,4) by (auto simp: buried_def distinct_update dest!: set_update_pair)
  have d: "distinct (map fst (filter ?p ?m))" using m(1) by (rule distinct_map_filter_key)
  have "length (filter ?p ?m) = card (fst ` set (filter ?p ?m))"
    using distinct_card [OF d] by simp
  also have "\<dots> \<le> card D" using m(2) assms(2) by (intro card_mono) auto
  finally have "prune_tombstones now ?m = filter ?p ?m"
    using assms(3) by (simp add: prune_tombstones_def drop_oldest_small)
  moreover obtain ts where "ts \<ge> t" "map_of ?m i = Some ts"
    using assms(1,5) by (cases "i = j") (auto simp: buried_def update_conv')
  then have "map_of (filter ?p ?m) i = Some ts" using assms(6) by (intro map_of_filter_value [OF m(1)]) (auto simp: TOMBSTONE_RETENTION_SECS_def)
  ultimately show ?thesis
    using assms(1) d m(2) \<open>ts \<ge> t\<close> by (auto simp: buried_def record_tombstone_def)
qed

lemma buried_services:
  "buried D t i s \<Longrightarrow> i \<notin> sv_id ` set ss \<Longrightarrow> buried D t i (s\<lparr>services := ss\<rparr>)"
  by (simp add: buried_def)

lemma sv_id_update: "(\<And>v. sv_id (f v) = sv_id v) \<Longrightarrow> sv_id ` set (update_first p f ss) = sv_id ` set ss"
  using arg_cong [OF map_update_first [of sv_id f p ss], of set] by simp

lemma on_service_buried:
  assumes "buried D t i s" "\<And>v. sv_id (f v) = sv_id v"
  shows "buried D t i (snd (on_service j f s))"
  using assms(1) unfolding on_service_def snd_conv
  by (rule buried_services) (use assms(1) in \<open>simp add: buried_def sv_id_update [OF assms(2)]\<close>)

lemma if_some_keeps: "(\<And>x v. k (f x v) = k v) \<Longrightarrow> k (if_some y f v) = k v"
  by (cases y) (simp_all add: if_some_def)

lemma enforce_bounds_keeps_id [simp]: "sv_id (enforce_bounds now v) = sv_id v"
  by (simp add: enforce_bounds_def Let_def)

lemma one_keeps_id [simp]: "sv_id (scale_one now n v) = sv_id v" "sv_id (settings_one now u v) = sv_id v"
  by (simp_all add: scale_one_def settings_one_def Let_def if_some_keeps [of sv_id])

lemma merge_buried: "buried D t i s \<Longrightarrow> buried D t i (snd (merge_from_peer peer s))"
  by (auto simp: merge_from_peer_def merge_partition_def merge_replace_def buried_def)

section \<open>Histories\<close>

datatype wolfrun_action =
    Create nat string "string option" string string nat string "string list" "string list" "string list"
      placement restart_policy runtime "lxc_config option" bool
  | Adopt nat string "string option" string adopt_service
  | Delete nat string
  | RemoveIfExists nat string
  | Tombstone nat string
  | Scale nat string nat
  | Settings nat string settings_update
  | UpdateImage nat string string
  | UpdateInstances nat string "service_instance list"
  | AddInstance string service_instance
  | RemoveInstance string string
  | Merge "service list"
  | RemapNode string string
  | RenameCluster string string
  | FailedOver failover_event

primrec wolfrun_step :: "wolfrun_action \<Rightarrow> wolfrun_state \<Rightarrow> wolfrun_state" where
  "wolfrun_step (Create now uuid vip nm img r cl env ports vols pl rp rt lxc fo) s =
     snd (create_service now uuid vip nm img r cl env ports vols pl rp rt lxc fo s)"
| "wolfrun_step (Adopt now uuid vip arch r) s = snd (adopt now uuid vip arch r s)"
| "wolfrun_step (Delete now i) s = snd (delete_service now i s)"
| "wolfrun_step (RemoveIfExists now i) s = snd (remove_if_exists now i s)"
| "wolfrun_step (Tombstone now i) s = record_tombstone now i s"
| "wolfrun_step (Scale now i n) s = snd (scale now i n s)"
| "wolfrun_step (Settings now i u) s = snd (update_settings now i u s)"
| "wolfrun_step (UpdateImage now i img) s = snd (update_image now i img s)"
| "wolfrun_step (UpdateInstances now i insts) s = update_instances now i insts s"
| "wolfrun_step (AddInstance i inst) s = add_instance i inst s"
| "wolfrun_step (RemoveInstance i c) s = remove_instance i c s"
| "wolfrun_step (Merge peer) s = snd (merge_from_peer peer s)"
| "wolfrun_step (RemapNode a b) s = snd (remap_node_id a b s)"
| "wolfrun_step (RenameCluster a b) s = snd (rename_cluster a b s)"
| "wolfrun_step (FailedOver e) s = add_failover_event e s"

text \<open>The id an action creates a service with, and the (time, id) of the tombstone it records.\<close>

fun creates_id :: "wolfrun_action \<Rightarrow> string option" where
  "creates_id (Create now uuid vip nm img r cl env ports vols pl rp rt lxc fo) = Some (''svc-'' @ take 8 uuid)"
| "creates_id (Adopt now uuid vip arch r) = Some uuid"
| "creates_id _ = None"

fun buries :: "wolfrun_action \<Rightarrow> (nat \<times> string) option" where
  "buries (Delete now i) = Some (now, i)"
| "buries (RemoveIfExists now i) = Some (now, i)"
| "buries (Tombstone now i) = Some (now, i)"
| "buries _ = None"

lemma step_buried:
  assumes "buried D t i s" "finite D" "card D \<le> TOMBSTONE_MAX" "creates_id a \<noteq> Some i"
    and "case buries a of None \<Rightarrow> True | Some (now, j) \<Rightarrow> j \<in> D \<and> t \<le> now \<and> now < t + TOMBSTONE_RETENTION_SECS"
  shows "buried D t i (wolfrun_step a s)"
proof -
  have sub: "buried D t i (s\<lparr>services := ss\<rparr>)" if "sv_id ` set ss \<subseteq> insert j (sv_id ` set (services s))" "j \<noteq> i" for ss j
    using that assms(1) by (intro buried_services) (auto simp: buried_def)
  have rec: "buried D t i (record_tombstone now j (s\<lparr>services := ss\<rparr>))"
    if "sv_id ` set ss \<subseteq> sv_id ` set (services s)" "buries a = Some (now, j)" for ss now j
    using that assms by (intro record_tombstone_buried buried_services) (auto simp: buried_def)
  show ?thesis
  proof (cases a)
    case (Create now uuid vip nm img r cl env ports vols pl rp rt lxc fo)
    with assms(4) show ?thesis by (auto simp: create_service_def Let_def intro!: sub)
  next
    case (Adopt now uuid vip arch r)
    with assms(4) show ?thesis by (auto simp: adopt_def Let_def intro!: sub)
  next
    case (Delete now j)
    have "sv_id ` set (remove_first (\<lambda>v. sv_id v = j) (services s)) \<subseteq> sv_id ` set (services s)"
      using set_remove_first_subset by fast
    with rec [OF this] Delete assms(1) show ?thesis
      by (auto simp: delete_service_def delete_remove_def split: option.splits intro: buried_services
          simp: buried_def dest!: set_remove_first_subset [THEN subsetD])
  next
    case (RemoveIfExists now j)
    then show ?thesis by (auto simp: remove_if_exists_def drop_if_exists_def Let_def intro!: rec)
  next
    case (Tombstone now j)
    with rec [of "services s" now j] show ?thesis by simp
  next
    case (RemapNode b c)
    with assms(1) show ?thesis by (auto simp: remap_node_id_def buried_def)
  next
    case (RenameCluster b c)
    with assms(1) show ?thesis by (auto simp: rename_cluster_def buried_def)
  next
    case (FailedOver e)
    with assms(1) show ?thesis by (auto simp: add_failover_event_def Let_def buried_def)
  qed (use assms(1) in \<open>auto simp: scale_def update_settings_def update_image_def update_instances_def add_instance_def
      remove_instance_def intro!: on_service_buried merge_buried\<close>)
qed

section \<open>Properties\<close>

text \<open>
  C26 (merge): merging a peer's list rejects exactly the tombstoned services of the payload, leaves
  the tombstones alone, replaces the view of every cluster the payload mentions by the payload's
  surviving services of that cluster, and leaves every other cluster as it was.
\<close>

theorem merge_per_cluster:
  "fst (merge_from_peer peer s) = map sv_id (filter (\<lambda>v. is_tombstoned (sv_id v) s) peer) \<and>
   deleted (snd (merge_from_peer peer s)) = deleted s \<and>
   list_services (Some c) (snd (merge_from_peer peer s)) =
     (if c \<in> sv_cluster_name ` set peer
      then filter (\<lambda>v. sv_cluster_name v = c \<and> \<not> is_tombstoned (sv_id v) s) peer
      else list_services (Some c) s)"
proof -
  have "filter (\<lambda>v. sv_cluster_name v = c) (filter (\<lambda>v. sv_cluster_name v \<notin> sv_cluster_name ` set peer) (services s)) =
        (if c \<in> sv_cluster_name ` set peer then [] else filter (\<lambda>v. sv_cluster_name v = c) (services s))"
    by (auto simp: filter_empty_conv intro!: filter_cong)
  moreover have "filter (\<lambda>v. sv_cluster_name v = c) (filter (\<lambda>v. map_of (deleted s) (sv_id v) = None) peer) = []"
    if "c \<notin> sv_cluster_name ` set peer"
    using that by (auto simp: filter_empty_conv)
  ultimately show ?thesis
    by (auto simp: merge_from_peer_def merge_partition_def merge_replace_def is_tombstoned_def list_services_def
        intro!: filter_cong)
qed

text \<open>The history starts with the deletion itself.\<close>

lemma remove_if_exists_buried:
  assumes "distinct (map fst (deleted s))" "fst ` set (deleted s) \<subseteq> D" "i \<in> D" "finite D" "card D \<le> TOMBSTONE_MAX"
  shows "buried D t i (snd (remove_if_exists t i s))"
proof -
  let ?s = "(snd (drop_if_exists i s))\<lparr>deleted := AList.update i t (deleted s)\<rparr>"
  have "buried D t i ?s"
    using assms(1-3) by (auto simp: buried_def drop_if_exists_def Let_def distinct_update update_conv' dest!: set_update_pair)
  then have "buried D t i (record_tombstone t i ?s)"
    using assms by (intro record_tombstone_buried) (auto simp: TOMBSTONE_RETENTION_SECS_def)
  moreover have "record_tombstone t i ?s = snd (remove_if_exists t i s)"
    by (simp add: record_tombstone_def remove_if_exists_def drop_if_exists_def Let_def update_triv update_conv')
  ultimately show ?thesis by simp
qed

text \<open>
  The two locked sections of a merge as steps of their own, with the merges between them: \<open>MergeRead\<close> is
  the section under the tombstone lock, \<open>MergeWrite k\<close> the one under the services lock of the \<open>k\<close>-th merge in
  flight. Everything else is one step.
\<close>

datatype section_action = Whole wolfrun_action | MergeRead "service list" | MergeWrite nat

type_synonym in_flight = "(string list \<times> service list) list"

primrec section_step :: "section_action \<Rightarrow> wolfrun_state \<times> in_flight \<Rightarrow> wolfrun_state \<times> in_flight" where
  "section_step (Whole a) sf = (wolfrun_step a (fst sf), snd sf)"
| "section_step (MergeRead peer) sf =
     (if peer = [] then sf
      else (fst sf, snd sf @ [(map sv_cluster_name peer, snd (merge_partition peer (fst sf)))]))"
| "section_step (MergeWrite k) sf =
     (if k < length (snd sf)
      then (merge_replace (fst (snd sf ! k)) (snd (snd sf ! k)) (fst sf), take k (snd sf) @ drop (Suc k) (snd sf))
      else sf)"

fun section_creates :: "section_action \<Rightarrow> string option" where
  "section_creates (Whole a) = creates_id a"
| "section_creates _ = None"

fun section_buries :: "section_action \<Rightarrow> (nat \<times> string) option" where
  "section_buries (Whole a) = buries a"
| "section_buries _ = None"

definition none_carries :: "string \<Rightarrow> in_flight \<Rightarrow> bool" where
  "none_carries i fl = list_all (\<lambda>m. i \<notin> sv_id ` set (snd m)) fl"

lemma section_step_buried:
  assumes "buried D t i (fst sf)" "none_carries i (snd sf)" "finite D" "card D \<le> TOMBSTONE_MAX" "section_creates a \<noteq> Some i"
    and "case section_buries a of None \<Rightarrow> True | Some (now, j) \<Rightarrow> j \<in> D \<and> t \<le> now \<and> now < t + TOMBSTONE_RETENTION_SECS"
  shows "buried D t i (fst (section_step a sf)) \<and> none_carries i (snd (section_step a sf))"
proof (cases a)
  case (Whole b)
  with assms show ?thesis using step_buried [of D t i "fst sf" b] by simp
next
  case (MergeRead peer)
  with assms(1,2) show ?thesis by (auto simp: none_carries_def merge_partition_def buried_def)
next
  case (MergeWrite k)
  have "none_carries i (take k (snd sf) @ drop (Suc k) (snd sf))"
    using assms(2) by (auto simp: none_carries_def list_all_iff dest: in_set_takeD in_set_dropD)
  moreover have "i \<notin> sv_id ` set (snd (snd sf ! k))" if "k < length (snd sf)"
    using assms(2) that by (simp add: none_carries_def list_all_length)
  ultimately show ?thesis using MergeWrite assms(1,2) by (auto simp: merge_replace_def buried_def)
qed

lemma run_sections_buried:
  assumes "buried D t i (fst sf)" "none_carries i (snd sf)" "finite D" "card D \<le> TOMBSTONE_MAX"
    and "\<And>a. a \<in> set acts \<Longrightarrow> section_creates a \<noteq> Some i"
    and "\<And>now j. (now, j) \<in> set (List.map_filter section_buries acts) \<Longrightarrow> j \<in> D \<and> t \<le> now \<and> now < t + TOMBSTONE_RETENTION_SECS"
  shows "buried D t i (fst (fold section_step acts sf))"
  using assms(1,2,5,6)
proof (induction acts arbitrary: sf)
  case (Cons a acts)
  have "case section_buries a of None \<Rightarrow> True | Some (now, j) \<Rightarrow> j \<in> D \<and> t \<le> now \<and> now < t + TOMBSTONE_RETENTION_SECS"
    using Cons.prems(4) [of "fst (the (section_buries a))" "snd (the (section_buries a))"] by (cases "section_buries a") auto
  with Cons.prems assms(3,4) have step: "buried D t i (fst (section_step a sf)) \<and> none_carries i (snd (section_step a sf))"
    by (intro section_step_buried) auto
  have sub: "set (List.map_filter section_buries acts) \<subseteq> set (List.map_filter section_buries (a # acts))"
    by (auto split: option.splits)
  have "buried D t i (fst (fold section_step acts (section_step a sf)))"
    by (rule Cons.IH) (use step Cons.prems(3) in simp_all, rule Cons.prems(4) [OF subsetD [OF sub]])
  then show ?case by simp
qed simp

lemma delete_as_remove:
  assumes "get_service i s \<noteq> None" "distinct (map sv_id (services s))"
  shows "snd (delete_service t i s) = snd (remove_if_exists t i s)"
proof -
  have "remove_first (\<lambda>v. sv_id v = i) ss = filter (\<lambda>v. sv_id v \<noteq> i) ss" if "distinct (map sv_id ss)" for ss
    using that
  proof (induction ss)
    case (Cons v ss)
    have "filter (\<lambda>u. sv_id u \<noteq> sv_id v) ss = ss"
      using Cons.prems by (intro filter_True) (auto simp: image_iff)
    with Cons show ?case by auto
  qed simp
  from this [OF assms(2)] assms(1) show ?thesis
    by (auto simp: delete_service_def delete_remove_def remove_if_exists_def drop_if_exists_def get_service_def Let_def
        split: option.splits)
qed

text \<open>
  C6 (deleted_stays_deleted). Take a deletion of the service \<open>i\<close> at time \<open>t\<close>, by a peer's request
  (\<^verbatim>\<open>remove_if_exists\<close>) or by an operator (\<^verbatim>\<open>delete\<close>, of a service that is listed once), at a moment
  when no merge in flight has already accepted \<open>i\<close>. Then, however the node's later operations follow each
  other (creations under other ids, further deletions, scaling, renames, and merges of any payload whose two
  locked sections interleave with all of that), \<open>i\<close> is not among the services and is still
  tombstoned, as long as later deletions fall within the 30 days of retention, their clock does not go back
  before \<open>t\<close>, and the tombstones then held and added number at most 500 different ids.
\<close>

theorem deleted_stays_deleted:
  assumes "distinct (map fst (deleted s))"
    and "s1 = snd (remove_if_exists t i s)
      \<or> s1 = snd (delete_service t i s) \<and> get_service i s \<noteq> None \<and> distinct (map sv_id (services s))"
    and "none_carries i fl"
    and "\<And>a. a \<in> set acts \<Longrightarrow> section_creates a \<noteq> Some i"
    and "\<And>now j. (now, j) \<in> set (List.map_filter section_buries acts) \<Longrightarrow> t \<le> now \<and> now < t + TOMBSTONE_RETENTION_SECS"
    and "card (insert i (fst ` set (deleted s)) \<union> snd ` set (List.map_filter section_buries acts)) \<le> TOMBSTONE_MAX"
  shows "get_service i (fst (fold section_step acts (s1, fl))) = None \<and>
         is_tombstoned i (fst (fold section_step acts (s1, fl)))"
proof -
  let ?D = "insert i (fst ` set (deleted s)) \<union> snd ` set (List.map_filter section_buries acts)"
  have "s1 = snd (remove_if_exists t i s)" using assms(2) delete_as_remove [of i s t] by auto
  then have "buried ?D t i s1"
    using remove_if_exists_buried [of s ?D i t] assms(1,6) by auto
  then have "buried ?D t i (fst (fold section_step acts (s1, fl)))"
    using assms(3-6) by (intro run_sections_buried) (auto intro: rev_image_eqI)
  then show ?thesis
    by (auto simp: buried_def get_service_def is_tombstoned_def find_None_iff)
qed

definition svc_of :: "string \<Rightarrow> string \<Rightarrow> service" where
  "svc_of i cl = fst (create_service 100 (drop 4 i) None ''web'' ''nginx'' 2 cl [] [] [] AnyNode Always Docker None False
     \<lparr>services = [], failover_events = [], deleted = []\<rparr>)"

definition wr_demo :: wolfrun_state where
  "wr_demo = \<lparr>services = [svc_of ''svc-aaaaaaaa'' ''home'', svc_of ''svc-bbbbbbbb'' ''home''], failover_events = [],
     deleted = [(''svc-cccccccc'', 50)]\<rparr>"

theorem deleted_stays_deleted_witness:
  "get_service ''svc-aaaaaaaa'' (fst (fold section_step
      [MergeRead (services wr_demo), Whole (Delete 2000 ''svc-bbbbbbbb''), MergeWrite 0, Whole (Merge (services wr_demo))]
      (snd (delete_service 1000 ''svc-aaaaaaaa'' wr_demo), []))) = None \<and>
   get_service ''svc-aaaaaaaa'' wr_demo \<noteq> None"
proof -
  let ?acts = "[MergeRead (services wr_demo), Whole (Delete 2000 ''svc-bbbbbbbb''), MergeWrite 0, Whole (Merge (services wr_demo))]"
  let ?s1 = "snd (delete_service 1000 ''svc-aaaaaaaa'' wr_demo)"
  have b: "List.map_filter section_buries ?acts = [(2000, ''svc-bbbbbbbb'')]" by (simp add: List.map_filter_def)
  have "card (insert ''svc-aaaaaaaa'' (fst ` set (deleted wr_demo)) \<union> snd ` set (List.map_filter section_buries ?acts)) \<le> TOMBSTONE_MAX"
    unfolding b by (simp add: wr_demo_def TOMBSTONE_MAX_def)
  moreover have s: "get_service ''svc-aaaaaaaa'' wr_demo \<noteq> None" "distinct (map sv_id (services wr_demo))" by code_simp+
  ultimately have "get_service ''svc-aaaaaaaa'' (fst (fold section_step ?acts (?s1, []))) = None"
    by (intro deleted_stays_deleted [of wr_demo ?s1 1000, THEN conjunct1])
      (auto simp: wr_demo_def none_carries_def TOMBSTONE_RETENTION_SECS_def List.map_filter_def)
  with s(1) show ?thesis by simp
qed

text \<open>What an edit of one service does to a lookup of that service.\<close>

lemma get_on_service:
  assumes "get_service i s = Some v" "\<And>v. sv_id (f v) = sv_id v"
  shows "on_service i f s = (True, snd (on_service i f s)) \<and> get_service i (snd (on_service i f s)) = Some (f v)"
  using assms find_SomeD [of "\<lambda>v. sv_id v = i" "services s" v]
  by (simp add: get_service_def on_service_def find_update_first)

lemma enforce_bounds_ok:
  "sv_min_replicas (enforce_bounds now v) \<le> sv_replicas (enforce_bounds now v) \<and>
   sv_replicas (enforce_bounds now v) \<le> sv_max_replicas (enforce_bounds now v)"
  by (simp add: enforce_bounds_def Let_def)

text \<open>
  Replica bounds: whatever the submitted settings, after \<^verbatim>\<open>update_settings\<close> the desired
  replica count of the service lies between its minimum and maximum; and on a service whose bounds
  are ordered, \<^verbatim>\<open>scale\<close> sets the count to the requested number raised to the minimum, lifting the
  maximum when needed, and leaves the minimum alone.
\<close>

theorem replicas_in_bounds:
  assumes "get_service i s = Some v" "sv_min_replicas v \<le> sv_max_replicas v"
  shows "(\<exists>w. get_service i (snd (update_settings now i u s)) = Some w \<and>
            sv_min_replicas w \<le> sv_replicas w \<and> sv_replicas w \<le> sv_max_replicas w) \<and>
         (\<exists>w. get_service i (snd (scale now i n s)) = Some w \<and> sv_replicas w = max n (sv_min_replicas v) \<and>
            sv_min_replicas w = sv_min_replicas v \<and> sv_max_replicas w = max n (sv_max_replicas v))"
proof
  have "get_service i (snd (update_settings now i u s)) = Some (settings_one now u v)"
    using get_on_service [OF assms(1), of "settings_one now u"] by (simp add: update_settings_def)
  then show "\<exists>w. get_service i (snd (update_settings now i u s)) = Some w \<and>
           sv_min_replicas w \<le> sv_replicas w \<and> sv_replicas w \<le> sv_max_replicas w"
    using enforce_bounds_ok by (auto simp: settings_one_def Let_def)
  have "get_service i (snd (scale now i n s)) = Some (scale_one now n v)"
    using get_on_service [OF assms(1), of "scale_one now n"] by (simp add: scale_def)
  with assms(2) show "\<exists>w. get_service i (snd (scale now i n s)) = Some w \<and> sv_replicas w = max n (sv_min_replicas v) \<and>
           sv_min_replicas w = sv_min_replicas v \<and> sv_max_replicas w = max n (sv_max_replicas v)"
    by (auto simp: scale_one_def Let_def)
qed

theorem replicas_in_bounds_witness:
  "\<exists>w. get_service ''svc-aaaaaaaa'' (snd (scale 300 ''svc-aaaaaaaa'' 25 wr_demo)) = Some w \<and> sv_replicas w = 25 \<and>
     sv_min_replicas w = 0 \<and> sv_max_replicas w = 25"
proof -
  have "get_service ''svc-aaaaaaaa'' wr_demo = Some (svc_of ''svc-aaaaaaaa'' ''home'')" by code_simp
  from replicas_in_bounds [OF this, of 300 _ 25] show ?thesis
    by (simp add: svc_of_def create_service_def Let_def)
qed

section \<open>Leader election\<close>

text \<open>
  What a registry entry says of a node apart from the key it is filed under: its canonical id,
  whether it is online, and its cluster.
\<close>

definition node_facts :: "node \<Rightarrow> string \<times> bool \<times> string" where
  "node_facts n = (unwrap_or (nd_id n) (nd_self_id n), nd_online n, unwrap_or ''WolfStack'' (nd_cluster_name n))"

lemma set_cluster_node_ids:
  "set (cluster_node_ids nodes) = {i. (i, True, self_cluster nodes) \<in> node_facts ` set nodes}"
  by (force simp: cluster_node_ids_def node_facts_def)

lemma is_leader_iff:
  "is_leader_among nodes i \<longleftrightarrow>
     set (cluster_node_ids nodes) = {} \<or> i = Min (set (cluster_node_ids nodes))"
proof (cases "cluster_node_ids nodes")
  case (Cons l ls)
  have "sorted (cluster_node_ids nodes)" by (simp add: cluster_node_ids_def)
  with Cons have "Min (set (cluster_node_ids nodes)) = l" by (auto intro: Min_eqI)
  with Cons show ?thesis by (auto simp: is_leader_among_def)
qed (simp add: is_leader_among_def)

text \<open>
  C34 (one leader): when the online nodes of a cluster hold registries with the same facts, filed
  under whatever local keys, exactly one of them considers itself leader: the one with the least
  canonical id.
\<close>

theorem leader_unique:
  assumes "\<And>i. i \<in> M \<Longrightarrow> node_facts ` set (view i) = R" "\<And>i. i \<in> M \<Longrightarrow> self_cluster (view i) = c"
    and "M = {i. (i, True, c) \<in> R}" "M \<noteq> {}"
  shows "{i \<in> M. is_leader_among (view i) i} = {Min M}"
proof -
  have ids: "set (cluster_node_ids (view i)) = M" if "i \<in> M" for i
    using assms that by (simp add: set_cluster_node_ids)
  obtain j where "j \<in> M" using assms(4) by auto
  from ids [OF this] have "finite M" by (metis List.finite_set)
  then have "Min M \<in> M" using assms(4) by (rule Min_in)
  moreover have "is_leader_among (view i) i \<longleftrightarrow> i = Min M" if "i \<in> M" for i
    using that assms(4) by (simp add: is_leader_iff ids)
  ultimately show ?thesis by auto
qed

definition view_demo :: "string \<Rightarrow> node list" where
  "view_demo i =
     [\<lparr>nd_id = (if i = ''ws-1'' then ''ws-1'' else ''node-a''), nd_self_id = Some ''ws-1'', nd_is_self = (i = ''ws-1''),
        nd_online = True, nd_cluster_name = None\<rparr>,
      \<lparr>nd_id = (if i = ''ws-2'' then ''ws-2'' else ''node-b''), nd_self_id = Some ''ws-2'', nd_is_self = (i = ''ws-2''),
        nd_online = True, nd_cluster_name = Some ''WolfStack''\<rparr>,
      \<lparr>nd_id = ''node-c'', nd_self_id = Some ''ws-0'', nd_is_self = False, nd_online = False, nd_cluster_name = None\<rparr>]"

theorem leader_unique_witness:
  "{i \<in> {''ws-1'', ''ws-2''}. is_leader_among (view_demo i) i} = {''ws-1''}"
proof -
  let ?R = "{(''ws-1'', True, ''WolfStack''), (''ws-2'', True, ''WolfStack''), (''ws-0'', False, ''WolfStack'')}"
  have "{i \<in> {''ws-1'', ''ws-2''}. is_leader_among (view_demo i) i} = {Min {''ws-1'', ''ws-2''}}"
    by (rule leader_unique [where R = ?R and c = "''WolfStack''"])
      (auto simp: view_demo_def node_facts_def self_cluster_def)
  moreover have "Min {''ws-1'', ''ws-2''} = ''ws-1''" by code_simp
  ultimately show ?thesis by simp
qed

section \<open>Where copies of a service survive\<close>

text \<open>
  Duplicate after a rename: when a node renames a cluster and then merges a peer's list still
  carrying the old name, the service is listed twice under one id; deleting it takes out one copy,
  so a deleted, tombstoned service is still there.
\<close>

theorem rename_merge_duplicates:
  assumes "services s = [v]" "deleted s = []" "new \<noteq> sv_cluster_name v"
    and "s1 = snd (merge_from_peer [v] (snd (rename_cluster (sv_cluster_name v) new s)))"
    and "s2 = snd (delete_service now (sv_id v) s1)"
  shows "map sv_id (services s1) = [sv_id v, sv_id v] \<and>
         is_tombstoned (sv_id v) s2 \<and> get_service (sv_id v) s2 \<noteq> None"
proof -
  have s1: "services s1 = [v\<lparr>sv_cluster_name := new\<rparr>, v]" "deleted s1 = []"
    using assms(1-4) by (simp_all add: rename_cluster_def merge_from_peer_def merge_partition_def merge_replace_def
        eq_ignore_ascii_case_def)
  then show ?thesis
    unfolding assms(5)
    by (simp add: delete_service_def delete_remove_def record_tombstone_def prune_tombstones_def drop_oldest_small
        TOMBSTONE_MAX_def TOMBSTONE_RETENTION_SECS_def is_tombstoned_def get_service_def)
qed

theorem rename_merge_duplicates_witness:
  "get_service ''svc-aaaaaaaa'' (snd (delete_service 900 ''svc-aaaaaaaa''
     (snd (merge_from_peer [svc_of ''svc-aaaaaaaa'' ''home'']
       (snd (rename_cluster ''home'' ''lab''
         \<lparr>services = [svc_of ''svc-aaaaaaaa'' ''home''], failover_events = [], deleted = []\<rparr>)))))) \<noteq> None"
  using rename_merge_duplicates [of "\<lparr>services = [svc_of ''svc-aaaaaaaa'' ''home''], failover_events = [], deleted = []\<rparr>"
      "svc_of ''svc-aaaaaaaa'' ''home''" "''lab''" _ _ 900, OF _ _ _ refl refl]
  by (simp add: svc_of_def create_service_def Let_def)

text \<open>
  Merge against delete: \<^verbatim>\<open>merge_from_peer\<close> reads the tombstones before it takes the services
  lock, so a whole deletion that runs between its two sections is undone: the service is back among
  the services although it is tombstoned.
\<close>

theorem merge_delete_race:
  assumes "v \<in> set peer" "\<not> is_tombstoned (sv_id v) s"
    and "distinct (map fst (deleted s))" "length (deleted s) < TOMBSTONE_MAX"
    and "merge_partition peer s = (rejected, accepted)"
    and "s' = merge_replace (map sv_cluster_name peer) accepted (snd (remove_if_exists now (sv_id v) s))"
  shows "get_service (sv_id v) s' \<noteq> None \<and> is_tombstoned (sv_id v) s'"
proof
  have "v \<in> set accepted" using assms(1,2,5) by (auto simp: merge_partition_def is_tombstoned_def)
  with assms(6) show "get_service (sv_id v) s' \<noteq> None" by (auto simp: get_service_def merge_replace_def find_None_iff)
  let ?D = "insert (sv_id v) (fst ` set (deleted s))"
  have "card ?D \<le> TOMBSTONE_MAX"
    using assms(4) card_insert_le_m1 [of TOMBSTONE_MAX "fst ` set (deleted s)"] card_image_le [of "set (deleted s)" fst]
      card_length [of "deleted s"] by (simp add: card_insert_if)
  then have "buried ?D now (sv_id v) (snd (remove_if_exists now (sv_id v) s))"
    using assms(3) by (intro remove_if_exists_buried) auto
  then show "is_tombstoned (sv_id v) s'" using assms(6) by (auto simp: buried_def is_tombstoned_def merge_replace_def)
qed

theorem merge_delete_race_witness:
  "get_service ''svc-aaaaaaaa'' (merge_replace [''home'', ''home''] (snd (merge_partition (services wr_demo) wr_demo))
     (snd (remove_if_exists 900 ''svc-aaaaaaaa'' wr_demo))) \<noteq> None"
proof -
  have "svc_of ''svc-aaaaaaaa'' ''home'' \<in> set (services wr_demo)" "sv_id (svc_of ''svc-aaaaaaaa'' ''home'') = ''svc-aaaaaaaa''"
    "\<not> is_tombstoned ''svc-aaaaaaaa'' wr_demo" "distinct (map fst (deleted wr_demo))"
    "length (deleted wr_demo) < TOMBSTONE_MAX" "map sv_cluster_name (services wr_demo) = [''home'', ''home'']"
    by (simp_all add: wr_demo_def svc_of_def create_service_def Let_def is_tombstoned_def TOMBSTONE_MAX_def)
  with merge_delete_race [of "svc_of ''svc-aaaaaaaa'' ''home''" "services wr_demo" wr_demo
      "fst (merge_partition (services wr_demo) wr_demo)" "snd (merge_partition (services wr_demo) wr_demo)" _ 900, OF _ _ _ _ _ refl]
  show ?thesis by simp
qed

end
