(* ===== verification/Gateway.thy ===== *)
theory Gateway
  imports Keyed_Store Text_Lines
begin

text \<open>
  The share gateway: \<^verbatim>\<open>gateway/mod.rs\<close> (the share configuration, the store and its cluster merge,
  validation), \<^verbatim>\<open>gateway/sources.rs\<close> (source validation), \<^verbatim>\<open>gateway/nfs.rs\<close> and
  \<^verbatim>\<open>gateway/samba.rs\<close> (the generated export and share files), and the request handlers of
  \<^verbatim>\<open>api/mod.rs\<close> that change the store.

  What the code asks of the host is an argument: the clock (a timestamp text), fresh ids, the
  result of mounting and configuring a share (\<open>apply\<close>), the uuid crate's name-based id (\<open>fsid\<close>), and
  the text of the snippet files found on disk.
\<close>

section \<open>Data\<close>

datatype vm_export_proto = VeSmb | VeNfs | VeIscsi

datatype source =
    Local string string
  | WolfDisk string "string option"
  | CephFs string string "string option"
  | Smb string string "string option" "string option" "string option" "string option" "string option"
  | Nfs string string "string option" "string option"
  | Sshfs string string string "nat option" "string option"
  | S3Rclone string string "string option"
  | ContainerVol string string string string
  | LxcDir string string string
  | Rbd string string string string
  | VmExport string vm_export_proto string
  | PeerGateway string string string

datatype gateway_mode = Single | Failover | Aggregate | Sharded

datatype share_protocol = SmbP | NfsP

datatype aggregate_policy = MostFreeSpace | RoundRobin | FirstAvailable | ExistingPathFirst

record shard_rule =
  sh_prefix :: string
  sh_source_index :: nat

datatype mode_policy =
    SinglePolicy
  | FailoverPolicy nat nat bool
  | AggregatePolicy aggregate_policy nat
  | ShardedPolicy "shard_rule list"

record user_grant =
  ug_username :: string
  ug_writable :: bool

datatype auth_config =
    Anonymous bool
  | Users "user_grant list" bool
  | Ad string "string list" "nat \<times> nat"

datatype smb_encrypt = EncAuto | EncRequired | EncOff

record gateway_options =
  go_readonly :: bool
  go_guest_ok :: bool
  go_time_machine :: bool
  go_recycle_bin :: bool
  go_smb_encrypt :: smb_encrypt
  go_nfs_extra_options :: string
  go_nfs_no_root_squash :: bool
  go_allow_hosts :: "string list"
  go_deny_hosts :: "string list"
  go_case_sensitive :: "bool option"
  go_max_connections :: "nat option"
  go_smb_workgroup :: string
  go_smb_wide_links :: bool

record gateway =
  gw_id :: string
  gw_name :: string
  gw_cluster :: string
  gw_mode :: gateway_mode
  gw_protocols :: "share_protocol list"
  gw_sources :: "source list"
  gw_origin :: string
  gw_serve_nodes :: "string list"
  gw_auth :: auth_config
  gw_policy :: mode_policy
  gw_options :: gateway_options
  gw_created_at :: string
  gw_updated_at :: string
  gw_disabled :: bool

record gateway_runtime =
  rt_gateway_id :: string
  rt_node_id :: string
  rt_serving :: bool
  rt_healthy :: bool
  rt_active_source_index :: nat
  rt_last_error :: "string option"
  rt_last_health_check_unix :: nat
  rt_bytes_in :: nat
  rt_bytes_out :: nat
  rt_active_sessions :: nat
  rt_performance_tier :: string
  rt_mount_path :: "string option"

record gateway_store =
  gw_map :: "(string, gateway) hashmap"
  gw_runtime :: "(string, gateway_runtime) hashmap"

section \<open>Store\<close>

definition gw_load :: "gateway list option \<Rightarrow> gateway_store" where
  "gw_load file =
     \<lparr>gw_map = (case file of Some gs \<Rightarrow> fold (\<lambda>g m. AList.update (gw_id g) g m) gs [] | None \<Rightarrow> []),
      gw_runtime = []\<rparr>"

definition gw_get :: "string \<Rightarrow> gateway_store \<Rightarrow> gateway option" where
  "gw_get i s = map_of (gw_map s) i"

definition gw_upsert :: "string \<Rightarrow> gateway \<Rightarrow> gateway_store \<Rightarrow> gateway \<times> gateway_store" where
  "gw_upsert now g s =
     (let g = (if gw_created_at g = [] then g\<lparr>gw_created_at := now\<rparr> else g);
          g = g\<lparr>gw_updated_at := now\<rparr>
      in (g, s\<lparr>gw_map := AList.update (gw_id g) g (gw_map s)\<rparr>))"

definition gw_remove :: "string \<Rightarrow> gateway_store \<Rightarrow> gateway option \<times> gateway_store" where
  "gw_remove i s =
     (map_of (gw_map s) i,
      s\<lparr>gw_runtime := AList.delete i (gw_runtime s), gw_map := AList.delete i (gw_map s)\<rparr>)"

definition snapshot_for_sync :: "gateway_store \<Rightarrow> gateway list" where
  "snapshot_for_sync s = map snd (gw_map s)"

subsection \<open>Merging a peer's snapshot\<close>

definition merge_one :: "gateway \<Rightarrow> bool \<times> gateway_store \<Rightarrow> bool \<times> gateway_store" where
  "merge_one g st =
     (let (changed, s) = st in
      case map_of (gw_map s) (gw_id g) of
        Some e \<Rightarrow>
          if gw_updated_at e \<ge> gw_updated_at g then (changed, s)
          else (True, s\<lparr>gw_map := AList.update (gw_id g) g (gw_map s)\<rparr>)
      | None \<Rightarrow> (True, s\<lparr>gw_map := AList.update (gw_id g) g (gw_map s)\<rparr>))"

definition prune_one :: "string \<Rightarrow> bool \<times> gateway_store \<Rightarrow> bool \<times> gateway_store" where
  "prune_one i st =
     (let (changed, s) = st in
      case map_of (gw_map s) i of
        Some g \<Rightarrow> (True, s\<lparr>gw_map := AList.delete i (gw_map s), gw_runtime := AList.delete i (gw_runtime s)\<rparr>)
      | None \<Rightarrow> (changed, s))"

definition effective_sender :: "string option \<Rightarrow> string option" where
  "effective_sender sender = (case sender of Some n \<Rightarrow> if trim n = [] then None else Some (trim n) | None \<Rightarrow> None)"

definition stale_ids :: "string \<Rightarrow> string list \<Rightarrow> gateway_store \<Rightarrow> string list" where
  "stale_ids sender incoming_ids s =
     map gw_id (filter (\<lambda>g. gw_origin g = sender \<and> gw_id g \<notin> set incoming_ids) (map snd (gw_map s)))"

definition merge_from_peer_owned_by :: "gateway list \<Rightarrow> string option \<Rightarrow> gateway_store \<Rightarrow> bool \<times> gateway_store" where
  "merge_from_peer_owned_by peer_list sender_id s =
     (let incoming_ids = map gw_id peer_list;
          (changed, s) = fold merge_one peer_list (False, s)
      in case effective_sender sender_id of
           None \<Rightarrow> (changed, s)
         | Some sender \<Rightarrow> fold prune_one (stale_ids sender incoming_ids s) (changed, s))"

section \<open>Validation\<close>

text \<open>
  \<^verbatim>\<open>Path::components\<close> on Unix: a leading slash is the root component; the other components are the
  non-empty pieces between slashes.
\<close>

definition path_segments :: "string \<Rightarrow> string list" where
  "path_segments p = filter (\<lambda>w. w \<noteq> []) (split_char (CHR ''/'') p)"

definition reject_path_traversal :: "string \<Rightarrow> string option \<Rightarrow> string + unit" where
  "reject_path_traversal label subpath =
     (case subpath of
        None \<Rightarrow> Ok ()
      | Some sp \<Rightarrow>
          if sp = [] then Ok ()
          else if CHR 0x00 \<in> set sp then Err (label @ '' subpath contains a null byte'')
          else if starts_with ''/'' sp
            then Err (label @ '' subpath must be relative (no leading '' @ [CHR 0x27] @ ''/'' @ [CHR 0x27] @ '' or drive prefix)'')
          else if list_ex (\<lambda>w. w = ''..'') (path_segments sp)
            then Err (label @ '' subpath must not contain '' @ [CHR 0x27] @ ''..'' @ [CHR 0x27] @ '' segments'')
          else Ok ())"

definition blank :: "string \<Rightarrow> bool" where "blank s = (trim s = [])"

definition FORBIDDEN_ROOTS :: "string list" where
  "FORBIDDEN_ROOTS = [''/etc'', ''/proc'', ''/sys'', ''/dev'', ''/boot'']"

definition validate_source :: "source \<Rightarrow> string + unit" where
  "validate_source s =
     (case s of
        Local node_id path \<Rightarrow>
          if blank node_id then Err ''local source requires node_id''
          else if blank path \<or> \<not> starts_with ''/'' path
            then Err (''local source path must be absolute (begin with '' @ quoted ''/'' @ '')'')
          else (case find (\<lambda>f. path = f \<or> starts_with (f @ ''/'') path) FORBIDDEN_ROOTS of
                  Some f \<Rightarrow> Err (''local source path under '' @ quoted f @ '' is not allowed for safety'')
                | None \<Rightarrow> Ok ())
      | WolfDisk volume_id subpath \<Rightarrow>
          if blank volume_id then Err ''wolfdisk source requires volume_id''
          else reject_path_traversal ''wolfdisk'' subpath
      | CephFs cluster_id fs_name subpath \<Rightarrow>
          if blank cluster_id \<or> blank fs_name then Err ''cephfs source requires cluster_id and fs_name''
          else reject_path_traversal ''cephfs'' subpath
      | Smb server share subpath _ _ _ _ \<Rightarrow>
          if blank server \<or> blank share then Err ''smb source requires server and share''
          else reject_path_traversal ''smb'' subpath
      | Nfs server ex subpath _ \<Rightarrow>
          if blank server \<or> blank ex then Err ''nfs source requires server and export''
          else reject_path_traversal ''nfs'' subpath
      | Rbd cluster_id pool img fs \<Rightarrow>
          if blank cluster_id \<or> blank pool \<or> blank img then Err ''rbd source requires cluster_id, pool and image''
          else if fs \<notin> {''ext4'', ''xfs'', ''btrfs''}
            then Err (''rbd source fs '' @ quoted fs @ '' is not supported (use ext4, xfs or btrfs)'')
          else Ok ()
      | ContainerVol node_id rt container volume \<Rightarrow>
          if blank node_id \<or> blank container \<or> blank volume
            then Err ''container-volume source requires node_id, container and volume''
          else if rt \<noteq> ''docker''
            then Err (''container-volume source runtime '' @ quoted rt @ '' is not supported (only '' @ quoted ''docker''
              @ '' has named volumes)'')
          else Ok ()
      | LxcDir node_id container path \<Rightarrow>
          if blank node_id \<or> blank container then Err ''lxc-dir source requires node_id and container''
          else if blank path \<or> \<not> starts_with ''/'' path
            then Err ''lxc-dir source path must be absolute (a path inside the container)''
          else if CHR 0x00 \<in> set path then Err ''lxc-dir source path contains a null byte''
          else if list_ex (\<lambda>seg. seg = ''..'') (split_char (CHR ''/'') path)
            then Err (''lxc-dir source path must not contain '' @ quoted ''..'' @ '' segments'')
          else Ok ()
      | VmExport vm_id proto share \<Rightarrow>
          if blank vm_id \<or> blank share then Err ''vm-export source requires vm_id and share_or_export''
          else if proto = VeIscsi then Err ''vm-export over iSCSI is reserved for a future release''
          else Ok ()
      | Sshfs _ _ _ _ _ \<Rightarrow> Err ''this source type is reserved for a future release''
      | S3Rclone _ _ _ \<Rightarrow> Err ''this source type is reserved for a future release''
      | PeerGateway _ _ _ \<Rightarrow> Err ''this source type is reserved for a future release'')"

definition is_name_char :: "char \<Rightarrow> bool" where
  "is_name_char c = (is_ascii_alphanumeric c \<or> c = CHR ''-'' \<or> c = CHR ''_'')"

definition is_export_option_char :: "char \<Rightarrow> bool" where
  "is_export_option_char c = (is_ascii_alphanumeric c \<or> c \<in> set '',=_-.:@/'')"

definition error_if :: "bool \<Rightarrow> string \<Rightarrow> string list" where
  "error_if b msg = (if b then [msg] else [])"

definition mode_errors :: "gateway \<Rightarrow> string list" where
  "mode_errors g =
     (let reserved = (\<lambda>m. [m @ '' mode is reserved for a future release '' @ em_dash @ '' only `single` is available in v1.0'']) in
      case gw_mode g of
        Single \<Rightarrow> error_if (length (gw_sources g) \<noteq> 1) ''single mode requires exactly one source''
      | Failover \<Rightarrow> reserved ''Failover''
      | Aggregate \<Rightarrow> reserved ''Aggregate''
      | Sharded \<Rightarrow> reserved ''Sharded'')"

definition source_errors :: "gateway \<Rightarrow> string list" where
  "source_errors g =
     concat (map (\<lambda>(i, s). case validate_source s of Inl e \<Rightarrow> [''source '' @ show_nat i @ '': '' @ e] | Inr _ \<Rightarrow> [])
       (List.enumerate 0 (gw_sources g)))"

definition extra_option_errors :: "gateway \<Rightarrow> string list" where
  "extra_option_errors g =
     (let extra = trim (go_nfs_extra_options (gw_options g)) in
      error_if (extra \<noteq> [] \<and> \<not> list_all is_export_option_char extra)
        (''nfs extra options may only contain letters, digits and , = _ - . : @ / '' @
         ''(no spaces, quotes or parentheses '' @ em_dash @ '' see man exports)''))"

definition auth_errors :: "gateway \<Rightarrow> string list" where
  "auth_errors g =
     (case gw_auth g of
        Anonymous _ \<Rightarrow> []
      | Users users _ \<Rightarrow>
          error_if (users = []) ''auth=users requires at least one user'' @
          concat (map (\<lambda>u. error_if (blank (ug_username u)) ''user with empty username'') users)
      | Ad _ _ _ \<Rightarrow> [''AD auth is reserved for a future release''])"

definition validate_gateway :: "gateway \<Rightarrow> string list + unit" where
  "validate_gateway g =
     (let errs =
        error_if (blank (gw_name g)) ''name is required'' @
        error_if (\<not> list_all is_name_char (gw_name g))
          (''name must contain only A-Z, a-z, 0-9, '' @ quoted ''-'' @ '' or '' @ quoted ''_'' @ '' (Samba share name compatible)'') @
        error_if (length (gw_name g) > 63) ''name must be 63 characters or fewer'' @
        error_if (gw_protocols g = []) ''at least one protocol (smb or nfs) is required'' @
        error_if (gw_sources g = []) ''at least one source is required'' @
        error_if (gw_serve_nodes g \<noteq> [])
          (''`serve_nodes` is reserved for a future release (v2.0 multi-node serve). '' @
           ''Leave empty in v1.0; the gateway runs on whichever node you create it from.'') @
        mode_errors g @ source_errors g @ extra_option_errors g @ auth_errors g
      in if errs = [] then Ok () else Err errs)"

definition source_rank :: "source \<Rightarrow> nat" where
  "source_rank s =
     (case s of
        Local _ _ \<Rightarrow> 0 | WolfDisk _ _ \<Rightarrow> 0 | CephFs _ _ _ \<Rightarrow> 0
      | Smb _ _ _ _ _ _ _ \<Rightarrow> 1 | Nfs _ _ _ _ \<Rightarrow> 1
      | Sshfs _ _ _ _ _ \<Rightarrow> 2
      | S3Rclone _ _ _ \<Rightarrow> 3
      | ContainerVol _ _ _ _ \<Rightarrow> 0 | LxcDir _ _ _ \<Rightarrow> 0
      | Rbd _ _ _ _ \<Rightarrow> 0
      | VmExport _ _ _ \<Rightarrow> 1
      | PeerGateway _ _ _ \<Rightarrow> 2)"

definition performance_tier :: "gateway \<Rightarrow> string" where
  "performance_tier g =
     (let worst = fold (\<lambda>s w. if source_rank s > w then source_rank s else w) (gw_sources g) 0 in
      if worst = 0 then ''fast'' else if worst = 1 then ''ok'' else if worst = 2 then ''slow'' else ''cold'')"

section \<open>NFS exports\<close>

definition EXPORTS_ROOT :: string where "EXPORTS_ROOT = ''/exports''"
definition EXPORTS_PREFIX :: string where "EXPORTS_PREFIX = ''/exports/''"

definition sanitise :: "string \<Rightarrow> string" where
  "sanitise s = map (\<lambda>c. if is_name_char c then c else CHR ''_'') s"

text \<open>\<^verbatim>\<open>PathBuf::join\<close> of a relative component: the base, a slash, the component.\<close>

definition friendly_export_path :: "gateway \<Rightarrow> string" where
  "friendly_export_path g = EXPORTS_ROOT @ ''/'' @ sanitise (gw_name g)"

definition exported_path_in :: "string \<Rightarrow> string option" where
  "exported_path_in body =
     (case find (\<lambda>l. l \<noteq> [] \<and> \<not> starts_with ''#'' l) (map trim (lines body)) of
        None \<Rightarrow> None
      | Some l \<Rightarrow> (case split_whitespace l of [] \<Rightarrow> None | w # _ \<Rightarrow> Some w))"

text \<open>The bind mount \<^verbatim>\<open>cleanup_friendly_bind\<close> drops, from the export file it finds (if any).\<close>

definition cleanup_friendly_bind :: "string option \<Rightarrow> string option" where
  "cleanup_friendly_bind body =
     (case Option.bind body exported_path_in of
        None \<Rightarrow> None
      | Some old \<Rightarrow> if \<not> starts_with EXPORTS_PREFIX old then None else Some old)"

definition export_options :: "(string \<Rightarrow> string) \<Rightarrow> gateway \<Rightarrow> string list" where
  "export_options fsid g =
     (let writable = (gw_auth g = Anonymous True \<and> \<not> go_readonly (gw_options g));
          extra = trim (go_nfs_extra_options (gw_options g))
      in [if writable then ''rw'' else ''ro'', ''sync'', ''no_subtree_check''] @
         (if go_nfs_no_root_squash (gw_options g) then [''no_root_squash'']
          else [''all_squash'', ''anonuid=65534'', ''anongid=65534'']) @
         (if list_ex (\<lambda>p. starts_with ''fsid='' (trim_start p)) (split_char (CHR '','') extra) then []
          else [''fsid='' @ fsid (gw_id g)]) @
         (if extra \<noteq> [] then [extra] else []))"

definition nfs_clients :: "gateway \<Rightarrow> string list" where
  "nfs_clients g = (if go_allow_hosts (gw_options g) = [] then [''*''] else go_allow_hosts (gw_options g))"

definition export_lines :: "(string \<Rightarrow> string) \<Rightarrow> gateway \<Rightarrow> string \<Rightarrow> string list" where
  "export_lines fsid g share_path =
     (''# WolfStack gateway: '' @ gw_name g @ '' ('' @ gw_id g @ '')'') #
     map (\<lambda>c. share_path @ '' '' @ c @ ''('' @ join '','' (export_options fsid g) @ '')'') (nfs_clients g)"

definition nfs_render :: "(string \<Rightarrow> string) \<Rightarrow> gateway \<Rightarrow> string \<Rightarrow> string" where
  "nfs_render fsid g share_path = unlines (export_lines fsid g share_path)"

section \<open>Samba\<close>

definition yesno :: "bool \<Rightarrow> string" where "yesno b = (if b then ''yes'' else ''no'')"

definition auth_lines :: "gateway \<Rightarrow> string list" where
  "auth_lines g =
     (let ro = go_readonly (gw_options g) in
      case gw_auth g of
        Anonymous writable \<Rightarrow>
          [''    guest only = yes'', ''    writable = '' @ yesno (writable \<and> \<not> ro), ''    force user = nobody'']
      | Users users default_writable \<Rightarrow>
          (let writers = map ug_username (filter ug_writable users) in
           [''    valid users = '' @ join '' '' (map ug_username users)] @
           (if writers \<noteq> [] then [''    write list = '' @ join '' '' writers] else []) @
           [''    writable = '' @ yesno (default_writable \<and> \<not> ro)])
      | Ad _ _ _ \<Rightarrow> [''    valid users = @WOLFSTACK_AD_PLACEHOLDER''])"

definition vfs_lines :: "gateway_options \<Rightarrow> string list" where
  "vfs_lines opts =
     (let vfs = (if go_recycle_bin opts then [''recycle''] else []) @
                (if go_time_machine opts then [''catia'', ''fruit'', ''streams_xattr''] else [])
      in (if vfs \<noteq> [] then [''    vfs objects = '' @ join '' '' vfs] else []) @
         (if go_recycle_bin opts
          then [''    recycle:repository = .recycle/%U'', ''    recycle:keeptree = yes'', ''    recycle:versions = yes''] else []) @
         (if go_time_machine opts then [''    fruit:time machine = yes'', ''    fruit:metadata = stream''] else []))"

definition snippet_lines :: "gateway \<Rightarrow> string \<Rightarrow> string list" where
  "snippet_lines g share_path =
     (let opts = gw_options g in
      [''# WolfStack gateway: '' @ gw_name g @ '' ('' @ gw_id g @ '')'',
       ''['' @ sanitise (gw_name g) @ '']'',
       ''    path = '' @ share_path,
       ''    comment = WolfStack share '' @ quoted (gw_name g),
       ''    browseable = yes'',
       ''    read only = '' @ yesno (go_readonly opts),
       ''    guest ok = '' @ yesno (go_guest_ok opts)] @
      auth_lines g @ vfs_lines opts @
      (if go_allow_hosts opts \<noteq> [] then [''    hosts allow = '' @ join '' '' (go_allow_hosts opts)] else []) @
      (if go_deny_hosts opts \<noteq> [] then [''    hosts deny = '' @ join '' '' (go_deny_hosts opts)] else []) @
      (if go_smb_wide_links opts then [''    follow symlinks = yes'', ''    wide links = yes''] else []) @
      (case go_max_connections opts of Some n \<Rightarrow> [''    max connections = '' @ show_nat n] | None \<Rightarrow> []) @
      (case go_case_sensitive opts of Some b \<Rightarrow> [''    case sensitive = '' @ yesno b] | None \<Rightarrow> []) @
      (if gw_disabled g then [''    available = no''] else []) @ [[]])"

definition render_snippet :: "gateway \<Rightarrow> string \<Rightarrow> string" where
  "render_snippet g share_path = unlines (snippet_lines g share_path)"

definition wants_workgroup :: "gateway \<Rightarrow> bool" where
  "wants_workgroup g = (SmbP \<in> set (gw_protocols g) \<and> trim (go_smb_workgroup (gw_options g)) \<noteq> [])"

definition gateway_wants_wide_links :: "gateway \<Rightarrow> bool" where
  "gateway_wants_wide_links g = (SmbP \<in> set (gw_protocols g) \<and> go_smb_wide_links (gw_options g))"

definition any_smb_wide_links :: "gateway option \<Rightarrow> gateway_store \<Rightarrow> bool" where
  "any_smb_wide_links active store =
     ((case active of Some g \<Rightarrow> gateway_wants_wide_links g | None \<Rightarrow> False) \<or>
      list_ex gateway_wants_wide_links (map snd (gw_map store)))"

definition persisted_workgroup :: "gateway_store \<Rightarrow> string option" where
  "persisted_workgroup store =
     map_option (\<lambda>g. trim (go_smb_workgroup (gw_options g))) (find wants_workgroup (map snd (gw_map store)))"

text \<open>The fixed part of the global section; the two emitters differ in the lines around it.\<close>

definition global_lines :: "string \<Rightarrow> string list" where
  "global_lines workgroup =
     [''# Auto-generated by WolfStack '' @ em_dash @ '' do not edit'',
      ''# Per-gateway snippets live in /etc/samba/wolfstack-gateways.d/*.conf'', [],
      ''[global]'',
      ''    workgroup = '' @ workgroup,
      ''    server string = WolfStack Gateway %h'',
      ''    server role = standalone server'',
      ''    log file = /var/log/samba/log.%m'',
      ''    max log size = 1000'',
      ''    map to guest = bad user'',
      ''    passdb backend = tdbsam'',
      ''    smb encrypt = auto'',
      ''    server min protocol = SMB2_10'',
      ''    client min protocol = SMB2_10'',
      ''    panic action = /usr/share/samba/panic-action %d'',
      ''    obey pam restrictions = no'',
      ''    unix password sync = no'']"

text \<open>Snippet files in path order, each closed with a newline if it lacks one.\<close>

definition splice_snippets :: "string list \<Rightarrow> string" where
  "splice_snippets snippets = concat (map (\<lambda>s. if s \<noteq> [] \<and> last s = nl then s else s @ [nl]) snippets)"

definition render_aggregator :: "gateway option \<Rightarrow> gateway_store \<Rightarrow> string list \<Rightarrow> string" where
  "render_aggregator active store snippets =
     (let from_active = (case active of
            Some g \<Rightarrow> if wants_workgroup g then Some (trim (go_smb_workgroup (gw_options g))) else None
          | None \<Rightarrow> None);
          workgroup = unwrap_or ''WORKGROUP'' (case from_active of Some w \<Rightarrow> Some w | None \<Rightarrow> persisted_workgroup store)
      in unlines (global_lines (sanitise workgroup) @
           (if any_smb_wide_links active store then [''    unix extensions = no''] else []) @ [[]]) @
         splice_snippets snippets)"

definition rebuild_aggregator_for_reconcile :: "gateway_store \<Rightarrow> string list \<Rightarrow> string" where
  "rebuild_aggregator_for_reconcile store snippets =
     unlines (global_lines (unwrap_or ''WORKGROUP'' (persisted_workgroup store)) @ [[]]) @ splice_snippets snippets"

text \<open>\<^verbatim>\<open>str::replace\<close> with a non-empty pattern: non-overlapping hits from the left.\<close>

function str_replace :: "string \<Rightarrow> string \<Rightarrow> string \<Rightarrow> string" where
  "str_replace pat rep s =
     (if s = [] \<or> pat = [] then s
      else if starts_with pat s then rep @ str_replace pat rep (drop (length pat) s)
      else hd s # str_replace pat rep (tl s))"
  by auto
termination by (relation "measure (\<lambda>(_, _, s). length s)") (auto simp: neq_Nil_conv)

declare str_replace.simps [simp del]

definition encrypt_value :: "smb_encrypt \<Rightarrow> string" where
  "encrypt_value e = (case e of EncAuto \<Rightarrow> ''auto'' | EncRequired \<Rightarrow> ''required'' | EncOff \<Rightarrow> ''off'')"

definition with_global_smb_encrypt :: "string \<Rightarrow> smb_encrypt \<Rightarrow> string" where
  "with_global_smb_encrypt body e =
     str_replace (''    smb encrypt = auto'' @ [nl]) (''    smb encrypt = '' @ encrypt_value e @ [nl]) body"

fun max_encrypt :: "smb_encrypt \<Rightarrow> gateway list \<Rightarrow> smb_encrypt" where
  "max_encrypt best [] = best"
| "max_encrypt best (g # gs) =
     (if SmbP \<notin> set (gw_protocols g) then max_encrypt best gs
      else case go_smb_encrypt (gw_options g) of
             EncRequired \<Rightarrow> EncRequired
           | EncAuto \<Rightarrow> max_encrypt EncAuto gs
           | EncOff \<Rightarrow> max_encrypt best gs)"

definition max_smb_encrypt :: "gateway_store \<Rightarrow> smb_encrypt" where
  "max_smb_encrypt store = max_encrypt EncOff (map snd (gw_map store))"

text \<open>The file \<^verbatim>\<open>rebuild_aggregator\<close> writes.\<close>

definition rebuild_aggregator :: "gateway option \<Rightarrow> gateway_store \<Rightarrow> string list \<Rightarrow> string" where
  "rebuild_aggregator active store snippets =
     with_global_smb_encrypt (render_aggregator active store snippets) (max_smb_encrypt store)"

definition HOST_INCLUDE_LINE :: string where
  "HOST_INCLUDE_LINE = ''include = /etc/samba/wolfstack-gateways.conf''"

text \<open>\<^verbatim>\<open>ensure_host_include\<close>: the new text of the host's own file, given its present text.\<close>

definition ensure_host_include :: "string option \<Rightarrow> string" where
  "ensure_host_include file =
     (case file of
        None \<Rightarrow> unlines [''# Minimal smb.conf created by WolfStack'', ''[global]'',
                  ''    log file = /var/log/samba/log.%m'', [], HOST_INCLUDE_LINE]
      | Some content \<Rightarrow>
          if contains HOST_INCLUDE_LINE content then content
          else content @ (if content \<noteq> [] \<and> last content = nl then [] else [nl]) @
            unlines [[], ''# Added by WolfStack '' @ em_dash @
              '' managed-share aggregator (do not remove unless you uninstall WolfStack gateways)'', HOST_INCLUDE_LINE])"

subsection \<open>Managed users\<close>

text \<open>The file of account names the gateway created, one per line; \<^term>\<open>None\<close> is a missing file.\<close>

definition managed_users_load :: "string option \<Rightarrow> string list" where
  "managed_users_load file = (case file of None \<Rightarrow> [] | Some t \<Rightarrow> filter (\<lambda>l. l \<noteq> []) (map trim (lines t)))"

definition managed_users_record :: "string \<Rightarrow> string option \<Rightarrow> string option" where
  "managed_users_record u file =
     (let us = managed_users_load file in if u \<in> set us then file else Some (join [nl] (us @ [u])))"

definition managed_users_remove :: "string \<Rightarrow> string option \<Rightarrow> string option" where
  "managed_users_remove u file = Some (join [nl] (filter (\<lambda>v. v \<noteq> u) (managed_users_load file)))"

definition active_users :: "gateway_store \<Rightarrow> string list" where
  "active_users store =
     concat (map (\<lambda>g. case gw_auth g of Users us _ \<Rightarrow> map ug_username us | _ \<Rightarrow> []) (map snd (gw_map store)))"

text \<open>The accounts dropped from Samba's database, and the file afterwards.\<close>

definition reconcile_managed_users :: "gateway_store \<Rightarrow> string option \<Rightarrow> string list \<times> string option" where
  "reconcile_managed_users store file =
     (let gone = filter (\<lambda>u. u \<notin> set (active_users store)) (managed_users_load file)
      in (gone, fold managed_users_remove gone file))"

section \<open>Request handlers\<close>

text \<open>
  The handlers that change the store, after authentication. \<open>apply\<close> stands for
  \<^verbatim>\<open>orchestrator::apply\<close>: mounting the source and configuring the daemons, which may fail. Saving the
  store, audit entries and the push to peers are left out; what a push carries is
  \<^term>\<open>snapshot_for_sync\<close>.
\<close>

record create_request =
  cr_name :: string
  cr_cluster :: string
  cr_mode :: gateway_mode
  cr_protocols :: "share_protocol list"
  cr_sources :: "source list"
  cr_serve_nodes :: "string list"
  cr_auth :: auth_config
  cr_options :: gateway_options

datatype gw_response =
    GwBadRequest "string list"
  | GwNotFound
  | GwConflict string
  | GwServerError string
  | GwOk gateway
  | GwDone string

definition require_owner :: "string \<Rightarrow> string \<Rightarrow> gateway_store \<Rightarrow> gw_response + gateway" where
  "require_owner node i s =
     (case gw_get i s of
        None \<Rightarrow> Err GwNotFound
      | Some g \<Rightarrow> if gw_origin g \<noteq> node \<and> gw_origin g \<noteq> [] then Err (GwConflict (gw_origin g)) else Ok g)"

definition duplicate_gateway_name :: "gateway \<Rightarrow> gateway_store \<Rightarrow> bool" where
  "duplicate_gateway_name g s =
     list_ex (\<lambda>h. gw_id h \<noteq> gw_id g \<and> gw_origin h = gw_origin g \<and> eq_ignore_ascii_case (gw_name h) (gw_name g))
       (map snd (gw_map s))"

definition dup_message :: "gateway \<Rightarrow> string" where
  "dup_message g =
     ''a share named '' @ quoted (gw_name g) @ '' already exists on this node '' @ em_dash @ '' share names '' @
     ''must be unique per node (they become the SMB share name and '' @
     ''the /exports/<name> NFS path)''"

definition apply_and_persist ::
  "(gateway \<Rightarrow> string + gateway_runtime) \<Rightarrow> string \<Rightarrow> gateway \<Rightarrow> gateway_store \<Rightarrow> gw_response \<times> gateway_store" where
  "apply_and_persist apply now g s =
     (case apply g of
        Inl e \<Rightarrow> (GwServerError e, s)
      | Inr rt \<Rightarrow>
          let (stored, s) = gw_upsert now g s
          in (GwOk stored, s\<lparr>gw_runtime := AList.update (gw_id g) rt (gw_runtime s)\<rparr>))"

definition gateway_of_request :: "string \<Rightarrow> string \<Rightarrow> string \<Rightarrow> bool \<Rightarrow> create_request \<Rightarrow> gateway" where
  "gateway_of_request i origin created disabled r =
     \<lparr>gw_id = i, gw_name = cr_name r, gw_cluster = cr_cluster r, gw_mode = cr_mode r, gw_protocols = cr_protocols r,
      gw_sources = cr_sources r, gw_origin = origin, gw_serve_nodes = cr_serve_nodes r, gw_auth = cr_auth r,
      gw_policy = SinglePolicy, gw_options = cr_options r, gw_created_at = created, gw_updated_at = [],
      gw_disabled = disabled\<rparr>"

text \<open>
  A request to create or replace a share is checked under the read lock, then applied to the host, then
  stored under the write lock without another check. \<open>checked_apply\<close> is the whole request when nothing else
  happens in between.
\<close>

definition check_gateway :: "gateway \<Rightarrow> gateway_store \<Rightarrow> gw_response + unit" where
  "check_gateway g s =
     (case validate_gateway g of
        Inl errs \<Rightarrow> Err (GwBadRequest errs)
      | Inr _ \<Rightarrow> if duplicate_gateway_name g s then Err (GwBadRequest [dup_message g]) else Ok ())"

definition checked_apply ::
  "(gateway \<Rightarrow> string + gateway_runtime) \<Rightarrow> string \<Rightarrow> gateway \<Rightarrow> gateway_store \<Rightarrow> gw_response \<times> gateway_store" where
  "checked_apply apply now g s =
     (case check_gateway g s of
        Inl e \<Rightarrow> (e, s)
      | Inr _ \<Rightarrow> apply_and_persist apply now g s)"

definition gateways_create ::
  "(gateway \<Rightarrow> string + gateway_runtime) \<Rightarrow> string \<Rightarrow> string \<Rightarrow> string \<Rightarrow> create_request \<Rightarrow> gateway_store \<Rightarrow>
   gw_response \<times> gateway_store" where
  "gateways_create apply node now uuid r s = checked_apply apply now (gateway_of_request uuid node [] False r) s"

definition gateways_update ::
  "(gateway \<Rightarrow> string + gateway_runtime) \<Rightarrow> string \<Rightarrow> string \<Rightarrow> string \<Rightarrow> create_request \<Rightarrow> gateway_store \<Rightarrow>
   gw_response \<times> gateway_store" where
  "gateways_update apply node now i r s =
     (case require_owner node i s of
        Inl e \<Rightarrow> (e, s)
      | Inr old \<Rightarrow>
          checked_apply apply now (gateway_of_request i (gw_origin old) (gw_created_at old) (gw_disabled old) r) s)"

definition gateways_delete :: "string \<Rightarrow> string \<Rightarrow> gateway_store \<Rightarrow> gw_response \<times> gateway_store" where
  "gateways_delete node i s =
     (case require_owner node i s of
        Inl e \<Rightarrow> (e, s)
      | Inr _ \<Rightarrow>
          (case gw_remove i s of
             (None, s) \<Rightarrow> (GwNotFound, s)
           | (Some g, s) \<Rightarrow> (GwDone i, s)))"

definition set_disabled :: "bool \<Rightarrow> string \<Rightarrow> string \<Rightarrow> gateway_store \<Rightarrow> gateway option \<times> gateway_store" where
  "set_disabled b now i s =
     (case gw_get i s of
        None \<Rightarrow> (None, s)
      | Some g \<Rightarrow>
          let g = g\<lparr>gw_disabled := b, gw_updated_at := now\<rparr>
          in (Some g, s\<lparr>gw_map := AList.update i g (gw_map s)\<rparr>))"

definition gateways_disable :: "string \<Rightarrow> string \<Rightarrow> string \<Rightarrow> gateway_store \<Rightarrow> gw_response \<times> gateway_store" where
  "gateways_disable node now i s =
     (case require_owner node i s of
        Inl e \<Rightarrow> (e, s)
      | Inr _ \<Rightarrow>
          (case set_disabled True now i s of
             (None, s) \<Rightarrow> (GwNotFound, s)
           | (Some _, s) \<Rightarrow> (GwDone i, s)))"

definition gateways_enable ::
  "(gateway \<Rightarrow> string + gateway_runtime) \<Rightarrow> string \<Rightarrow> string \<Rightarrow> string \<Rightarrow> gateway_store \<Rightarrow> gw_response \<times> gateway_store" where
  "gateways_enable apply node now i s =
     (case require_owner node i s of
        Inl e \<Rightarrow> (e, s)
      | Inr _ \<Rightarrow>
          (case set_disabled False now i s of
             (None, s) \<Rightarrow> (GwNotFound, s)
           | (Some g, s) \<Rightarrow>
               (case apply g of
                  Inl e \<Rightarrow> (GwServerError e, s)
                | Inr rt \<Rightarrow> (GwDone i, s\<lparr>gw_runtime := AList.update i rt (gw_runtime s)\<rparr>))))"

text \<open>\<^verbatim>\<open>gateways_sync\<close>: a sender header that is blank or names this node itself is ignored.\<close>

definition gateways_sync :: "string \<Rightarrow> gateway list \<Rightarrow> string option \<Rightarrow> gateway_store \<Rightarrow> bool \<times> gateway_store" where
  "gateways_sync self_id incoming header s =
     (let sender = (case header of
            Some h \<Rightarrow> if trim h \<noteq> [] \<and> trim h \<noteq> self_id then Some (trim h) else None
          | None \<Rightarrow> None)
      in merge_from_peer_owned_by incoming sender s)"

end
