(* ===== verification/Lww_Store.thy ===== *)
theory Lww_Store
  imports Rust_Prelude
begin

text \<open>
  Replicated configuration is merged version by version: a version replaces what the store holds
  under its key when it is newer. The locale \<open>lww_store\<close> states this contract; its lemmas say that
  the result depends only on which versions a store has seen, not on their order or number.
\<close>

locale lww_store =
  fixes key :: "'a \<Rightarrow> 'k"
    and stamp :: "'a \<Rightarrow> 't :: linorder"
    and get :: "'k \<Rightarrow> 's \<Rightarrow> 'a option"
    and put :: "'a \<Rightarrow> 's \<Rightarrow> 's"
  assumes get_put_other: "k \<noteq> key g \<Longrightarrow> get k (put g s) = get k s"
    and get_put_new: "get (key g) s = None \<Longrightarrow> get (key g) (put g s) = Some g"
    and get_put_old: "get (key g) s = Some h \<Longrightarrow> get (key g) (put g s) = Some (if stamp g \<le> stamp h then h else g)"
begin

text \<open>The versions of a key a store knows after receiving a list of versions.\<close>

definition seen :: "'k \<Rightarrow> 'a list \<Rightarrow> 's \<Rightarrow> 'a set" where
  "seen k gs s = set_option (get k s) \<union> {g \<in> set gs. key g = k}"

lemma seen_put:
  assumes "g' \<in> seen k gs (put g s)"
  shows "g' \<in> seen k (g # gs) s"
  using assms
  by (cases "k = key g"; cases "get (key g) s")
    (auto simp: seen_def get_put_other get_put_new get_put_old split: if_splits)

lemma stamp_le_put:
  assumes "h \<in> seen k (g # gs) s"
  shows "\<exists>h' \<in> seen k gs (put g s). stamp h \<le> stamp h'"
proof (cases "h \<in> {g \<in> set gs. key g = k}")
  case False
  with assms have h: "h \<in> set_option (get k s) \<or> (h = g \<and> key g = k)" by (auto simp: seen_def)
  show ?thesis
  proof (cases "k = key g")
    case True
    with h show ?thesis
      by (cases "get (key g) s") (auto simp: seen_def get_put_new get_put_old)
  qed (use h in \<open>auto simp: seen_def get_put_other\<close>)
qed (auto simp: seen_def)

lemma get_fold_seen: "get k (fold put gs s) = Some g \<Longrightarrow> g \<in> seen k gs s"
proof (induction gs arbitrary: s)
  case (Cons h gs)
  then show ?case using seen_put by fastforce
qed (simp add: seen_def)

lemma get_fold_max: "h \<in> seen k gs s \<Longrightarrow> \<exists>g. get k (fold put gs s) = Some g \<and> stamp h \<le> stamp g"
proof (induction gs arbitrary: s h)
  case (Cons g gs)
  from stamp_le_put [OF Cons.prems] obtain h' where "h' \<in> seen k gs (put g s)" "stamp h \<le> stamp h'" by blast
  with Cons.IH [of h' "put g s"] show ?case by force
qed (simp add: seen_def)

text \<open>When a stamp identifies a version, the result is the newest version seen.\<close>

lemma get_fold_iff:
  assumes "\<And>g h. g \<in> seen k gs s \<Longrightarrow> h \<in> seen k gs s \<Longrightarrow> stamp g = stamp h \<Longrightarrow> g = h"
  shows "get k (fold put gs s) = Some g \<longleftrightarrow> g \<in> seen k gs s \<and> (\<forall>h \<in> seen k gs s. stamp h \<le> stamp g)"
proof
  assume g: "get k (fold put gs s) = Some g"
  with get_fold_max [where k = k and gs = gs and s = s]
  show "g \<in> seen k gs s \<and> (\<forall>h \<in> seen k gs s. stamp h \<le> stamp g)"
    by (force dest: get_fold_seen)
next
  assume g: "g \<in> seen k gs s \<and> (\<forall>h \<in> seen k gs s. stamp h \<le> stamp g)"
  then obtain g' where g': "get k (fold put gs s) = Some g'" "stamp g \<le> stamp g'"
    using get_fold_max by blast
  then have "g' \<in> seen k gs s" by (simp add: get_fold_seen)
  with g g' assms [of g g'] show "get k (fold put gs s) = Some g" by (auto intro: antisym)
qed

lemma converges:
  assumes "seen k gs s = seen k gs' s'"
    and "\<And>g h. g \<in> seen k gs s \<Longrightarrow> h \<in> seen k gs s \<Longrightarrow> stamp g = stamp h \<Longrightarrow> g = h"
  shows "get k (fold put gs s) = get k (fold put gs' s')"
proof -
  have "get k (fold put gs s) = Some g \<longleftrightarrow> get k (fold put gs' s') = Some g" for g
    using get_fold_iff [of k gs s g] get_fold_iff [of k gs' s' g] assms by metis
  then show ?thesis by (metis not_None_eq)
qed

end

end
