(* ===== verification/Gateway_Merge.thy ===== *)
theory Gateway_Merge
  imports Gateway Lww_Store
begin

text \<open>
  Cluster replication of the shares: what one merge does, that merges converge, what the handlers
  keep, and how a deleted share comes back.
\<close>

section \<open>The merge\<close>

declare map_of_eq_Some_iff [simp del]

text \<open>
  A store is well formed when it is a map filed by id. Every lookup below is by id, so the theorems
  hold for every iteration order of the hash map.
\<close>

definition gw_wf :: "gateway_store \<Rightarrow> bool" where
  "gw_wf s \<longleftrightarrow> distinct (map fst (gw_map s)) \<and> (\<forall>(k, g) \<in> set (gw_map s). gw_id g = k)"

lemma option_eqI: "(\<And>x. a = Some x \<longleftrightarrow> b = Some x) \<Longrightarrow> a = b"
  by (cases a; cases b) auto

lemma gw_wfD: "gw_wf s \<Longrightarrow> gw_get i s = Some g \<Longrightarrow> gw_id g = i"
  by (auto simp: gw_wf_def gw_get_def dest: map_of_SomeD)

lemma gw_get_iff: "gw_wf s \<Longrightarrow> gw_get i s = Some g \<longleftrightarrow> g \<in> set (snapshot_for_sync s) \<and> gw_id g = i"
  by (force simp: gw_wf_def gw_get_def snapshot_for_sync_def map_of_eq_Some_iff)

lemma distinct_snapshot: "gw_wf s \<Longrightarrow> distinct (map gw_id (snapshot_for_sync s))"
proof -
  assume wf: "gw_wf s"
  then have "map gw_id (snapshot_for_sync s) = map fst (gw_map s)"
    by (auto simp: snapshot_for_sync_def gw_wf_def)
  with wf show ?thesis by (simp add: gw_wf_def)
qed

lemma set_AList_update: "p \<in> set (AList.update k v m) \<Longrightarrow> p = (k, v) \<or> p \<in> set m"
  by (induction m) (auto split: if_splits)

lemma gw_wf_put:
  "gw_wf s \<Longrightarrow> gw_id g = k \<Longrightarrow> gw_wf (s\<lparr>gw_map := AList.update k g (gw_map s)\<rparr>)"
  by (auto simp: gw_wf_def distinct_update dest!: set_AList_update)

lemma gw_wf_drop:
  "gw_wf s \<Longrightarrow> gw_wf (s\<lparr>gw_map := AList.delete k (gw_map s), gw_runtime := r\<rparr>)"
  by (auto simp: gw_wf_def AList.delete_eq intro: distinct_map_filter_key)

text \<open>The newer of an entry and an incoming version; an entry wins a tie.\<close>

definition newer :: "gateway option \<Rightarrow> gateway option \<Rightarrow> gateway option" where
  "newer e n =
     (case n of None \<Rightarrow> e
      | Some g \<Rightarrow> (case e of None \<Rightarrow> Some g | Some h \<Rightarrow> if gw_updated_at h \<ge> gw_updated_at g then Some h else Some g))"

lemma newer_None [simp]: "newer e None = e"
  by (simp add: newer_def)

lemma merge_one_get:
  "gw_get i (snd (merge_one g (b, s))) = (if i = gw_id g then newer (gw_get i s) (Some g) else gw_get i s)"
  by (auto simp: merge_one_def gw_get_def newer_def update_conv' split: option.splits)

lemma merge_one_wf: "gw_wf s \<Longrightarrow> gw_wf (snd (merge_one g (b, s)))"
  by (auto simp: merge_one_def gw_wf_put split: option.splits)

lemma merge_one_flag:
  "fst (merge_one g (b, s)) = (b \<or> gw_get (gw_id g) (snd (merge_one g (b, s))) \<noteq> gw_get (gw_id g) s)"
  by (auto simp: merge_one_def gw_get_def update_conv' split: option.splits)

interpretation gw: lww_store gw_id gw_updated_at gw_get "\<lambda>g s. snd (merge_one g (False, s))"
  by unfold_locales (auto simp: merge_one_get newer_def)

lemma snd_fold_merge: "snd (fold merge_one gs (b, s)) = fold (\<lambda>g s. snd (merge_one g (False, s))) gs s"
proof (induction gs arbitrary: b s)
  case (Cons g gs)
  obtain b' s' where m: "merge_one g (b, s) = (b', s')" by force
  then have "snd (merge_one g (False, s)) = s'" by (auto simp: merge_one_def split: option.splits if_splits)
  with Cons [of b' s'] m show ?case by simp
qed simp

lemma fold_merge_distinct:
  assumes "distinct (map gw_id gs)"
  shows "gw_get i (snd (fold merge_one gs (b, s))) = newer (gw_get i s) (find (\<lambda>g. gw_id g = i) gs) \<and>
         (fst (fold merge_one gs (b, s)) \<longleftrightarrow>
           b \<or> (\<exists>g \<in> set gs. newer (gw_get (gw_id g) s) (Some g) \<noteq> gw_get (gw_id g) s))"
  using assms
proof (induction gs arbitrary: b s)
  case (Cons g gs)
  obtain b' s' where m: "merge_one g (b, s) = (b', s')" by force
  have get: "gw_get j s' = (if j = gw_id g then newer (gw_get j s) (Some g) else gw_get j s)" for j
    using merge_one_get [of j g b s] m by simp
  have b': "b' = (b \<or> newer (gw_get (gw_id g) s) (Some g) \<noteq> gw_get (gw_id g) s)"
    using merge_one_flag [of g b s] m get by simp
  have "find (\<lambda>h. gw_id h = gw_id g) gs = None"
    using Cons.prems by (auto simp: find_None_iff) (metis imageI)
  moreover have "gw_get (gw_id h) s' = gw_get (gw_id h) s" if "h \<in> set gs" for h
    using that Cons.prems get by (auto simp: rev_image_eqI)
  ultimately show ?case using Cons.IH [of b' s'] Cons.prems by (auto simp: m get b' newer_def)
qed (simp add: newer_def)

lemma fold_merge_changed:
  assumes "distinct (map gw_id gs)"
  shows "fst (fold merge_one gs (False, s)) \<longleftrightarrow> (\<exists>i. gw_get i (snd (fold merge_one gs (False, s))) \<noteq> gw_get i s)"
proof -
  have get: "gw_get i (snd (fold merge_one gs (False, s))) = newer (gw_get i s) (find (\<lambda>g. gw_id g = i) gs)" for i
    using fold_merge_distinct [OF assms] by blast
  have "newer (gw_get i s) (find (\<lambda>g. gw_id g = i) gs) \<noteq> gw_get i s \<longleftrightarrow>
        (\<exists>g \<in> set gs. gw_id g = i \<and> newer (gw_get (gw_id g) s) (Some g) \<noteq> gw_get (gw_id g) s)" for i
  proof (cases "find (\<lambda>g. gw_id g = i) gs")
    case None
    then have "\<forall>g \<in> set gs. gw_id g \<noteq> i" by (auto simp: find_None_iff)
    with None show ?thesis by auto
  next
    case (Some a)
    from find_SomeD [OF this] have a: "a \<in> set gs" "gw_id a = i" by auto
    then have "{g \<in> set gs. gw_id g = i} = {a}" using distinct_key_eq [OF assms] by auto
    moreover have "(\<exists>g \<in> set gs. gw_id g = i \<and> P g) \<longleftrightarrow> (\<exists>g \<in> {g \<in> set gs. gw_id g = i}. P g)" for P by auto
    ultimately show ?thesis using Some a by simp
  qed
  then show ?thesis unfolding get using fold_merge_distinct [OF assms, of _ False s] by auto
qed

lemma fold_merge_wf: "gw_wf s \<Longrightarrow> gw_wf (snd (fold merge_one gs (b, s)))"
  unfolding snd_fold_merge by (induction gs arbitrary: s) (simp_all add: merge_one_wf)

lemma fold_prune:
  "gw_get i (snd (fold prune_one ids (b, s))) = (if i \<in> set ids then None else gw_get i s) \<and>
   (fst (fold prune_one ids (b, s)) \<longleftrightarrow> b \<or> (\<exists>i \<in> set ids. gw_get i s \<noteq> None))"
proof (induction ids arbitrary: b s)
  case (Cons j ids)
  obtain b' s' where m: "prune_one j (b, s) = (b', s')" by force
  have get: "gw_get k s' = (if k = j then None else gw_get k s)" for k
    using m by (auto simp: prune_one_def gw_get_def delete_conv' split: option.splits)
  have b': "b' = (b \<or> gw_get j s \<noteq> None)"
    using m by (auto simp: prune_one_def gw_get_def split: option.splits)
  show ?case using Cons.IH [of b' s'] by (auto simp: m get b')
qed simp

lemma fold_prune_wf: "gw_wf s \<Longrightarrow> gw_wf (snd (fold prune_one ids (b, s)))"
proof (induction ids arbitrary: b s)
  case (Cons j ids)
  obtain b' s' where m: "prune_one j (b, s) = (b', s')" by force
  with Cons.prems have "gw_wf s'" by (auto simp: prune_one_def gw_wf_drop split: option.splits)
  with Cons.IH [of s' b'] m show ?case by simp
qed simp

lemma set_stale_ids:
  "gw_wf s \<Longrightarrow> set (stale_ids sender ids s) = {i. \<exists>g. gw_get i s = Some g \<and> gw_origin g = sender \<and> i \<notin> set ids}"
  by (auto simp: stale_ids_def gw_get_iff simp flip: snapshot_for_sync_def)

text \<open>Both halves of a merge: \<open>s1\<close> is the store between the version merge and the pruning.\<close>

lemma merge_halves:
  assumes "gw_wf s" "distinct (map gw_id peer)" "fold merge_one peer (False, s) = (b1, s1)"
  shows "gw_wf s1" "gw_get i s1 = newer (gw_get i s) (find (\<lambda>g. gw_id g = i) peer)"
    "b1 \<longleftrightarrow> (\<exists>i. gw_get i s1 \<noteq> gw_get i s)"
    "i \<in> set (stale_ids n (map gw_id peer) s1) \<longleftrightarrow>
       (\<exists>g. gw_get i s = Some g \<and> gw_origin g = n \<and> find (\<lambda>g. gw_id g = i) peer = None)"
proof -
  show wf1: "gw_wf s1" using fold_merge_wf [OF assms(1), of peer False] assms(3) by simp
  show get1: "gw_get i s1 = newer (gw_get i s) (find (\<lambda>g. gw_id g = i) peer)" for i
    using fold_merge_distinct [OF assms(2), of i False s] assms(3) by simp
  show "b1 \<longleftrightarrow> (\<exists>i. gw_get i s1 \<noteq> gw_get i s)"
    using fold_merge_changed [OF assms(2), of s] assms(3) by simp
  have "find (\<lambda>g. gw_id g = i) peer = None \<longleftrightarrow> i \<notin> gw_id ` set peer" by (auto simp: find_None_iff)
  then show "i \<in> set (stale_ids n (map gw_id peer) s1) \<longleftrightarrow>
       (\<exists>g. gw_get i s = Some g \<and> gw_origin g = n \<and> find (\<lambda>g. gw_id g = i) peer = None)"
    using get1 [of i] by (auto simp: set_stale_ids [OF wf1])
qed

lemma merge_get:
  assumes "gw_wf s" "distinct (map gw_id peer)" "merge_from_peer_owned_by peer sender s = (changed, s')"
  shows "gw_get i s' =
       (case find (\<lambda>g. gw_id g = i) peer of
          Some n \<Rightarrow> newer (gw_get i s) (Some n)
        | None \<Rightarrow> (case gw_get i s of
                     Some g \<Rightarrow> if effective_sender sender = Some (gw_origin g) then None else Some g
                   | None \<Rightarrow> None))"
proof -
  obtain b1 s1 where m: "fold merge_one peer (False, s) = (b1, s1)" by force
  note h = merge_halves [OF assms(1,2) m]
  show ?thesis
  proof (cases "effective_sender sender")
    case None
    with assms(3) m have "s' = s1" by (auto simp: merge_from_peer_owned_by_def)
    with h(2) [of i] None show ?thesis by (auto split: option.splits)
  next
    case (Some n)
    with assms(3) m have "fold prune_one (stale_ids n (map gw_id peer) s1) (b1, s1) = (changed, s')"
      by (auto simp: merge_from_peer_owned_by_def)
    with fold_prune [of i "stale_ids n (map gw_id peer) s1" b1 s1]
    have "gw_get i s' = (if i \<in> set (stale_ids n (map gw_id peer) s1) then None else gw_get i s1)" by simp
    with h(2) [of i] h(4) [of i n] Some show ?thesis by (auto split: option.splits)
  qed
qed

lemma merge_wf_changed:
  assumes "gw_wf s" "distinct (map gw_id peer)" "merge_from_peer_owned_by peer sender s = (changed, s')"
  shows "gw_wf s' \<and> (changed \<longleftrightarrow> (\<exists>i. gw_get i s' \<noteq> gw_get i s))"
proof -
  obtain b1 s1 where m: "fold merge_one peer (False, s) = (b1, s1)" by force
  note h = merge_halves [OF assms(1,2) m]
  show ?thesis
  proof (cases "effective_sender sender")
    case None
    with assms(3) m have "s' = s1" "changed = b1" by (auto simp: merge_from_peer_owned_by_def)
    with h(1,3) show ?thesis by simp
  next
    case (Some n)
    let ?st = "stale_ids n (map gw_id peer) s1"
    have r: "fold prune_one ?st (b1, s1) = (changed, s')"
      using assms(3) m Some by (auto simp: merge_from_peer_owned_by_def)
    then have get: "gw_get i s' = (if i \<in> set ?st then None else gw_get i s1)" for i
      using fold_prune [of i ?st b1 s1] by simp
    have st: "gw_get i s1 = gw_get i s \<and> gw_get i s \<noteq> None" if "i \<in> set ?st" for i
      using that h(2) [of i] h(4) [of i n] by auto
    have "changed \<longleftrightarrow> b1 \<or> (\<exists>i \<in> set ?st. gw_get i s1 \<noteq> None)"
      using fold_prune [of _ ?st b1 s1] r by simp
    also have "\<dots> \<longleftrightarrow> (\<exists>i. gw_get i s' \<noteq> gw_get i s)"
      using h(3) get st by (metis (no_types, lifting))
    finally show ?thesis using fold_prune_wf [OF h(1), of ?st b1] r by simp
  qed
qed

text \<open>
  C13 (one merge): merging a snapshot keeps, for each share of the snapshot, the newer of the local
  and the incoming version (the local one on a tie); a local share missing from the snapshot is
  removed exactly when the identified sender owns it, and is otherwise untouched; and the merge
  reports a change exactly when some share changed.
\<close>

theorem gateway_merge_outcome:
  assumes "gw_wf s" "distinct (map gw_id peer)" "merge_from_peer_owned_by peer sender s = (changed, s')"
  shows "(\<forall>i. gw_get i s' =
       (case find (\<lambda>g. gw_id g = i) peer of
          Some n \<Rightarrow> newer (gw_get i s) (Some n)
        | None \<Rightarrow> (case gw_get i s of
                     Some g \<Rightarrow> if effective_sender sender = Some (gw_origin g) then None else Some g
                   | None \<Rightarrow> None))) \<and>
    (changed \<longleftrightarrow> (\<exists>i. gw_get i s' \<noteq> gw_get i s))"
  using merge_get [OF assms] merge_wf_changed [OF assms] by blast

section \<open>Convergence\<close>

definition merge_all :: "gateway list list \<Rightarrow> gateway_store \<Rightarrow> gateway_store" where
  "merge_all pls s = fold (\<lambda>pl s. snd (merge_from_peer_owned_by pl None s)) pls s"

lemma merge_all_concat: "merge_all pls s = fold (\<lambda>g s. snd (merge_one g (False, s))) (concat pls) s"
proof (induction pls arbitrary: s)
  case (Cons pl pls)
  have "snd (merge_from_peer_owned_by pl None s) = fold (\<lambda>g s. snd (merge_one g (False, s))) pl s"
    by (simp add: merge_from_peer_owned_by_def effective_sender_def case_prod_beta snd_fold_merge)
  with Cons show ?case by (simp add: merge_all_def)
qed (simp add: merge_all_def)

lemma gw_seen:
  "gw_wf s \<Longrightarrow> gw.seen i gs s = {g \<in> set (snapshot_for_sync s) \<union> set gs. gw_id g = i}"
  by (auto simp: gw.seen_def gw_get_iff)

text \<open>
  Snapshots that do not name their sender prune nothing: two nodes that have between their own shares and
  such snapshots the same versions hold the same shares, in whatever order and however often the
  snapshots arrived, provided a modification time identifies a version of a share.
\<close>

lemma unsigned_merges_converge:
  assumes "gw_wf s" "gw_wf s'"
    and "set (snapshot_for_sync s) \<union> set (concat pls) = set (snapshot_for_sync s') \<union> set (concat pls')"
    and "\<And>g h. g \<in> set (snapshot_for_sync s) \<union> set (concat pls) \<Longrightarrow> h \<in> set (snapshot_for_sync s) \<union> set (concat pls) \<Longrightarrow>
           gw_id g = gw_id h \<Longrightarrow> gw_updated_at g = gw_updated_at h \<Longrightarrow> g = h"
  shows "gw_get i (merge_all pls s) = gw_get i (merge_all pls' s')"
  unfolding merge_all_concat
proof (rule gw.converges)
  show "gw.seen i (concat pls) s = gw.seen i (concat pls') s'"
    using assms(1-3) by (auto simp: gw_seen)
  show "g = h" if "g \<in> gw.seen i (concat pls) s" "h \<in> gw.seen i (concat pls) s" "gw_updated_at g = gw_updated_at h" for g h
    using that assms(4) [of g h] by (auto simp: gw_seen [OF assms(1)])
qed

subsection \<open>Pushes that name their sender\<close>

text \<open>
  A node pushes its whole store under its own name, and the receiver drops the sender's shares that are not
  in it. Against the store \<open>P\<close> of the owner: a version of a share is \<open>known_by\<close> the owner if it does not give
  the share's id another owner and, for a share of this owner, is the one in \<open>P\<close> or older.
\<close>

definition known_by :: "string \<Rightarrow> gateway_store \<Rightarrow> gateway \<Rightarrow> bool" where
  "known_by owner P g =
     (case gw_get (gw_id g) P of
        None \<Rightarrow> True
      | Some h \<Rightarrow> gw_origin g = gw_origin h \<and> (gw_origin h = owner \<longrightarrow> g = h \<or> gw_updated_at g < gw_updated_at h))"

text \<open>A push of another node that carries nothing of the owner's that the owner does not have.\<close>

definition benign_push :: "string \<Rightarrow> gateway_store \<Rightarrow> gateway list \<times> string \<Rightarrow> bool" where
  "benign_push owner P push =
     (case push of (incoming, sender) \<Rightarrow>
        distinct (map gw_id incoming) \<and> trim sender \<noteq> owner
        \<and> list_all (\<lambda>g. known_by owner P g \<and> (gw_origin g = owner \<longrightarrow> gw_get (gw_id g) P \<noteq> None)) incoming)"

definition push_all :: "string \<Rightarrow> (gateway list \<times> string) list \<Rightarrow> gateway_store \<Rightarrow> gateway_store" where
  "push_all node pushes s = fold (\<lambda>(incoming, sender) s. snd (gateways_sync node incoming (Some sender) s)) pushes s"

definition mirrors :: "string \<Rightarrow> gateway_store \<Rightarrow> gateway_store \<Rightarrow> bool" where
  "mirrors owner P s =
     (gw_wf s \<and> (\<forall>i g. (gw_get i s = Some g \<and> gw_origin g = owner) \<longleftrightarrow> (gw_get i P = Some g \<and> gw_origin g = owner)))"

lemma gateways_sync_get:
  assumes "gw_wf s" "distinct (map gw_id incoming)"
  shows "gw_wf (snd (gateways_sync node incoming (Some sender) s))"
    and "gw_get i (snd (gateways_sync node incoming (Some sender) s)) =
       (case find (\<lambda>g. gw_id g = i) incoming of
          Some n \<Rightarrow> newer (gw_get i s) (Some n)
        | None \<Rightarrow> (case gw_get i s of
            Some g \<Rightarrow> if trim sender \<noteq> [] \<and> trim sender \<noteq> node \<and> gw_origin g = trim sender then None else Some g
          | None \<Rightarrow> None))"
proof -
  let ?sender = "if trim sender \<noteq> [] \<and> trim sender \<noteq> node then Some (trim sender) else None"
  obtain ch s' where m: "merge_from_peer_owned_by incoming ?sender s = (ch, s')" by force
  have s': "snd (gateways_sync node incoming (Some sender) s) = s'"
    unfolding gateways_sync_def Let_def option.case m by simp
  show "gw_wf (snd (gateways_sync node incoming (Some sender) s))"
    unfolding s' using merge_wf_changed [OF assms m] by blast
  show "gw_get i (snd (gateways_sync node incoming (Some sender) s)) = (case find (\<lambda>g. gw_id g = i) incoming of
          Some n \<Rightarrow> newer (gw_get i s) (Some n)
        | None \<Rightarrow> (case gw_get i s of
            Some g \<Rightarrow> if trim sender \<noteq> [] \<and> trim sender \<noteq> node \<and> gw_origin g = trim sender then None else Some g
          | None \<Rightarrow> None))"
    unfolding s' merge_get [OF assms m] by (auto simp: effective_sender_def trim_idem split: option.split)
qed

lemma known_by_wins:
  assumes "known_by owner P g" "gw_get (gw_id g) P = Some h" "gw_origin h = owner"
  shows "newer (Some g) (Some h) = Some h" "newer (Some h) (Some g) = Some h" "gw_origin g = owner"
  using assms by (auto simp: known_by_def newer_def)

lemma find_snapshot: "gw_wf P \<Longrightarrow> find (\<lambda>g. gw_id g = i) (snapshot_for_sync P) = gw_get i P"
  by (rule option_eqI) (simp add: find_key_iff [OF distinct_snapshot] gw_get_iff)

lemma owner_push_mirrors:
  assumes s: "gw_wf s" "\<And>g. g \<in> set (snapshot_for_sync s) \<Longrightarrow> known_by owner P g" and P: "gw_wf P"
    and owner: "trim owner = owner" "owner \<noteq> []" "owner \<noteq> node"
  shows "mirrors owner P (snd (gateways_sync node (snapshot_for_sync P) (Some owner) s))"
proof -
  let ?s = "snd (gateways_sync node (snapshot_for_sync P) (Some owner) s)"
  note get = gateways_sync_get [OF s(1) distinct_snapshot [OF P], where node = node and sender = owner, unfolded find_snapshot [OF P]]
  have known: "known_by owner P g \<and> gw_id g = i" if "gw_get i s = Some g" for i g
    using s(2) [of g] that by (auto simp: gw_get_iff [OF s(1)])
  have keeps: "gw_get i ?s = Some h" if h: "gw_get i P = Some h" "gw_origin h = owner" for i h
  proof (cases "gw_get i s")
    case (Some g)
    with known [OF Some] known_by_wins(1) [of owner P g h] h show ?thesis by (simp add: get(2))
  qed (use h in \<open>simp add: get(2) newer_def\<close>)
  have only: "gw_get i P = Some g" if g: "gw_get i ?s = Some g" "gw_origin g = owner" for i g
  proof (cases "gw_get i P")
    case None
    with g owner show ?thesis by (auto simp: get(2) split: option.splits if_splits)
  next
    case (Some h)
    then have "Some g = newer (gw_get i s) (Some h)" using g(1) by (simp add: get(2))
    then have "g = h \<or> gw_get i s = Some g" by (auto simp: newer_def split: option.splits if_splits)
    moreover have "gw_origin g = gw_origin h" if "gw_get i s = Some g"
      using known [OF that] Some by (auto simp: known_by_def)
    ultimately show ?thesis using g keeps [OF Some] Some by auto
  qed
  show ?thesis unfolding mirrors_def using keeps only get(1) by blast
qed

lemma benign_push_mirrors:
  assumes m: "mirrors owner P s" and b: "benign_push owner P (incoming, sender)"
  shows "mirrors owner P (snd (gateways_sync node incoming (Some sender) s))"
proof -
  let ?s = "snd (gateways_sync node incoming (Some sender) s)"
  from b have d: "distinct (map gw_id incoming)" and sender: "trim sender \<noteq> owner"
    and inc: "\<And>g. g \<in> set incoming \<Longrightarrow> known_by owner P g \<and> (gw_origin g = owner \<longrightarrow> gw_get (gw_id g) P \<noteq> None)"
    by (auto simp: benign_push_def list_all_iff)
  from m have wf: "gw_wf s" and mi: "\<And>i g. (gw_get i s = Some g \<and> gw_origin g = owner) \<longleftrightarrow> (gw_get i P = Some g \<and> gw_origin g = owner)"
    by (auto simp: mirrors_def)
  note get = gateways_sync_get [OF wf d, where node = node and sender = sender]
  have keeps: "gw_get i ?s = Some h" if h: "gw_get i P = Some h" "gw_origin h = owner" for i h
  proof (cases "find (\<lambda>g. gw_id g = i) incoming")
    case None
    with h mi [of i h] sender show ?thesis by (auto simp: get(2))
  next
    case (Some n)
    from find_SomeD [OF this] inc have "known_by owner P n" "gw_id n = i" by auto
    with known_by_wins(2) [of owner P n h] h mi [of i h] Some show ?thesis by (simp add: get(2))
  qed
  have only: "gw_get i P = Some g" if g: "gw_get i ?s = Some g" "gw_origin g = owner" for i g
  proof (cases "find (\<lambda>g. gw_id g = i) incoming")
    case None
    with g mi [of i g] show ?thesis by (auto simp: get(2) split: option.splits if_splits)
  next
    case (Some n)
    from find_SomeD [OF Some] have n: "n \<in> set incoming" "gw_id n = i" by auto
    from Some g(1) have "g = n \<or> gw_get i s = Some g" by (auto simp: get(2) newer_def split: option.splits if_splits)
    then show ?thesis
    proof
      assume "g = n"
      with inc [OF n(1)] n(2) g(2) obtain h where h: "gw_get i P = Some h" by auto
      with inc [OF n(1)] n(2) \<open>g = n\<close> g(2) have "gw_origin h = owner" by (auto simp: known_by_def)
      with keeps [OF h] g(1) h show ?thesis by simp
    qed (use mi [of i g] g(2) in blast)
  qed
  show ?thesis unfolding mirrors_def using keeps only get(1) by blast
qed

lemma push_all_mirrors:
  "mirrors owner P s \<Longrightarrow> list_all (benign_push owner P) pushes \<Longrightarrow> mirrors owner P (push_all node pushes s)"
proof (induction pushes arbitrary: s)
  case (Cons p pushes)
  obtain incoming sender where p: "p = (incoming, sender)" by (cases p)
  from Cons.prems p have "mirrors owner P (snd (gateways_sync node incoming (Some sender) s))"
    using benign_push_mirrors by simp
  with Cons.IH Cons.prems(2) p show ?case by (simp add: push_all_def)
qed (simp add: push_all_def)

text \<open>
  C25 (gateway_sync_converges). After the owner of shares has pushed its store to a node under its own id, the node holds,
  of the shares of that owner, exactly the ones in the owner's store, in the owner's versions; shares the
  owner has deleted are pruned. It still does after any later pushes of other nodes, which prune shares of
  their own, as long as no version anywhere is unknown to the owner (newer than its own, or of the same time
  and different, or giving the id to another owner) and none of the later pushes still carries a share the owner has
  deleted. (Such a push brings the share back: \<open>deleted_share_returns\<close>.) So any two nodes agree on those shares.
\<close>

theorem gateway_sync_converges:
  assumes "gw_wf s" "gw_wf P" "trim owner = owner" "owner \<noteq> []" "owner \<noteq> node"
    and "list_all (known_by owner P) (snapshot_for_sync s)" "list_all (benign_push owner P) pushes"
    and "s' = push_all node pushes (snd (gateways_sync node (snapshot_for_sync P) (Some owner) s))"
  shows "(gw_get i s' = Some g \<and> gw_origin g = owner) \<longleftrightarrow> (gw_get i P = Some g \<and> gw_origin g = owner)"
proof -
  have "mirrors owner P s'"
    unfolding assms(8) using assms(1-7) by (intro push_all_mirrors owner_push_mirrors) (auto simp: list_all_iff)
  then show ?thesis by (simp add: mirrors_def)
qed

section \<open>The node's own shares\<close>

text \<open>
  A node's own shares pass validation and, if \<open>b\<close>, have names that differ even when case is ignored, since a
  name is a share section and a directory under the export root.
\<close>

definition own_ok :: "bool \<Rightarrow> string \<Rightarrow> gateway_store \<Rightarrow> bool" where
  "own_ok b node s \<longleftrightarrow> gw_wf s \<and>
     (\<forall>i g. gw_get i s = Some g \<longrightarrow> gw_origin g = node \<longrightarrow> validate_gateway g = Ok ()) \<and>
     (b \<longrightarrow> (\<forall>i j g h. gw_get i s = Some g \<longrightarrow> gw_get j s = Some h \<longrightarrow> gw_origin g = node \<longrightarrow> gw_origin h = node \<longrightarrow>
        eq_ignore_ascii_case (gw_name g) (gw_name h) \<longrightarrow> i = j))"

text \<open>A change to the store that brings no new own share keeps the invariant.\<close>

lemma own_okI:
  assumes "own_ok b node s" "gw_wf s'"
    and "\<And>i g. gw_get i s' = Some g \<Longrightarrow> gw_origin g = node \<Longrightarrow>
           \<exists>h. gw_get i s = Some h \<and> gw_origin h = node \<and> gw_name h = gw_name g \<and> validate_gateway h = validate_gateway g"
  shows "own_ok b node s'"
  unfolding own_ok_def
proof (intro conjI allI impI)
  show "gw_wf s'" by fact
next
  fix i g assume "gw_get i s' = Some g" "gw_origin g = node"
  with assms(3) [of i g] assms(1) show "validate_gateway g = Ok ()" unfolding own_ok_def by metis
next
  fix i j g h
  assume b
    and "gw_get i s' = Some g" "gw_get j s' = Some h" "gw_origin g = node" "gw_origin h = node"
    and "eq_ignore_ascii_case (gw_name g) (gw_name h)"
  with assms(3) [of i g] assms(3) [of j h] assms(1) show "i = j" unfolding own_ok_def by metis
qed

lemma gw_get_runtime [simp]: "gw_get i (s\<lparr>gw_runtime := r\<rparr>) = gw_get i s"
  by (simp add: gw_get_def)

lemma gw_wf_runtime [simp]: "gw_wf (s\<lparr>gw_runtime := r\<rparr>) = gw_wf s"
  by (simp add: gw_wf_def)

lemma own_ok_runtime [simp]: "own_ok b node (s\<lparr>gw_runtime := r\<rparr>) = own_ok b node s"
  by (simp add: own_ok_def)

lemma validate_gateway_cong:
  assumes "gw_name g = gw_name h" "gw_protocols g = gw_protocols h" "gw_sources g = gw_sources h"
    "gw_serve_nodes g = gw_serve_nodes h" "gw_mode g = gw_mode h" "gw_options g = gw_options h" "gw_auth g = gw_auth h"
  shows "validate_gateway g = validate_gateway h"
  unfolding validate_gateway_def mode_errors_def source_errors_def extra_option_errors_def auth_errors_def assms
  by (rule refl)

lemma validate_gateway_meta [simp]:
  "validate_gateway (g\<lparr>gw_updated_at := u\<rparr>) = validate_gateway g"
  "validate_gateway (g\<lparr>gw_created_at := c\<rparr>) = validate_gateway g"
  "validate_gateway (g\<lparr>gw_disabled := d\<rparr>) = validate_gateway g"
  by (rule validate_gateway_cong; simp)+

lemma own_ok_put:
  assumes "own_ok b node s" "gw_id g = i" "gw_origin g = node \<Longrightarrow> validate_gateway g = Ok ()"
    and "\<And>j h. b \<Longrightarrow> gw_get j s = Some h \<Longrightarrow> j \<noteq> i \<Longrightarrow> gw_origin h = node \<Longrightarrow> gw_origin g = node \<Longrightarrow>
           \<not> eq_ignore_ascii_case (gw_name h) (gw_name g)"
  shows "own_ok b node (s\<lparr>gw_map := AList.update i g (gw_map s)\<rparr>)"
proof -
  have wf: "gw_wf (s\<lparr>gw_map := AList.update i g (gw_map s)\<rparr>)"
    using assms(1,2) by (simp add: own_ok_def gw_wf_put)
  have get: "gw_get j (s\<lparr>gw_map := AList.update i g (gw_map s)\<rparr>) = (if j = i then Some g else gw_get j s)" for j
    by (simp add: gw_get_def update_conv')
  have sym: "eq_ignore_ascii_case a b \<longleftrightarrow> eq_ignore_ascii_case b a" for a b
    by (auto simp: eq_ignore_ascii_case_def)
  show ?thesis
    unfolding own_ok_def get
    using assms(1,3,4) wf sym by (auto simp: own_ok_def split: if_splits)
qed

lemma duplicate_iff:
  assumes "gw_wf s"
  shows "duplicate_gateway_name g s \<longleftrightarrow>
    (\<exists>j h. gw_get j s = Some h \<and> j \<noteq> gw_id g \<and> gw_origin h = gw_origin g \<and> eq_ignore_ascii_case (gw_name h) (gw_name g))"
  using assms by (auto simp: duplicate_gateway_name_def list_ex_iff gw_get_iff simp flip: snapshot_for_sync_def)

text \<open>The second half of a request, when the shares of the node have kept clear of the name.\<close>

definition clear_of :: "string \<Rightarrow> gateway_store \<Rightarrow> gateway \<Rightarrow> bool" where
  "clear_of node s g =
     (\<forall>j h. gw_get j s = Some h \<and> j \<noteq> gw_id g \<and> gw_origin h = node \<and> gw_origin g = node \<longrightarrow>
        \<not> eq_ignore_ascii_case (gw_name h) (gw_name g))"

lemma check_gateway_Ok:
  assumes "check_gateway g s = Ok ()" "gw_wf s"
  shows "validate_gateway g = Ok ()" "clear_of node s g"
proof -
  from assms(1) have v: "validate_gateway g = Ok () \<and> \<not> duplicate_gateway_name g s"
    by (auto simp: check_gateway_def split: sum.splits if_splits)
  then show "validate_gateway g = Ok ()" by blast
  from v show "clear_of node s g" unfolding clear_of_def duplicate_iff [OF assms(2)] by metis
qed

lemma apply_and_persist_get:
  obtains (refused) "snd (apply_and_persist ap now g s) = s"
  | (stored) h rt where "snd (apply_and_persist ap now g s) = s\<lparr>gw_map := AList.update (gw_id g) h (gw_map s), gw_runtime := rt\<rparr>"
      "gw_id h = gw_id g" "gw_name h = gw_name g" "gw_origin h = gw_origin g" "validate_gateway h = validate_gateway g"
proof (cases "ap g")
  case (Inl e)
  then show ?thesis using refused by (simp add: apply_and_persist_def)
next
  case (Inr rt)
  let ?h = "(if gw_created_at g = [] then g\<lparr>gw_created_at := now\<rparr> else g)\<lparr>gw_updated_at := now\<rparr>"
  have "snd (apply_and_persist ap now g s) = s\<lparr>gw_map := AList.update (gw_id g) ?h (gw_map s),
      gw_runtime := AList.update (gw_id g) rt (gw_runtime s)\<rparr>"
    using Inr by (cases "gw_created_at g = []") (simp_all add: apply_and_persist_def gw_upsert_def Let_def)
  then show ?thesis by (rule stored) (cases "gw_created_at g = []"; simp)+
qed

lemma apply_and_persist_ok:
  assumes "own_ok b node s" "validate_gateway g = Ok ()" "b \<Longrightarrow> clear_of node s g"
  shows "own_ok b node (snd (apply_and_persist ap now g s))"
proof (cases rule: apply_and_persist_get [of ap now g s])
  case (stored h rt)
  have "own_ok b node (s\<lparr>gw_map := AList.update (gw_id g) h (gw_map s)\<rparr>)"
    using assms stored by (intro own_ok_put) (auto simp: clear_of_def)
  then show ?thesis unfolding stored(1) by simp
qed (use assms in simp)

lemma set_disabled_ok:
  assumes "own_ok b node s" shows "own_ok b node (snd (set_disabled d now i s))"
proof (cases "gw_get i s")
  case (Some g)
  let ?s = "s\<lparr>gw_map := AList.update i (g\<lparr>gw_disabled := d, gw_updated_at := now\<rparr>) (gw_map s)\<rparr>"
  have "gw_wf s" using assms by (simp add: own_ok_def)
  then have "gw_wf ?s" using gw_wfD [OF _ Some] by (intro gw_wf_put) auto
  then have "own_ok b node ?s"
    by (rule own_okI [OF assms]) (use Some in \<open>auto simp: gw_get_def update_conv' split: if_splits\<close>)
  with Some show ?thesis by (simp add: set_disabled_def Let_def)
qed (use assms in \<open>simp add: set_disabled_def\<close>)

lemma sync_own:
  assumes wf: "gw_wf s" and d: "distinct (map gw_id incoming)"
    and inc: "\<And>g. g \<in> set incoming \<Longrightarrow> gw_origin g = node \<Longrightarrow>
           \<exists>h. gw_get (gw_id g) s = Some h \<and> gw_updated_at g \<le> gw_updated_at h"
  shows "gw_wf (snd (gateways_sync node incoming header s))"
    and "gw_get i (snd (gateways_sync node incoming header s)) = Some g \<Longrightarrow> gw_origin g = node \<Longrightarrow> gw_get i s = Some g"
proof -
  define sender where "sender = (case header of
      Some h \<Rightarrow> if trim h \<noteq> [] \<and> trim h \<noteq> node then Some (trim h) else None | None \<Rightarrow> None)"
  obtain changed s' where m: "merge_from_peer_owned_by incoming sender s = (changed, s')" by force
  then have s': "snd (gateways_sync node incoming header s) = s'" by (simp add: gateways_sync_def sender_def)
  show "gw_wf (snd (gateways_sync node incoming header s))" unfolding s' using merge_wf_changed [OF wf d m] by blast
  assume "gw_get i (snd (gateways_sync node incoming header s)) = Some g" "gw_origin g = node"
  then have g: "gw_get i s' = Some g" "gw_origin g = node" by (simp_all add: s')
  show "gw_get i s = Some g"
  proof (cases "find (\<lambda>g. gw_id g = i) incoming")
    case None
    with g merge_get [OF wf d m, of i] show ?thesis by (auto split: option.splits if_splits)
  next
    case (Some n)
    with g merge_get [OF wf d m, of i] inc [of n] find_SomeD [OF Some]
    show ?thesis by (auto simp: newer_def split: option.splits if_splits)
  qed
qed

lemma sync_ok:
  assumes "own_ok b node s" "distinct (map gw_id incoming)"
    and "\<And>g. g \<in> set incoming \<Longrightarrow> gw_origin g = node \<Longrightarrow>
           \<exists>h. gw_get (gw_id g) s = Some h \<and> gw_updated_at g \<le> gw_updated_at h"
  shows "own_ok b node (snd (gateways_sync node incoming header s))"
proof -
  have wf: "gw_wf s" using assms(1) by (simp add: own_ok_def)
  show ?thesis
  proof (rule own_okI [OF assms(1)])
    show "gw_wf (snd (gateways_sync node incoming header s))" by (rule sync_own(1) [OF wf assms(2,3)])
    fix i g
    assume "gw_get i (snd (gateways_sync node incoming header s)) = Some g" "gw_origin g = node"
    with sync_own(2) [OF wf assms(2,3)] show "\<exists>h. gw_get i s = Some h \<and> gw_origin h = node \<and> gw_name h = gw_name g
        \<and> validate_gateway h = validate_gateway g" by blast
  qed
qed

lemma gw_load_get:
  assumes "distinct (map gw_id gs)"
  shows "gw_get i (gw_load (Some gs)) = find (\<lambda>g. gw_id g = i) gs" "gw_wf (gw_load (Some gs))"
proof -
  have "map_of (fold (\<lambda>g m. AList.update (gw_id g) g m) gs m) i =
        (case find (\<lambda>g. gw_id g = i) gs of Some g \<Rightarrow> Some g | None \<Rightarrow> map_of m i)" for m
    using assms by (induction gs arbitrary: m) (auto simp: update_conv' image_iff split: option.splits dest!: find_SomeD)
  from this [of "[]"] show "gw_get i (gw_load (Some gs)) = find (\<lambda>g. gw_id g = i) gs"
    by (simp add: gw_get_def gw_load_def split: option.splits)
  have "gw_wf \<lparr>gw_map = m, gw_runtime = []\<rparr> \<Longrightarrow> gw_wf \<lparr>gw_map = fold (\<lambda>g m. AList.update (gw_id g) g m) gs m, gw_runtime = []\<rparr>" for m
  proof (induction gs arbitrary: m)
    case (Cons g gs)
    with gw_wf_put [of "\<lparr>gw_map = m, gw_runtime = []\<rparr>" g "gw_id g"] show ?case by simp
  qed simp
  from this [of "[]"] show "gw_wf (gw_load (Some gs))" by (simp add: gw_load_def gw_wf_def)
qed

text \<open>
  Histories of one node. \<open>fl\<close> are the shares of requests that have been checked and not yet stored. A request is
  checked against the store of one moment (its owner check and the share it replaces may be from an earlier one)
  and stored at a later one; deletions and toggles take effect whatever their own checks saw; a
  restart reads a file that holds the store of some earlier moment, in any order, and ends the
  requests in flight; snapshots from peers carry none of this node's shares in a version newer than the node's own,
  or one the node no longer has. With \<open>b\<close>, no two requests in flight ask for one name.
\<close>

inductive gw_reachable ::
  "(gateway \<Rightarrow> string + gateway_runtime) \<Rightarrow> string \<Rightarrow> bool \<Rightarrow> gateway_store \<Rightarrow> gateway list \<Rightarrow> bool"
  for ap node b where
  start: "gw_reachable ap node b (gw_load None) []"
| create: "gw_reachable ap node b s fl \<Longrightarrow> g = gateway_of_request uuid node [] False r \<Longrightarrow> check_gateway g s = Ok () \<Longrightarrow>
    (b \<Longrightarrow> list_all (\<lambda>h. \<not> eq_ignore_ascii_case (gw_name h) (gw_name g)) fl) \<Longrightarrow> gw_reachable ap node b s (g # fl)"
| update: "gw_reachable ap node b s fl \<Longrightarrow> require_owner node i s0 = Ok old \<Longrightarrow>
    g = gateway_of_request i (gw_origin old) (gw_created_at old) (gw_disabled old) r \<Longrightarrow> check_gateway g s = Ok () \<Longrightarrow>
    (b \<Longrightarrow> list_all (\<lambda>h. \<not> eq_ignore_ascii_case (gw_name h) (gw_name g)) fl) \<Longrightarrow> gw_reachable ap node b s (g # fl)"
| persist: "gw_reachable ap node b s fl \<Longrightarrow> g \<in> set fl \<Longrightarrow>
    gw_reachable ap node b (snd (apply_and_persist ap now g s)) (remove1 g fl)"
| delete: "gw_reachable ap node b s fl \<Longrightarrow> gw_reachable ap node b (snd (gw_remove i s)) fl"
| toggle: "gw_reachable ap node b s fl \<Longrightarrow> gw_reachable ap node b (snd (set_disabled d now i s)) fl"
| runtime: "gw_reachable ap node b s fl \<Longrightarrow> gw_reachable ap node b (s\<lparr>gw_runtime := rt\<rparr>) fl"
| restart: "gw_reachable ap node b s fl \<Longrightarrow> mset gs = mset (snapshot_for_sync s) \<Longrightarrow> gw_reachable ap node b (gw_load (Some gs)) []"
| sync: "gw_reachable ap node b s fl \<Longrightarrow> distinct (map gw_id incoming) \<Longrightarrow>
    (\<And>g. g \<in> set incoming \<Longrightarrow> gw_origin g = node \<Longrightarrow>
       \<exists>h. gw_get (gw_id g) s = Some h \<and> gw_updated_at g \<le> gw_updated_at h) \<Longrightarrow>
    gw_reachable ap node b (snd (gateways_sync node incoming header s)) fl"

text \<open>The requests in flight are valid, and with \<open>b\<close> clear of the node's shares and of each other.\<close>

definition flights_ok :: "bool \<Rightarrow> string \<Rightarrow> gateway_store \<Rightarrow> gateway list \<Rightarrow> bool" where
  "flights_ok b node s fl =
     (list_all (\<lambda>g. validate_gateway g = Ok ()) fl
      \<and> (b \<longrightarrow> list_all (clear_of node s) fl \<and> distinct (map (\<lambda>g. map to_ascii_lower (gw_name g)) fl)))"

lemma flights_ok_less:
  assumes "flights_ok b node s fl"
    and "\<And>j h. gw_get j s' = Some h \<Longrightarrow> gw_origin h = node \<Longrightarrow>
      \<exists>h'. gw_get j s = Some h' \<and> gw_origin h' = node \<and> gw_name h' = gw_name h"
  shows "flights_ok b node s' fl"
proof -
  have "clear_of node s' g" if "clear_of node s g" for g
    unfolding clear_of_def
  proof (intro allI impI)
    fix j h assume j: "gw_get j s' = Some h \<and> j \<noteq> gw_id g \<and> gw_origin h = node \<and> gw_origin g = node"
    with assms(2) [of j h] obtain h' where "gw_get j s = Some h'" "gw_origin h' = node" "gw_name h' = gw_name h" by blast
    with that j show "\<not> eq_ignore_ascii_case (gw_name h) (gw_name g)" unfolding clear_of_def by metis
  qed
  with assms(1) show ?thesis by (auto simp: flights_ok_def list_all_iff)
qed

lemma flights_ok_check:
  assumes "flights_ok b node s fl" "gw_wf s" "check_gateway g s = Ok ()"
    and "b \<Longrightarrow> list_all (\<lambda>h. \<not> eq_ignore_ascii_case (gw_name h) (gw_name g)) fl"
  shows "flights_ok b node s (g # fl)"
  using assms check_gateway_Ok [OF assms(3,2)]
  by (force simp: flights_ok_def list_all_iff eq_ignore_ascii_case_def)

lemma flights_ok_persist:
  assumes f: "flights_ok b node s fl" and g: "g \<in> set fl"
  shows "flights_ok b node (snd (apply_and_persist ap now g s)) (remove1 g fl)"
proof (cases rule: apply_and_persist_get [of ap now g s])
  case refused
  have "distinct (map k (remove1 g fl))" if "distinct (map k fl)" for k :: "gateway \<Rightarrow> string"
    using that by (auto simp: distinct_map inj_on_def dest: notin_set_remove1)
  with f refused show ?thesis by (auto simp: flights_ok_def list_all_iff dest: notin_set_remove1)
next
  case (stored h rt)
  have d: "distinct (map k (remove1 g fl)) \<and> (\<forall>x \<in> set (remove1 g fl). k x \<noteq> k g)"
    if "distinct (map k fl)" for k :: "gateway \<Rightarrow> string"
    using that g by (auto simp: distinct_map inj_on_def dest: notin_set_remove1)
  have get: "gw_get j (snd (apply_and_persist ap now g s)) = (if j = gw_id g then Some h else gw_get j s)" for j
    unfolding stored(1) by (simp add: gw_get_def update_conv')
  have "clear_of node (snd (apply_and_persist ap now g s)) x"
    if "clear_of node s x" "map to_ascii_lower (gw_name x) \<noteq> map to_ascii_lower (gw_name g)" for x
    using that stored(3) by (auto simp: clear_of_def get eq_ignore_ascii_case_def)
  moreover have "set (remove1 g fl) \<subseteq> set fl" by (rule set_remove1_subset)
  ultimately show ?thesis using f d [of "\<lambda>g. map to_ascii_lower (gw_name g)"]
    unfolding flights_ok_def list_all_iff by blast
qed

lemma gw_get_remove: "gw_get j (snd (gw_remove i s)) = (if j = i then None else gw_get j s)"
  by (simp add: gw_get_def gw_remove_def delete_conv')

lemma delete_ok:
  assumes "own_ok b node s" shows "own_ok b node (snd (gw_remove i s))"
proof (rule own_okI [OF assms])
  show "gw_wf (snd (gw_remove i s))"
    using assms gw_wf_drop [where k = i] by (fastforce simp: gw_remove_def own_ok_def gw_wf_def)
qed (auto simp: gw_get_remove split: if_splits)

lemma restart_ok:
  assumes "own_ok b node s" "mset gs = mset (snapshot_for_sync s)"
  shows "own_ok b node (gw_load (Some gs))"
proof -
  have wf: "gw_wf s" using assms(1) by (simp add: own_ok_def)
  have "mset (map gw_id gs) = mset (map gw_id (snapshot_for_sync s))" using assms(2) by simp
  then have d: "distinct (map gw_id gs)" using distinct_snapshot [OF wf] by (metis mset_eq_imp_distinct_iff)
  have "set gs = set (snapshot_for_sync s)" using assms(2) by (metis set_mset_mset)
  then have "gw_get i (gw_load (Some gs)) = Some g \<longleftrightarrow> gw_get i s = Some g" for i g
    by (simp add: gw_load_get [OF d] gw_get_iff [OF wf] find_key_iff [OF d])
  then show ?thesis by (intro own_okI [OF assms(1)] gw_load_get(2) [OF d]) auto
qed

lemma set_disabled_origin:
  "gw_get j (snd (set_disabled d now i s)) = Some h \<Longrightarrow>
   \<exists>h'. gw_get j s = Some h' \<and> gw_origin h' = gw_origin h \<and> gw_name h' = gw_name h"
  by (auto simp: set_disabled_def gw_get_def update_conv' Let_def split: option.splits if_splits)

lemma gw_reachable_ok: "gw_reachable ap node b s fl \<Longrightarrow> own_ok b node s \<and> flights_ok b node s fl"
proof (induction rule: gw_reachable.induct)
  case start
  show ?case by (simp add: own_ok_def flights_ok_def gw_load_def gw_wf_def gw_get_def)
next
  case (create s fl g uuid r)
  then show ?case using flights_ok_check by (simp add: own_ok_def)
next
  case (update s fl i s0 old g r)
  then show ?case using flights_ok_check by (simp add: own_ok_def)
next
  case (persist s fl g now)
  then have "validate_gateway g = Ok ()" "b \<Longrightarrow> clear_of node s g" by (auto simp: flights_ok_def list_all_iff)
  with persist flights_ok_persist show ?case by (simp add: apply_and_persist_ok)
next
  case (delete s fl i)
  have "flights_ok b node (snd (gw_remove i s)) fl"
    by (rule flights_ok_less) (use delete in \<open>auto simp: gw_get_remove split: if_splits\<close>)
  with delete show ?case by (simp add: delete_ok)
next
  case (toggle s fl d now i)
  have "flights_ok b node (snd (set_disabled d now i s)) fl"
    by (rule flights_ok_less) (use toggle in \<open>auto dest: set_disabled_origin\<close>)
  with toggle show ?case by (simp add: set_disabled_ok)
next
  case (runtime s fl rt)
  then show ?case by (simp add: flights_ok_def clear_of_def [abs_def])
next
  case (restart s fl gs)
  then have "own_ok b node (gw_load (Some gs))" by (intro restart_ok [of b node s]) simp_all
  then show ?case by (simp add: flights_ok_def)
next
  case (sync s fl incoming header)
  then have wf: "gw_wf s" by (simp add: own_ok_def)
  have "flights_ok b node (snd (gateways_sync node incoming header s)) fl"
    by (rule flights_ok_less [of b node s]) (use sync sync_own(2) [OF wf sync.hyps(2,3)] in blast)+
  moreover have "own_ok b node (snd (gateways_sync node incoming header s))"
    by (rule sync_ok) (use sync in blast)+
  ultimately show ?case by simp
qed

text \<open>
  C35 (gateways_own_shares_ok). However the checks and the stores of a node's requests interleave with each other, with
  deletions, toggles, restarts and snapshots from peers that are not ahead of it (none carries one of this node's shares
  in a version newer than the node's own, or one the node no longer has), the node's own shares all pass
  validation. If moreover no two requests that overlap ask for one name, case ignored, no two of its own shares have
  the same name. (Two creations that overlap can give two shares of one name: \<open>concurrent_creates_clash\<close>.)
\<close>

theorem gateways_own_shares_ok:
  assumes "gw_reachable ap node apart s fl" "gw_get i s = Some g" "gw_origin g = node"
  shows "validate_gateway g = Ok () \<and>
    (apart \<and> gw_get j s = Some h \<and> gw_origin h = node \<and> eq_ignore_ascii_case (gw_name g) (gw_name h) \<longrightarrow> i = j)"
  using gw_reachable_ok [OF assms(1)] assms(2,3) by (auto simp: own_ok_def)

text \<open>
  Two creations that overlap: two requests to create a share under one name on one node that are both checked before either is
  stored are both stored: the node then owns two shares of that name, which the check was
  to prevent.
\<close>

theorem concurrent_creates_clash:
  assumes "gw_reachable ap node False s fl"
    and "g1 = gateway_of_request u1 node [] False r1" "g2 = gateway_of_request u2 node [] False r2" "u1 \<noteq> u2"
    and "eq_ignore_ascii_case (cr_name r1) (cr_name r2)" "check_gateway g1 s = Ok ()" "check_gateway g2 s = Ok ()"
    and "ap g1 = Ok rt1" "ap g2 = Ok rt2"
    and "s' = snd (apply_and_persist ap now2 g2 (snd (apply_and_persist ap now1 g1 s)))"
  shows "gw_reachable ap node False s' fl \<and> (\<exists>h1 h2. gw_get u1 s' = Some h1 \<and> gw_get u2 s' = Some h2
    \<and> gw_origin h1 = node \<and> gw_origin h2 = node \<and> eq_ignore_ascii_case (gw_name h1) (gw_name h2))"
proof
  have "gw_reachable ap node False s (g2 # g1 # fl)"
    using assms(1-3,6,7) by (intro gw_reachable.create [OF gw_reachable.create]) auto
  from gw_reachable.persist [OF this, of g1] have "gw_reachable ap node False (snd (apply_and_persist ap now1 g1 s)) (g2 # fl)"
    using assms(2-4) by (simp add: gateway_of_request_def)
  from gw_reachable.persist [OF this, of g2] show "gw_reachable ap node False s' fl" by (simp add: assms(10))
  show "\<exists>h1 h2. gw_get u1 s' = Some h1 \<and> gw_get u2 s' = Some h2
    \<and> gw_origin h1 = node \<and> gw_origin h2 = node \<and> eq_ignore_ascii_case (gw_name h1) (gw_name h2)"
    unfolding assms(10) using assms(2-5,8,9)
    by (simp add: apply_and_persist_def gw_upsert_def gw_get_def gateway_of_request_def update_conv' Let_def)
qed

section \<open>A small cluster\<close>

definition gw_opts0 :: gateway_options where
  "gw_opts0 = \<lparr>go_readonly = False, go_guest_ok = False, go_time_machine = False, go_recycle_bin = False,
     go_smb_encrypt = EncAuto, go_nfs_extra_options = [], go_nfs_no_root_squash = False, go_allow_hosts = [],
     go_deny_hosts = [], go_case_sensitive = None, go_max_connections = None, go_smb_workgroup = ''WORKGROUP'',
     go_smb_wide_links = False\<rparr>"

definition req0 :: "string \<Rightarrow> create_request" where
  "req0 nm = \<lparr>cr_name = nm, cr_cluster = [], cr_mode = Single, cr_protocols = [SmbP, NfsP],
     cr_sources = [Local ''n1'' ''/srv/data''], cr_serve_nodes = [], cr_auth = Anonymous True, cr_options = gw_opts0\<rparr>"

definition apply0 :: "gateway \<Rightarrow> string + gateway_runtime" where
  "apply0 g = Ok \<lparr>rt_gateway_id = gw_id g, rt_node_id = gw_origin g, rt_serving = True, rt_healthy = True,
     rt_active_source_index = 0, rt_last_error = None, rt_last_health_check_unix = 0, rt_bytes_in = 0, rt_bytes_out = 0,
     rt_active_sessions = 0, rt_performance_tier = ''fast'', rt_mount_path = None\<rparr>"

definition node_a :: gateway_store where
  "node_a = snd (gateways_create apply0 ''a'' ''2026-01-01'' ''u1'' (req0 ''ops'') (gw_load None))"

definition node_b :: gateway_store where
  "node_b = snd (gateways_sync ''b'' (snapshot_for_sync node_a) (Some ''a'')
     (snd (gateways_create apply0 ''b'' ''2026-01-02'' ''u2'' (req0 ''media'') (gw_load None))))"

lemma empty_check: "check_gateway (gateway_of_request ''u1'' ''a'' [] False (req0 ''ops'')) (gw_load None) = Ok ()"
  "check_gateway (gateway_of_request ''u2'' ''a'' [] False (req0 ''OPS'')) (gw_load None) = Ok ()"
  by (code_simp)+

lemma node_a_reachable: "gw_reachable apply0 ''a'' True node_a []"
proof -
  let ?g = "gateway_of_request ''u1'' ''a'' [] False (req0 ''ops'')"
  have "gw_reachable apply0 ''a'' True (gw_load None) [?g]"
    by (rule gw_reachable.create [OF gw_reachable.start refl empty_check(1)]) simp
  from gw_reachable.persist [OF this, of ?g "''2026-01-01''"] empty_check(1) show ?thesis
    by (simp add: node_a_def gateways_create_def checked_apply_def)
qed

lemma node_ab_wf: "gw_wf node_a" "gw_wf node_b"
  by (code_simp)+

theorem gateways_own_shares_ok_witness:
  "map_option validate_gateway (gw_get ''u1'' node_a) = Some (Ok ()) \<and> map gw_name (snapshot_for_sync node_a) = [''ops'']"
proof
  obtain g where g: "gw_get ''u1'' node_a = Some g" "gw_origin g = ''a''"
  proof -
    have "map_option gw_origin (gw_get ''u1'' node_a) = Some ''a''" by code_simp
    with that show thesis by (cases "gw_get ''u1'' node_a") auto
  qed
  from gateways_own_shares_ok [OF node_a_reachable g] g(1)
  show "map_option validate_gateway (gw_get ''u1'' node_a) = Some (Ok ())" by simp
  show "map gw_name (snapshot_for_sync node_a) = [''ops'']" by code_simp
qed

theorem concurrent_creates_clash_witness:
  "\<exists>s' h1 h2. gw_reachable apply0 ''a'' False s' [] \<and> gw_get ''u1'' s' = Some h1 \<and> gw_get ''u2'' s' = Some h2
    \<and> gw_origin h1 = ''a'' \<and> gw_origin h2 = ''a'' \<and> eq_ignore_ascii_case (gw_name h1) (gw_name h2)"
proof -
  have "eq_ignore_ascii_case (cr_name (req0 ''ops'')) (cr_name (req0 ''OPS''))" by code_simp
  moreover obtain rt1 rt2 where "apply0 (gateway_of_request ''u1'' ''a'' [] False (req0 ''ops'')) = Ok rt1"
    "apply0 (gateway_of_request ''u2'' ''a'' [] False (req0 ''OPS'')) = Ok rt2" by (simp add: apply0_def)
  ultimately show ?thesis
    using concurrent_creates_clash [OF gw_reachable.start refl refl _ _ empty_check _ _ refl, of apply0] by blast
qed

theorem gateway_merge_outcome_witness:
  "gw_get ''u1'' (snd (merge_from_peer_owned_by [] (Some ''a'') node_b)) = None \<and>
   gw_get ''u2'' (snd (merge_from_peer_owned_by [] (Some ''a'') node_b)) = gw_get ''u2'' node_b \<and>
   fst (merge_from_peer_owned_by [] (Some ''a'') node_b)"
proof -
  let ?m = "merge_from_peer_owned_by [] (Some ''a'') node_b"
  have out: "gw_get i (snd ?m) = (case gw_get i node_b of
      Some g \<Rightarrow> if effective_sender (Some ''a'') = Some (gw_origin g) then None else Some g | None \<Rightarrow> None)"
    and ch: "fst ?m \<longleftrightarrow> (\<exists>i. gw_get i (snd ?m) \<noteq> gw_get i node_b)" for i
    using gateway_merge_outcome [OF node_ab_wf(2), of "[]" "Some ''a''" "fst ?m" "snd ?m"] by simp_all
  have e: "map_option gw_origin (gw_get ''u1'' node_b) = Some ''a''" "map_option gw_origin (gw_get ''u2'' node_b) = Some ''b''"
    "effective_sender (Some ''a'') = Some ''a''" by (code_simp)+
  then have "gw_get ''u1'' (snd ?m) = None" "gw_get ''u1'' node_b \<noteq> None" "gw_get ''u2'' (snd ?m) = gw_get ''u2'' node_b"
    using out [of "''u1''"] out [of "''u2''"] by auto
  with ch show ?thesis by metis
qed

theorem gateway_sync_converges_witness:
  "\<exists>s'. s' = push_all ''c'' [(snapshot_for_sync node_b, ''b'')]
       (snd (gateways_sync ''c'' (snapshot_for_sync node_a) (Some ''a'') (gw_load None)))
     \<and> map_option gw_name (gw_get ''u1'' s') = Some ''ops'' \<and> map_option gw_origin (gw_get ''u2'' s') = Some ''b''"
proof -
  let ?s = "push_all ''c'' [(snapshot_for_sync node_b, ''b'')]
    (snd (gateways_sync ''c'' (snapshot_for_sync node_a) (Some ''a'') (gw_load None)))"
  have b: "benign_push ''a'' node_a (snapshot_for_sync node_b, ''b'')" by code_simp
  have c: "gw_wf (gw_load None)" "trim ''a'' = ''a''" "list_all (known_by ''a'' node_a) (snapshot_for_sync (gw_load None))"
    by (code_simp)+
  have a: "map_option (\<lambda>g. (gw_name g, gw_origin g)) (gw_get ''u1'' node_a) = Some (''ops'', ''a'')" by code_simp
  then obtain g where g: "gw_get ''u1'' node_a = Some g" "gw_name g = ''ops''" "gw_origin g = ''a''" by auto
  have "gw_get ''u1'' ?s = Some g"
    using gateway_sync_converges [OF c(1) node_ab_wf(1) c(2) _ _ c(3) _ refl,
        of "''c''" "[(snapshot_for_sync node_b, ''b'')]" "''u1''" g] b g by simp
  moreover have "map_option gw_origin (gw_get ''u2'' ?s) = Some ''b''" by code_simp
  ultimately show ?thesis using g by auto
qed

section \<open>Deleted shares come back\<close>

lemma gateways_create_Ok:
  assumes "gw_wf s" "gateways_create ap node now uuid r s = (GwOk h, s')"
  shows "gw_wf s'" "gw_get j s' = (if j = uuid then Some h else gw_get j s)"
    "gw_origin h = node" "gw_name h = cr_name r"
proof -
  let ?g = "gateway_of_request uuid node [] False r"
  have u: "gw_upsert now ?g s = (h, snd (gw_upsert now ?g s))" "s' = snd (gw_upsert now ?g s)\<lparr>gw_runtime := gw_runtime s'\<rparr>"
    using assms(2) by (auto simp: gateways_create_def checked_apply_def check_gateway_def apply_and_persist_def
        gateway_of_request_def gw_upsert_def Let_def split: sum.splits if_splits)
  have h: "gw_id h = uuid" and o: "gw_origin h = node" "gw_name h = cr_name r"
    and s: "snd (gw_upsert now ?g s) = s\<lparr>gw_map := AList.update uuid h (gw_map s)\<rparr>"
    using u(1) by (auto simp: gw_upsert_def gateway_of_request_def Let_def)
  show "gw_wf s'" "gw_get j s' = (if j = uuid then Some h else gw_get j s)"
    using gw_wf_put [OF assms(1) h] by (subst u(2), simp add: s gw_get_def update_conv')+
  show "gw_origin h = node" "gw_name h = cr_name r" by fact+
qed

text \<open>
  A deleted share returns: a node deletes one of its shares and creates another under the same
  name; a snapshot from a peer that still has the deleted share, sent before that peer heard of the
  deletion, brings it back on the node that deleted it, and the node now owns two shares of one name.
\<close>

theorem deleted_share_returns:
  assumes "gw_wf s" "gw_get i s = Some g" "gw_origin g = node"
    and "gw_wf p" "gw_get i p = Some g" "gw_get uuid p = None" "uuid \<noteq> i"
    and "gateways_create ap node now uuid r (snd (gateways_delete node i s)) = (GwOk h, s1)" "cr_name r = gw_name g"
    and "s2 = snd (gateways_sync node (snapshot_for_sync p) (Some peer) s1)" "trim peer \<noteq> node"
  shows "gw_get i s1 = None \<and> gw_get i s2 = Some g \<and> gw_get uuid s2 = Some h \<and>
         gw_origin h = gw_origin g \<and> gw_name h = gw_name g \<and> \<not> own_ok True node s2"
proof -
  let ?s0 = "snd (gateways_delete node i s)"
  have s0: "?s0 = snd (gw_remove i s)"
    using assms(2,3) by (auto simp: gateways_delete_def require_owner_def split: option.splits prod.splits)
  have wf0: "gw_wf ?s0" unfolding s0 using assms(1) gw_wf_drop [where k = i]
    by (fastforce simp: gw_remove_def gw_wf_def)
  note c = gateways_create_Ok [OF wf0 assms(8)]
  have i1: "gw_get i s1 = None" using c(2) [of i] assms(7) by (simp add: s0 gw_get_remove)
  define sender where "sender = (if trim peer \<noteq> [] then Some (trim peer) else None)"
  obtain ch where m: "merge_from_peer_owned_by (snapshot_for_sync p) sender s1 = (ch, s2)"
    using assms(10,11) by (cases "merge_from_peer_owned_by (snapshot_for_sync p) sender s1")
      (auto simp: gateways_sync_def sender_def split: if_splits)
  have eff: "effective_sender sender \<noteq> Some node"
    using assms(11) by (auto simp: effective_sender_def sender_def trim_idem split: if_splits)
  have find: "find (\<lambda>g. gw_id g = j) (snapshot_for_sync p) = gw_get j p" for j
    by (rule option_eqI) (simp add: find_key_iff [OF distinct_snapshot [OF assms(4)]] gw_get_iff [OF assms(4)])
  note get = merge_get [OF c(1) distinct_snapshot [OF assms(4)] m]
  have g2: "gw_get i s2 = Some g" using get [of i] i1 assms(5) by (simp add: find newer_def)
  have h2: "gw_get uuid s2 = Some h" using get [of uuid] c(2) [of uuid] c(3) assms(6) eff by (simp add: find)
  have "\<not> own_ok True node s2"
  proof
    assume "own_ok True node s2"
    with g2 h2 assms(3,9) c(3,4) have "i = uuid" unfolding own_ok_def eq_ignore_ascii_case_def by metis
    with assms(7) show False by simp
  qed
  with i1 g2 h2 assms(3,9) c(3,4) show ?thesis by simp
qed

theorem deleted_share_returns_witness:
  "\<not> own_ok True ''a'' (snd (gateways_sync ''a'' (snapshot_for_sync node_b) (Some ''b'')
     (snd (gateways_create apply0 ''a'' ''2026-01-03'' ''u3'' (req0 ''ops'') (snd (gateways_delete ''a'' ''u1'' node_a))))))"
proof -
  define g where "g = the (gw_get ''u1'' node_a)"
  define c where "c = gateways_create apply0 ''a'' ''2026-01-03'' ''u3'' (req0 ''ops'') (snd (gateways_delete ''a'' ''u1'' node_a))"
  have a: "gw_get ''u1'' node_a = Some g" "gw_origin g = ''a''" "gw_get ''u1'' node_b = Some g" "gw_get ''u3'' node_b = None"
    "cr_name (req0 ''ops'') = gw_name g" "trim ''b'' \<noteq> ''a''"
    unfolding g_def by (code_simp)+
  have "case fst c of GwOk _ \<Rightarrow> True | _ \<Rightarrow> False" unfolding c_def by code_simp
  then obtain h where "c = (GwOk h, snd c)" by (cases c; cases "fst c") auto
  with deleted_share_returns [OF node_ab_wf(1) a(1,2) node_ab_wf(2) a(3,4) _ _ a(5) refl a(6), of apply0 "''2026-01-03''" h "snd c"]
  show ?thesis unfolding c_def by simp
qed

end
