(* ===== verification/Gateway_Files.thy ===== *)
theory Gateway_Files
  imports Gateway_Merge
begin

text \<open>
  The files the gateway generates: what an NFS export file looks like, that the code reading it back
  finds the exported path, and where the generated Samba text departs from what was asked.
\<close>

section \<open>Reading text back\<close>

lemma dropWhile_hd: "s \<noteq> [] \<Longrightarrow> \<not> p (hd s) \<Longrightarrow> dropWhile p s = s"
  by (cases s) simp_all

lemma trim_id: "s \<noteq> [] \<Longrightarrow> \<not> is_ws (hd s) \<Longrightarrow> \<not> is_ws (last s) \<Longrightarrow> trim s = s"
  by (simp add: trim_def dropWhile_hd hd_rev)

lemma split_whitespace_append:
  "w \<noteq> [] \<Longrightarrow> list_all (\<lambda>c. \<not> is_ws c) w \<Longrightarrow> is_ws c \<Longrightarrow> split_whitespace (w @ c # r) = w # split_whitespace r"
  by (simp add: split_whitespace_def split_by_append)

text \<open>Characters that stay inside a word and inside a line.\<close>

lemma is_ws_space [simp]: "is_ws (CHR '' '')" "\<not> is_ws (CHR ''/'')" "\<not> is_ws (CHR '')'')" "\<not> is_ws (CHR ''#'')"
  by (simp_all add: is_ws_def)

lemma name_char_safe: "is_name_char c \<Longrightarrow> \<not> is_ws c \<and> c \<noteq> CHR 0x0A \<and> c \<noteq> CHR 0x0D"
  by (auto simp: is_name_char_def is_ascii_alphanumeric_def is_ascii_digit_def is_ascii_lower_def is_ascii_upper_def is_ws_def)

lemma option_char_safe: "is_export_option_char c \<Longrightarrow> c \<noteq> CHR 0x0A \<and> c \<noteq> CHR 0x0D"
  by (auto simp: is_export_option_char_def is_ascii_alphanumeric_def is_ascii_digit_def is_ascii_lower_def is_ascii_upper_def)

lemma list_all_name_clean: "list_all is_name_char s \<Longrightarrow> clean s"
  by (auto simp: clean_def list_all_iff nl_def dest: name_char_safe)

lemma list_all_option_clean: "list_all is_export_option_char s \<Longrightarrow> clean s"
  by (auto simp: clean_def list_all_iff nl_def dest: option_char_safe)

lemma sanitise_name_chars: "list_all is_name_char (sanitise s)"
  by (auto simp: sanitise_def list_all_iff is_name_char_def)

lemma sanitise_id: "list_all is_name_char s \<Longrightarrow> sanitise s = s"
  by (simp add: sanitise_def list_all_iff map_idI)

text \<open>What a validated share guarantees of the texts that reach the files.\<close>

lemma validated:
  assumes "validate_gateway g = Ok ()"
  shows "list_all is_name_char (gw_name g)" "list_all is_export_option_char (trim (go_nfs_extra_options (gw_options g)))"
  using assms
  by (auto simp: validate_gateway_def Let_def error_if_def extra_option_errors_def split: if_splits)

lemma friendly_path_word: "list_all (\<lambda>c. \<not> is_ws c) (friendly_export_path g)"
  using sanitise_name_chars [of "gw_name g"]
  by (auto simp: friendly_export_path_def EXPORTS_ROOT_def is_ws_def list_all_iff dest!: bspec name_char_safe)

lemma friendly_path_clean [simp]: "clean (friendly_export_path g)"
  using list_all_name_clean [OF sanitise_name_chars, of "gw_name g"] by (simp add: friendly_export_path_def EXPORTS_ROOT_def)

lemma list_all_join: "list_all (list_all P) xs \<Longrightarrow> list_all P sep \<Longrightarrow> list_all P (join sep xs)"
  by (induction xs rule: induct_list012) simp_all

lemma export_options_chars:
  assumes "validate_gateway g = Ok ()" "list_all is_export_option_char (fsid (gw_id g))"
  shows "list_all is_export_option_char (join '','' (export_options fsid g))"
  using validated(2) [OF assms(1)] assms(2)
  by (intro list_all_join)
    (auto simp: export_options_def Let_def is_export_option_char_def is_ascii_alphanumeric_def rust_eval)

lemma lines_nfs_render:
  assumes "validate_gateway g = Ok ()" "clean (gw_id g)" "list_all is_export_option_char (fsid (gw_id g))"
    "list_all clean (go_allow_hosts (gw_options g))" "clean path"
  shows "lines (nfs_render fsid g path) = export_lines fsid g path"
  unfolding nfs_render_def
proof (rule lines_unlines)
  have "list_all clean (nfs_clients g)" using assms(4) by (simp add: nfs_clients_def)
  then show "list_all clean (export_lines fsid g path)"
    using assms list_all_name_clean [OF validated(1) [OF assms(1)]] list_all_option_clean [OF export_options_chars [where fsid = fsid, OF assms(1,3)]]
    by (auto simp: export_lines_def list_all_iff)
qed

lemma export_option_words:
  assumes "trim (go_nfs_extra_options (gw_options g)) = []" "CHR '','' \<notin> set (fsid (gw_id g))"
  shows "split_char (CHR '','') (join '','' (export_options fsid g)) = export_options fsid g"
  using assms by (intro split_char_join) (auto simp: export_options_def Let_def)

text \<open>
  C29 (nfs_export_shape). For a validated share whose client list (which validation does not look at) has no line breaks, the
  export file is a comment and one line per client, all for the published path; the options of a line are made
  of the permitted characters only, so that they can close neither the parenthesis nor the line, and they
  start with \<^verbatim>\<open>rw\<close> when the share is anonymous-writable and not read-only and with \<^verbatim>\<open>ro\<close> otherwise. When the operator gave no extra
  options, the other of the two does not occur among the options at all; extra options come last, and nothing keeps them from
  containing it. (The identifier is one line, and the file system id made from it has permitted characters and no comma.)
\<close>

theorem nfs_export_shape:
  assumes "validate_gateway g = Ok ()" "clean (gw_id g)" "list_all is_export_option_char (fsid (gw_id g))"
    "list_all clean (go_allow_hosts (gw_options g))" "CHR '','' \<notin> set (fsid (gw_id g))"
    and "writable = (gw_auth g = Anonymous True \<and> \<not> go_readonly (gw_options g))"
  shows "\<exists>opts. lines (nfs_render fsid g (friendly_export_path g)) =
       (''# WolfStack gateway: '' @ gw_name g @ '' ('' @ gw_id g @ '')'') #
       map (\<lambda>c. ''/exports/'' @ gw_name g @ '' '' @ c @ ''('' @ opts @ '')'') (nfs_clients g) \<and>
     list_all is_export_option_char opts \<and> starts_with (if writable then ''rw,'' else ''ro,'') opts \<and>
     (trim (go_nfs_extra_options (gw_options g)) = [] \<longrightarrow>
        (''rw'' \<in> set (split_char (CHR '','') opts) \<longleftrightarrow> writable) \<and> (''ro'' \<in> set (split_char (CHR '','') opts) \<longleftrightarrow> \<not> writable))"
proof (intro exI conjI impI)
  show "lines (nfs_render fsid g (friendly_export_path g)) =
       (''# WolfStack gateway: '' @ gw_name g @ '' ('' @ gw_id g @ '')'') #
       map (\<lambda>c. ''/exports/'' @ gw_name g @ '' '' @ c @ ''('' @ join '','' (export_options fsid g) @ '')'') (nfs_clients g)"
    unfolding lines_nfs_render [where fsid = fsid, OF assms(1-4) friendly_path_clean]
    by (simp add: export_lines_def friendly_export_path_def EXPORTS_ROOT_def sanitise_id [OF validated(1) [OF assms(1)]])
  show "list_all is_export_option_char (join '','' (export_options fsid g))"
    using assms by (intro export_options_chars)
  show "starts_with (if writable then ''rw,'' else ''ro,'') (join '','' (export_options fsid g))"
    using assms(6) by (simp add: export_options_def Let_def starts_with_def)
  assume e: "trim (go_nfs_extra_options (gw_options g)) = []"
  show "''rw'' \<in> set (split_char (CHR '','') (join '','' (export_options fsid g))) \<longleftrightarrow> writable"
    "''ro'' \<in> set (split_char (CHR '','') (join '','' (export_options fsid g))) \<longleftrightarrow> \<not> writable"
    unfolding export_option_words [where fsid = fsid, OF e assms(5)] using e assms(5,6)
    by (auto simp: export_options_def Let_def)
qed

text \<open>
  Export path round trip: from the export file of a validated share, the cleanup code reads back
  exactly the path the share was published at, so the bind mount it drops is that share's own.
\<close>

theorem exported_path_roundtrip:
  assumes "validate_gateway g = Ok ()" "clean (gw_id g)" "list_all is_export_option_char (fsid (gw_id g))"
    "list_all clean (go_allow_hosts (gw_options g))"
  shows "cleanup_friendly_bind (Some (nfs_render fsid g (friendly_export_path g))) = Some (friendly_export_path g)"
proof -
  let ?p = "friendly_export_path g" and ?o = "join '','' (export_options fsid g)"
  obtain c cs where c: "nfs_clients g = c # cs" by (cases "nfs_clients g") (auto simp: nfs_clients_def split: if_splits)
  let ?l = "?p @ '' '' @ c @ ''('' @ ?o @ '')''"
  have p: "?p \<noteq> []" "hd ?p = CHR ''/''" by (simp_all add: friendly_export_path_def EXPORTS_ROOT_def)
  have "trim ?l = ?l" using p by (intro trim_id) (auto simp: hd_append)
  moreover have "trim (''# WolfStack gateway: '' @ gw_name g @ '' ('' @ gw_id g @ '')'') = ''# WolfStack gateway: '' @ gw_name g @ '' ('' @ gw_id g @ '')''"
    by (intro trim_id) auto
  moreover have "\<not> starts_with ''#'' ?l" using p by (cases ?p) (auto simp: starts_with_def)
  ultimately have "find (\<lambda>l. l \<noteq> [] \<and> \<not> starts_with ''#'' l) (map trim (lines (nfs_render fsid g ?p))) = Some ?l"
    unfolding lines_nfs_render [where fsid = fsid, OF assms friendly_path_clean]
    by (simp add: export_lines_def c starts_with_def)
  moreover have "split_whitespace ?l = ?p # split_whitespace (c @ ''('' @ ?o @ '')'')"
    using split_whitespace_append [OF p(1) friendly_path_word, of "CHR '' ''"] by simp
  ultimately have "exported_path_in (nfs_render fsid g ?p) = Some ?p" by (simp add: exported_path_in_def)
  then show ?thesis
    by (simp add: cleanup_friendly_bind_def friendly_export_path_def EXPORTS_ROOT_def EXPORTS_PREFIX_def starts_with_def)
qed

definition share0 :: gateway where
  "share0 = gateway_of_request ''u1'' ''a'' [] False (req0 ''ops'')"

lemma share0_ok:
  "validate_gateway share0 = Ok ()" "clean (gw_id share0)" "list_all is_export_option_char ''00-11''"
  "list_all clean (go_allow_hosts (gw_options share0))"
  by (code_simp)+

theorem nfs_export_shape_witness:
  "\<exists>opts. lines (nfs_render (\<lambda>_. ''00-11'') share0 (friendly_export_path share0)) =
     [''# WolfStack gateway: ops (u1)'', ''/exports/ops *('' @ opts @ '')''] \<and> starts_with ''rw,'' opts"
proof -
  have e: "gw_name share0 = ''ops''" "gw_id share0 = ''u1''" "nfs_clients share0 = [''*'']"
    "gw_auth share0 = Anonymous True" "\<not> go_readonly (gw_options share0)" by (code_simp)+
  show ?thesis using nfs_export_shape [where fsid = "\<lambda>_. ''00-11''", OF share0_ok _ refl] by (auto simp: e)
qed

theorem exported_path_roundtrip_witness:
  "cleanup_friendly_bind (Some (nfs_render (\<lambda>_. ''00-11'') share0 (friendly_export_path share0))) = Some ''/exports/ops''"
proof -
  have "friendly_export_path share0 = ''/exports/ops''" by code_simp
  with exported_path_roundtrip [where fsid = "\<lambda>_. ''00-11''", OF share0_ok] show ?thesis by simp
qed

text \<open>
  C36 (client list): validation does not look at the client list, so any share stays valid with a
  client entry that contains a line break; the text after the break becomes an export line of its
  own, for whatever directory it names.
\<close>

theorem nfs_client_injects_export:
  assumes "validate_gateway g = Ok ()" "clean (gw_id g)" "list_all is_export_option_char (fsid (gw_id g))"
    and "clean host" "clean evil" "clean path"
    and "g' = g\<lparr>gw_options := (gw_options g)\<lparr>go_allow_hosts := [host @ nl # evil]\<rparr>\<rparr>"
  shows "validate_gateway g' = Ok () \<and>
         (\<exists>opts. evil @ ''('' @ opts @ '')'' \<in> set (lines (nfs_render fsid g' path)))"
proof
  show v: "validate_gateway g' = Ok ()"
    using assms(1) unfolding assms(7)
    by (simp add: validate_gateway_def mode_errors_def source_errors_def extra_option_errors_def auth_errors_def Let_def
        cong: gateway_mode.case_cong auth_config.case_cong)
  let ?o = "join '','' (export_options fsid g')"
  have "nfs_render fsid g' path = unlines [''# WolfStack gateway: '' @ gw_name g @ '' ('' @ gw_id g @ '')'',
      path @ '' '' @ host, evil @ ''('' @ ?o @ '')'']"
    by (simp add: nfs_render_def export_lines_def nfs_clients_def unlines_def assms(7))
  moreover have "clean ?o"
    using assms(3) by (intro list_all_option_clean export_options_chars v) (simp add: assms(7))
  ultimately have "lines (nfs_render fsid g' path) = [''# WolfStack gateway: '' @ gw_name g @ '' ('' @ gw_id g @ '')'',
      path @ '' '' @ host, evil @ ''('' @ ?o @ '')'']"
    using assms(2,4-6) list_all_name_clean [OF validated(1) [OF assms(1)]] by (simp add: lines_unlines)
  then show "\<exists>opts. evil @ ''('' @ opts @ '')'' \<in> set (lines (nfs_render fsid g' path))" by auto
qed

theorem nfs_client_injects_export_witness:
  "\<exists>g opts. validate_gateway g = Ok () \<and> ''/etc *('' @ opts @ '')'' \<in> set (lines (nfs_render (\<lambda>_. ''00-11'') g ''/exports/ops''))"
proof -
  have "clean ''10.0.0.1(ro)''" "clean ''/etc *''" "clean ''/exports/ops''" by (code_simp)+
  from nfs_client_injects_export [where fsid = "\<lambda>_. ''00-11''", OF share0_ok(1-3) this refl]
  show ?thesis by (auto intro!: exI)
qed

section \<open>Samba\<close>

text \<open>
  Read-only share: a read-only share with named users still gives every user marked writable a
  place in \<^verbatim>\<open>write list\<close>, which Samba applies whatever \<^verbatim>\<open>read only\<close> says.
\<close>

theorem readonly_share_write_list:
  assumes "gw_auth g = Users users dw" "go_readonly (gw_options g)" "u \<in> set users" "ug_writable u"
  shows "''    read only = yes'' \<in> set (snippet_lines g path) \<and> ''    writable = no'' \<in> set (snippet_lines g path) \<and>
    (\<exists>ws. ug_username u \<in> set ws \<and> ''    write list = '' @ join '' '' ws \<in> set (snippet_lines g path))"
proof -
  let ?ws = "map ug_username (filter ug_writable users)"
  have "?ws \<noteq> []" using assms(3,4) by (auto simp: filter_empty_conv)
  then have "''    write list = '' @ join '' '' ?ws \<in> set (auth_lines g)" "''    writable = no'' \<in> set (auth_lines g)"
    using assms(1,2) by (auto simp: auth_lines_def Let_def yesno_def)
  moreover have "ug_username u \<in> set ?ws" using assms(3,4) by auto
  moreover have "set (auth_lines g) \<subseteq> set (snippet_lines g path)" by (auto simp: snippet_lines_def Let_def)
  moreover have "''    read only = yes'' \<in> set (snippet_lines g path)"
    using assms(2) by (simp add: snippet_lines_def Let_def yesno_def)
  ultimately show ?thesis by blast
qed

theorem readonly_share_write_list_witness:
  "\<exists>ws. ''alice'' \<in> set ws \<and> ''    write list = '' @ join '' '' ws \<in>
     set (snippet_lines (share0\<lparr>gw_auth := Users [\<lparr>ug_username = ''alice'', ug_writable = True\<rparr>] False,
       gw_options := gw_opts0\<lparr>go_readonly := True\<rparr>\<rparr>) ''/srv'')"
  using readonly_share_write_list [of "share0\<lparr>gw_auth := Users [\<lparr>ug_username = ''alice'', ug_writable = True\<rparr>] False,
       gw_options := gw_opts0\<lparr>go_readonly := True\<rparr>\<rparr>" "[\<lparr>ug_username = ''alice'', ug_writable = True\<rparr>]" False
       "\<lparr>ug_username = ''alice'', ug_writable = True\<rparr>" "''/srv''"] by simp

text \<open>Replacing a whole line of a generated text.\<close>

lemma suffix_match:
  assumes "clean l" "clean pl"
  shows "starts_with (pl @ [nl]) (l @ nl # rest) \<longleftrightarrow> l = pl"
proof
  assume "starts_with (pl @ [nl]) (l @ nl # rest)"
  then obtain t where "l @ nl # rest = pl @ nl # t" by (auto simp: starts_with_iff)
  moreover have "nl \<notin> set l" "nl \<notin> set pl" using assms by (auto simp: clean_def list_all_iff)
  ultimately show "l = pl" by (metis split_once_append option.inject prod.inject)
qed (simp add: starts_with_iff)

lemma str_replace_line:
  assumes "clean l" "clean pl" "\<And>a. l = a @ pl \<Longrightarrow> a = []"
  shows "str_replace (pl @ [nl]) (rl @ [nl]) (l @ nl # rest) =
         (if l = pl then rl else l) @ nl # str_replace (pl @ [nl]) (rl @ [nl]) rest"
proof (cases "l = pl")
  case True
  then show ?thesis by (subst str_replace.simps) (simp add: starts_with_iff)
next
  case False
  have "str_replace (pl @ [nl]) (rl @ [nl]) (b @ nl # rest) = b @ nl # str_replace (pl @ [nl]) (rl @ [nl]) rest"
    if "l = a @ b" for a b
    using that
  proof (induction b arbitrary: a)
    case Nil
    have "\<not> starts_with (pl @ [nl]) ([] @ nl # rest)"
      using suffix_match [of "[]" pl rest] assms(2,3) Nil False by auto
    then show ?case by (subst str_replace.simps) simp
  next
    case (Cons x b)
    have "\<not> starts_with (pl @ [nl]) ((x # b) @ nl # rest)"
      using suffix_match [of "x # b" pl rest] assms Cons.prems False by auto
    with Cons.IH [of "a @ [x]"] Cons.prems show ?case by (subst str_replace.simps) simp
  qed
  from this [of "[]" l] False show ?thesis by simp
qed

lemma unlines_Cons: "unlines (l # ls) = l @ nl # unlines ls" and unlines_Nil: "unlines [] = []"
  by (simp_all add: unlines_def)

lemma str_replace_unlines:
  assumes "clean pl" "\<And>l. l \<in> set ls \<Longrightarrow> clean l \<and> (\<forall>a. l = a @ pl \<longrightarrow> a = [])"
  shows "str_replace (pl @ [nl]) (rl @ [nl]) (unlines ls) = unlines (map (\<lambda>l. if l = pl then rl else l) ls)"
  using assms(2)
proof (induction ls)
  case Nil
  show ?case by (subst str_replace.simps) (simp add: unlines_def)
next
  case (Cons l ls)
  have "str_replace (pl @ [nl]) (rl @ [nl]) (l @ nl # unlines ls) =
      (if l = pl then rl else l) @ nl # str_replace (pl @ [nl]) (rl @ [nl]) (unlines ls)"
    using Cons.prems [of l] assms(1) by (intro str_replace_line) auto
  moreover have "str_replace (pl @ [nl]) (rl @ [nl]) (unlines ls) = unlines (map (\<lambda>l. if l = pl then rl else l) ls)"
    using Cons.prems by (intro Cons.IH) auto
  ultimately show ?case by (simp add: unlines_Cons)
qed

definition ENC_AUTO :: string where "ENC_AUTO = ''    smb encrypt = auto''"

text \<open>Lines that the replacement of the encryption line leaves alone or replaces as a whole.\<close>

definition enc_safe :: "string \<Rightarrow> bool" where
  "enc_safe l = (clean l \<and> (l = ENC_AUTO \<or> length l < length ENC_AUTO \<or> drop (length l - length ENC_AUTO) l \<noteq> ENC_AUTO))"

lemma enc_safeD: "enc_safe l \<Longrightarrow> clean l \<and> (\<forall>a. l = a @ ENC_AUTO \<longrightarrow> a = [])"
  by (auto simp: enc_safe_def)

lemma workgroup_enc_safe: "list_all is_name_char w \<Longrightarrow> enc_safe (''    workgroup = '' @ w)"
proof -
  assume w: "list_all is_name_char w"
  have "length w = 4" if l: "''    workgroup = '' @ w = a @ ENC_AUTO" for a
  proof -
    have "CHR '' '' \<notin> set w" using w name_char_safe [of "CHR '' ''"] by (auto simp: list_all_iff)
    then have "x \<noteq> CHR '' ''" if "x \<in> set (rev w)" for x using that by auto
    from takeWhile_append2 [of "rev w" "\<lambda>c. c \<noteq> CHR '' ''", OF this]
    have "takeWhile (\<lambda>c. c \<noteq> CHR '' '') (rev w @ rev ''    workgroup = '') = rev w" by simp
    moreover have "takeWhile (\<lambda>c. c \<noteq> CHR '' '') (rev ENC_AUTO @ rev a) = ''otua''" by (simp add: ENC_AUTO_def)
    ultimately have "rev w = ''otua''" using arg_cong [OF l, of rev] by simp
    from arg_cong [OF this, of length] show ?thesis by simp
  qed
  then have "''    workgroup = '' @ w \<noteq> a @ ENC_AUTO" for a
  proof -
    have "length (''    workgroup = '' @ w) < length (a @ ENC_AUTO)" if "length w = 4"
      using that by (simp add: ENC_AUTO_def)
    with \<open>\<And>a. ''    workgroup = '' @ w = a @ ENC_AUTO \<Longrightarrow> length w = 4\<close> show ?thesis by (metis less_irrefl)
  qed
  moreover have "clean (''    workgroup = '' @ w)" using list_all_name_clean [OF w] by simp
  ultimately show ?thesis unfolding enc_safe_def by (metis append_take_drop_id)
qed

lemma global_lines_enc_safe: "list_all is_name_char w \<Longrightarrow> list_all enc_safe (global_lines w)"
proof -
  assume w: "list_all is_name_char w"
  have "list_all enc_safe (take 4 (global_lines [])) \<and> list_all enc_safe (drop 5 (global_lines []))" by code_simp
  with workgroup_enc_safe [OF w] show ?thesis by (simp add: global_lines_def)
qed

lemma max_encrypt_required:
  "g \<in> set gs \<Longrightarrow> SmbP \<in> set (gw_protocols g) \<Longrightarrow> go_smb_encrypt (gw_options g) = EncRequired \<Longrightarrow>
   max_encrypt best gs = EncRequired"
  by (induction best gs rule: max_encrypt.induct) (auto split: smb_encrypt.splits)

lemma splice_unlines: "[] \<notin> set Ls \<Longrightarrow> splice_snippets (map unlines Ls) = unlines (concat Ls)"
proof (induction Ls)
  case (Cons ls Ls)
  then have "unlines ls \<noteq> [] \<and> last (unlines ls) = nl" by (cases ls rule: rev_cases) (auto simp: unlines_def)
  with Cons show ?case by (simp add: splice_snippets_def unlines_append)
qed (simp add: splice_snippets_def unlines_def)

text \<open>
  Encryption after a restart: while some Samba share requires encryption, the configuration
  written after a change demands it, and the configuration written when the node starts does not,
  although the two are meant to have the same content.
\<close>

theorem reconcile_drops_encryption:
  assumes "g \<in> set (snapshot_for_sync store)" "SmbP \<in> set (gw_protocols g)" "go_smb_encrypt (gw_options g) = EncRequired"
    and "list_all is_name_char (unwrap_or ''WORKGROUP'' (persisted_workgroup store))"
    and "[] \<notin> set Ls" "\<And>l. l \<in> set (concat Ls) \<Longrightarrow> enc_safe l"
  shows "''    smb encrypt = required'' \<in> set (lines (rebuild_aggregator None store (map unlines Ls))) \<and>
    ''    smb encrypt = auto'' \<notin> set (lines (rebuild_aggregator None store (map unlines Ls))) \<and>
    ''    smb encrypt = auto'' \<in> set (lines (rebuild_aggregator_for_reconcile store (map unlines Ls)))"
proof -
  let ?w = "unwrap_or ''WORKGROUP'' (persisted_workgroup store)" and ?r = "''    smb encrypt = required''"
  let ?t = "(if any_smb_wide_links None store then [''    unix extensions = no''] else []) @ [[]] @ concat Ls"
  let ?f = "\<lambda>l. if l = ENC_AUTO then ?r else l"
  have enc: "max_smb_encrypt store = EncRequired"
    using assms(1-3) by (simp add: max_smb_encrypt_def max_encrypt_required flip: snapshot_for_sync_def)
  have "enc_safe ''    unix extensions = no''" "enc_safe []" "clean ?r" by (code_simp)+
  then have safe: "list_all enc_safe (global_lines ?w @ ?t)" "list_all enc_safe (global_lines ?w @ [[]] @ concat Ls)"
    using global_lines_enc_safe [OF assms(4)] assms(6) by (auto simp: list_all_iff)
  have "rebuild_aggregator None store (map unlines Ls) = str_replace (ENC_AUTO @ [nl]) (?r @ [nl]) (unlines (global_lines ?w @ ?t))"
    using assms(4,5) by (simp add: rebuild_aggregator_def render_aggregator_def with_global_smb_encrypt_def enc encrypt_value_def
        ENC_AUTO_def splice_unlines unlines_append unlines_Cons unlines_Nil sanitise_id)
  also have "\<dots> = unlines (map ?f (global_lines ?w @ ?t))"
    using safe(1) enc_safeD by (intro str_replace_unlines) (simp add: ENC_AUTO_def, unfold list_all_iff, blast)
  finally have "rebuild_aggregator None store (map unlines Ls) = unlines (map ?f (global_lines ?w @ ?t))" .
  moreover have "list_all clean (map ?f (global_lines ?w @ ?t))"
    using safe(1) \<open>clean ?r\<close> unfolding list_all_iff by (auto simp: enc_safe_def simp del: clean_simps)
  ultimately have "lines (rebuild_aggregator None store (map unlines Ls)) = map ?f (global_lines ?w @ ?t)"
    by (simp only: lines_unlines)
  moreover have "ENC_AUTO \<in> set (global_lines ?w)" by (simp add: global_lines_def ENC_AUTO_def)
  moreover have "lines (rebuild_aggregator_for_reconcile store (map unlines Ls)) = global_lines ?w @ [[]] @ concat Ls"
  proof -
    have "rebuild_aggregator_for_reconcile store (map unlines Ls) = unlines (global_lines ?w @ [[]] @ concat Ls)"
      using assms(5) by (simp add: rebuild_aggregator_for_reconcile_def splice_unlines unlines_append unlines_Cons unlines_Nil)
    moreover have "list_all clean (global_lines ?w @ [[]] @ concat Ls)"
      using safe(2) by (rule list.pred_mono_strong) (simp add: enc_safe_def)
    ultimately show ?thesis by (simp only: lines_unlines)
  qed
  moreover have "?r \<noteq> ENC_AUTO" by (simp add: ENC_AUTO_def)
  ultimately show ?thesis unfolding ENC_AUTO_def [symmetric] by (auto simp: image_iff)
qed

definition share_enc :: gateway where
  "share_enc = share0\<lparr>gw_options := gw_opts0\<lparr>go_smb_encrypt := EncRequired\<rparr>\<rparr>"

definition store_enc :: gateway_store where
  "store_enc = \<lparr>gw_map = [(''u1'', share_enc)], gw_runtime = []\<rparr>"

theorem reconcile_drops_encryption_witness:
  "''    smb encrypt = required'' \<in> set (lines (rebuild_aggregator None store_enc [render_snippet share_enc ''/srv''])) \<and>
   ''    smb encrypt = auto'' \<in> set (lines (rebuild_aggregator_for_reconcile store_enc [render_snippet share_enc ''/srv'']))"
proof -
  have "share_enc \<in> set (snapshot_for_sync store_enc)" by (simp add: snapshot_for_sync_def store_enc_def)
  moreover have "SmbP \<in> set (gw_protocols share_enc)" "go_smb_encrypt (gw_options share_enc) = EncRequired"
    "list_all is_name_char (unwrap_or ''WORKGROUP'' (persisted_workgroup store_enc))"
    "[] \<notin> set [snippet_lines share_enc ''/srv'']" by (code_simp)+
  moreover have "enc_safe l" if "l \<in> set (concat [snippet_lines share_enc ''/srv''])" for l
  proof -
    have "list_all enc_safe (snippet_lines share_enc ''/srv'')" by code_simp
    with that show ?thesis by (simp add: list_all_iff)
  qed
  ultimately show ?thesis
    using reconcile_drops_encryption [of share_enc store_enc "[snippet_lines share_enc ''/srv'']"]
    by (simp add: render_snippet_def)
qed

end
