(* ===== verification/Wire_Bytes.thy ===== *)
theory Wire_Bytes
  imports Rust_Prelude
begin

unbundle bit_operations_syntax

text \<open>
  Bytes on the wire: little-endian integers (\<^verbatim>\<open>to_le_bytes\<close>, \<^verbatim>\<open>from_le_bytes\<close>), slices, the bytes of
  a string and \<^verbatim>\<open>String::from_utf8\<close>. The locale \<open>frame_loop\<close> is the contract of a decoder that reads
  a buffer record by record from a position: one round over an encoded record appends that record
  and moves past it. Its lemma is the round trip of a whole sequence of records.
\<close>

type_synonym bytes = "u8 list"

text \<open>\<^verbatim>\<open>buf[i..i + n]\<close> of a buffer the code has already found long enough.\<close>

definition sub_slice :: "'a list \<Rightarrow> nat \<Rightarrow> nat \<Rightarrow> 'a list" where
  "sub_slice buf i n = take n (drop i buf)"

primrec to_le_bytes :: "nat \<Rightarrow> 'a::len word \<Rightarrow> bytes" where
  "to_le_bytes 0 w = []"
| "to_le_bytes (Suc n) w = ucast w # to_le_bytes n (drop_bit 8 w)"

primrec from_le_bytes :: "bytes \<Rightarrow> 'a::len word" where
  "from_le_bytes [] = 0"
| "from_le_bytes (b # bs) = ucast b OR push_bit 8 (from_le_bytes bs)"

definition as_bytes :: "string \<Rightarrow> bytes" where
  "as_bytes s = map (\<lambda>c. word_of_nat (of_char c)) s"

text \<open>
  The byte sequences that are UTF-8 text, by the table of well-formed sequences of the Unicode
  standard: the first byte fixes the length and the range of the second.
\<close>

definition in_range :: "nat \<Rightarrow> nat \<Rightarrow> u8 \<Rightarrow> bool" where
  "in_range lo hi b = (lo \<le> unat b \<and> unat b \<le> hi)"

fun utf8_valid :: "bytes \<Rightarrow> bool" where
  "utf8_valid [] = True"
| "utf8_valid (a # r) =
     (if in_range 0 0x7F a then utf8_valid r
      else case r of [] \<Rightarrow> False | b # r \<Rightarrow>
      if in_range 0xC2 0xDF a then in_range 0x80 0xBF b \<and> utf8_valid r
      else case r of [] \<Rightarrow> False | c # r \<Rightarrow>
      if in_range 0xE0 0xEF a then
        in_range (if a = 0xE0 then 0xA0 else 0x80) (if a = 0xED then 0x9F else 0xBF) b
        \<and> in_range 0x80 0xBF c \<and> utf8_valid r
      else case r of [] \<Rightarrow> False | d # r \<Rightarrow>
        in_range 0xF0 0xF4 a
        \<and> in_range (if a = 0xF0 then 0x90 else 0x80) (if a = 0xF4 then 0x8F else 0xBF) b
        \<and> in_range 0x80 0xBF c \<and> in_range 0x80 0xBF d \<and> utf8_valid r)"

definition from_utf8 :: "bytes \<Rightarrow> string option" where
  "from_utf8 b = (if utf8_valid b then Some (map (\<lambda>w. char_of (unat w)) b) else None)"

section \<open>Lemmas\<close>

lemma length_to_le_bytes [simp]: "length (to_le_bytes n w) = n"
  by (induction n arbitrary: w) auto

lemma sub_slice_append [simp]:
  "length pre = i \<Longrightarrow> length mid = n \<Longrightarrow> sub_slice (pre @ mid @ post) i n = mid"
  by (simp add: sub_slice_def)

lemma sub_slice_end [simp]: "length pre = i \<Longrightarrow> length mid = n \<Longrightarrow> sub_slice (pre @ mid) i n = mid"
  by (simp add: sub_slice_def)

lemma length_sub_slice: "length (sub_slice buf i n) = min n (length buf - i)"
  by (simp add: sub_slice_def)

lemma ucast_byte: "(ucast (ucast w :: u8) :: 'a::len word) = take_bit 8 w"
  by (intro bit_word_eqI) (auto simp: bit_simps)

lemma from_to_le_bytes: "from_le_bytes (to_le_bytes n w) = take_bit (8 * n) w"
proof (induction n arbitrary: w)
  case (Suc n)
  show ?case
    by (intro bit_word_eqI) (auto simp: Suc ucast_byte bit_simps)
qed simp

lemma from_to_le_bytes_u32 [simp]: "from_le_bytes (to_le_bytes 4 (w :: u32)) = w"
  and from_to_le_bytes_u64 [simp]: "from_le_bytes (to_le_bytes 8 (v :: u64)) = v"
  by (simp_all add: from_to_le_bytes take_bit_word_eq_self)

lemma length_as_bytes [simp]: "length (as_bytes s) = length s"
  by (simp add: as_bytes_def)

lemma char_of_as_byte: "char_of (unat (word_of_nat (of_char c) :: u8)) = c"
  by (simp add: unat_of_nat)

lemma from_utf8_as_bytes [simp]: "utf8_valid (as_bytes s) \<Longrightarrow> from_utf8 (as_bytes s) = Some s"
  by (simp add: from_utf8_def as_bytes_def comp_def char_of_as_byte)

lemma utf8_valid_ascii: "list_all (in_range 0 0x7F) b \<Longrightarrow> utf8_valid b"
  by (induction b) auto

section \<open>Decoders that read record by record\<close>

locale frame_loop =
  fixes enc :: "'a \<Rightarrow> bytes"
    and good :: "'a \<Rightarrow> bool"
    and loop :: "bytes \<Rightarrow> nat \<Rightarrow> 'a list \<Rightarrow> 'r"
    and finish :: "'a list \<Rightarrow> 'r"
  assumes loop_record:
    "good x \<Longrightarrow> length (pre @ enc x @ post) < 2 ^ 63 \<Longrightarrow>
     loop (pre @ enc x @ post) (length pre) acc =
     loop (pre @ enc x @ post) (length pre + length (enc x)) (acc @ [x])"
    and loop_end: "loop buf (length buf) acc = finish acc"
begin

lemma loop_records:
  "list_all good xs \<Longrightarrow> length (pre @ concat (map enc xs)) < 2 ^ 63 \<Longrightarrow>
   loop (pre @ concat (map enc xs)) (length pre) acc = finish (acc @ xs)"
proof (induction xs arbitrary: pre acc)
  case Nil
  then show ?case by (simp add: loop_end)
next
  case (Cons x xs)
  have "loop (pre @ concat (map enc (x # xs))) (length pre) acc =
        loop ((pre @ enc x) @ concat (map enc xs)) (length (pre @ enc x)) (acc @ [x])"
    using Cons.prems loop_record [of x pre "concat (map enc xs)" acc] by simp
  also have "\<dots> = finish ((acc @ [x]) @ xs)"
    using Cons.prems by (intro Cons.IH) auto
  finally show ?case by simp
qed

lemma decode_all:
  "list_all good xs \<Longrightarrow> length (concat (map enc xs)) < 2 ^ 63 \<Longrightarrow>
   loop (concat (map enc xs)) 0 [] = finish xs"
  using loop_records [of xs "[]" "[]"] by simp

end

end
