(* ===== verification/Rolling.thy ===== *)
theory Rolling
  imports Wire_Bytes "HOL-Library.Sublist"
begin

unbundle bit_operations_syntax

text \<open>
  Block deltas between two copies of a file, \<^verbatim>\<open>src/wolfha/replication/rolling.rs\<close>: the weak
  checksum and its rolling form, the signature of the replica's copy, the scan of the primary's copy
  that turns matched windows into references, and the reconstruction. A file is its list of bytes;
  SHA-256 is the argument \<open>sha\<close>. The wire formats are in \<open>Rolling_Wire\<close>.
\<close>

section \<open>Checksums\<close>

definition BLOCK_SIZE :: nat where "BLOCK_SIZE = 64 * 1024"

definition STRONG_LEN :: nat where "STRONG_LEN = 16"

record BlockSig =
  weak :: u32
  strong :: bytes

record FileSignature =
  block_size :: nat
  base_len :: nat
  blocks :: "BlockSig list"

text \<open>Lengths are \<open>nat\<close>; the product of index and block size is taken in 64 bits, as in the code.\<close>

definition block_len :: "FileSignature \<Rightarrow> nat \<Rightarrow> nat" where
  "block_len sig i =
     (let start = i * block_size sig mod 2 ^ 64; remaining = base_len sig - start in
      min remaining (block_size sig))"

definition weak_step :: "u32 \<times> u32 \<Rightarrow> u8 \<Rightarrow> u32 \<times> u32" where
  "weak_step s b = (let s1 = fst s + ucast b in (s1, snd s + s1))"

definition weak_checksum :: "bytes \<Rightarrow> u32" where
  "weak_checksum buf =
     (let (s1, s2) = foldl weak_step (0, 0) buf in (s1 AND 0xffff) OR push_bit 16 s2)"

record Rolling =
  s1 :: u32
  s2 :: u32
  len :: u32

definition rolling_step :: "u32 \<times> u32 \<Rightarrow> u8 \<Rightarrow> u32 \<times> u32" where
  "rolling_step s b =
     (let s1 = (fst s + ucast b) AND 0xffff in (s1, (snd s + s1) AND 0xffff))"

definition rolling_new :: "bytes \<Rightarrow> Rolling" where
  "rolling_new buf =
     (let (a, b) = foldl rolling_step (0, 0) buf in
      \<lparr>s1 = a, s2 = b, len = word_of_nat (length buf)\<rparr>)"

definition digest :: "Rolling \<Rightarrow> u32" where
  "digest r = (s1 r AND 0xffff) OR push_bit 16 (s2 r)"

definition roll :: "Rolling \<Rightarrow> u8 \<Rightarrow> u8 \<Rightarrow> Rolling" where
  "roll r out inb =
     (let l = len r;
          a = (s1 r - ucast out + ucast inb) AND 0xffff;
          b = (s2 r - l * ucast out + a) AND 0xffff
      in r\<lparr>s1 := a, s2 := b\<rparr>)"

definition strong_hash :: "(bytes \<Rightarrow> bytes) \<Rightarrow> bytes \<Rightarrow> bytes" where
  "strong_hash sha buf = take STRONG_LEN (sha buf)"

section \<open>Signatures\<close>

text \<open>
  One round of the loop: a block is filled as far as the file goes, hashed and pushed; a short
  block is the last one.
\<close>

function signatures_loop ::
  "(bytes \<Rightarrow> bytes) \<Rightarrow> nat \<Rightarrow> bytes \<Rightarrow> nat \<Rightarrow> BlockSig list \<Rightarrow> nat \<times> BlockSig list" where
  "signatures_loop sha bsz rest n acc =
     (let block = take bsz rest; filled = length block in
      if filled = 0 then (n, acc)
      else
        let acc' = acc @ [\<lparr>weak = weak_checksum block, strong = strong_hash sha block\<rparr>];
            n' = n + filled
        in if filled < bsz then (n', acc')
           else signatures_loop sha bsz (drop bsz rest) n' acc')"
  by pat_completeness auto
termination by (relation "measure (\<lambda>(_, _, rest, _, _). length rest)") auto

declare signatures_loop.simps [simp del]

definition signatures :: "(bytes \<Rightarrow> bytes) \<Rightarrow> bytes \<Rightarrow> nat \<Rightarrow> FileSignature" where
  "signatures sha file bsz =
     (let (n, bl) = signatures_loop sha bsz file 0 [] in
      \<lparr>block_size = bsz, base_len = n, blocks = bl\<rparr>)"

section \<open>Deltas\<close>

datatype DeltaOp = Copy (index: u32) (count: u32) | Literal bytes

definition flush_literal :: "DeltaOp list \<Rightarrow> bytes \<Rightarrow> DeltaOp list" where
  "flush_literal ops literal = (if literal \<noteq> [] then ops @ [Literal literal] else ops)"

definition push_copy :: "DeltaOp list \<Rightarrow> u32 \<Rightarrow> DeltaOp list" where
  "push_copy ops i =
     (if ops = [] then [Copy i 1]
      else case last ops of
        Copy pi cnt \<Rightarrow>
          if pi + cnt = i then butlast ops @ [Copy pi (cnt + 1)] else ops @ [Copy i 1]
      | Literal _ \<Rightarrow> ops @ [Copy i 1])"

text \<open>\<^verbatim>\<open>table.entry(bs.weak).or_default().push(i)\<close> for every block of full length.\<close>

definition table_add ::
  "FileSignature \<Rightarrow> (u32, u32 list) hashmap \<Rightarrow> nat \<times> BlockSig \<Rightarrow> (u32, u32 list) hashmap" where
  "table_add sig t e =
     (let i = fst e; b = snd e in
      if block_len sig i = block_size sig
      then AList.update (weak b) (unwrap_or [] (map_of t (weak b)) @ [word_of_nat i]) t
      else t)"

definition build_table :: "FileSignature \<Rightarrow> (u32, u32 list) hashmap" where
  "build_table sig = foldl (table_add sig) [] (enumerate 0 (blocks sig))"

definition tail_block :: "FileSignature \<Rightarrow> (u32 \<times> nat) option" where
  "tail_block sig =
     (if blocks sig = [] then None
      else
        let last = length (blocks sig) - 1; l = block_len sig last in
        if 0 < l \<and> l < block_size sig then Some (word_of_nat last, l) else None)"

definition find_match ::
  "(bytes \<Rightarrow> bytes) \<Rightarrow> FileSignature \<Rightarrow> (u32, u32 list) hashmap \<Rightarrow> u32 \<Rightarrow> bytes \<Rightarrow> u32 option" where
  "find_match sha sig table w window =
     (case map_of table w of
        None \<Rightarrow> None
      | Some cands \<Rightarrow>
          let h = strong_hash sha window in
          find (\<lambda>ci. strong (blocks sig ! unat ci) = h) cands)"

text \<open>
  The scan. The source enters the loop only when a window fits and the block size is not zero, and
  leaves it before a window would no longer fit; the first test states this.
\<close>

function delta_scan ::
  "(bytes \<Rightarrow> bytes) \<Rightarrow> bytes \<Rightarrow> FileSignature \<Rightarrow> (u32, u32 list) hashmap \<Rightarrow>
   nat \<Rightarrow> Rolling \<Rightarrow> DeltaOp list \<Rightarrow> bytes \<Rightarrow> nat \<times> DeltaOp list \<times> bytes" where
  "delta_scan sha data sig table pos r ops literal =
     (let bsz = block_size sig in
      if bsz = 0 \<or> length data < pos + bsz then (pos, ops, literal)
      else case find_match sha sig table (digest r) (sub_slice data pos bsz) of
        Some ci \<Rightarrow>
          (let ops' = push_copy (flush_literal ops literal) ci; pos' = pos + bsz in
           if length data < pos' + bsz then (pos', ops', [])
           else delta_scan sha data sig table pos' (rolling_new (sub_slice data pos' bsz)) ops' [])
      | None \<Rightarrow>
          (let literal' = literal @ [data ! pos] in
           if length data \<le> pos + bsz then (pos + 1, ops, literal')
           else delta_scan sha data sig table (pos + 1)
                  (roll r (data ! pos) (data ! (pos + bsz))) ops literal'))"
  by pat_completeness auto
termination
  by (relation "measure (\<lambda>(_, data, _, _, pos, _, _, _). length data - pos)") auto

declare delta_scan.simps [simp del]

definition delta_from_bytes :: "(bytes \<Rightarrow> bytes) \<Rightarrow> bytes \<Rightarrow> FileSignature \<Rightarrow> DeltaOp list" where
  "delta_from_bytes sha data sig =
     (let bsz = block_size sig; sigs = blocks sig in
      if bsz = 0 \<or> sigs = [] then (if data \<noteq> [] then [Literal data] else [])
      else
        let table = build_table sig;
            (pos, ops, literal) =
              (if bsz \<le> length data
               then delta_scan sha data sig table 0 (rolling_new (sub_slice data 0 bsz)) [] []
               else (0, [], []));
            rest = drop (min pos (length data)) data
        in case tail_block sig of
             Some (idx, l) \<Rightarrow>
               if length rest = l \<and> strong_hash sha rest = strong (sigs ! unat idx)
               then push_copy (flush_literal ops literal) idx
               else flush_literal ops (literal @ rest)
           | None \<Rightarrow> flush_literal ops (literal @ rest))"

section \<open>Reconstruction\<close>

datatype delta_error = Past_End nat

text \<open>
  The blocks of one copy instruction, block \<open>index + k\<close> for every \<open>k\<close> below \<open>count\<close>: a block that
  starts at or after the end of the base file is an error, the last one may be short. The base is
  what the file holds; failures to read or write it are not part of the model.
\<close>

fun copy_blocks :: "bytes \<Rightarrow> nat \<Rightarrow> nat list \<Rightarrow> bytes \<Rightarrow> delta_error + bytes" where
  "copy_blocks base bsz [] out = Ok out"
| "copy_blocks base bsz (i # is) out =
     (let off = i * bsz mod 2 ^ 64; got = take bsz (drop off base) in
      if length got = 0 then Err (Past_End i) else copy_blocks base bsz is (out @ got))"

fun apply_ops :: "bytes \<Rightarrow> nat \<Rightarrow> DeltaOp list \<Rightarrow> bytes \<Rightarrow> delta_error + bytes" where
  "apply_ops base bsz [] out = Ok out"
| "apply_ops base bsz (Literal l # ops) out = apply_ops base bsz ops (out @ l)"
| "apply_ops base bsz (Copy i c # ops) out =
     res_bind (copy_blocks base bsz [unat i..<unat i + unat c] out) (apply_ops base bsz ops)"

definition apply_delta :: "bytes \<Rightarrow> DeltaOp list \<Rightarrow> nat \<Rightarrow> delta_error + bytes" where
  "apply_delta base ops bsz = apply_ops base bsz ops []"

section \<open>The rolling checksum\<close>

text \<open>
  Both checksums as weighted sums over the window: \<open>sum1\<close> adds the bytes, \<open>sum2\<close> weighs each byte
  by its distance to the end. All arithmetic is modulo \<open>2 ^ 16\<close> behind the mask.
\<close>

fun sum1 :: "bytes \<Rightarrow> u32" where
  "sum1 [] = 0"
| "sum1 (x # xs) = ucast x + sum1 xs"

fun sum2 :: "bytes \<Rightarrow> u32" where
  "sum2 [] = 0"
| "sum2 (x # xs) = word_of_nat (Suc (length xs)) * ucast x + sum2 xs"

lemma mask16: "x AND 0xffff = take_bit 16 (x :: u32)"
proof -
  have "(0xffff :: u32) = mask 16" by (simp add: mask_eq_exp_minus_1)
  then show ?thesis by (simp add: take_bit_eq_mask)
qed

lemma push_bit_take_bit: "push_bit 16 (take_bit 16 x) = push_bit 16 (x :: u32)"
  by (intro bit_word_eqI) (auto simp: bit_simps)

lemma foldl_weak_step:
  "foldl weak_step (a, b) buf = (a + sum1 buf, b + word_of_nat (length buf) * a + sum2 buf)"
  by (induction buf arbitrary: a b) (auto simp: weak_step_def Let_def algebra_simps)

lemma take_bit_plus_left_int: "take_bit n (take_bit n a + b) = take_bit n (a + b :: int)"
  by (simp add: take_bit_eq_mod mod_add_left_eq)

lemma take_bit_plus_left: "take_bit n (take_bit n a + b) = take_bit n (a + b :: u32)"
  by transfer (simp add: take_bit_plus_left_int)

lemma take_bit_plus_right: "take_bit n (a + take_bit n b) = take_bit n (a + b :: u32)"
  using take_bit_plus_left [of n b a] by (simp add: add.commute)

lemma foldl_rolling_step:
  "foldl rolling_step (take_bit 16 a, take_bit 16 b) buf =
   (take_bit 16 (fst (foldl weak_step (a, b) buf)), take_bit 16 (snd (foldl weak_step (a, b) buf)))"
proof (induction buf arbitrary: a b)
  case (Cons x buf)
  have "rolling_step (take_bit 16 a, take_bit 16 b) x =
        (take_bit 16 (a + ucast x), take_bit 16 (b + (a + ucast x)))"
    by (simp add: rolling_step_def Let_def mask16 take_bit_plus_left take_bit_plus_right)
  with Cons show ?case by (simp add: weak_step_def Let_def)
qed simp

lemma rolling_new_sums:
  "rolling_new buf = \<lparr>s1 = take_bit 16 (sum1 buf), s2 = take_bit 16 (sum2 buf),
     len = word_of_nat (length buf)\<rparr>"
  using foldl_rolling_step [of 0 0 buf] by (simp add: rolling_new_def foldl_weak_step)

lemma sum1_snoc: "sum1 (xs @ [y]) = sum1 xs + ucast y"
  by (induction xs) (auto simp: algebra_simps)

lemma sum2_snoc: "sum2 (xs @ [y]) = sum2 xs + sum1 xs + ucast y"
  by (induction xs) (auto simp: algebra_simps)

lemma take_bit_minus_left: "take_bit n (take_bit n a - b) = take_bit n (a - b :: u32)"
  using take_bit_plus_left [of n a "- b"] by simp

lemma take_bit_slide:
  "take_bit n (take_bit n a - b + take_bit n c) = take_bit n (a - b + c :: u32)"
  using take_bit_plus_left [of n "take_bit n a - b" "take_bit n c"]
    take_bit_plus_left [of n "a - b" "take_bit n c"]
  by (simp add: take_bit_minus_left take_bit_plus_right)

lemma digest_new: "digest (rolling_new buf) = weak_checksum buf"
  by (simp add: digest_def rolling_new_sums weak_checksum_def foldl_weak_step mask16
      push_bit_take_bit Let_def)

lemma roll_new: "roll (rolling_new (x # w)) x y = rolling_new (w @ [y])"
proof -
  let ?a = "take_bit 16 (take_bit 16 (sum1 (x # w)) - ucast x + ucast y) :: u32"
  have a: "?a = take_bit 16 (sum1 (w @ [y]))"
    using take_bit_slide [of 16 "sum1 (x # w)" "ucast x" "ucast y"]
      take_bit_plus_right [of 16 "take_bit 16 (sum1 (x # w)) - ucast x" "ucast y"]
    by (simp add: sum1_snoc)
  have b: "take_bit 16 (take_bit 16 (sum2 (x # w)) - word_of_nat (length (x # w)) * ucast x
        + take_bit 16 (sum1 (w @ [y]))) = take_bit 16 (sum2 (w @ [y]))"
    unfolding take_bit_slide by (simp add: sum1_snoc sum2_snoc add.assoc)
  show ?thesis
    using a b by (simp only: roll_def rolling_new_sums mask16 Let_def) simp
qed

section \<open>Signatures as blocks of the base\<close>

definition chunk :: "nat \<Rightarrow> bytes \<Rightarrow> nat \<Rightarrow> bytes" where
  "chunk bsz base i = take bsz (drop (i * bsz) base)"

definition nblocks :: "nat \<Rightarrow> bytes \<Rightarrow> nat" where
  "nblocks bsz base = (length base + bsz - 1) div bsz"

definition sig_of :: "(bytes \<Rightarrow> bytes) \<Rightarrow> bytes \<Rightarrow> BlockSig" where
  "sig_of sha b = \<lparr>weak = weak_checksum b, strong = strong_hash sha b\<rparr>"

text \<open>The sizes for which indices fit 32 bits and offsets 64: what a file and its deltas need.\<close>

definition base_ok :: "nat \<Rightarrow> bytes \<Rightarrow> bool" where
  "base_ok bsz base = (0 < bsz \<and> nblocks bsz base < 2 ^ 32 \<and> length base < 2 ^ 63)"

lemma nblocks_Nil [simp]: "0 < bsz \<Longrightarrow> nblocks bsz [] = 0"
  by (simp add: nblocks_def)

lemma nblocks_short: "base \<noteq> [] \<Longrightarrow> length base \<le> bsz \<Longrightarrow> nblocks bsz base = 1"
proof -
  assume "base \<noteq> []" "length base \<le> bsz"
  then have "length base + bsz - 1 = bsz + (length base - 1)" "length base - 1 < bsz" "0 < bsz"
    by (cases base; simp)+
  then show ?thesis unfolding nblocks_def by (metis One_nat_def add.commute div_add_self2 div_less less_not_refl2 plus_1_eq_Suc)
qed

lemma nblocks_step: "0 < bsz \<Longrightarrow> bsz \<le> length base \<Longrightarrow>
  nblocks bsz base = Suc (nblocks bsz (drop bsz base))"
proof -
  assume "0 < bsz" "bsz \<le> length base"
  then have "length base + bsz - 1 = (length (drop bsz base) + bsz - 1) + bsz" by simp
  with \<open>0 < bsz\<close> show ?thesis unfolding nblocks_def by (metis add.commute div_add_self2 less_not_refl2 plus_1_eq_Suc)
qed

lemma nblocks_iff: "0 < bsz \<Longrightarrow> i < nblocks bsz base \<longleftrightarrow> i * bsz < length base"
proof -
  assume pos: "0 < bsz"
  have "i < nblocks bsz base \<longleftrightarrow> Suc i * bsz \<le> length base + bsz - 1"
    using pos unfolding nblocks_def by (metis Suc_le_eq less_eq_div_iff_mult_less_eq)
  also have "\<dots> \<longleftrightarrow> i * bsz < length base" using pos by auto
  finally show ?thesis .
qed

lemma chunk_step: "chunk bsz base (Suc i) = chunk bsz (drop bsz base) i"
  by (simp add: chunk_def add.commute)

lemma signatures_loop_chunks:
  "0 < bsz \<Longrightarrow> signatures_loop sha bsz rest n acc =
     (n + length rest, acc @ map (\<lambda>i. sig_of sha (chunk bsz rest i)) [0..<nblocks bsz rest])"
proof (induction sha bsz rest n acc rule: signatures_loop.induct)
  case (1 sha bsz rest n acc)
  consider "rest = []" | "rest \<noteq> []" "length rest < bsz" | "bsz \<le> length rest" by linarith
  then show ?case
  proof cases
    case 1
    with "1.prems" show ?thesis by (simp add: signatures_loop.simps)
  next
    case 2
    with "1.prems" show ?thesis
      by (simp add: signatures_loop.simps [of sha bsz rest] nblocks_short chunk_def sig_of_def Let_def)
  next
    case 3
    let ?acc = "acc @ [sig_of sha (take bsz rest)]"
    have "signatures_loop sha bsz rest n acc =
          signatures_loop sha bsz (drop bsz rest) (n + bsz) ?acc"
      using 3 "1.prems" by (subst signatures_loop.simps) (auto simp: Let_def sig_of_def min_absorb2)
    also have "\<dots> = (n + bsz + (length rest - bsz),
        ?acc @ map (\<lambda>i. sig_of sha (chunk bsz (drop bsz rest) i)) [0..<nblocks bsz (drop bsz rest)])"
      using "1.IH" [of "take bsz rest" bsz ?acc "n + bsz"] 3 "1.prems"
      by (simp add: sig_of_def min_absorb2)
    finally show ?thesis
      using 3 "1.prems"
      by (simp add: nblocks_step chunk_step [symmetric] map_upt_Suc chunk_def add.commute del: upt_Suc)
  qed
qed

lemma signatures_chunks:
  "0 < bsz \<Longrightarrow> signatures sha base bsz =
     \<lparr>block_size = bsz, base_len = length base,
      blocks = map (\<lambda>i. sig_of sha (chunk bsz base i)) [0..<nblocks bsz base]\<rparr>"
  by (simp add: signatures_def signatures_loop_chunks)

lemma block_len_chunk:
  "base_ok bsz base \<Longrightarrow> i < nblocks bsz base \<Longrightarrow>
   block_len (signatures sha base bsz) i = length (chunk bsz base i)"
proof -
  assume ok: "base_ok bsz base" and i: "i < nblocks bsz base"
  then have "i * bsz < length base" by (simp add: nblocks_iff base_ok_def)
  with ok have "i * bsz mod 2 ^ 64 = i * bsz" by (simp add: base_ok_def)
  with ok show ?thesis
    by (simp add: block_len_def signatures_chunks base_ok_def chunk_def min.commute)
qed

section \<open>Candidates\<close>

lemma map_of_table_add:
  "unwrap_or [] (map_of (foldl (table_add sig) t (enumerate k xs)) w) =
   unwrap_or [] (map_of t w) @
   map (word_of_nat \<circ> fst)
     (filter (\<lambda>(i, b). block_len sig i = block_size sig \<and> weak b = w) (enumerate k xs))"
proof (induction xs arbitrary: t k)
  case (Cons x xs)
  have "unwrap_or [] (map_of (table_add sig t (k, x)) w) =
        unwrap_or [] (map_of t w) @
        (if block_len sig k = block_size sig \<and> weak x = w then [word_of_nat k] else [])"
    by (simp add: table_add_def Let_def update_conv)
  then show ?case by (simp add: Cons)
qed simp

definition candidates :: "FileSignature \<Rightarrow> u32 \<Rightarrow> u32 list" where
  "candidates sig w = unwrap_or [] (map_of (build_table sig) w)"

lemma in_candidates:
  "c \<in> set (candidates sig w) \<longleftrightarrow>
   (\<exists>i < length (blocks sig). c = word_of_nat i \<and> block_len sig i = block_size sig
      \<and> weak (blocks sig ! i) = w)"
proof -
  have "candidates sig w = map (word_of_nat \<circ> fst)
     (filter (\<lambda>(i, b). block_len sig i = block_size sig \<and> weak b = w) (enumerate 0 (blocks sig)))"
    by (simp add: candidates_def build_table_def map_of_table_add)
  then show ?thesis
    by (auto simp: in_set_enumerate_eq image_iff)
qed

lemma find_match_candidates:
  "find_match sha sig (build_table sig) w window =
   find (\<lambda>ci. strong (blocks sig ! unat ci) = strong_hash sha window) (candidates sig w)"
  by (simp add: find_match_def candidates_def Let_def split: option.split)

lemma unat_index: "base_ok bsz base \<Longrightarrow> i < nblocks bsz base \<Longrightarrow> unat (word_of_nat i :: u32) = i"
  by (simp add: base_ok_def unat_of_nat take_bit_nat_eq_self)

lemma find_match_SomeD:
  assumes ok: "base_ok bsz base"
    and m: "find_match sha (signatures sha base bsz) (build_table (signatures sha base bsz)) w window
      = Some ci"
  shows "\<exists>i < nblocks bsz base. ci = word_of_nat i \<and> length (chunk bsz base i) = bsz
      \<and> strong_hash sha window = strong_hash sha (chunk bsz base i)"
proof -
  let ?sig = "signatures sha base bsz"
  from m have ci: "ci \<in> set (candidates ?sig w)" and s: "strong (blocks ?sig ! unat ci) = strong_hash sha window"
    unfolding find_match_candidates using find_SomeD by fastforce+
  from ok have pos: "0 < bsz" by (simp add: base_ok_def)
  from ci pos obtain i where i: "i < nblocks bsz base" "ci = word_of_nat i" "block_len ?sig i = bsz"
    by (auto simp: in_candidates signatures_chunks)
  with s pos ok have "strong_hash sha (chunk bsz base i) = strong_hash sha window"
    by (simp add: signatures_chunks sig_of_def unat_index)
  with i ok show ?thesis by (auto simp: block_len_chunk)
qed

lemma find_match_chunk:
  assumes ok: "base_ok bsz base" and i: "i < nblocks bsz base"
    and w: "window = chunk bsz base i" "length window = bsz"
  shows "find_match sha (signatures sha base bsz) (build_table (signatures sha base bsz))
      (weak_checksum window) window \<noteq> None"
proof -
  let ?sig = "signatures sha base bsz"
  from ok have pos: "0 < bsz" by (simp add: base_ok_def)
  have "word_of_nat i \<in> set (candidates ?sig (weak_checksum window))"
    unfolding in_candidates
    using block_len_chunk [OF ok i, of sha] i w pos
    by (intro exI [of _ i]) (simp add: signatures_chunks sig_of_def)
  moreover have "strong (blocks ?sig ! unat (word_of_nat i :: u32)) = strong_hash sha window"
    using ok i w pos by (simp add: signatures_chunks sig_of_def unat_index)
  ultimately show ?thesis
    unfolding find_match_candidates find_None_iff by blast
qed

section \<open>Reconstruction\<close>

lemma copy_blocks_append:
  "copy_blocks base bsz (is @ js) out = res_bind (copy_blocks base bsz is out) (copy_blocks base bsz js)"
  by (induction "is" arbitrary: out) (auto simp: Let_def)

lemma apply_ops_append:
  "apply_ops base bsz (xs @ ys) out = res_bind (apply_ops base bsz xs out) (apply_ops base bsz ys)"
proof (induction base bsz xs out rule: apply_ops.induct)
  case (3 base bsz i c ops out)
  then show ?case by (cases "copy_blocks base bsz [unat i..<unat i + unat c] out") auto
qed auto

lemma copy_block:
  "base_ok bsz base \<Longrightarrow> i < nblocks bsz base \<Longrightarrow>
   copy_blocks base bsz [i] out = Ok (out @ chunk bsz base i)"
proof -
  assume ok: "base_ok bsz base" and "i < nblocks bsz base"
  then have "i * bsz < length base" by (simp add: nblocks_iff base_ok_def)
  with ok have "i * bsz mod 2 ^ 64 = i * bsz" "\<not> length base \<le> i * bsz" "0 < bsz"
    by (simp_all add: base_ok_def)
  then show ?thesis by (simp add: chunk_def Let_def)
qed

lemma apply_snoc_Copy:
  "apply_delta base (ops @ [Copy i c]) bsz =
   res_bind (apply_delta base ops bsz) (copy_blocks base bsz [unat i..<unat i + unat c])"
proof -
  have "apply_ops base bsz [] = Ok" by (intro ext) simp
  then have "apply_ops base bsz [Copy i c] = copy_blocks base bsz [unat i..<unat i + unat c]"
    by (intro ext) simp
  then show ?thesis by (simp add: apply_delta_def apply_ops_append)
qed

lemma apply_extend_copy:
  assumes "unat (c + 1) = unat c + 1"
  shows "apply_delta base (ops @ [Copy i (c + 1)]) bsz =
     res_bind (apply_delta base (ops @ [Copy i c]) bsz) (copy_blocks base bsz [unat i + unat c])"
  using assms
  by (simp add: apply_snoc_Copy copy_blocks_append [abs_def] res_bind_assoc del: copy_blocks.simps)

text \<open>What every instruction of a delta satisfies: copies stay within the base, literals are short.\<close>

fun op_ok :: "nat \<Rightarrow> nat \<Rightarrow> DeltaOp \<Rightarrow> bool" where
  "op_ok nb m (Copy i c) = (c \<noteq> 0 \<and> unat i + unat c \<le> nb)"
| "op_ok nb m (Literal l) = (length l \<le> m)"

lemma apply_snoc_copy:
  "base_ok bsz base \<Longrightarrow> i < nblocks bsz base \<Longrightarrow> apply_delta base ops bsz = Ok out \<Longrightarrow>
   apply_delta base (ops @ [Copy (word_of_nat i) 1]) bsz = Ok (out @ chunk bsz base i)"
  by (simp add: apply_snoc_Copy unat_index copy_block del: copy_blocks.simps)

lemma push_copy_apply:
  assumes ok: "base_ok bsz base" and i: "i < nblocks bsz base"
    and ops: "list_all (op_ok (nblocks bsz base) m) ops"
    and app: "apply_delta base ops bsz = Ok out"
  shows "apply_delta base (push_copy ops (word_of_nat i)) bsz = Ok (out @ chunk bsz base i)"
    and "list_all (op_ok (nblocks bsz base) m) (push_copy ops (word_of_nat i))"
proof -
  let ?n = "nblocks bsz base" and ?w = "word_of_nat i :: u32"
  have new: "op_ok ?n m (Copy ?w 1)" using ok i by (simp add: unat_index)
  note plain = apply_snoc_copy [OF ok i app]
  have *: "apply_delta base (push_copy ops ?w) bsz = Ok (out @ chunk bsz base i)
      \<and> list_all (op_ok ?n m) (push_copy ops ?w)"
  proof (cases "\<exists>pi c. ops \<noteq> [] \<and> last ops = Copy pi c \<and> pi + c = ?w")
    case False
    then have "push_copy ops ?w = ops @ [Copy ?w 1]"
      by (auto simp: push_copy_def split: DeltaOp.split)
    with plain new ops show ?thesis by simp
  next
    case True
    then obtain pi c where last: "ops \<noteq> []" "last ops = Copy pi c" and sum: "pi + c = ?w" by blast
    define pre where "pre = butlast ops"
    from last have split: "ops = pre @ [Copy pi c]"
      unfolding pre_def by (metis append_butlast_last_id)
    from ops split have bd: "unat pi + unat c \<le> ?n" by simp
    with ok have "unat pi + unat c < 2 ^ 32" by (simp add: base_ok_def)
    then have "unat (pi + c) = unat pi + unat c" by (simp add: unat_word_ariths)
    with sum ok i have idx: "unat pi + unat c = i" by (simp add: unat_index)
    have "unat c + 1 < 2 ^ 32" using idx i ok by (simp add: base_ok_def)
    then have c1: "unat (c + 1) = unat c + 1" by (simp add: unat_word_ariths)
    have push: "push_copy ops ?w = pre @ [Copy pi (c + 1)]"
      using last sum by (simp add: push_copy_def pre_def)
    have "apply_delta base (push_copy ops ?w) bsz =
          res_bind (apply_delta base ops bsz) (copy_blocks base bsz [i])"
      using apply_extend_copy [OF c1] push split idx by simp
    moreover have "c + 1 \<noteq> 0" using c1 by (metis Suc_eq_plus1 nat.distinct(1) unat_0)
    then have "list_all (op_ok ?n m) (push_copy ops ?w)"
      unfolding push using ops split i idx c1 by simp
    ultimately show ?thesis
      using app copy_block [OF ok i] by (simp del: copy_blocks.simps)
  qed
  from * show "apply_delta base (push_copy ops ?w) bsz = Ok (out @ chunk bsz base i)"
    and "list_all (op_ok ?n m) (push_copy ops ?w)" by blast+
qed

lemma apply_flush:
  "apply_delta base (flush_literal ops l) bsz = res_bind (apply_delta base ops bsz) (\<lambda>out. Ok (out @ l))"
  by (cases "apply_ops base bsz ops []") (simp_all add: apply_delta_def flush_literal_def apply_ops_append)

lemma apply_flush_append:
  "apply_delta base (flush_literal ops l) bsz = Ok out \<Longrightarrow>
   apply_delta base (flush_literal ops (l @ r)) bsz = Ok (out @ r)"
  by (cases "apply_delta base ops bsz") (auto simp: apply_flush)

lemma flush_ok:
  "list_all (op_ok n m) ops \<Longrightarrow> length l \<le> m \<Longrightarrow> list_all (op_ok n m) (flush_literal ops l)"
  by (simp add: flush_literal_def)

end
