(* ===== verification/Rolling_Delta.thy ===== *)
theory Rolling_Delta
  imports Rolling
begin

text \<open>
  What the block deltas of \<open>Rolling\<close> promise: the rolled checksum is the checksum of the window, a
  delta computed against a signature rebuilds the primary's file from the replica's copy, and an
  unchanged file is described by references only.
\<close>

section \<open>The window\<close>

lemma sub_slice_Cons: "0 < n \<Longrightarrow> i < length d \<Longrightarrow> sub_slice d i n = d ! i # sub_slice d (i + 1) (n - 1)"
  by (cases n) (auto simp: sub_slice_def Cons_nth_drop_Suc [symmetric])

lemma sub_slice_snoc: "0 < n \<Longrightarrow> i + n \<le> length d \<Longrightarrow> sub_slice d i n = sub_slice d i (n - 1) @ [d ! (i + n - 1)]"
  by (cases n) (auto simp: sub_slice_def take_Suc_conv_app_nth)

lemma roll_window:
  assumes "0 < bsz" "pos + bsz < length data"
  shows "roll (rolling_new (sub_slice data pos bsz)) (data ! pos) (data ! (pos + bsz)) =
         rolling_new (sub_slice data (pos + 1) bsz)"
  using assms roll_new [of "data ! pos" "sub_slice data (pos + 1) (bsz - 1)" "data ! (pos + bsz)"]
    sub_slice_snoc [of bsz "pos + 1" data]
  by (simp add: sub_slice_Cons [of bsz pos])

lemma append_take_sub_slice: "take pos d @ sub_slice d pos n = take (pos + n) d"
  by (simp add: sub_slice_def take_add)

section \<open>Progress of the scan\<close>

text \<open>
  The scan's state stands for a prefix of the data: its instructions, with the pending literal,
  rebuild that prefix from the base.
\<close>

definition built :: "bytes \<Rightarrow> nat \<Rightarrow> bytes \<Rightarrow> nat \<times> DeltaOp list \<times> bytes \<Rightarrow> bool" where
  "built base bsz data st =
     (case st of (pos, ops, literal) \<Rightarrow>
        pos \<le> length data
        \<and> list_all (op_ok (nblocks bsz base) (length data)) ops
        \<and> apply_delta base (flush_literal ops literal) bsz = Ok (take pos data))"

lemma built_start: "built base bsz data (0, [], [])"
  by (simp add: built_def flush_literal_def apply_delta_def)

lemma built_literal:
  "built base bsz data (pos, ops, l) \<Longrightarrow> pos + n \<le> length data \<Longrightarrow>
   built base bsz data (pos + n, ops, l @ sub_slice data pos n)"
  using apply_flush_append [of base ops l bsz "take pos data" "sub_slice data pos n"]
  by (simp add: built_def append_take_sub_slice)

lemma built_flush:
  assumes "built base bsz data (pos, ops, l)"
  shows "list_all (op_ok (nblocks bsz base) (length data)) (flush_literal ops l)"
proof -
  from assms obtain out where "apply_delta base ops bsz = Ok out" "out @ l = take pos data"
    by (auto simp: built_def apply_flush res_bind_Inr_iff)
  then have "length l \<le> length data" by (metis append_eq_conv_conj drop_take length_drop
        length_take min.cobounded1 nat_le_linear le_diff_conv le_trans diff_le_self length_append le_add2)
  with assms show ?thesis by (simp add: built_def flush_ok)
qed

lemma built_copy:
  assumes b: "built base bsz data (pos, ops, l)" and ok: "base_ok bsz base"
    and i: "i < nblocks bsz base" and c: "sub_slice data pos n = chunk bsz base i"
    and n: "pos + n \<le> length data"
  shows "built base bsz data (pos + n, push_copy (flush_literal ops l) (word_of_nat i), [])"
proof -
  from b have "apply_delta base (flush_literal ops l) bsz = Ok (take pos data)"
    by (simp add: built_def)
  from push_copy_apply [OF ok i built_flush [OF b] this] n c append_take_sub_slice [of pos data n]
  show ?thesis by (simp add: built_def flush_literal_def)
qed

text \<open>
  A strong hash that a window of the data shares with a block of the base means equal bytes: the
  collision resistance the protocol rests on, stated for the two files at hand.
\<close>

definition no_collision :: "(bytes \<Rightarrow> bytes) \<Rightarrow> nat \<Rightarrow> bytes \<Rightarrow> bytes \<Rightarrow> bool" where
  "no_collision sha bsz base data =
     list_all (\<lambda>u. list_all (\<lambda>i. length u = length (chunk bsz base i)
         \<and> strong_hash sha u = strong_hash sha (chunk bsz base i) \<longrightarrow> u = chunk bsz base i)
       [0..<nblocks bsz base]) (sublists data)"

lemma sublist_sub_slice: "sublist (sub_slice d i n) d"
  unfolding sub_slice_def by (metis append.assoc append_take_drop_id sublist_appendI)

lemma no_collisionD:
  "no_collision sha bsz base data \<Longrightarrow> i < nblocks bsz base \<Longrightarrow>
   length (sub_slice data pos n) = length (chunk bsz base i) \<Longrightarrow>
   strong_hash sha (sub_slice data pos n) = strong_hash sha (chunk bsz base i) \<Longrightarrow>
   sub_slice data pos n = chunk bsz base i"
  using sublist_sub_slice by (fastforce simp: no_collision_def list_all_iff)

lemma delta_scan_built:
  assumes "base_ok bsz base" "no_collision sha bsz base data"
    and "sig = signatures sha base bsz" "table = build_table sig"
    and "built base bsz data (pos, ops, l)"
  shows "built base bsz data (delta_scan sha data sig table pos r ops l)"
  using assms
proof (induction sha data sig table pos r ops l rule: delta_scan.induct)
  case (1 sha data sig table pos r ops l)
  note ok = "1.prems"(1) and nc = "1.prems"(2) and b = "1.prems"(5)
  from ok have bsz: "block_size sig = bsz" "0 < bsz"
    using "1.prems"(3) by (simp_all add: base_ok_def signatures_chunks)
  show ?case
  proof (cases "length data < pos + bsz")
    case True
    with b bsz show ?thesis by (simp add: delta_scan.simps)
  next
    case fits: False
    note eq = delta_scan.simps [of sha data sig table pos r ops l]
    show ?thesis
    proof (cases "find_match sha sig table (digest r) (sub_slice data pos bsz)")
      case None
      have b': "built base bsz data (pos + 1, ops, l @ [data ! pos])"
        using built_literal [OF b, of 1] fits bsz sub_slice_Cons [of 1 pos data] by (simp add: sub_slice_def)
      show ?thesis
        unfolding eq using None fits bsz b' "1.IH"(1) [OF refl] "1.prems" by (simp add: Let_def)
    next
      case (Some ci)
      let ?ops = "push_copy (flush_literal ops l) ci"
      from find_match_SomeD [OF ok Some [unfolded "1.prems"(4,3)]] obtain i where
        i: "i < nblocks bsz base" "ci = word_of_nat i" "length (chunk bsz base i) = bsz"
        "strong_hash sha (sub_slice data pos bsz) = strong_hash sha (chunk bsz base i)" by blast
      have len: "length (sub_slice data pos bsz) = bsz" using fits by (simp add: length_sub_slice)
      then have "sub_slice data pos bsz = chunk bsz base i"
        using no_collisionD [OF nc i(1)] i by metis
      then have b': "built base bsz data (pos + bsz, ?ops, [])"
        using built_copy [OF b ok i(1)] i(2) fits by simp
      show ?thesis
        unfolding eq using Some fits bsz b' "1.IH"(2) [OF refl] "1.prems" by (simp add: Let_def)
    qed
  qed
qed

lemma tail_block_chunk:
  assumes ok: "base_ok bsz base" and t: "tail_block (signatures sha base bsz) = Some (idx, l)"
  defines "k \<equiv> nblocks bsz base - 1"
  shows "k < nblocks bsz base" "idx = word_of_nat k" "l = length (chunk bsz base k)"
    "strong (blocks (signatures sha base bsz) ! unat idx) = strong_hash sha (chunk bsz base k)"
proof -
  from ok have pos: "0 < bsz" by (simp add: base_ok_def)
  from t show k: "k < nblocks bsz base"
    using pos by (auto simp: tail_block_def signatures_chunks k_def split: if_splits)
  from t show idx: "idx = word_of_nat k" and "l = length (chunk bsz base k)"
    using pos block_len_chunk [OF ok k, of sha]
    by (auto simp: tail_block_def signatures_chunks k_def Let_def split: if_splits)
  show "strong (blocks (signatures sha base bsz) ! unat idx) = strong_hash sha (chunk bsz base k)"
    using k ok pos by (simp add: idx unat_index signatures_chunks sig_of_def)
qed

text \<open>The three ways \<^term>\<open>delta_from_bytes\<close> ends, over the state the scan leaves.\<close>

definition scanned :: "(bytes \<Rightarrow> bytes) \<Rightarrow> bytes \<Rightarrow> FileSignature \<Rightarrow> nat \<times> DeltaOp list \<times> bytes" where
  "scanned sha data sig =
     (if block_size sig \<le> length data
      then delta_scan sha data sig (build_table sig) 0 (rolling_new (sub_slice data 0 (block_size sig))) [] []
      else (0, [], []))"

lemma built_scanned:
  "base_ok bsz base \<Longrightarrow> no_collision sha bsz base data \<Longrightarrow>
   built base bsz data (scanned sha data (signatures sha base bsz))"
  by (auto simp: scanned_def built_start intro: delta_scan_built)

lemma delta_cases:
  assumes sc: "scanned sha data sig = (pos, ops, l)" and ne: "block_size sig \<noteq> 0" "blocks sig \<noteq> []"
    and pos: "pos \<le> length data"
  obtains (tail) idx where "tail_block sig = Some (idx, length (drop pos data))"
      "strong_hash sha (drop pos data) = strong (blocks sig ! unat idx)"
      "delta_from_bytes sha data sig = push_copy (flush_literal ops l) idx"
  | (rest) "delta_from_bytes sha data sig = flush_literal ops (l @ drop pos data)"
      "\<forall>idx. tail_block sig = Some (idx, length (drop pos data)) \<longrightarrow>
         strong_hash sha (drop pos data) \<noteq> strong (blocks sig ! unat idx)"
proof (cases "\<exists>idx. tail_block sig = Some (idx, length (drop pos data))
    \<and> strong_hash sha (drop pos data) = strong (blocks sig ! unat idx)")
  case True
  then obtain idx where "tail_block sig = Some (idx, length (drop pos data))"
    "strong_hash sha (drop pos data) = strong (blocks sig ! unat idx)" by blast
  with sc ne pos show thesis
    by (intro tail [of idx]) (auto simp: delta_from_bytes_def scanned_def Let_def min_absorb1)
next
  case False
  with sc ne pos show thesis
    by (intro rest) (auto simp: delta_from_bytes_def scanned_def Let_def min_absorb1
        split: option.split)
qed

lemma delta_built:
  assumes ok: "base_ok bsz base" and nc: "no_collision sha bsz base data"
  shows "built base bsz data (length data, delta_from_bytes sha data (signatures sha base bsz), [])"
proof (cases "nblocks bsz base = 0")
  case True
  with ok show ?thesis
    by (auto simp: base_ok_def built_def delta_from_bytes_def signatures_chunks flush_literal_def
        apply_delta_def Let_def)
next
  case False
  let ?sig = "signatures sha base bsz"
  obtain pos ops l where sc: "scanned sha data ?sig = (pos, ops, l)" by (cases "scanned sha data ?sig")
  with built_scanned [OF ok nc] have b: "built base bsz data (pos, ops, l)" by simp
  then have pos: "pos \<le> length data" by (simp add: built_def)
  have ne: "block_size ?sig \<noteq> 0" "blocks ?sig \<noteq> []"
    using ok False by (auto simp: base_ok_def signatures_chunks)
  let ?n = "length data - pos"
  have rest: "sub_slice data pos ?n = drop pos data" by (simp add: sub_slice_def)
  from sc ne pos show ?thesis
  proof (cases rule: delta_cases)
    case (tail idx)
    note t = tail_block_chunk [OF ok tail(1)]
    have "sub_slice data pos ?n = chunk bsz base (nblocks bsz base - 1)"
      using no_collisionD [OF nc t(1), of pos ?n] t tail(2) rest by simp
    from built_copy [OF b ok t(1) this] pos t(2) tail(3) show ?thesis by simp
  next
    case rest': rest
    from built_literal [OF b, of ?n] pos rest have "built base bsz data (length data, ops, l @ drop pos data)"
      by simp
    with built_flush [OF this] show ?thesis
      by (simp add: rest'(1) built_def flush_literal_def)
  qed
qed

section \<open>An unchanged file\<close>

fun is_copy :: "DeltaOp \<Rightarrow> bool" where
  "is_copy (Copy i c) = True"
| "is_copy (Literal l) = False"

lemma list_all_push_copy: "list_all is_copy ops \<Longrightarrow> list_all is_copy (push_copy ops i)"
  by (cases ops rule: rev_cases) (auto simp: push_copy_def split: DeltaOp.split)

lemma delta_scan_same:
  assumes "base_ok bsz base" "sig = signatures sha base bsz" "table = build_table sig"
    and "pos = k * bsz" "pos + bsz \<le> length base" "r = rolling_new (sub_slice base pos bsz)"
    and "list_all is_copy ops" "l = []"
  shows "\<exists>ops'. delta_scan sha base sig table pos r ops l = (length base div bsz * bsz, ops', [])
      \<and> list_all is_copy ops'"
  using assms
proof (induction sha base sig table pos r ops l arbitrary: k rule: delta_scan.induct)
  case (1 sha base sig table pos r ops l)
  note ok = "1.prems"(1) and fits = "1.prems"(5)
  from ok have bsz: "block_size sig = bsz" "0 < bsz"
    using "1.prems"(2) by (simp_all add: base_ok_def signatures_chunks)
  note eq = delta_scan.simps [of sha base sig table pos r ops l]
  let ?w = "sub_slice base pos bsz"
  have w: "?w = chunk bsz base k" "length ?w = bsz" "k < nblocks bsz base"
    using "1.prems"(4) fits bsz by (simp_all add: sub_slice_def chunk_def nblocks_iff)
  have dig: "digest r = weak_checksum ?w" using "1.prems"(6) by (simp add: digest_new)
  obtain ci where ci: "find_match sha sig table (digest r) ?w = Some ci"
    using find_match_chunk [OF ok w(3,1,2), of sha] unfolding dig "1.prems"(2,3) by blast
  let ?ops = "push_copy (flush_literal ops l) ci"
  have copies: "list_all is_copy ?ops"
    using "1.prems"(7,8) by (simp add: flush_literal_def list_all_push_copy)
  show ?case
  proof (cases "length base < pos + bsz + bsz")
    case True
    then have "length base div bsz = Suc k"
      using "1.prems"(4) fits by (intro div_nat_eqI) (simp_all add: algebra_simps)
    with True copies ci fits bsz "1.prems"(4) show ?thesis
      unfolding eq by (simp add: Let_def add.commute)
  next
    case False
    have "delta_scan sha base sig table pos r ops l =
      delta_scan sha base sig table (pos + bsz) (rolling_new (sub_slice base (pos + bsz) bsz)) ?ops []"
      unfolding eq using ci fits bsz False by (simp add: Let_def)
    moreover have "pos + bsz = Suc k * bsz" using "1.prems"(4) by simp
    moreover have "\<exists>ops'. delta_scan sha base sig table (pos + bsz)
        (rolling_new (sub_slice base (pos + bsz) bsz)) ?ops [] =
        (length base div bsz * bsz, ops', []) \<and> list_all is_copy ops'"
      using ci fits bsz False copies "1.prems"(1,2,3) calculation(2)
      by (intro "1.IH"(2) [where k = "Suc k", OF bsz(1) [symmetric] _ _ refl refl _ _ _ _ _ _ refl]) auto
    ultimately show ?thesis by (simp add: add.commute)
  qed
qed

lemma scanned_same:
  assumes ok: "base_ok bsz base"
  shows "\<exists>ops. scanned sha base (signatures sha base bsz) = (length base div bsz * bsz, ops, [])
    \<and> list_all is_copy ops"
proof (cases "bsz \<le> length base")
  case True
  with ok delta_scan_same [OF ok refl refl, of 0 0 _ "[]" "[]"] show ?thesis
    by (simp add: scanned_def base_ok_def signatures_chunks)
next
  case False
  with ok show ?thesis by (simp add: scanned_def base_ok_def signatures_chunks)
qed

lemma tail_block_rest:
  assumes ok: "base_ok bsz base" and q: "q = length base div bsz" "drop (q * bsz) base \<noteq> []"
  shows "tail_block (signatures sha base bsz) = Some (word_of_nat q, length (drop (q * bsz) base))"
    and "chunk bsz base q = drop (q * bsz) base" and "q < nblocks bsz base"
proof -
  from ok have pos: "0 < bsz" by (simp add: base_ok_def)
  from q pos have lt: "q * bsz < length base" and short: "length base - q * bsz < bsz"
    by (simp, simp add: minus_div_mult_eq_mod)
  from lt pos show less: "q < nblocks bsz base" by (simp add: nblocks_iff)
  from short pos have "\<not> Suc q < nblocks bsz base" by (simp add: nblocks_iff)
  with less have last: "nblocks bsz base - 1 = q" by simp
  show c: "chunk bsz base q = drop (q * bsz) base" using short by (simp add: chunk_def)
  show "tail_block (signatures sha base bsz) = Some (word_of_nat q, length (drop (q * bsz) base))"
    using block_len_chunk [OF ok less, of sha] c last less short lt pos
    by (simp add: tail_block_def Let_def signatures_chunks)
qed

lemma delta_same_copies:
  assumes ok: "base_ok bsz base"
  shows "list_all is_copy (delta_from_bytes sha base (signatures sha base bsz))"
proof (cases "nblocks bsz base = 0")
  case True
  with ok nblocks_iff [of bsz 0 base] have "base = []" by (simp add: base_ok_def)
  with ok show ?thesis by (simp add: delta_from_bytes_def base_ok_def signatures_chunks Let_def)
next
  case False
  let ?sig = "signatures sha base bsz" and ?q = "length base div bsz"
  from ok have pos: "0 < bsz" by (simp add: base_ok_def)
  have ne: "block_size ?sig \<noteq> 0" "blocks ?sig \<noteq> []" using pos False by (auto simp: signatures_chunks)
  obtain ops where sc: "scanned sha base ?sig = (?q * bsz, ops, [])" and copies: "list_all is_copy ops"
    using scanned_same [OF ok, of sha] by blast
  have le: "?q * bsz \<le> length base" by simp
  from sc ne le show ?thesis
  proof (cases rule: delta_cases)
    case (tail idx)
    with copies show ?thesis by (simp add: flush_literal_def list_all_push_copy)
  next
    case rest
    have "drop (?q * bsz) base = []"
    proof (rule ccontr)
      assume "drop (?q * bsz) base \<noteq> []"
      from tail_block_rest(1) [OF ok refl this, of sha] tail_block_rest(2,3) [OF ok refl this]
        rest(2) ok pos show False
        by (simp add: signatures_chunks sig_of_def unat_index)
    qed
    with rest(1) copies show ?thesis by (simp add: flush_literal_def)
  qed
qed

section \<open>Properties\<close>

text \<open>The state a scan carries when no window matches: one roll per position.\<close>

primrec rolled :: "bytes \<Rightarrow> nat \<Rightarrow> nat \<Rightarrow> Rolling" where
  "rolled data bsz 0 = rolling_new (sub_slice data 0 bsz)"
| "rolled data bsz (Suc p) = roll (rolled data bsz p) (data ! p) (data ! (p + bsz))"

text \<open>
  C27 (rolling_exact). At every offset of any data, the checksum rolled byte by byte from the first
  window equals the checksum computed afresh over the window at that offset.
\<close>

theorem rolling_exact:
  assumes "0 < bsz" and "pos + bsz \<le> length data"
  shows "digest (rolled data bsz pos) = weak_checksum (sub_slice data pos bsz)"
proof -
  have "rolled data bsz pos = rolling_new (sub_slice data pos bsz)"
    using assms by (induction pos) (simp_all add: roll_window)
  then show ?thesis by (simp add: digest_new)
qed

theorem rolling_exact_witness:
  "digest (rolled [200, 7, 255, 3, 9] 3 2) = weak_checksum [255, 3, 9]"
  using rolling_exact [of 3 2 "[200, 7, 255, 3, 9]"] by (simp add: sub_slice_def)

lemmas delta_eval = delta_from_bytes_def signatures_chunks nblocks_def chunk_def upt_rec_numeral
  upt_rec sig_of_def build_table_def table_add_def block_len_def tail_block_def delta_scan.simps
  find_match_def rolling_new_def rolling_step_def roll_def digest_def weak_checksum_def
  weak_step_def strong_hash_def STRONG_LEN_def sub_slice_def push_copy_def flush_literal_def
  Let_def enumerate_eq_zip

text \<open>
  C17 (delta_rebuilds). The instructions computed from the primary's data against the signature of the
  replica's copy rebuild exactly the primary's data when applied to that copy, whatever the two
  files are, provided no window of the data collides with a block of the copy under the strong hash
  and the block indices fit 32 bits.
\<close>

theorem delta_rebuilds:
  assumes "base_ok bsz base" and "no_collision sha bsz base data"
  shows "apply_delta base (delta_from_bytes sha data (signatures sha base bsz)) bsz = Ok data"
  using delta_built [OF assms] by (simp add: built_def flush_literal_def)

theorem delta_rebuilds_witness:
  "delta_from_bytes (\<lambda>b. b) [9, 3, 4, 1, 2, 5] (signatures (\<lambda>b. b) [1, 2, 3, 4, 5] 2) =
     [Literal [9], Copy 1 1, Copy 0 1, Copy 2 1] \<and>
   apply_delta [1, 2, 3, 4, 5] [Literal [9], Copy 1 1, Copy 0 1, Copy 2 1] 2 = Ok [9, 3, 4, 1, 2, 5]"
proof -
  have ops: "delta_from_bytes (\<lambda>b. b) [9, 3, 4, 1, 2, 5] (signatures (\<lambda>b. b) [1, 2, 3, 4, 5] 2) =
     [Literal [9], Copy 1 1, Copy 0 1, Copy 2 1]"
    by (simp add: delta_eval)
  have "base_ok 2 [1, 2, 3, 4, 5]" by (simp add: base_ok_def nblocks_def)
  moreover have "no_collision (\<lambda>b. b) 2 [1, 2, 3, 4, 5] [9, 3, 4, 1, 2, 5]"
    by code_simp
  ultimately show ?thesis using delta_rebuilds ops by metis
qed

text \<open>
  When the primary's file equals the replica's copy, the delta holds
  only references to blocks, the short last block included: no file bytes travel.
\<close>

theorem unchanged_only_copies:
  assumes "base_ok bsz base"
  shows "\<forall>op \<in> set (delta_from_bytes sha base (signatures sha base bsz)). \<exists>i c. op = Copy i c"
proof
  fix op assume "op \<in> set (delta_from_bytes sha base (signatures sha base bsz))"
  with delta_same_copies [OF assms, of sha] have "is_copy op" by (auto simp: list_all_iff)
  then show "\<exists>i c. op = Copy i c" by (cases op) auto
qed

theorem unchanged_only_copies_witness:
  "filter (\<lambda>op. \<not> is_copy op)
     (delta_from_bytes (\<lambda>b. b) [1, 2, 1, 2, 5] (signatures (\<lambda>b. b) [1, 2, 1, 2, 5] 2)) = []"
proof -
  have "base_ok 2 [1, 2, 1, 2, 5]" by (simp add: base_ok_def nblocks_def)
  from unchanged_only_copies [OF this, of "\<lambda>b. b"] show ?thesis
    by (auto simp: filter_empty_conv)
qed

end
