(* ===== verification/Rolling_Wire.thy ===== *)
theory Rolling_Wire
  imports Rolling_Delta
begin

unbundle bit_operations_syntax

text \<open>
  The binary formats of block deltas, \<^verbatim>\<open>src/wolfha/replication/rolling.rs\<close>: signatures, the
  instructions of one file, and the bundle of a round. Decoders work on a position in the whole
  buffer, as the code does. The position is a \<open>nat\<close>: a buffer is shorter than \<open>2 ^ 63\<close> bytes and a
  32-bit length cannot take a sum past \<open>2 ^ 64\<close>. The one 64-bit length, in a bundle, can, and there
  the sum is taken modulo \<open>2 ^ 64\<close>; \<^term>\<open>None\<close> is the panic of a slice whose end lies before its
  start.
\<close>

datatype wire_error =
    SignatureTruncated
  | ZeroBlockSize
  | SignatureBlocksTruncated nat nat nat
  | CopyTruncated
  | ZeroLengthCopy
  | LiteralHeaderTruncated
  | LiteralBodyTruncated
  | UnknownTag u8
  | PathHeaderTruncated
  | PathTruncated
  | PathNotUtf8
  | OpsHeaderTruncated
  | OpsBodyTruncated

section \<open>Signatures\<close>

definition encode_block :: "BlockSig \<Rightarrow> bytes" where
  "encode_block b = to_le_bytes 4 (weak b) @ strong b"

definition encode_signatures :: "FileSignature \<Rightarrow> bytes" where
  "encode_signatures sig =
     to_le_bytes 4 (word_of_nat (block_size sig) :: u32)
     @ to_le_bytes 8 (word_of_nat (base_len sig) :: u64)
     @ to_le_bytes 4 (word_of_nat (length (blocks sig)) :: u32)
     @ concat (map encode_block (blocks sig))"

definition HDR :: nat where "HDR = 4 + 8 + 4"

definition REC :: nat where "REC = 4 + STRONG_LEN"

definition decode_block :: "bytes \<Rightarrow> nat \<Rightarrow> BlockSig" where
  "decode_block buf i =
     (let off = HDR + i * REC in
      \<lparr>weak = from_le_bytes (sub_slice buf off 4), strong = sub_slice buf (off + 4) STRONG_LEN\<rparr>)"

text \<open>The overflow checks of the code cannot fail: \<open>count\<close> is below \<open>2 ^ 32\<close>.\<close>

definition decode_signatures :: "bytes \<Rightarrow> wire_error + FileSignature" where
  "decode_signatures buf =
     (if length buf < HDR then Err SignatureTruncated
      else
        let bsz = unat (from_le_bytes (sub_slice buf 0 4) :: u32);
            n = unat (from_le_bytes (sub_slice buf 4 8) :: u64);
            cnt = unat (from_le_bytes (sub_slice buf 12 4) :: u32)
        in if bsz = 0 then Err ZeroBlockSize
           else
             let need = HDR + cnt * REC in
             if length buf < need then Err (SignatureBlocksTruncated (length buf) cnt need)
             else Ok \<lparr>block_size = bsz, base_len = n, blocks = map (decode_block buf) [0..<cnt]\<rparr>)"

section \<open>Instructions\<close>

fun encode_op :: "DeltaOp \<Rightarrow> bytes" where
  "encode_op (Copy i c) = 0 # to_le_bytes 4 i @ to_le_bytes 4 c"
| "encode_op (Literal l) = 1 # to_le_bytes 4 (word_of_nat (length l) :: u32) @ l"

definition encode_delta :: "DeltaOp list \<Rightarrow> bytes" where
  "encode_delta ops = concat (map encode_op ops)"

function decode_delta_loop :: "bytes \<Rightarrow> nat \<Rightarrow> DeltaOp list \<Rightarrow> wire_error + DeltaOp list" where
  "decode_delta_loop buf p ops =
     (if p < length buf then
        let tag = buf ! p; i = p + 1 in
        if tag = 0 then
          if length buf < i + 8 then Err CopyTruncated
          else
            let idx = from_le_bytes (sub_slice buf i 4); cnt = from_le_bytes (sub_slice buf (i + 4) 4) in
            if cnt = 0 then Err ZeroLengthCopy
            else decode_delta_loop buf (i + 8) (ops @ [Copy idx cnt])
        else if tag = 1 then
          if length buf < i + 4 then Err LiteralHeaderTruncated
          else
            let l = unat (from_le_bytes (sub_slice buf i 4) :: u32); j = i + 4 in
            if length buf < j + l then Err LiteralBodyTruncated
            else decode_delta_loop buf (j + l) (ops @ [Literal (sub_slice buf j l)])
        else Err (UnknownTag tag)
      else Ok ops)"
  by pat_completeness auto
termination by (relation "measure (\<lambda>(buf, p, _). length buf - p)") auto

declare decode_delta_loop.simps [simp del]

definition decode_delta :: "bytes \<Rightarrow> wire_error + DeltaOp list" where
  "decode_delta buf = decode_delta_loop buf 0 []"

section \<open>Bundles\<close>

record FileDelta =
  path :: string
  ops :: "DeltaOp list"

definition pack_item :: "FileDelta \<Rightarrow> bytes" where
  "pack_item it =
     (let enc = encode_delta (ops it) in
      to_le_bytes 4 (word_of_nat (length (path it)) :: u32) @ as_bytes (path it)
      @ to_le_bytes 8 (word_of_nat (length enc) :: u64) @ enc)"

definition pack_file_deltas :: "FileDelta list \<Rightarrow> bytes" where
  "pack_file_deltas items = concat (map pack_item items)"

function unpack_loop :: "bytes \<Rightarrow> nat \<Rightarrow> FileDelta list \<Rightarrow> (wire_error + FileDelta list) option" where
  "unpack_loop buf i items =
     (if i < length buf then
        if length buf < i + 4 then Some (Err PathHeaderTruncated)
        else
          let plen = unat (from_le_bytes (sub_slice buf i 4) :: u32); i1 = i + 4 in
          if length buf < i1 + plen then Some (Err PathTruncated)
          else case from_utf8 (sub_slice buf i1 plen) of
            None \<Rightarrow> Some (Err PathNotUtf8)
          | Some p \<Rightarrow>
              let i2 = i1 + plen in
              if length buf < i2 + 8 then Some (Err OpsHeaderTruncated)
              else
                let olen = unat (from_le_bytes (sub_slice buf i2 8) :: u64); i3 = i2 + 8;
                    i4 = (i3 + olen) mod 2 ^ 64
                in if length buf < i4 then Some (Err OpsBodyTruncated)
                   else if i4 < i3 then None
                   else (case decode_delta (sub_slice buf i3 (i4 - i3)) of
                     Inl e \<Rightarrow> Some (Err e)
                   | Inr d \<Rightarrow> unpack_loop buf i4 (items @ [\<lparr>path = p, ops = d\<rparr>]))
      else Some (Ok items))"
  by pat_completeness auto
termination by (relation "measure (\<lambda>(buf, i, _). length buf - i)") auto

declare unpack_loop.simps [simp del]

definition unpack_file_deltas :: "bytes \<Rightarrow> (wire_error + FileDelta list) option" where
  "unpack_file_deltas buf = unpack_loop buf 0 []"

section \<open>Round trips\<close>

lemma unat_u32: "n < 2 ^ 32 \<Longrightarrow> unat (word_of_nat n :: u32) = n"
  and unat_u64: "m < 2 ^ 64 \<Longrightarrow> unat (word_of_nat m :: u64) = m"
  by (simp_all add: unat_of_nat take_bit_nat_eq_self)

lemma sub_slice_past [simp]:
  "length pre \<le> i \<Longrightarrow> sub_slice (pre @ xs) i n = sub_slice xs (i - length pre) n"
  by (simp add: sub_slice_def)

lemma sub_slice_tl [simp]: "0 < i \<Longrightarrow> sub_slice (x # xs) i n = sub_slice xs (i - 1) n"
  by (cases i) (simp_all add: sub_slice_def)

lemma sub_slice_0 [simp]: "length xs = n \<Longrightarrow> sub_slice (xs @ ys) 0 n = xs"
  by (simp add: sub_slice_def)

fun op_wire_ok :: "DeltaOp \<Rightarrow> bool" where
  "op_wire_ok (Copy i c) = (c \<noteq> 0)"
| "op_wire_ok (Literal l) = (length l < 2 ^ 32)"

lemma decode_delta_record:
  assumes "op_wire_ok op"
  shows "decode_delta_loop (pre @ encode_op op @ post) (length pre) acc =
         decode_delta_loop (pre @ encode_op op @ post) (length pre + length (encode_op op)) (acc @ [op])"
proof (cases op)
  case (Copy i c)
  with assms show ?thesis
    by (subst decode_delta_loop.simps) (simp add: Let_def nth_append ac_simps)
next
  case (Literal l)
  with assms have "unat (word_of_nat (length l) :: u32) = length l" by (simp add: unat_u32)
  with Literal show ?thesis
    by (subst decode_delta_loop.simps) (simp add: Let_def nth_append ac_simps)
qed

interpretation delta_frames: frame_loop encode_op op_wire_ok decode_delta_loop Ok
proof unfold_locales
  fix op pre post acc
  assume "op_wire_ok op"
  then show "decode_delta_loop (pre @ encode_op op @ post) (length pre) acc =
         decode_delta_loop (pre @ encode_op op @ post) (length pre + length (encode_op op)) (acc @ [op])"
    by (rule decode_delta_record)
next
  fix buf acc show "decode_delta_loop buf (length buf) acc = Ok acc"
    by (simp add: decode_delta_loop.simps)
qed

lemma decode_encode_delta:
  "list_all op_wire_ok xs \<Longrightarrow> length (encode_delta xs) < 2 ^ 63 \<Longrightarrow> decode_delta (encode_delta xs) = Ok xs"
  unfolding encode_delta_def decode_delta_def by (rule delta_frames.decode_all)

fun item_ok :: "FileDelta \<Rightarrow> bool" where
  "item_ok it = (utf8_valid (as_bytes (path it)) \<and> length (path it) < 2 ^ 32
     \<and> list_all op_wire_ok (ops it))"

declare item_ok.simps [simp del]

lemma unpack_record:
  assumes ok: "item_ok it" and small: "length (pre @ pack_item it @ post) < 2 ^ 63"
  shows "unpack_loop (pre @ pack_item it @ post) (length pre) acc =
         unpack_loop (pre @ pack_item it @ post) (length pre + length (pack_item it)) (acc @ [it])"
proof -
  define p where "p = as_bytes (path it)"
  define d where "d = encode_delta (ops it)"
  define H where "H = to_le_bytes 4 (word_of_nat (length p) :: u32)"
  define D where "D = to_le_bytes 8 (word_of_nat (length d) :: u64)"
  have buf: "pack_item it = H @ p @ D @ d"
    by (simp add: pack_item_def H_def D_def p_def d_def Let_def)
  have lens: "length H = 4" "length D = 8" by (simp_all add: H_def D_def)
  have small': "length pre + length p + length d + 12 < 2 ^ 63" using small lens by (simp add: buf)
  have plen: "unat (from_le_bytes H :: u32) = length p"
    using ok by (simp add: H_def unat_u32 p_def item_ok.simps)
  have dlen: "unat (from_le_bytes D :: u64) = length d"
    using small' by (simp add: D_def unat_u64)
  have nowrap: "(length pre + (length p + 12) + length d) mod 2 ^ 64 = length pre + (length p + 12) + length d"
    using small' by simp
  have path: "from_utf8 p = Some (path it)" using ok by (simp add: p_def item_ok.simps)
  have ops: "decode_delta d = Ok (ops it)"
    using ok small' decode_encode_delta [of "ops it"] by (simp add: d_def item_ok.simps)
  have it: "\<lparr>path = path it, ops = ops it\<rparr> = it" by simp
  show ?thesis
    unfolding buf
    by (subst unpack_loop.simps)
      (use lens plen dlen nowrap path ops in \<open>simp add: Let_def ac_simps it\<close>)
qed

interpretation bundle_frames: frame_loop pack_item item_ok unpack_loop "\<lambda>items. Some (Ok items)"
  by unfold_locales (rule unpack_record, assumption+, simp add: unpack_loop.simps)

lemma unpack_pack:
  "list_all item_ok items \<Longrightarrow> length (pack_file_deltas items) < 2 ^ 63 \<Longrightarrow>
   unpack_file_deltas (pack_file_deltas items) = Some (Ok items)"
  unfolding pack_file_deltas_def unpack_file_deltas_def by (rule bundle_frames.decode_all)

lemma length_encode_blocks:
  "list_all (\<lambda>b. length (strong b) = STRONG_LEN) xs \<Longrightarrow>
   length (concat (map encode_block xs)) = length xs * REC"
  by (induction xs) (auto simp: encode_block_def REC_def)

lemma decode_block_nth:
  assumes "list_all (\<lambda>b. length (strong b) = STRONG_LEN) bl" "i < length bl" "length hdr = HDR"
  shows "decode_block (hdr @ concat (map encode_block bl)) i = bl ! i"
proof -
  have "bl = take i bl @ bl ! i # drop (Suc i) bl" by (rule id_take_nth_drop [OF assms(2)])
  then have "concat (map encode_block bl) =
      concat (map encode_block (take i bl @ bl ! i # drop (Suc i) bl))" by (rule arg_cong)
  also have "\<dots> = concat (map encode_block (take i bl)) @ encode_block (bl ! i)
      @ concat (map encode_block (drop (Suc i) bl))"
    by (simp only: map_append concat_append list.map concat.simps)
  finally have split: "concat (map encode_block bl) = \<dots>" .
  have "list_all (\<lambda>b. length (strong b) = STRONG_LEN) (take i bl)"
    using assms(1) by (auto simp: list_all_iff dest: in_set_takeD)
  then have "length (concat (map encode_block (take i bl))) = i * REC"
    using length_encode_blocks [of "take i bl"] assms(2) by simp
  moreover have "length (strong (bl ! i)) = STRONG_LEN" using assms by (simp add: list_all_length)
  ultimately show ?thesis
    using assms(3) unfolding split decode_block_def by (simp add: encode_block_def Let_def)
qed

definition sig_ok :: "FileSignature \<Rightarrow> bool" where
  "sig_ok sig = (0 < block_size sig \<and> block_size sig < 2 ^ 32 \<and> base_len sig < 2 ^ 64
     \<and> length (blocks sig) < 2 ^ 32 \<and> list_all (\<lambda>b. length (strong b) = STRONG_LEN) (blocks sig))"

lemma decode_encode_signatures:
  assumes "sig_ok sig"
  shows "decode_signatures (encode_signatures sig) = Ok sig"
proof -
  let ?A = "to_le_bytes 4 (word_of_nat (block_size sig) :: u32)"
  let ?B = "to_le_bytes 8 (word_of_nat (base_len sig) :: u64)"
  let ?C = "to_le_bytes 4 (word_of_nat (length (blocks sig)) :: u32)"
  let ?D = "concat (map encode_block (blocks sig))"
  have enc: "encode_signatures sig = (?A @ ?B @ ?C) @ ?D" by (simp add: encode_signatures_def)
  have "decode_block (encode_signatures sig) i = blocks sig ! i" if "i < length (blocks sig)" for i
    using assms that unfolding enc by (intro decode_block_nth) (simp_all add: sig_ok_def HDR_def)
  then have "map (decode_block (encode_signatures sig)) [0..<length (blocks sig)] = blocks sig"
    by (intro nth_equalityI) simp_all
  with assms show ?thesis
    by (simp add: decode_signatures_def sig_ok_def Let_def HDR_def encode_signatures_def unat_u32 unat_u64
        length_encode_blocks)
qed

section \<open>Where the formats break\<close>

lemma decode_delta_loop_extends: "decode_delta_loop buf p acc = Ok r \<Longrightarrow> \<exists>s. r = acc @ s"
proof (induction buf p acc arbitrary: r rule: decode_delta_loop.induct)
  case (1 buf p acc)
  show ?case
    using "1.prems" "1.IH" by (subst (asm) decode_delta_loop.simps) (fastforce simp: Let_def split: if_splits)
qed

text \<open>
  A literal of \<open>2 ^ 32\<close> bytes or more does not survive the wire: its
  length is cut to 32 bits, and decoding what was encoded never gives the instruction back.
\<close>

theorem large_literal_corrupts:
  assumes "2 ^ 32 \<le> length l"
  shows "decode_delta (encode_delta [Literal l]) \<noteq> Ok [Literal l]"
proof
  let ?n = "unat (word_of_nat (length l) :: u32)"
  let ?H = "to_le_bytes 4 (word_of_nat (length l) :: u32)"
  have n: "?n < 2 ^ 32" using unsigned_less [of "word_of_nat (length l) :: u32"] by simp
  then have le: "?n \<le> length l" using assms by simp
  assume ok: "decode_delta (encode_delta [Literal l]) = Ok [Literal l]"
  have "decode_delta (encode_delta [Literal l]) =
      decode_delta_loop (1 # ?H @ l) (5 + ?n) [Literal (take ?n l)]"
    unfolding decode_delta_def encode_delta_def
    by (subst decode_delta_loop.simps) (use le in \<open>simp add: Let_def sub_slice_def\<close>)
  with ok decode_delta_loop_extends have "\<exists>s. [Literal l] = [Literal (take ?n l)] @ s" by metis
  then have "l = take ?n l" by simp
  then have "length l \<le> ?n" by (metis length_take min.cobounded2)
  with n assms show False by simp
qed

theorem large_literal_corrupts_witness:
  "decode_delta (encode_delta [Literal (replicate (2 ^ 32) 0)]) \<noteq> Ok [Literal (replicate (2 ^ 32) 0)]"
  using large_literal_corrupts [of "replicate (2 ^ 32) 0"] unfolding length_replicate by blast

text \<open>
  A bundle whose 64-bit instruction length overflows the position makes
  the reader panic instead of returning an error: the sum wraps to a value below the position, the
  truncation check passes, and the slice ends before it starts.
\<close>

theorem hostile_length_panics:
  fixes olen :: u64
  assumes "utf8_valid p" and "length p < 2 ^ 32" and "2 ^ 64 \<le> length p + 12 + unat olen"
  shows "unpack_file_deltas
      (to_le_bytes 4 (word_of_nat (length p) :: u32) @ p @ to_le_bytes 8 olen @ body) = None"
proof -
  have "unat olen < 2 ^ 64" using unsigned_less [of olen] by simp
  then have wrap: "(length p + 12 + unat olen) mod 2 ^ 64 = length p + 12 + unat olen - 2 ^ 64"
    using assms(2,3) by (subst mod_if) (simp add: mod_less)
  have "length p + 12 + unat olen - 2 ^ 64 < length p + 12" using \<open>unat olen < 2 ^ 64\<close> by linarith
  with wrap have lt: "(length p + 12 + unat olen) mod 2 ^ 64 < length p + 12" by simp
  show ?thesis
    unfolding unpack_file_deltas_def
    by (subst unpack_loop.simps)
      (use assms(1,2) lt in \<open>simp add: Let_def unat_u32 from_utf8_def ac_simps\<close>)
qed

theorem hostile_length_panics_witness:
  "unpack_file_deltas [0, 0, 0, 0, 255, 255, 255, 255, 255, 255, 255, 255] = None"
proof -
  let ?m = "0xFFFFFFFFFFFFFFFF :: u64"
  have "to_le_bytes 4 (0 :: u32) @ to_le_bytes 8 ?m =
      [0, 0, 0, 0, 255, 255, 255, 255, 255, 255, 255, 255]"
    by code_simp
  then show ?thesis using hostile_length_panics [of "[]" ?m "[]"] by simp
qed

end
