(* ===== verification/Ha_Sync.thy ===== *)
theory Ha_Sync
  imports Rolling_Wire "HOL-Library.Product_Lexorder"
begin

text \<open>
  A replication round of a container, \<^verbatim>\<open>src/wolfha/mod.rs\<close> and \<^verbatim>\<open>src/wolfha/replication/mod.rs\<close>: driver
  negotiation, manifests and their difference, the block-delta bundle built on the primary and
  applied on the replica, and the archive round with its deletions.

  A root file system maps relative paths to objects. The order in which a directory walk meets the
  objects is an argument, the archive tool is a function on file systems, and the clock is an
  argument where a file is written. Ownership, permissions and failing system calls are not part of
  the model, nor are paths that pass through symbolic links.
\<close>

datatype fs_node = RegFile bytes int | Directory | Symlink string | Special

type_synonym rootfs = "string \<Rightarrow> fs_node option"

section \<open>Drivers\<close>

datatype DriverKind = FileManifest | RollingDelta | QemuBitmap | ZfsSend

fun driver_rank :: "DriverKind \<Rightarrow> nat" where
  "driver_rank FileManifest = 0"
| "driver_rank RollingDelta = 1"
| "driver_rank QemuBitmap = 2"
| "driver_rank ZfsSend = 3"

record ReplicationCapabilities =
  drivers :: "DriverKind list"
  backing_id :: string
  cap_notes :: "string list"

definition capabilities_floor :: ReplicationCapabilities where
  "capabilities_floor = \<lparr>drivers = [FileManifest], backing_id = [], cap_notes = []\<rparr>"

definition supports :: "ReplicationCapabilities \<Rightarrow> DriverKind \<Rightarrow> bool" where
  "supports c d = (d \<in> set (drivers c))"

definition IMPLEMENTED_DRIVERS :: "DriverKind list" where
  "IMPLEMENTED_DRIVERS = [FileManifest, RollingDelta, QemuBitmap, ZfsSend]"

definition retain_implemented :: "ReplicationCapabilities \<Rightarrow> ReplicationCapabilities" where
  "retain_implemented c =
     (let ds = filter (\<lambda>d. d \<in> set IMPLEMENTED_DRIVERS) (drivers c) in
      c\<lparr>drivers := if FileManifest \<in> set ds then ds else ds @ [FileManifest]\<rparr>)"

text \<open>\<^verbatim>\<open>max_by_key\<close>: the last of the elements with the largest key.\<close>

definition max_by_rank :: "DriverKind list \<Rightarrow> DriverKind option" where
  "max_by_rank ds =
     foldl (\<lambda>b d. case b of None \<Rightarrow> Some d | Some x \<Rightarrow> if driver_rank x \<le> driver_rank d then Some d else b) None ds"

definition negotiate :: "ReplicationCapabilities \<Rightarrow> ReplicationCapabilities \<Rightarrow> DriverKind" where
  "negotiate local remote =
     unwrap_or FileManifest (max_by_rank (filter (supports remote) (drivers local)))"

section \<open>Manifests\<close>

record ManifestEntry =
  me_p :: string
  me_k :: string
  me_s :: nat
  me_m :: int
  me_t :: string

definition SYNC_EXCLUDE_TOP :: "string list" where
  "SYNC_EXCLUDE_TOP = [''proc'', ''sys'', ''dev'']"

text \<open>
  The objects a walk lists: everything but names with a newline and the contents of the excluded
  top-level directories.
\<close>

definition walked :: "string \<Rightarrow> bool" where
  "walked rel =
     (rel \<noteq> [] \<and> nl \<notin> set rel
      \<and> \<not> (CHR ''/'' \<in> set rel \<and> hd (split_char (CHR ''/'') rel) \<in> set SYNC_EXCLUDE_TOP))"

fun manifest_entry :: "string \<Rightarrow> fs_node \<Rightarrow> ManifestEntry" where
  "manifest_entry rel Directory = \<lparr>me_p = rel, me_k = ''d'', me_s = 0, me_m = 0, me_t = []\<rparr>"
| "manifest_entry rel (RegFile c mt) =
     \<lparr>me_p = rel, me_k = ''f'', me_s = length c, me_m = mt, me_t = []\<rparr>"
| "manifest_entry rel (Symlink tg) = \<lparr>me_p = rel, me_k = ''l'', me_s = 0, me_m = 0, me_t = tg\<rparr>"
| "manifest_entry rel Special = \<lparr>me_p = rel, me_k = ''o'', me_s = 0, me_m = 0, me_t = []\<rparr>"

definition build_manifest :: "string list \<Rightarrow> rootfs \<Rightarrow> ManifestEntry list" where
  "build_manifest walk fs =
     List.map_filter
       (\<lambda>rel. if walked rel then map_option (manifest_entry rel) (fs rel) else None) walk"

text \<open>What one local entry adds to the paths to ship and to the deletions.\<close>

definition entry_diff :: "(string, ManifestEntry) map \<Rightarrow> ManifestEntry \<Rightarrow> string list \<times> string list" where
  "entry_diff remote le =
     (case remote (me_p le) of
        None \<Rightarrow> ([me_p le], [])
      | Some re \<Rightarrow>
          if me_k re \<noteq> me_k le then ([me_p le], [me_p le])
          else if me_k le = ''f'' \<and> (me_s le \<noteq> me_s re \<or> me_m le \<noteq> me_m re) then ([me_p le], [])
          else if me_k le = ''l'' \<and> me_t le \<noteq> me_t re then ([me_p le], [])
          else ([], []))"

definition sort_deletions :: "string list \<Rightarrow> string list" where
  "sort_deletions ds = rev (sort_key (\<lambda>d. (length d, d)) ds)"

definition manifest_diff :: "ManifestEntry list \<Rightarrow> ManifestEntry list \<Rightarrow> string list \<times> string list" where
  "manifest_diff local remote =
     (let remote_map = map_of (rev (map (\<lambda>e. (me_p e, e)) remote));
          local_set = me_p ` set local;
          diffs = map (entry_diff remote_map) local;
          changed = concat (map fst diffs);
          deletions = concat (map snd diffs)
            @ map me_p (filter (\<lambda>re. me_p re \<notin> local_set) remote)
      in (changed, remdups_adj (sort_deletions deletions)))"

definition is_safe_rel_path :: "string \<Rightarrow> bool" where
  "is_safe_rel_path p =
     (p \<noteq> [] \<and> hd p \<noteq> CHR ''/'' \<and> CHR 0x00 \<notin> set p
      \<and> \<not> list_ex (\<lambda>c. c = ''..'' \<or> c = [] \<or> c = ''.'') (split_char (CHR ''/'') p))"

section \<open>The archive round\<close>

datatype sync_error =
    RootfsMissing
  | ContainerRunning
  | UnsafeDeletion string
  | TarFailed string
  | UnsafePath string
  | NotOnReplica string
  | BadBundle wire_error
  | BadDelta string delta_error

definition remove_dir_all :: "rootfs \<Rightarrow> string \<Rightarrow> rootfs" where
  "remove_dir_all fs d = (\<lambda>q. if q = d \<or> starts_with (d @ ''/'') q then None else fs q)"

definition delete_one :: "rootfs \<times> nat \<Rightarrow> string \<Rightarrow> rootfs \<times> nat" where
  "delete_one st d =
     (case st of (fs, n) \<Rightarrow>
        case fs d of
          None \<Rightarrow> (fs, n)
        | Some Directory \<Rightarrow> (remove_dir_all fs d, n + 1)
        | Some _ \<Rightarrow> (fs(d := None), n + 1))"

text \<open>
  \<open>untar\<close> is the archive tool applied to the shipped archive: an error message if it fails, and the
  file system it leaves.
\<close>

definition apply_archive ::
  "(rootfs \<Rightarrow> string option \<times> rootfs) \<Rightarrow> bool \<Rightarrow> rootfs option \<Rightarrow> string list \<Rightarrow>
   rootfs option \<times> (sync_error + nat)" where
  "apply_archive untar running replica deletions =
     (case replica of
        None \<Rightarrow> (None, Err RootfsMissing)
      | Some fs \<Rightarrow>
          if running then (Some fs, Err ContainerRunning)
          else case find (\<lambda>d. \<not> is_safe_rel_path d) deletions of
            Some d \<Rightarrow> (Some fs, Err (UnsafeDeletion d))
          | None \<Rightarrow>
              (case untar fs of
                 (Some e, fs1) \<Rightarrow> (Some fs1, Err (TarFailed e))
               | (None, fs1) \<Rightarrow>
                   let (fs2, deleted) = foldl delete_one (fs1, 0) (sort_deletions deletions)
                   in (Some fs2, Ok deleted)))"

section \<open>The block-delta round\<close>

fun read_file :: "rootfs \<Rightarrow> string \<Rightarrow> bytes option" where
  "read_file fs rel = (case fs rel of Some (RegFile c _) \<Rightarrow> Some c | _ \<Rightarrow> None)"

declare read_file.simps [simp del]

text \<open>The replica's answer to a request for signatures: safe paths of regular files only.\<close>

definition signature_reply ::
  "(bytes \<Rightarrow> bytes) \<Rightarrow> rootfs \<Rightarrow> string list \<Rightarrow> (string, bytes) hashmap" where
  "signature_reply sha fs paths =
     List.map_filter
       (\<lambda>rel. if is_safe_rel_path rel
              then map_option (\<lambda>c. (rel, encode_signatures (signatures sha c BLOCK_SIZE))) (read_file fs rel)
              else None) paths"

definition build_one ::
  "(bytes \<Rightarrow> bytes) \<Rightarrow> rootfs \<Rightarrow> (string, bytes) hashmap \<Rightarrow> string \<Rightarrow> FileDelta option" where
  "build_one sha fs sigs rel =
     (case map_of sigs rel of
        None \<Rightarrow> None
      | Some raw \<Rightarrow>
          (case decode_signatures raw of
             Inl _ \<Rightarrow> None
           | Inr sig \<Rightarrow>
               (case read_file fs rel of
                  None \<Rightarrow> None
                | Some data \<Rightarrow>
                    let d = delta_from_bytes sha data sig; encoded = length (encode_delta d) in
                    if length data \<le> encoded then None else Some \<lparr>path = rel, ops = d\<rparr>)))"

text \<open>
  The bundle, if any file is worth a delta, and the paths to send whole. \<open>staged\<close> says whether the
  bundle could be written to the staging directory.
\<close>

definition build_block_deltas ::
  "(bytes \<Rightarrow> bytes) \<Rightarrow> bool \<Rightarrow> rootfs \<Rightarrow> string list \<Rightarrow> (string, bytes) hashmap \<Rightarrow>
   bytes option \<times> string list" where
  "build_block_deltas sha staged fs paths sigs =
     (let items = List.map_filter (build_one sha fs sigs) paths;
          fell_back = filter (\<lambda>rel. build_one sha fs sigs rel = None) paths
      in if items = [] then (None, fell_back)
         else if \<not> staged then (None, fell_back @ map path items)
         else (Some (pack_file_deltas items), fell_back))"

definition install_reconstructed_file ::
  "int \<Rightarrow> rootfs \<Rightarrow> string \<Rightarrow> bytes \<Rightarrow> DeltaOp list \<Rightarrow> rootfs \<times> (sync_error + unit)" where
  "install_reconstructed_file now fs rel base d =
     (let tmp = rel @ ''.wolfha-delta'' in
      case apply_delta base d BLOCK_SIZE of
        Inl e \<Rightarrow> (fs(tmp := None), Err (BadDelta rel e))
      | Inr out \<Rightarrow> (fs(tmp := None, rel \<mapsto> RegFile out now), Ok ()))"

fun apply_items ::
  "int \<Rightarrow> rootfs \<Rightarrow> FileDelta list \<Rightarrow> nat \<Rightarrow> rootfs \<times> (sync_error + nat)" where
  "apply_items now fs [] n = (fs, Ok n)"
| "apply_items now fs (it # items) n =
     (if \<not> is_safe_rel_path (path it) then (fs, Err (UnsafePath (path it)))
      else case read_file fs (path it) of
        None \<Rightarrow> (fs, Err (NotOnReplica (path it)))
      | Some base \<Rightarrow>
          (case install_reconstructed_file now fs (path it) base (ops it) of
             (fs', Inl e) \<Rightarrow> (fs', Err e)
           | (fs', Inr _) \<Rightarrow> apply_items now fs' items (n + 1)))"

definition apply_block_deltas ::
  "int \<Rightarrow> rootfs \<Rightarrow> bytes \<Rightarrow> (rootfs \<times> (sync_error + nat)) option" where
  "apply_block_deltas now fs blob =
     (case unpack_file_deltas blob of
        None \<Rightarrow> None
      | Some (Inl e) \<Rightarrow> Some (fs, Err (BadBundle e))
      | Some (Inr items) \<Rightarrow> Some (apply_items now fs items 0))"

end
