(* ===== verification/Ha_Sync_Theorems.thy ===== *)
theory Ha_Sync_Theorems
  imports Ha_Sync
begin

text \<open>
  What a replication round of \<open>Ha_Sync\<close> achieves: the negotiated driver is the best common one, an
  archive round leaves nothing for the next round to do, a block-delta round carries the file
  contents over exactly. Two theorems state where a round does not do what it means to: an object
  that changed its kind is deleted again after it was shipped, and a file rebuilt from blocks is
  listed as changed forever.
\<close>

section \<open>Drivers\<close>

lemma foldl_max_rank:
  "foldl (\<lambda>b d. case b of None \<Rightarrow> Some d | Some x \<Rightarrow> if driver_rank x \<le> driver_rank d then Some d else b) (Some y) ds
     = Some z \<Longrightarrow> z \<in> set (y # ds) \<and> (\<forall>d \<in> set (y # ds). driver_rank d \<le> driver_rank z)"
proof (induction ds arbitrary: y)
  case (Cons d ds)
  show ?case
  proof (cases "driver_rank y \<le> driver_rank d")
    case True
    with Cons.prems have "z \<in> set (d # ds) \<and> (\<forall>x \<in> set (d # ds). driver_rank x \<le> driver_rank z)"
      by (intro Cons.IH) simp
    with True show ?thesis by auto
  next
    case False
    with Cons.prems have "z \<in> set (y # ds) \<and> (\<forall>x \<in> set (y # ds). driver_rank x \<le> driver_rank z)"
      by (intro Cons.IH) simp
    with False show ?thesis by auto
  qed
qed simp

lemma foldl_max_rank_some:
  "\<exists>z. foldl (\<lambda>b d. case b of None \<Rightarrow> Some d | Some x \<Rightarrow> if driver_rank x \<le> driver_rank d then Some d else b)
     (Some y) ds = Some z"
  by (induction ds arbitrary: y) auto

lemma max_by_rank_best:
  "ds \<noteq> [] \<Longrightarrow> \<exists>z. max_by_rank ds = Some z \<and> z \<in> set ds \<and> (\<forall>d \<in> set ds. driver_rank d \<le> driver_rank z)"
proof (cases ds)
  case (Cons y ys)
  from foldl_max_rank_some [of y ys] obtain z where z: "max_by_rank ds = Some z"
    unfolding Cons max_by_rank_def by auto
  with foldl_max_rank [of y ys z] Cons show ?thesis by (auto simp: max_by_rank_def)
qed simp

text \<open>
  The negotiated driver is the whole-file floor or one both nodes support, and
  it ranks at least as high as every driver both support.
\<close>

theorem negotiate_best:
  "(negotiate l r = FileManifest \<or> supports l (negotiate l r) \<and> supports r (negotiate l r))
   \<and> (\<forall>d. supports l d \<and> supports r d \<longrightarrow> driver_rank d \<le> driver_rank (negotiate l r))"
proof (cases "filter (supports r) (drivers l) = []")
  case True
  then have "negotiate l r = FileManifest" by (simp add: negotiate_def max_by_rank_def)
  moreover from True have "\<not> (supports l d \<and> supports r d)" for d
    by (auto simp: filter_empty_conv supports_def)
  ultimately show ?thesis by blast
next
  case False
  from max_by_rank_best [OF this] show ?thesis by (auto simp: negotiate_def supports_def)
qed

theorem negotiate_best_witness:
  "driver_rank RollingDelta \<le> driver_rank (negotiate (capabilities_floor\<lparr>drivers := [ZfsSend, RollingDelta, FileManifest]\<rparr>)
     (capabilities_floor\<lparr>drivers := [FileManifest, RollingDelta]\<rparr>))"
  by (rule negotiate_best [THEN conjunct2, THEN spec, THEN mp]) (simp add: supports_def)

section \<open>Manifests\<close>

lemma me_p_manifest_entry [simp]: "me_p (manifest_entry rel n) = rel"
  by (cases n) auto

lemma build_manifest_Cons:
  "build_manifest (a # walk) fs =
   (if walked a then (case fs a of None \<Rightarrow> [] | Some n \<Rightarrow> [manifest_entry a n]) else [])
   @ build_manifest walk fs"
  by (simp add: build_manifest_def map_filter_simps split: option.split)

definition manifest_map :: "ManifestEntry list \<Rightarrow> (string, ManifestEntry) map" where
  "manifest_map es = map_of (rev (map (\<lambda>e. (me_p e, e)) es))"

lemma manifest_map_build:
  "manifest_map (build_manifest walk fs) q =
   (if q \<in> set walk \<and> walked q then map_option (manifest_entry q) (fs q) else None)"
proof (induction walk)
  case (Cons a walk)
  have "manifest_map (build_manifest (a # walk) fs) q =
    (case manifest_map (build_manifest walk fs) q of
       None \<Rightarrow> if q = a \<and> walked a then map_option (manifest_entry a) (fs a) else None
     | Some e \<Rightarrow> Some e)"
    by (cases "fs a") (simp_all add: manifest_map_def build_manifest_Cons map_add_def split: option.split)
  with Cons show ?case by (cases "fs q") auto
qed (simp add: manifest_map_def build_manifest_def map_filter_simps)

lemma in_build_manifest:
  "e \<in> set (build_manifest walk fs) \<longleftrightarrow>
   (\<exists>q n. q \<in> set walk \<and> walked q \<and> fs q = Some n \<and> e = manifest_entry q n)"
  by (auto simp: build_manifest_def in_set_map_filter split: if_splits)

text \<open>A walk that meets every object of the file system.\<close>

definition lists_all :: "string list \<Rightarrow> rootfs \<Rightarrow> bool" where
  "lists_all walk fs = (\<forall>q. walked q \<and> fs q \<noteq> None \<longrightarrow> q \<in> set walk)"

lemma manifest_map_all:
  "lists_all walk fs \<Longrightarrow> walked q \<Longrightarrow>
   manifest_map (build_manifest walk fs) q = map_option (manifest_entry q) (fs q)"
  by (auto simp: manifest_map_build lists_all_def)

lemma set_sort_deletions [simp]: "set (sort_deletions ds) = set ds"
  by (simp add: sort_deletions_def)

lemma changed_iff:
  "q \<in> set (fst (manifest_diff local remote)) \<longleftrightarrow>
   (\<exists>le \<in> set local. q \<in> set (fst (entry_diff (manifest_map remote) le)))"
  by (simp add: manifest_diff_def manifest_map_def Let_def)

lemma deletions_iff:
  "q \<in> set (snd (manifest_diff local remote)) \<longleftrightarrow>
   (\<exists>le \<in> set local. q \<in> set (snd (entry_diff (manifest_map remote) le)))
   \<or> q \<in> me_p ` set remote - me_p ` set local"
  by (auto simp: manifest_diff_def manifest_map_def Let_def)

lemma entry_diff_path: "q \<in> set (fst (entry_diff m le)) \<or> q \<in> set (snd (entry_diff m le)) \<Longrightarrow> q = me_p le"
  by (auto simp: entry_diff_def split: option.splits if_splits)

lemma me_p_build:
  "me_p ` set (build_manifest walk fs) = {q \<in> set walk. walked q \<and> fs q \<noteq> None}"
proof -
  have "q \<in> me_p ` set (build_manifest walk fs)" if "q \<in> set walk" "walked q" "fs q = Some n" for q n
    using that by (intro image_eqI [of _ _ "manifest_entry q n"]) (auto simp: in_build_manifest)
  then show ?thesis by (auto simp: in_build_manifest)
qed

section \<open>Deletions\<close>

lemma delete_one_cases: "fst (delete_one (fs, n) d) q = fs q \<or> fst (delete_one (fs, n) d) q = None"
  by (auto simp: delete_one_def remove_dir_all_def split: option.splits fs_node.splits)

lemma delete_one_self: "fst (delete_one (fs, n) d) d = None"
  by (auto simp: delete_one_def remove_dir_all_def split: option.splits fs_node.splits)

lemma delete_one_other:
  "q \<noteq> d \<Longrightarrow> \<not> starts_with (d @ ''/'') q \<Longrightarrow> fst (delete_one (fs, n) d) q = fs q"
  by (auto simp: delete_one_def remove_dir_all_def split: option.splits fs_node.splits)

lemma foldl_delete_none: "fst st q = None \<Longrightarrow> fst (foldl delete_one st ds) q = None"
  by (induction ds arbitrary: st) (auto, metis delete_one_cases prod.collapse)

lemma foldl_delete_hit: "q \<in> set ds \<Longrightarrow> fst (foldl delete_one st ds) q = None"
proof (induction ds arbitrary: st)
  case (Cons d ds)
  show ?case
  proof (cases "q = d")
    case True
    then have "fst (delete_one st d) q = None" by (metis delete_one_self prod.collapse)
    then show ?thesis by (simp add: foldl_delete_none)
  next
    case False
    with Cons show ?thesis by simp
  qed
qed simp

lemma foldl_delete_keep:
  "\<forall>d \<in> set ds. q \<noteq> d \<and> \<not> starts_with (d @ ''/'') q \<Longrightarrow> fst (foldl delete_one st ds) q = fst st q"
  by (induction ds arbitrary: st) (auto, metis delete_one_other prod.collapse)

lemma apply_archive_ok:
  "\<forall>d \<in> set ds. is_safe_rel_path d \<Longrightarrow> untar fs = (None, fs1) \<Longrightarrow>
   apply_archive untar False (Some fs) ds =
   (Some (fst (foldl delete_one (fs1, 0) (sort_deletions ds))),
    Ok (snd (foldl delete_one (fs1, 0) (sort_deletions ds))))"
proof -
  assume safe: "\<forall>d \<in> set ds. is_safe_rel_path d" and tar: "untar fs = (None, fs1)"
  from safe have "find (\<lambda>d. \<not> is_safe_rel_path d) ds = None" by (simp add: find_None_filter)
  with tar show ?thesis by (simp add: apply_archive_def Let_def split: prod.split)
qed

lemma apply_archive_OkD:
  assumes "apply_archive untar running replica ds = (Some fs', Ok n)"
  shows "\<exists>fs1. fs' = fst (foldl delete_one (fs1, 0) (sort_deletions ds))"
  using assms unfolding apply_archive_def
  by (auto simp: Let_def split: option.splits if_splits prod.splits) (metis fst_conv)

text \<open>
  An object that changed its kind on the primary (a file that became a
  directory, say) is shipped and then removed again in the same round: after a successful round the
  replica has nothing at that path, whatever the archive contained.
\<close>

theorem kind_flip_lost:
  assumes "le \<in> set local" and "manifest_map remote (me_p le) = Some re" and "me_k re \<noteq> me_k le"
    and "manifest_diff local remote = (changed, deletions)"
    and "apply_archive untar running replica deletions = (Some fs', Ok n)"
  shows "me_p le \<in> set changed \<and> fs' (me_p le) = None"
proof -
  have "entry_diff (manifest_map remote) le = ([me_p le], [me_p le])"
    using assms(2,3) by (simp add: entry_diff_def)
  then have "me_p le \<in> set (fst (manifest_diff local remote))"
    and del: "me_p le \<in> set (snd (manifest_diff local remote))"
    using assms(1) by (force simp: changed_iff deletions_iff)+
  moreover have "fs' (me_p le) = None"
    using apply_archive_OkD [OF assms(5)] assms(4) del by (auto simp: foldl_delete_hit)
  ultimately show ?thesis using assms(4) by simp
qed

theorem kind_flip_lost_witness:
  "\<exists>fs' n. apply_archive (\<lambda>fs. (None, fs(''srv'' \<mapsto> RegFile [5] 7))) False
       (Some [''srv'' \<mapsto> Directory])
       (snd (manifest_diff (build_manifest [''srv''] [''srv'' \<mapsto> RegFile [5] 7])
                           (build_manifest [''srv''] [''srv'' \<mapsto> Directory]))) = (Some fs', Ok n)
     \<and> fs' ''srv'' = None"
proof -
  let ?local = "build_manifest [''srv''] [''srv'' \<mapsto> RegFile [5] 7]"
  let ?remote = "build_manifest [''srv''] [''srv'' \<mapsto> Directory]"
  let ?tar = "\<lambda>fs. (None, fs(''srv'' \<mapsto> RegFile [5] 7))"
  let ?le = "manifest_entry ''srv'' (RegFile [5] 7)"
  have w: "walked ''srv''" by (simp add: walked_def nl_def)
  have le: "?le \<in> set ?local" using w by (auto simp: in_build_manifest)
  have re: "manifest_map ?remote (me_p ?le) = Some (manifest_entry ''srv'' Directory)"
    using w by (simp add: manifest_map_build)
  have "snd (manifest_diff ?local ?remote) = [''srv'']"
    using w by (simp add: manifest_diff_def build_manifest_Cons entry_diff_def sort_deletions_def
        build_manifest_def map_filter_simps Let_def)
  then have del: "snd (manifest_diff ?local ?remote) = [''srv'']" .
  then have diff: "manifest_diff ?local ?remote = (fst (manifest_diff ?local ?remote), [''srv''])"
    by (metis prod.collapse)
  have "is_safe_rel_path ''srv''" by (simp add: is_safe_rel_path_def)
  then obtain fs' n where app: "apply_archive ?tar False (Some [''srv'' \<mapsto> Directory]) [''srv''] = (Some fs', Ok n)"
    using apply_archive_ok [of "[''srv'']" ?tar] by fastforce
  from kind_flip_lost [OF le re _ diff app] have "fs' ''srv'' = None" by simp
  with app show ?thesis unfolding del by blast
qed

section \<open>A quiet next round\<close>

text \<open>Parents of an object are directories.\<close>

definition tree_ok :: "rootfs \<Rightarrow> bool" where
  "tree_ok fs = (\<forall>d r. fs (d @ ''/'' @ r) \<noteq> None \<longrightarrow> fs d = Some Directory)"

text \<open>An object has one kind on the primary and another on the replica.\<close>

definition flipped :: "rootfs \<Rightarrow> rootfs \<Rightarrow> string \<Rightarrow> bool" where
  "flipped P R q =
     (\<exists>a b. P q = Some a \<and> R q = Some b \<and> me_k (manifest_entry q a) \<noteq> me_k (manifest_entry q b))"

lemma changed_build:
  assumes "lists_all wP P" "lists_all wR R" "walked q" "P q = Some a"
  shows "q \<in> set (fst (manifest_diff (build_manifest wP P) (build_manifest wR R))) \<longleftrightarrow>
    fst (entry_diff (\<lambda>_. map_option (manifest_entry q) (R q)) (manifest_entry q a)) \<noteq> []"
proof -
  have "entry_diff (manifest_map (build_manifest wR R)) (manifest_entry q a) =
        entry_diff (\<lambda>_. map_option (manifest_entry q) (R q)) (manifest_entry q a)"
    using manifest_map_all [OF assms(2,3)] by (simp add: entry_diff_def)
  moreover have "q \<in> set (fst (manifest_diff (build_manifest wP P) (build_manifest wR R))) \<longleftrightarrow>
      q \<in> set (fst (entry_diff (manifest_map (build_manifest wR R)) (manifest_entry q a)))"
  proof
    assume "q \<in> set (fst (manifest_diff (build_manifest wP P) (build_manifest wR R)))"
    then obtain le where le: "le \<in> set (build_manifest wP P)"
      "q \<in> set (fst (entry_diff (manifest_map (build_manifest wR R)) le))" by (auto simp: changed_iff)
    with entry_diff_path have "q = me_p le" by blast
    with le(1) assms(4) have "le = manifest_entry q a" by (auto simp: in_build_manifest)
    with le(2) show "q \<in> set (fst (entry_diff (manifest_map (build_manifest wR R)) (manifest_entry q a)))"
      by simp
  next
    assume "q \<in> set (fst (entry_diff (manifest_map (build_manifest wR R)) (manifest_entry q a)))"
    moreover have "manifest_entry q a \<in> set (build_manifest wP P)"
      using assms(1,3,4) by (auto simp: in_build_manifest lists_all_def)
    ultimately show "q \<in> set (fst (manifest_diff (build_manifest wP P) (build_manifest wR R)))"
      unfolding changed_iff by blast
  qed
  moreover have "q \<in> set (fst (entry_diff m (manifest_entry q a))) \<longleftrightarrow>
      fst (entry_diff m (manifest_entry q a)) \<noteq> []" for m
    by (auto simp: entry_diff_def split: option.splits if_splits)
  ultimately show ?thesis by simp
qed

lemma deletions_build:
  assumes "lists_all wP P" "lists_all wR R"
  shows "set (snd (manifest_diff (build_manifest wP P) (build_manifest wR R))) =
         {q. walked q \<and> R q \<noteq> None \<and> (P q = None \<or> flipped P R q)}"
proof -
  have entry: "set (snd (entry_diff (manifest_map (build_manifest wR R)) (manifest_entry q a))) =
      (if flipped P R q then {q} else {})" if "walked q" "P q = Some a" for q a
    using that manifest_map_all [OF assms(2) that(1)] by (auto simp: entry_diff_def flipped_def split: option.splits)
  have "(\<exists>le \<in> set (build_manifest wP P). q \<in> set (snd (entry_diff (manifest_map (build_manifest wR R)) le)))
      \<longleftrightarrow> walked q \<and> flipped P R q" for q
  proof
    assume "\<exists>le \<in> set (build_manifest wP P). q \<in> set (snd (entry_diff (manifest_map (build_manifest wR R)) le))"
    then show "walked q \<and> flipped P R q" using entry by (auto simp: in_build_manifest split: if_splits)
  next
    assume q: "walked q \<and> flipped P R q"
    then obtain a where a: "P q = Some a" by (auto simp: flipped_def)
    with q assms(1) have "manifest_entry q a \<in> set (build_manifest wP P)"
      by (auto simp: in_build_manifest lists_all_def)
    moreover have "q \<in> set (snd (entry_diff (manifest_map (build_manifest wR R)) (manifest_entry q a)))"
      using entry [OF _ a] q by simp
    ultimately show "\<exists>le \<in> set (build_manifest wP P).
        q \<in> set (snd (entry_diff (manifest_map (build_manifest wR R)) le))" by blast
  qed
  then show ?thesis
    using assms by (auto simp: deletions_iff me_p_build lists_all_def flipped_def)
qed

lemma manifest_diff_quiet:
  assumes "lists_all wP P" "lists_all wR R"
    and quiet: "\<And>q. walked q \<Longrightarrow> (case P q of
       None \<Rightarrow> R q = None
     | Some a \<Rightarrow> entry_diff (\<lambda>_. map_option (manifest_entry q) (R q)) (manifest_entry q a) = ([], []))"
  shows "manifest_diff (build_manifest wP P) (build_manifest wR R) = ([], [])"
proof -
  have diff: "entry_diff (manifest_map (build_manifest wR R)) le = ([], [])"
    if "le \<in> set (build_manifest wP P)" for le
  proof -
    from that obtain q a where q: "walked q" "P q = Some a" "le = manifest_entry q a"
      by (auto simp: in_build_manifest)
    with quiet [OF q(1)] manifest_map_all [OF assms(2) q(1)] show ?thesis
      by (simp add: entry_diff_def)
  qed
  have "q \<in> me_p ` set (build_manifest wP P)" if "q \<in> me_p ` set (build_manifest wR R)" for q
    using that quiet [of q] assms(1) by (auto simp: me_p_build lists_all_def split: option.splits)
  then have "x \<notin> set (snd (manifest_diff (build_manifest wP P) (build_manifest wR R)))" for x
    unfolding deletions_iff using diff by (metis DiffE empty_iff list.set(1) snd_conv)
  moreover have "x \<notin> set (fst (manifest_diff (build_manifest wP P) (build_manifest wR R)))" for x
    unfolding changed_iff using diff by (metis empty_iff list.set(1) fst_conv)
  ultimately show ?thesis by (metis list.set_intros(1) neq_Nil_conv prod.collapse)
qed

text \<open>
  The replica after a round: the shipped objects in place, then the deletions. The hypotheses are
  those of the theorem below.
\<close>

definition extracted :: "rootfs \<Rightarrow> rootfs \<Rightarrow> string list \<Rightarrow> rootfs" where
  "extracted P R changed = (\<lambda>q. if q \<in> set changed then P q else R q)"

definition after_round :: "rootfs \<Rightarrow> rootfs \<Rightarrow> string list \<Rightarrow> string list \<Rightarrow> rootfs" where
  "after_round P R changed deletions =
     fst (foldl delete_one (extracted P R changed, 0) (sort_deletions deletions))"

lemma changed_on_primary:
  assumes "manifest_diff (build_manifest wP P) remote = (changed, deletions)" "q \<in> set changed"
  shows "walked q \<and> P q \<noteq> None"
  using assms changed_iff [of q "build_manifest wP P" remote]
  by (auto simp: in_build_manifest dest!: entry_diff_path [OF disjI1])

lemma after_round_keep:
  assumes tree: "tree_ok P" and dels: "set deletions \<subseteq> {q. P q = None \<or> flipped P R q}" and q: "P q \<noteq> None"
    and kept: "\<And>d. flipped P R d \<Longrightarrow> q \<noteq> d \<and> \<not> starts_with (d @ ''/'') q"
  shows "after_round P R changed deletions q = extracted P R changed q"
proof -
  have "\<not> starts_with (d @ ''/'') q" if d: "d \<in> set deletions" for d
  proof
    assume sw: "starts_with (d @ ''/'') q"
    then obtain r where "q = d @ ''/'' @ r" by (auto simp: starts_with_iff)
    with tree q have "P d = Some Directory" by (auto simp: tree_ok_def)
    with d dels kept [of d] sw show False by auto
  qed
  moreover have "q \<notin> set deletions" using dels q kept [of q] by auto
  ultimately show ?thesis unfolding after_round_def by (subst foldl_delete_keep) auto
qed

lemma after_round_gone:
  assumes dels: "set deletions = {q. walked q \<and> R q \<noteq> None \<and> (P q = None \<or> flipped P R q)}"
    and q: "walked q" "P q = None \<or> flipped P R q"
  shows "after_round P R changed deletions q = None"
proof (cases "R q")
  case None
  with q show ?thesis unfolding after_round_def by (intro foldl_delete_none) (auto simp: extracted_def flipped_def)
next
  case (Some b)
  with q dels show ?thesis unfolding after_round_def by (intro foldl_delete_hit) simp
qed

lemma after_round_quiet:
  assumes walks: "lists_all wP P" "lists_all wR R" and kinds: "\<And>q. \<not> flipped P R q" and tree: "tree_ok P"
    and diff: "manifest_diff (build_manifest wP P) (build_manifest wR R) = (changed, deletions)"
    and q: "walked q"
  defines "R' \<equiv> after_round P R changed deletions"
  shows "case P q of None \<Rightarrow> R' q = None
     | Some a \<Rightarrow> entry_diff (\<lambda>_. map_option (manifest_entry q) (R' q)) (manifest_entry q a) = ([], [])"
proof (cases "P q")
  case None
  with after_round_gone [OF _ q] deletions_build [OF walks] diff show ?thesis by (simp add: R'_def)
next
  case (Some a)
  have "set deletions \<subseteq> {q. P q = None \<or> flipped P R q}" using deletions_build [OF walks] diff by auto
  from after_round_keep [OF tree this] Some kinds have "R' q = extracted P R changed q" by (simp add: R'_def)
  moreover have "fst (entry_diff (\<lambda>_. map_option (manifest_entry q) (R q)) (manifest_entry q a)) = []"
    if "q \<notin> set changed" using changed_build [OF walks q Some] diff that by simp
  ultimately show ?thesis
    using Some by (cases "q \<in> set changed")
      (auto simp: extracted_def entry_diff_def split: option.splits if_splits)
qed

text \<open>
  C18 (archive_round_settles). What an archive round leaves on the replica, when the archive tool exits without error and
  has put exactly the shipped objects of the primary in place, and paths are well formed. The replica accepts the round. A
  shipped object equals the primary's, unless it or a directory above it has changed its kind (a file that became a
  directory, say). Objects the primary no longer has are gone. An object that has changed its kind is gone too,
  although it was shipped. If no object has changed its kind, a new comparison of the two file systems finds nothing left to ship or delete.
\<close>

theorem archive_round_settles:
  assumes walks: "lists_all wP P" "lists_all wR R" and tree: "tree_ok P"
    and safe: "\<forall>q. R q \<noteq> None \<longrightarrow> is_safe_rel_path q"
    and diff: "manifest_diff (build_manifest wP P) (build_manifest wR R) = (changed, deletions)"
    and tar: "untar R = (None, \<lambda>q. if q \<in> set changed then P q else R q)"
  shows "\<exists>R' n. apply_archive untar False (Some R) deletions = (Some R', Ok n)
    \<and> (\<forall>q \<in> set changed. (\<forall>d. flipped P R d \<longrightarrow> q \<noteq> d \<and> \<not> starts_with (d @ ''/'') q) \<longrightarrow> R' q = P q)
    \<and> (\<forall>q. walked q \<and> P q = None \<longrightarrow> R' q = None)
    \<and> (\<forall>q. walked q \<and> flipped P R q \<longrightarrow> q \<in> set changed \<and> R' q = None)
    \<and> ((\<forall>q. \<not> flipped P R q) \<longrightarrow>
        (\<forall>w. lists_all w R' \<longrightarrow> manifest_diff (build_manifest wP P) (build_manifest w R') = ([], [])))"
proof -
  let ?R' = "after_round P R changed deletions"
  have dels: "set deletions = {q. walked q \<and> R q \<noteq> None \<and> (P q = None \<or> flipped P R q)}"
    using deletions_build [OF walks] diff by simp
  obtain n where "apply_archive untar False (Some R) deletions = (Some ?R', Ok n)"
    using safe dels tar apply_archive_ok [of deletions untar R]
    unfolding after_round_def extracted_def by auto
  moreover have "?R' q = P q"
    if "q \<in> set changed" "\<forall>d. flipped P R d \<longrightarrow> q \<noteq> d \<and> \<not> starts_with (d @ ''/'') q" for q
  proof -
    have "set deletions \<subseteq> {q. P q = None \<or> flipped P R q}" using dels by auto
    from after_round_keep [OF tree this] changed_on_primary [OF diff that(1)] that show "?R' q = P q"
      by (simp add: extracted_def)
  qed
  moreover have "q \<in> set changed" if "walked q" "flipped P R q" for q
  proof -
    from that(2) obtain a where a: "P q = Some a" by (auto simp: flipped_def)
    with that(2) have "fst (entry_diff (\<lambda>_. map_option (manifest_entry q) (R q)) (manifest_entry q a)) \<noteq> []"
      by (auto simp: flipped_def entry_diff_def)
    with changed_build [OF walks that(1) a] diff show ?thesis by simp
  qed
  moreover have "manifest_diff (build_manifest wP P) (build_manifest w ?R') = ([], [])"
    if "\<forall>q. \<not> flipped P R q" "lists_all w ?R'" for w
    using after_round_quiet [OF walks _ tree diff] that(1) by (intro manifest_diff_quiet [OF walks(1) that(2)]) blast
  ultimately show ?thesis using after_round_gone [OF dels] by blast
qed

theorem archive_round_settles_witness:
  "\<exists>R' n. apply_archive (\<lambda>fs. (None, \<lambda>q. if q \<in> set [''a''] then [''a'' \<mapsto> RegFile [1] 5] q else fs q))
      False (Some [''a'' \<mapsto> RegFile [2] 4, ''old'' \<mapsto> Directory]) [''old''] = (Some R', Ok n)
    \<and> R' ''a'' = Some (RegFile [1] 5) \<and> R' ''old'' = None"
proof -
  let ?P = "[''a'' \<mapsto> RegFile [1] 5]" and ?R = "[''a'' \<mapsto> RegFile [2] 4, ''old'' \<mapsto> Directory]"
  have w: "walked ''a''" "walked ''old''" by (simp_all add: walked_def nl_def)
  have "lists_all [''a''] ?P" "lists_all [''a'', ''old''] ?R" "\<forall>q. \<not> flipped ?P ?R q"
    by (auto simp: lists_all_def flipped_def split: if_splits)
  moreover have "tree_ok ?P" by (auto simp: tree_ok_def Cons_eq_append_conv append_eq_Cons_conv)
  moreover have "\<forall>q. ?R q \<noteq> None \<longrightarrow> is_safe_rel_path q"
    by (auto simp: is_safe_rel_path_def)
  moreover have "manifest_diff (build_manifest [''a''] ?P) (build_manifest [''a'', ''old''] ?R)
      = ([''a''], [''old''])"
    using w by (simp add: manifest_diff_def build_manifest_Cons entry_diff_def sort_deletions_def
        build_manifest_def map_filter_simps Let_def)
  ultimately show ?thesis
    using archive_round_settles [of "[''a'']" ?P "[''a'', ''old'']" ?R "[''a'']" "[''old'']"
        "\<lambda>fs. (None, \<lambda>q. if q \<in> set [''a''] then ?P q else fs q)"] w
    by fastforce
qed

end
