(* ===== verification/Ha_Blocks.thy ===== *)
theory Ha_Blocks
  imports Ha_Sync_Theorems
begin

text \<open>
  The block-delta round end to end: signatures answered by the replica, the bundle built on the
  primary, its wire format and its application compose to an exact copy of every file in the
  bundle. A file so rebuilt carries the time of the rebuild, so the next comparison lists it again.
\<close>

section \<open>Items of a bundle\<close>

definition tmp_of :: "string \<Rightarrow> string" where
  "tmp_of rel = rel @ ''.wolfha-delta''"

text \<open>
  What a path needs for its delta to be carried over: a name, a number of blocks and new stretches within
  the formats (a literal has a length field of 32 bits), and no collision. The files may be larger.
\<close>

fun literal_fits :: "DeltaOp \<Rightarrow> bool" where
  "literal_fits (Copy i c) = True"
| "literal_fits (Literal l) = (length l < 2 ^ 32)"

definition block_ok :: "(bytes \<Rightarrow> bytes) \<Rightarrow> rootfs \<Rightarrow> rootfs \<Rightarrow> string \<Rightarrow> bool" where
  "block_ok sha P R rel =
     (utf8_valid (as_bytes rel) \<and> length rel < 2 ^ 32
      \<and> (case (read_file R rel, read_file P rel) of
           (Some base, Some data) \<Rightarrow>
             base_ok BLOCK_SIZE base \<and> no_collision sha BLOCK_SIZE base data
             \<and> list_all literal_fits (delta_from_bytes sha data (signatures sha base BLOCK_SIZE))
         | _ \<Rightarrow> True))"

definition item_ready :: "rootfs \<Rightarrow> rootfs \<Rightarrow> FileDelta \<Rightarrow> bool" where
  "item_ready P R it =
     (is_safe_rel_path (path it)
      \<and> (case (read_file R (path it), read_file P (path it)) of
           (Some base, Some data) \<Rightarrow> apply_delta base (ops it) BLOCK_SIZE = Ok data
         | _ \<Rightarrow> False))"

lemma signature_reply_Some:
  "map_of (signature_reply sha R paths) rel = Some raw \<Longrightarrow>
   is_safe_rel_path rel \<and>
   (\<exists>base. read_file R rel = Some base \<and> raw = encode_signatures (signatures sha base BLOCK_SIZE))"
  by (drule map_of_SomeD) (auto simp: signature_reply_def in_set_map_filter split: if_splits)

lemma sig_ok_signatures:
  "base_ok BLOCK_SIZE base \<Longrightarrow> \<forall>b. STRONG_LEN \<le> length (sha b) \<Longrightarrow>
   sig_ok (signatures sha base BLOCK_SIZE)"
  by (auto simp: sig_ok_def base_ok_def signatures_chunks sig_of_def strong_hash_def list_all_iff
      BLOCK_SIZE_def min_absorb2)

lemma op_wire_ok_of: "list_all literal_fits xs \<Longrightarrow> list_all (op_ok n m) xs \<Longrightarrow> list_all op_wire_ok xs"
proof (induction xs)
  case (Cons x xs)
  then show ?case by (cases x) auto
qed simp

lemma build_one_path: "build_one sha P sigs rel = Some it \<Longrightarrow> path it = rel"
  by (auto simp: build_one_def Let_def split: option.splits sum.splits if_splits)

lemma build_one_item:
  assumes b: "build_one sha P (signature_reply sha R paths) rel = Some it"
    and ok: "block_ok sha P R rel" and sha: "\<forall>b. STRONG_LEN \<le> length (sha b)"
  shows "item_ok it" and "item_ready P R it"
proof -
  note p = build_one_path [OF b]
  from b obtain raw sig data where raw: "map_of (signature_reply sha R paths) rel = Some raw"
    and sig: "decode_signatures raw = Ok sig" and data: "read_file P rel = Some data"
    and it: "ops it = delta_from_bytes sha data sig"
    by (auto simp: build_one_def Let_def split: option.splits sum.splits if_splits)
  from signature_reply_Some [OF raw] obtain base where safe: "is_safe_rel_path rel"
    and base: "read_file R rel = Some base" and enc: "raw = encode_signatures (signatures sha base BLOCK_SIZE)"
    by blast
  from ok base data have h: "base_ok BLOCK_SIZE base" "no_collision sha BLOCK_SIZE base data"
    "list_all literal_fits (delta_from_bytes sha data (signatures sha base BLOCK_SIZE))" "utf8_valid (as_bytes rel)" "length rel < 2 ^ 32"
    by (simp_all add: block_ok_def)
  from sig enc decode_encode_signatures [OF sig_ok_signatures [OF h(1) sha]]
  have s: "sig = signatures sha base BLOCK_SIZE" by simp
  note built = delta_built [OF h(1,2), unfolded built_def]
  from built have "list_all op_wire_ok (ops it)"
    unfolding it s by (intro op_wire_ok_of [OF h(3), of "nblocks BLOCK_SIZE base" "length data"]) simp
  with h p show "item_ok it" by (simp add: item_ok.simps)
  from built have "apply_delta base (ops it) BLOCK_SIZE = Ok data"
    unfolding it s by (simp add: flush_literal_def)
  with safe base data p show "item_ready P R it" by (simp add: item_ready_def)
qed

section \<open>Applying a bundle\<close>

lemma read_file_upd [simp]:
  "read_file (fs(q := None)) r = (if r = q then None else read_file fs r)"
  "read_file (fs(q \<mapsto> RegFile c t)) r = (if r = q then Some c else read_file fs r)"
  by (simp_all add: read_file.simps)

definition no_clash :: "string list \<Rightarrow> bool" where
  "no_clash ps = (\<forall>a \<in> set ps. tmp_of a \<notin> set ps)"

lemma apply_items_ready:
  assumes "\<forall>it \<in> set items. item_ready P R it \<and> read_file fs (path it) = read_file R (path it)"
    and "distinct (map path items)" and "no_clash (map path items)"
  shows "\<exists>fs'. apply_items now fs items n = (fs', Ok (n + length items))
    \<and> (\<forall>it \<in> set items. read_file fs' (path it) = read_file P (path it) \<and> fs' (tmp_of (path it)) = None)
    \<and> (\<forall>q. q \<notin> path ` set items \<and> q \<notin> tmp_of ` path ` set items \<longrightarrow> fs' q = fs q)"
  using assms
proof (induction items arbitrary: fs n)
  case (Cons it items)
  from Cons.prems(1) obtain base data where b: "read_file fs (path it) = Some base"
    "read_file P (path it) = Some data" "apply_delta base (ops it) BLOCK_SIZE = Ok data"
    and safe: "is_safe_rel_path (path it)"
    by (auto simp: item_ready_def split: option.splits)
  define fs1 where "fs1 = fs(tmp_of (path it) := None, path it \<mapsto> RegFile data now)"
  have step: "apply_items now fs (it # items) n = apply_items now fs1 items (n + 1)"
    using b safe by (simp add: install_reconstructed_file_def fs1_def tmp_of_def Let_def)
  have other: "tmp_of (path it) \<noteq> path x \<and> path it \<noteq> path x \<and> tmp_of (path x) \<noteq> path it"
    if "x \<in> set items" for x
    using Cons.prems(2,3) that by (auto simp: no_clash_def)
  have "\<forall>x \<in> set items. item_ready P R x \<and> read_file fs1 (path x) = read_file R (path x)"
  proof
    fix x assume x: "x \<in> set items"
    with other [OF x] Cons.prems(1) show "item_ready P R x \<and> read_file fs1 (path x) = read_file R (path x)"
      by (auto simp: fs1_def)
  qed
  moreover have "distinct (map path items)" "no_clash (map path items)"
    using Cons.prems(2,3) by (auto simp: no_clash_def)
  ultimately obtain fs' where fs': "apply_items now fs1 items (n + 1) = (fs', Ok (n + 1 + length items))"
    "\<forall>x \<in> set items. read_file fs' (path x) = read_file P (path x) \<and> fs' (tmp_of (path x)) = None"
    "\<forall>q. q \<notin> path ` set items \<and> q \<notin> tmp_of ` path ` set items \<longrightarrow> fs' q = fs1 q"
    using Cons.IH [of fs1 "n + 1"] by blast
  have "path it \<notin> path ` set items" "path it \<notin> tmp_of ` path ` set items"
    using other by (force, force)
  with fs'(3) have keep: "fs' (path it) = fs1 (path it)" by blast
  have "tmp_of (path it) \<notin> path ` set items" "tmp_of (path it) \<notin> tmp_of ` path ` set items"
    using other by (force, force simp: tmp_of_def)
  with fs'(3) have "fs' (tmp_of (path it)) = fs1 (tmp_of (path it))" by blast
  then have tmp: "fs' (tmp_of (path it)) = None" by (simp add: fs1_def tmp_of_def)
  from keep have "read_file fs' (path it) = read_file P (path it)"
    using b(2) by (simp add: read_file.simps fs1_def)
  moreover have "fs' q = fs q"
    if "q \<notin> path ` set (it # items) \<and> q \<notin> tmp_of ` path ` set (it # items)" for q
    using that fs'(3) by (auto simp: fs1_def)
  ultimately show ?case using step fs' tmp by auto
qed simp

lemma path_map_filter:
  "map path (List.map_filter (build_one sha P sigs) paths) =
   filter (\<lambda>rel. build_one sha P sigs rel \<noteq> None) paths"
  by (induction paths) (auto simp: map_filter_simps build_one_path split: option.split)

text \<open>
  C15 (block_round_exact). A block-delta round carries contents over exactly. With the signatures the
  replica reports, the bundle the primary builds is accepted by the replica, and the paths in it are those asked
  for that did not fall back to the archive. Each of them then has the primary's bytes, and no object is left under its
  temporary name (\<^verbatim>\<open>.wolfha-delta\<close> appended); every other object of the replica, those that fell back
  included, is as it was. The files may be of any size up to \<open>2^32 - 1\<close> blocks; the conditions are that no stretch of new bytes in a
  delta reaches 4 GiB (the wire format cuts its length to 32 bits), the bundle has less than \<open>2^63\<close> bytes, names are valid UTF-8 below 4 GiB,
  different blocks of the two copies do not collide in their hash, and no path asked for is another's temporary name.
\<close>

theorem block_round_exact:
  assumes build: "build_block_deltas sha True P paths (signature_reply sha R paths) = (Some blob, fell_back)"
    and ok: "\<forall>rel \<in> set paths. block_ok sha P R rel" and sha: "\<forall>b. STRONG_LEN \<le> length (sha b)"
    and paths: "distinct paths" "no_clash paths" and blob: "length blob < 2 ^ 63"
  shows "\<exists>R'. apply_block_deltas now R blob = Some (R', Ok (length paths - length fell_back))
    \<and> (\<forall>rel \<in> set paths - set fell_back. read_file R' rel = read_file P rel \<and> R' (tmp_of rel) = None)
    \<and> (\<forall>q. q \<notin> set paths - set fell_back \<and> q \<notin> tmp_of ` (set paths - set fell_back) \<longrightarrow> R' q = R q)"
proof -
  let ?b = "build_one sha P (signature_reply sha R paths)"
  define items where "items = List.map_filter ?b paths"
  from build have enc: "blob = pack_file_deltas items" and fb: "fell_back = filter (\<lambda>rel. ?b rel = None) paths"
    by (auto simp: build_block_deltas_def items_def Let_def split: if_splits)
  have names: "map path items = filter (\<lambda>rel. ?b rel \<noteq> None) paths"
    unfolding items_def by (rule path_map_filter)
  then have "set (map path items) = set paths - set fell_back" unfolding fb by auto
  then have set_names: "path ` set items = set paths - set fell_back" by simp
  have good: "item_ok it \<and> item_ready P R it" if "it \<in> set items" for it
    using that build_one_item [OF _ _ sha] ok by (auto simp: items_def in_set_map_filter)
  then have un: "unpack_file_deltas blob = Some (Ok items)"
    using blob unfolding enc by (intro unpack_pack) (auto simp: list_all_iff)
  have "distinct (map path items)" "no_clash (map path items)"
    using paths unfolding names by (auto simp: no_clash_def)
  with good apply_items_ready [of items P R R now 0] obtain R' where
    R': "apply_items now R items 0 = (R', Ok (length items))"
    "\<forall>it \<in> set items. read_file R' (path it) = read_file P (path it) \<and> R' (tmp_of (path it)) = None"
    "\<forall>q. q \<notin> path ` set items \<and> q \<notin> tmp_of ` path ` set items \<longrightarrow> R' q = R q"
    by auto
  have "length items = length paths - length fell_back"
    using sum_length_filter_compl [of "\<lambda>rel. ?b rel \<noteq> None" paths] names fb
    by (metis (no_types, lifting) add_diff_cancel_right' filter_cong length_map)
  moreover have "read_file R' rel = read_file P rel \<and> R' (tmp_of rel) = None" if "rel \<in> set paths - set fell_back" for rel
    using that R'(2) unfolding set_names [symmetric] by auto
  ultimately show ?thesis
    using R' un unfolding apply_block_deltas_def set_names
    by (intro exI [of _ R']) auto
qed

lemma touched_file_ops:
  "delta_from_bytes (\<lambda>_. replicate 16 0) (replicate 20 0) (signatures (\<lambda>_. replicate 16 0) (replicate 20 0) BLOCK_SIZE) =
   [Copy 0 1]"
proof -
  let ?sha = "\<lambda>_::bytes. replicate 16 0 :: bytes" and ?f = "replicate 20 0 :: bytes"
  have n: "nblocks BLOCK_SIZE ?f = 1" by (rule nblocks_short) (simp_all add: BLOCK_SIZE_def)
  have c: "chunk BLOCK_SIZE ?f 0 = ?f" by (simp add: chunk_def BLOCK_SIZE_def)
  show ?thesis
    unfolding signatures_chunks [of BLOCK_SIZE, unfolded BLOCK_SIZE_def, simplified] BLOCK_SIZE_def
    using n c by (simp add: delta_from_bytes_def signatures_chunks BLOCK_SIZE_def sig_of_def
        tail_block_def block_len_def push_copy_def flush_literal_def Let_def strong_hash_def)
qed

lemma touched_file_delta:
  "build_one (\<lambda>_. replicate 16 0) [''db'' \<mapsto> RegFile (replicate 20 0) 9]
     (signature_reply (\<lambda>_. replicate 16 0) [''db'' \<mapsto> RegFile (replicate 20 0) 3] [''db'']) ''db''
   = Some \<lparr>path = ''db'', ops = [Copy 0 1]\<rparr>"
proof -
  let ?sha = "\<lambda>_::bytes. replicate 16 0 :: bytes" and ?f = "replicate 20 0 :: bytes"
  have n: "nblocks BLOCK_SIZE ?f = 1" by (rule nblocks_short) (simp_all add: BLOCK_SIZE_def)
  have ok: "base_ok BLOCK_SIZE ?f" using n by (simp add: base_ok_def BLOCK_SIZE_def)
  have dec: "decode_signatures (encode_signatures (signatures ?sha ?f BLOCK_SIZE)) =
      Ok (signatures ?sha ?f BLOCK_SIZE)"
    by (rule decode_encode_signatures) (rule sig_ok_signatures [OF ok], simp add: STRONG_LEN_def)
  then show ?thesis
    using touched_file_ops by (simp add: build_one_def signature_reply_def map_filter_simps is_safe_rel_path_def
        read_file.simps encode_delta_def Let_def)
qed

theorem block_round_exact_witness:
  "\<exists>R'. apply_block_deltas 11 [''db'' \<mapsto> RegFile (replicate 20 0) 3]
       (pack_file_deltas [\<lparr>path = ''db'', ops = [Copy 0 1]\<rparr>]) = Some (R', Ok 1)
     \<and> read_file R' ''db'' = Some (replicate 20 0)"
proof -
  let ?sha = "\<lambda>_::bytes. replicate 16 0 :: bytes" and ?f = "replicate 20 0 :: bytes"
  let ?P = "[''db'' \<mapsto> RegFile ?f 9]" and ?R = "[''db'' \<mapsto> RegFile ?f 3]"
  have n: "nblocks BLOCK_SIZE ?f = 1" by (rule nblocks_short) (simp_all add: BLOCK_SIZE_def)
  have c: "chunk BLOCK_SIZE ?f 0 = ?f" by (simp add: chunk_def BLOCK_SIZE_def)
  have whole: "u = ?f" if u: "sublist u ?f" "length u = 20" for u
  proof -
    from u(1) obtain ps ss where split: "?f = ps @ u @ ss" by (auto simp: sublist_def)
    from arg_cong [OF split, of length] u(2) have "ps = []" "ss = []" by simp_all
    with split show ?thesis by simp
  qed
  have nc: "no_collision ?sha BLOCK_SIZE ?f ?f"
    using n c whole by (auto simp: no_collision_def list_all_iff)
  have "build_block_deltas ?sha True ?P [''db''] (signature_reply ?sha ?R [''db'']) =
      (Some (pack_file_deltas [\<lparr>path = ''db'', ops = [Copy 0 1]\<rparr>]), [])"
    using touched_file_delta by (simp add: build_block_deltas_def map_filter_simps Let_def)
  moreover have "\<forall>rel \<in> set [''db'']. block_ok ?sha ?P ?R rel"
    using n nc touched_file_ops by (simp add: block_ok_def read_file.simps base_ok_def BLOCK_SIZE_def as_bytes_def
        in_range_def)
  moreover have "\<forall>b. STRONG_LEN \<le> length (?sha b)" by (simp add: STRONG_LEN_def)
  moreover have "distinct [''db'']" "no_clash [''db'']" by (simp_all add: no_clash_def tmp_of_def)
  moreover have "length (pack_file_deltas [\<lparr>path = ''db'', ops = [Copy 0 1]\<rparr>]) < 2 ^ 63"
    by (simp add: pack_file_deltas_def pack_item_def encode_delta_def Let_def)
  ultimately show ?thesis
    using block_round_exact [of ?sha ?P "[''db'']" ?R] by (fastforce simp: read_file.simps)
qed

section \<open>Times of rebuilt files\<close>

lemma apply_items_times:
  "apply_items now fs items n = (fs', Ok k) \<Longrightarrow>
   q \<in> path ` set items \<or> fs q = None \<or> (\<exists>c. fs q = Some (RegFile c now)) \<Longrightarrow>
   fs' q = None \<or> (\<exists>c. fs' q = Some (RegFile c now))"
proof (induction items arbitrary: fs n)
  case (Cons it items)
  from Cons.prems(1) obtain base out where
    step: "apply_items now (fs(tmp_of (path it) := None, path it \<mapsto> RegFile out now)) items (n + 1) = (fs', Ok k)"
    by (auto simp: install_reconstructed_file_def tmp_of_def Let_def split: if_splits option.splits sum.splits)
  from Cons.prems(2) show ?case by (intro Cons.IH [OF step]) auto
qed auto

text \<open>
  A file rebuilt from blocks keeps the time of the rebuild instead of
  the primary's modification time, so the comparison of the next round lists it as changed again,
  although its bytes are the primary's: rounds never become quiet.
\<close>

theorem rebuilt_file_listed_again:
  assumes "apply_block_deltas now R blob = Some (R', Ok n)"
    and "unpack_file_deltas blob = Some (Ok items)" and "it \<in> set items"
    and "P (path it) = Some (RegFile data mt)" and "mt \<noteq> now"
    and "walked (path it)" and "lists_all wP P" and "lists_all w R'"
  shows "path it \<in> set (fst (manifest_diff (build_manifest wP P) (build_manifest w R')))"
proof -
  from assms(1,2) have "apply_items now R items 0 = (R', Ok n)" by (simp add: apply_block_deltas_def)
  from apply_items_times [OF this, of "path it"] assms(3)
  have "R' (path it) = None \<or> (\<exists>c. R' (path it) = Some (RegFile c now))" by blast
  with assms(5) show ?thesis
    unfolding changed_build [OF assms(7,8,6,4)] by (auto simp: entry_diff_def)
qed

theorem rebuilt_file_listed_again_witness:
  "''db'' \<in> set (fst (manifest_diff (build_manifest [''db''] [''db'' \<mapsto> RegFile (replicate 20 0) 9])
     (build_manifest [''db''] [''db'' \<mapsto> RegFile (replicate 20 0) 11])))"
proof -
  let ?f = "replicate 20 0 :: bytes" and ?it = "\<lparr>path = ''db'', ops = [Copy 0 1]\<rparr>"
  let ?P = "[''db'' \<mapsto> RegFile ?f 9]" and ?R' = "[''db'' \<mapsto> RegFile ?f 11]"
  have un: "unpack_file_deltas (pack_file_deltas [?it]) = Some (Ok [?it])"
    by (rule unpack_pack) (simp_all add: item_ok.simps as_bytes_def in_range_def pack_file_deltas_def
        pack_item_def encode_delta_def Let_def)
  have "apply_delta ?f [Copy 0 1] BLOCK_SIZE = Ok ?f"
    by (simp add: apply_delta_def BLOCK_SIZE_def Let_def)
  then have "apply_block_deltas 11 [''db'' \<mapsto> RegFile ?f 3] (pack_file_deltas [?it]) =
      Some (([''db'' \<mapsto> RegFile ?f 3])(''db.wolfha-delta'' := None, ''db'' \<mapsto> RegFile ?f 11), Ok 1)"
    using un by (simp add: apply_block_deltas_def is_safe_rel_path_def read_file.simps
        install_reconstructed_file_def Let_def)
  moreover have "([''db'' \<mapsto> RegFile ?f 3])(''db.wolfha-delta'' := None, ''db'' \<mapsto> RegFile ?f 11) = ?R'"
    by auto
  ultimately have "apply_block_deltas 11 [''db'' \<mapsto> RegFile ?f 3] (pack_file_deltas [?it]) = Some (?R', Ok 1)"
    by simp
  moreover have "walked ''db''" by (simp add: walked_def nl_def)
  moreover have "lists_all [''db''] ?P" "lists_all [''db''] ?R'" by (auto simp: lists_all_def)
  ultimately show ?thesis
    using rebuilt_file_listed_again [OF _ un, where it = ?it and P = ?P and R' = ?R'] by fastforce
qed

end
