(* ===== verification/Ha_Store.thy ===== *)
theory Ha_Store
  imports Text_Lines Ip_Addr
begin

text \<open>
  The store of protected subjects, \<^verbatim>\<open>src/wolfha/mod.rs\<close>: entries, the settings a primary sends with
  every round, promotion and demotion of the local copy, the entry a seed leaves, the replica's
  container configuration, and the settings handlers of \<^verbatim>\<open>src/api/mod.rs\<close>.

  A node is its store, the subjects that run on it, and the replica markers on its disk. What host
  commands answer is an argument of type \<open>host\<close>; saving the store can fail, and then the file
  keeps its old content, which is what the next operation loads.
\<close>

section \<open>Data\<close>

datatype ha_role = Primary | Replica

datatype subject_kind = Container | Vm | PveContainer

record ha_peer =
  pe_node_id :: string
  pe_address :: string
  pe_port :: u16

record ha_sync_status =
  ss_at :: nat
  ss_ok :: bool
  ss_message :: string
  ss_files_sent :: nat
  ss_bytes_sent :: nat

record pending_delta =
  pd_path :: string
  pd_taken_at :: nat
  pd_applied_by :: "string list"
  pd_token :: string

record ha_entry =
  he_container :: string
  he_kind :: subject_kind
  he_role :: ha_role
  he_interval_minutes :: nat
  he_replicas :: "ha_peer list"
  he_primary :: "ha_peer option"
  he_autostart_managed :: bool
  he_last_sync :: "(string, ha_sync_status) hashmap"
  he_last_delta_at :: nat
  he_stale :: bool
  he_auto_failover :: bool
  he_witness :: string
  he_failover_after_secs :: nat
  he_pending_vm_delta :: "pending_delta option"
  he_vm_chain :: "string option"
  he_self_identity :: "ha_peer option"
  he_zfs_datasets :: "string list"

record ha_meta =
  hm_kind :: subject_kind
  hm_interval_minutes :: nat
  hm_replicas :: "ha_peer list"
  hm_auto_failover :: bool
  hm_witness :: string
  hm_failover_after_secs :: nat
  hm_primary :: "ha_peer option"
  hm_zfs_datasets :: "string list"

definition default_failover_after :: nat where "default_failover_after = 90"

definition from_entry :: "ha_entry \<Rightarrow> ha_meta" where
  "from_entry e =
     \<lparr>hm_kind = he_kind e, hm_interval_minutes = he_interval_minutes e, hm_replicas = he_replicas e,
      hm_auto_failover = he_auto_failover e, hm_witness = he_witness e,
      hm_failover_after_secs = he_failover_after_secs e, hm_primary = he_self_identity e,
      hm_zfs_datasets = he_zfs_datasets e\<rparr>"

definition apply_to :: "ha_meta \<Rightarrow> ha_entry \<Rightarrow> ha_entry" where
  "apply_to m e =
     (let e1 = e\<lparr>he_kind := hm_kind m, he_interval_minutes := hm_interval_minutes m,
                  he_replicas := hm_replicas m, he_auto_failover := hm_auto_failover m,
                  he_witness := hm_witness m, he_failover_after_secs := hm_failover_after_secs m\<rparr>;
          e2 = (if hm_zfs_datasets m \<noteq> [] then e1\<lparr>he_zfs_datasets := hm_zfs_datasets m\<rparr> else e1)
      in if he_role e2 = Replica \<and> hm_primary m \<noteq> None then e2\<lparr>he_primary := hm_primary m\<rparr> else e2)"

type_synonym ha_store = "ha_entry list"

definition ha_get :: "ha_store \<Rightarrow> string \<Rightarrow> ha_entry option" where
  "ha_get st c = find (\<lambda>e. he_container e = c) st"

text \<open>\<^verbatim>\<open>if let Some(e) = store.get_mut(c) { f(e) }\<close>.\<close>

definition ha_get_mut :: "string \<Rightarrow> (ha_entry \<Rightarrow> ha_entry) \<Rightarrow> ha_store \<Rightarrow> ha_store" where
  "ha_get_mut c f st = update_first (\<lambda>e. he_container e = c) f st"

definition ha_remove :: "string \<Rightarrow> ha_store \<Rightarrow> ha_store" where
  "ha_remove c st = filter (\<lambda>e. he_container e \<noteq> c) st"

section \<open>Nodes and hosts\<close>

record ha_node =
  hn_store :: ha_store
  hn_running :: "string set"
  hn_markers :: "string set"

record host =
  h_local :: "ha_peer \<Rightarrow> bool"
  h_dir :: bool
  h_save :: "string + unit"
  h_prepare :: "string + unit"
  h_start :: "string + unit"
  h_stop :: "string + unit"

datatype ha_error =
    NotManaged
  | AlreadyActive
  | SaveFailed string
  | NeverSeeded
  | PrepareFailed string
  | StartFailed string
  | StopFailed string
  | NotAReplica
  | ReplicaRunning
  | SeedFailed string
  | NotActivePrimary
  | BadWitness string

definition subject_is_running :: "ha_node \<Rightarrow> string \<Rightarrow> bool" where
  "subject_is_running n c = (c \<in> hn_running n)"

text \<open>The entry of a copy that starts as a standby: the literal shared by demotion and seeds.\<close>

definition standby_entry ::
  "string \<Rightarrow> subject_kind \<Rightarrow> ha_peer \<Rightarrow> nat \<Rightarrow> bool \<Rightarrow> string option \<Rightarrow> ha_entry" where
  "standby_entry c k p delta_at is_stale chain =
     \<lparr>he_container = c, he_kind = k, he_role = Replica, he_interval_minutes = 0, he_replicas = [],
      he_primary = Some p, he_autostart_managed = False, he_last_sync = [],
      he_last_delta_at = delta_at, he_stale = is_stale, he_auto_failover = False, he_witness = [],
      he_failover_after_secs = default_failover_after, he_pending_vm_delta = None,
      he_vm_chain = chain, he_self_identity = None, he_zfs_datasets = []\<rparr>"

section \<open>Promotion\<close>

definition promote_entry :: "(ha_peer \<Rightarrow> bool) \<Rightarrow> ha_peer option \<Rightarrow> ha_entry \<Rightarrow> ha_entry" where
  "promote_entry is_local me e =
     (let reps = (case he_primary e of
            Some p \<Rightarrow>
              if list_ex (\<lambda>r. pe_node_id r = pe_node_id p) (he_replicas e) then he_replicas e
              else he_replicas e @ [p]
          | None \<Rightarrow> he_replicas e);
          reps1 = (case me of
            Some m \<Rightarrow> filter (\<lambda>r. pe_node_id r \<noteq> pe_node_id m) reps
          | None \<Rightarrow> reps);
          reps2 = filter (\<lambda>r. \<not> is_local r) reps1
      in e\<lparr>he_primary := None, he_role := Primary, he_stale := False, he_last_sync := [],
           he_replicas := reps2, he_self_identity := me,
           he_interval_minutes := if he_interval_minutes e = 0 then 5 else he_interval_minutes e,
           he_autostart_managed := True\<rparr>)"

definition prepare_subject :: "host \<Rightarrow> ha_entry \<Rightarrow> ha_error + unit" where
  "prepare_subject h e =
     (case he_kind e of
        Container \<Rightarrow> Ok ()
      | Vm \<Rightarrow> map_err PrepareFailed (h_prepare h)
      | PveContainer \<Rightarrow>
          if he_zfs_datasets e = [] then Err NeverSeeded else map_err PrepareFailed (h_prepare h))"

definition promote_local ::
  "host \<Rightarrow> ha_node \<Rightarrow> string \<Rightarrow> ha_peer option \<Rightarrow> ha_node \<times> (ha_error + unit)" where
  "promote_local h n c me =
     (case ha_get (hn_store n) c of
        None \<Rightarrow> (n, Err NotManaged)
      | Some e \<Rightarrow>
          if he_role e = Primary \<and> \<not> he_stale e then (n, Err AlreadyActive)
          else
            let n1 = n\<lparr>hn_markers := hn_markers n - {c}\<rparr>;
                e' = promote_entry (h_local h) me e
            in case h_save h of
                 Inl x \<Rightarrow> (n1, Err (SaveFailed x))
               | Inr _ \<Rightarrow>
                   let n2 = n1\<lparr>hn_store := ha_get_mut c (\<lambda>_. e') (hn_store n)\<rparr> in
                   case prepare_subject h e' of
                     Inl x \<Rightarrow> (n2, Err x)
                   | Inr _ \<Rightarrow>
                       (case h_start h of
                          Inl x \<Rightarrow> (n2, Err (StartFailed x))
                        | Inr _ \<Rightarrow> (n2\<lparr>hn_running := insert c (hn_running n)\<rparr>, Ok ())))"

section \<open>Demotion\<close>

definition demote_entry :: "ha_peer \<Rightarrow> ha_entry \<Rightarrow> ha_entry" where
  "demote_entry p e =
     e\<lparr>he_role := Replica, he_stale := True, he_primary := Some p, he_replicas := [],
       he_last_sync := [], he_self_identity := None,
       he_vm_chain := if he_kind e = Vm then None else he_vm_chain e\<rparr>"

definition demote_local ::
  "host \<Rightarrow> ha_node \<Rightarrow> string \<Rightarrow> ha_peer \<Rightarrow> ha_node \<times> (ha_error + unit)" where
  "demote_local h n c p =
     (case (if subject_is_running n c then map_err StopFailed (h_stop h) else Ok ()) of
        Inl x \<Rightarrow> (n, Err x)
      | Inr _ \<Rightarrow>
          let n1 = n\<lparr>hn_running := hn_running n - {c},
                     hn_markers := if h_dir h then insert c (hn_markers n) else hn_markers n\<rparr>;
              st = (case ha_get (hn_store n) c of
                      Some _ \<Rightarrow> ha_get_mut c (demote_entry p) (hn_store n)
                    | None \<Rightarrow> hn_store n @ [standby_entry c Container p 0 True None])
          in case h_save h of
               Inl x \<Rightarrow> (n1, Err (SaveFailed x))
             | Inr _ \<Rightarrow> (n1\<lparr>hn_store := st\<rparr>, Ok ()))"

section \<open>Seeds\<close>

text \<open>
  \<open>untar\<close> is the outcome of clearing an old copy and extracting the archive. A container of that
  name which carries no marker is left alone.
\<close>

definition install_seed ::
  "host \<Rightarrow> string + unit \<Rightarrow> nat \<Rightarrow> ha_node \<Rightarrow> string \<Rightarrow> subject_kind \<Rightarrow> ha_peer \<Rightarrow> ha_meta option \<Rightarrow>
   ha_node \<times> (ha_error + unit)" where
  "install_seed h untar now n c k p meta =
     (if h_dir h \<and> c \<notin> hn_markers n then (n, Err NotAReplica)
      else if h_dir h \<and> subject_is_running n c then (n, Err ReplicaRunning)
      else case untar of
        Inl x \<Rightarrow> (n\<lparr>hn_markers := hn_markers n - {c}\<rparr>, Err (SeedFailed x))
      | Inr _ \<Rightarrow>
          let n1 = n\<lparr>hn_markers := insert c (hn_markers n)\<rparr>;
              e = standby_entry c k p now False None;
              e' = (case meta of Some m \<Rightarrow> apply_to m e | None \<Rightarrow> e)
          in case h_save h of
               Inl x \<Rightarrow> (n1, Err (SaveFailed x))
             | Inr _ \<Rightarrow> (n1\<lparr>hn_store := ha_remove c (hn_store n) @ [e']\<rparr>, Ok ()))"

section \<open>Replica sets and settings\<close>

text \<open>\<open>canon\<close> is the registry's id for a peer, if it knows the peer.\<close>

fun dedupe_peers :: "(string \<Rightarrow> string option) \<Rightarrow> string list \<Rightarrow> ha_peer list \<Rightarrow> ha_peer list" where
  "dedupe_peers canon seen [] = []"
| "dedupe_peers canon seen (p # ps) =
     (let key = unwrap_or (pe_address p) (canon (pe_node_id p)) in
      if key \<in> set seen then dedupe_peers canon seen ps
      else p # dedupe_peers canon (key # seen) ps)"

definition dedupe_replicas ::
  "host \<Rightarrow> (string \<Rightarrow> string option) \<Rightarrow> ha_node \<Rightarrow> string \<Rightarrow> ha_node" where
  "dedupe_replicas h canon n c =
     (case ha_get (hn_store n) c of
        None \<Rightarrow> n
      | Some e \<Rightarrow>
          let kept = dedupe_peers canon [] (he_replicas e) in
          if length kept \<noteq> length (he_replicas e) \<and> is_ok (h_save h)
          then n\<lparr>hn_store := ha_get_mut c (\<lambda>e. e\<lparr>he_replicas := kept\<rparr>) (hn_store n)\<rparr>
          else n)"

definition is_safe_name :: "string \<Rightarrow> bool" where
  "is_safe_name s =
     (s \<noteq> [] \<and> length s \<le> 253
      \<and> list_all (\<lambda>c. is_ascii_alphanumeric c \<or> c \<in> {CHR ''-'', CHR ''_'', CHR ''.''}) s
      \<and> \<not> contains ''..'' s)"

text \<open>An IPv6 literal has a colon, which \<^term>\<open>is_safe_name\<close> excludes, so only IPv4 is parsed.\<close>

definition wolfha_validate_auto :: "bool \<Rightarrow> string \<Rightarrow> nat \<Rightarrow> ha_error + (string \<times> nat)" where
  "wolfha_validate_auto auto w after_secs =
     (let w = trim w in
      if auto \<and> w = [] then Err (BadWitness w)
      else if auto \<and> (\<not> is_safe_name w \<or> parse_ipv4 w = None \<and> CHR ''.'' \<notin> set w)
      then Err (BadWitness w)
      else Ok (w, if after_secs = 0 then 90 else max after_secs 30))"

record wolfha_update_req =
  ur_interval_minutes :: "nat option"
  ur_auto_failover :: "bool option"
  ur_witness :: "string option"
  ur_failover_after_secs :: "nat option"

definition wolfha_update ::
  "host \<Rightarrow> ha_node \<Rightarrow> string \<Rightarrow> wolfha_update_req \<Rightarrow> ha_node \<times> (ha_error + unit)" where
  "wolfha_update h n c r =
     (case ha_get (hn_store n) c of
        None \<Rightarrow> (n, Err NotManaged)
      | Some e \<Rightarrow>
          if he_role e \<noteq> Primary \<or> he_stale e then (n, Err NotActivePrimary)
          else
            let auto = unwrap_or (he_auto_failover e) (ur_auto_failover r) in
            case wolfha_validate_auto auto (unwrap_or (he_witness e) (ur_witness r))
                   (unwrap_or (he_failover_after_secs e) (ur_failover_after_secs r)) of
              Inl x \<Rightarrow> (n, Err x)
            | Inr (w, f) \<Rightarrow>
                let e' = e\<lparr>he_auto_failover := auto, he_witness := w, he_failover_after_secs := f,
                           he_interval_minutes := (case ur_interval_minutes r of
                              Some iv \<Rightarrow> max iv 1 | None \<Rightarrow> he_interval_minutes e)\<rparr>
                in case h_save h of
                     Inl x \<Rightarrow> (n, Err (SaveFailed x))
                   | Inr _ \<Rightarrow> (n\<lparr>hn_store := ha_get_mut c (\<lambda>_. e') (hn_store n)\<rparr>, Ok ()))"

section \<open>The replica's configuration file\<close>

definition replica_config_lines :: "string \<Rightarrow> string \<Rightarrow> string list" where
  "replica_config_lines dir cfg =
     map (\<lambda>l. if starts_with ''lxc.rootfs.path'' (trim_start l)
              then ''lxc.rootfs.path = dir:'' @ dir @ ''/rootfs'' else l)
       (filter (\<lambda>l. \<not> starts_with ''lxc.start.auto'' (trim_start l)) (lines cfg))"

definition write_replica_config :: "string \<Rightarrow> string \<Rightarrow> string" where
  "write_replica_config dir cfg =
     (let out = join [nl] (replica_config_lines dir cfg) in
      if out \<noteq> [] \<and> last out = nl then out else out @ [nl])"

end
