(* ===== verification/Ha_Failover.thy ===== *)
theory Ha_Failover
  imports Ha_Store
begin

text \<open>
  Automatic failover, \<^verbatim>\<open>src/wolfha/mod.rs\<close>: the monitor that every node runs over its entries, the
  guard at boot, and the operator's handlers \<^verbatim>\<open>wolfha_status\<close>, \<^verbatim>\<open>wolfha_promote\<close> and \<^verbatim>\<open>wolfha_demote\<close> of
  \<^verbatim>\<open>src/api/mod.rs\<close> for containers.

  One tick of the monitor sees the world through \<open>net\<close>: the clock, what each peer answers, which
  hosts answer a ping, and what the cluster registry says. Alerts do not influence the monitor and
  are left out.
\<close>

section \<open>What a node sees\<close>

record peer_state =
  st_role :: "ha_role option"
  st_active :: bool
  st_stale :: bool

definition wolfha_status :: "ha_node \<Rightarrow> string \<Rightarrow> peer_state" where
  "wolfha_status n c =
     (case ha_get (hn_store n) c of
        Some e \<Rightarrow> \<lparr>st_role = Some (he_role e), st_active = subject_is_running n c, st_stale = he_stale e\<rparr>
      | None \<Rightarrow> \<lparr>st_role = None, st_active = subject_is_running n c, st_stale = False\<rparr>)"

text \<open>
  \<open>net_secs\<close> is the monotonic clock of the failure timers, \<open>net_unix\<close> the wall clock. \<open>net_status\<close> is
  \<^term>\<open>None\<close> for a peer that does not answer. \<open>net_alive\<close> says whether gossip has seen a node within
  its online window.
\<close>

record net =
  net_secs :: nat
  net_unix :: nat
  net_status :: "ha_peer \<Rightarrow> peer_state option"
  net_ping :: "string \<Rightarrow> bool"
  net_alive :: "string \<Rightarrow> bool"
  net_ip :: "string \<Rightarrow> string option"
  net_canon :: "string \<Rightarrow> string option"
  net_me :: "ha_peer option"

definition ping_host :: "net \<Rightarrow> string \<Rightarrow> bool" where
  "ping_host w host = (host \<noteq> [] \<and> net_ping w host)"

section \<open>Failure clocks\<close>

type_synonym clocks = "(string, nat) hashmap"

definition fail_elapsed :: "nat \<Rightarrow> string \<Rightarrow> bool \<Rightarrow> clocks \<Rightarrow> nat \<times> clocks" where
  "fail_elapsed now key failing m =
     (if \<not> failing then (0, AList.delete key m)
      else case map_of m key of
        Some start \<Rightarrow> (now - start, m)
      | None \<Rightarrow> (0, AList.update key now m))"

definition fence_secs :: "nat \<Rightarrow> nat" where
  "fence_secs failover_after = max (failover_after div 2) 30"

definition witness_key :: "string \<Rightarrow> string" where "witness_key c = ''witness:'' @ c"

definition primary_key :: "string \<Rightarrow> string" where "primary_key c = ''primary:'' @ c"

record monitor =
  mo_node :: ha_node
  mo_clocks :: clocks

section \<open>The monitor\<close>

definition reset_clock :: "string \<Rightarrow> monitor \<Rightarrow> monitor" where
  "reset_clock key s = s\<lparr>mo_clocks := AList.delete key (mo_clocks s)\<rparr>"

definition set_stale :: "host \<Rightarrow> string \<Rightarrow> bool \<Rightarrow> ha_node \<Rightarrow> ha_node" where
  "set_stale h c b n =
     (if is_ok (h_save h)
      then n\<lparr>hn_store := ha_get_mut c (\<lambda>e. e\<lparr>he_stale := b\<rparr>) (hn_store n)\<rparr> else n)"

text \<open>\<^verbatim>\<open>subject_stop\<close> and \<^verbatim>\<open>subject_start\<close> as the monitor calls them, with the result dropped.\<close>

definition try_stop :: "host \<Rightarrow> string \<Rightarrow> ha_node \<Rightarrow> ha_node" where
  "try_stop h c n = (if is_ok (h_stop h) then n\<lparr>hn_running := hn_running n - {c}\<rparr> else n)"

definition try_start :: "host \<Rightarrow> string \<Rightarrow> ha_node \<Rightarrow> ha_node" where
  "try_start h c n = (if is_ok (h_start h) then n\<lparr>hn_running := insert c (hn_running n)\<rparr> else n)"

definition reachable :: "net \<Rightarrow> ha_peer \<Rightarrow> bool" where
  "reachable w p = (net_status w p \<noteq> None)"

definition active_primary :: "net \<Rightarrow> ha_peer \<Rightarrow> bool" where
  "active_primary w p =
     (case net_status w p of Some s \<Rightarrow> st_active s \<and> st_role s = Some Primary | None \<Rightarrow> False)"

definition took_over :: "net \<Rightarrow> ha_peer \<Rightarrow> bool" where
  "took_over w p =
     (case net_status w p of Some s \<Rightarrow> st_active s \<or> st_role s = Some Primary | None \<Rightarrow> False)"

text \<open>The active primary: converge when superseded, fence itself when isolated.\<close>

definition monitor_primary :: "host \<Rightarrow> net \<Rightarrow> ha_entry \<Rightarrow> monitor \<Rightarrow> monitor" where
  "monitor_primary h w e s =
     (let c = he_container e; n = dedupe_replicas h (net_canon w) (mo_node s) c; s1 = s\<lparr>mo_node := n\<rparr> in
      if \<not> subject_is_running n c then
        reset_clock (witness_key c)
          (case find (active_primary w) (he_replicas e) of
             Some p \<Rightarrow> s1\<lparr>mo_node := fst (demote_local h n c p)\<rparr>
           | None \<Rightarrow> s1)
      else if \<not> he_auto_failover e \<or> he_witness e = [] then s1
      else
        let up = ping_host w (he_witness e);
            (elapsed, m) = fail_elapsed (net_secs w) (witness_key c) (\<not> up) (mo_clocks s1);
            s2 = s1\<lparr>mo_clocks := m\<rparr>
        in if up then s2
           else if fence_secs (he_failover_after_secs e) \<le> elapsed then
             if list_ex (reachable w) (he_replicas e) then s2
             else reset_clock (witness_key c) (s2\<lparr>mo_node := set_stale h c True (try_stop h c n)\<rparr>)
           else s2)"

text \<open>A fenced primary: become the replica of whoever took over, or resume.\<close>

definition monitor_fenced :: "host \<Rightarrow> net \<Rightarrow> ha_entry \<Rightarrow> monitor \<Rightarrow> monitor" where
  "monitor_fenced h w e s =
     (let c = he_container e; n = mo_node s in
      if he_witness e \<noteq> [] \<and> \<not> ping_host w (he_witness e) then s
      else case find (took_over w) (he_replicas e) of
        Some p \<Rightarrow> s\<lparr>mo_node := fst (demote_local h n c p)\<rparr>
      | None \<Rightarrow>
          if list_all (reachable w) (he_replicas e) \<and> he_auto_failover e
          then s\<lparr>mo_node := try_start h c (set_stale h c False n)\<rparr>
          else s)"

text \<open>
  Gate 3: the standbys listed before this one, and whether one of them should act instead. The walk
  stops at this node itself; the primary is skipped.
\<close>

definition healthy_standby :: "net \<Rightarrow> ha_peer \<Rightarrow> bool" where
  "healthy_standby w p =
     (case net_status w p of
        Some s \<Rightarrow> st_role s = Some Primary \<or> (st_role s = Some Replica \<and> \<not> st_stale s)
      | None \<Rightarrow> False)"

definition defers :: "host \<Rightarrow> net \<Rightarrow> ha_peer \<Rightarrow> ha_peer list \<Rightarrow> bool" where
  "defers h w primary peers =
     (case net_me w of
        None \<Rightarrow> False
      | Some me \<Rightarrow>
          list_ex (healthy_standby w)
            (filter (\<lambda>p. pe_node_id p \<noteq> pe_node_id primary)
              (takeWhile (\<lambda>p. \<not> (pe_node_id p = pe_node_id me \<or> h_local h p)) peers)))"

definition max_age :: "ha_entry \<Rightarrow> nat" where
  "max_age e = max (max (he_interval_minutes e) 1 * 60 * 6) 1800"

definition gates_pass :: "host \<Rightarrow> net \<Rightarrow> ha_entry \<Rightarrow> ha_peer \<Rightarrow> bool" where
  "gates_pass h w e primary =
     (he_witness e \<noteq> [] \<and> ping_host w (he_witness e)
      \<and> \<not> net_alive w (pe_node_id primary)
      \<and> \<not> defers h w primary (he_replicas e)
      \<and> net_unix w - he_last_delta_at e \<le> max_age e
      \<and> (case net_ip w (he_container e) of Some ip \<Rightarrow> \<not> ping_host w ip | None \<Rightarrow> True))"

definition monitor_standby :: "host \<Rightarrow> net \<Rightarrow> ha_entry \<Rightarrow> monitor \<Rightarrow> monitor" where
  "monitor_standby h w e s =
     (let c = he_container e; n = mo_node s in
      case he_primary e of
        None \<Rightarrow> s
      | Some primary \<Rightarrow>
          if subject_is_running n c then
            (case net_status w primary of
               Some st \<Rightarrow> if st_active st then s\<lparr>mo_node := try_stop h c n\<rparr> else s
             | None \<Rightarrow> s)
          else if \<not> he_auto_failover e then s
          else
            let down = (net_status w primary = None);
                (elapsed, m) = fail_elapsed (net_secs w) (primary_key c) down (mo_clocks s);
                s1 = s\<lparr>mo_clocks := m\<rparr>
            in if \<not> down \<or> elapsed < he_failover_after_secs e \<or> \<not> gates_pass h w e primary then s1
               else reset_clock (primary_key c)
                      (s1\<lparr>mo_node := fst (promote_local h n c (net_me w))\<rparr>))"

definition monitor_entry :: "host \<Rightarrow> net \<Rightarrow> ha_entry \<Rightarrow> monitor \<Rightarrow> monitor" where
  "monitor_entry h w e s =
     (case (he_role e, he_stale e) of
        (Primary, False) \<Rightarrow> monitor_primary h w e s
      | (Primary, True) \<Rightarrow> monitor_fenced h w e s
      | (Replica, False) \<Rightarrow> monitor_standby h w e s
      | (Replica, True) \<Rightarrow> s)"

text \<open>
  One tick of \<^verbatim>\<open>failover_monitor_forever\<close>: the entries are those the store held when the tick began. Host
  and network are asked anew for every entry.
\<close>

definition monitor_tick :: "(string \<Rightarrow> host \<times> net) \<Rightarrow> monitor \<Rightarrow> monitor" where
  "monitor_tick env s =
     foldl (\<lambda>s e. case env (he_container e) of (h, w) \<Rightarrow> monitor_entry h w e s) s (hn_store (mo_node s))"

section \<open>Boot\<close>

definition boot_entry :: "host \<Rightarrow> net \<Rightarrow> ha_entry \<Rightarrow> ha_node \<Rightarrow> ha_node" where
  "boot_entry h w e n =
     (let c = he_container e in
      if he_role e \<noteq> Primary \<or> he_stale e \<or> \<not> he_autostart_managed e then n
      else if subject_is_running n c then n
      else case find (took_over w) (he_replicas e) of
        Some p \<Rightarrow> fst (demote_local h n c p)
      | None \<Rightarrow> try_start h c n)"

definition boot_guard :: "bool \<Rightarrow> (string \<Rightarrow> host \<times> net) \<Rightarrow> ha_node \<Rightarrow> ha_node" where
  "boot_guard recently_booted env n =
     (if \<not> recently_booted then n
      else foldl (\<lambda>n e. case env (he_container e) of (h, w) \<Rightarrow> boot_entry h w e n) n (hn_store n))"

section \<open>The operator's handlers\<close>

text \<open>
  \<^verbatim>\<open>wolfha_demote\<close> of a container on the old primary: stop, an optional last round to the new primary
  (whose failure only changes the message), then the demotion.
\<close>

definition wolfha_demote :: "host \<Rightarrow> ha_node \<Rightarrow> string \<Rightarrow> ha_peer \<Rightarrow> ha_node \<times> (ha_error + unit)" where
  "wolfha_demote h n c p =
     (case (if subject_is_running n c then map_err StopFailed (h_stop h) else Ok ()) of
        Inl x \<Rightarrow> (n, Err x)
      | Inr _ \<Rightarrow> demote_local h (n\<lparr>hn_running := hn_running n - {c}\<rparr>) c p)"

text \<open>
  \<^verbatim>\<open>wolfha_promote\<close>: the request to demote, which reaches the old primary's node or no node at all,
  then the local promotion and the clean-up of its replica set. The reply is only used for the
  message.
\<close>

definition wolfha_promote ::
  "host \<Rightarrow> (string \<Rightarrow> string option) \<Rightarrow> ha_peer \<Rightarrow> ha_node \<Rightarrow> string \<Rightarrow> (host \<times> ha_node) option \<Rightarrow>
   ha_node \<times> ha_node option \<times> (ha_error + unit)" where
  "wolfha_promote h canon me n c old =
     (case ha_get (hn_store n) c of
        None \<Rightarrow> (n, map_option snd old, Err NotManaged)
      | Some e \<Rightarrow>
          if he_role e = Primary \<and> \<not> he_stale e then (n, map_option snd old, Err AlreadyActive)
          else
            let old' = (case he_primary e of
                   None \<Rightarrow> map_option snd old
                 | Some _ \<Rightarrow> map_option (\<lambda>(ho, no). fst (wolfha_demote ho no c me)) old);
                (n', r) = promote_local h n c (Some me)
            in (if is_ok r then dedupe_replicas h canon n' c else n', old', r))"

end
