(* ===== verification/Ha_Views.thy ===== *)
theory Ha_Views
  imports Ha_Failover
begin

text \<open>
  Entries do not interfere: a tick of the monitor acts on each protected subject as if it were the
  only one. The view of a subject is what the node knows about it, its entry, whether it runs, and
  its two failure clocks.
\<close>

section \<open>The store by key\<close>

lemma ha_get_SomeD: "ha_get st c = Some e \<Longrightarrow> e \<in> set st \<and> he_container e = c"
  unfolding ha_get_def by (rule find_SomeD)

lemma ha_get_get_mut:
  assumes "\<And>e. he_container e = c \<Longrightarrow> he_container (f e) = c"
  shows "ha_get (ha_get_mut c f st) d = (if d = c then map_option f (ha_get st c) else ha_get st d)"
  using assms by (induction st) (auto simp: ha_get_def ha_get_mut_def)

lemma ha_get_get_mut_const:
  "he_container x = c \<Longrightarrow> ha_get (ha_get_mut c (\<lambda>_. x) st) d =
     (if d = c then map_option (\<lambda>_. x) (ha_get st c) else ha_get st d)"
  by (rule ha_get_get_mut) simp

lemma ha_get_append: "ha_get (st @ [e]) c =
   (case ha_get st c of Some x \<Rightarrow> Some x | None \<Rightarrow> if he_container e = c then Some e else None)"
  by (induction st) (auto simp: ha_get_def)

lemma ha_get_remove: "ha_get (ha_remove d st) c = (if c = d then None else ha_get st c)"
  by (induction st) (auto simp: ha_get_def ha_remove_def)

lemma keys_get_mut [keys_simps]:
  "(\<And>e. he_container e = c \<Longrightarrow> he_container (f e) = c) \<Longrightarrow>
   map he_container (ha_get_mut c f st) = map he_container st"
  by (induction st) (auto simp: ha_get_mut_def)

lemma he_container_promote [simp]: "he_container (promote_entry l me e) = he_container e"
  by (simp add: promote_entry_def Let_def)

lemma he_container_demote [simp]: "he_container (demote_entry p e) = he_container e"
  by (simp add: demote_entry_def)

lemma he_container_standby [simp]: "he_container (standby_entry c k p t b ch) = c"
  by (simp add: standby_entry_def)

section \<open>Views\<close>

record view =
  vw_entry :: "ha_entry option"
  vw_running :: bool
  vw_witness :: "nat option"
  vw_primary :: "nat option"

definition node_view :: "string \<Rightarrow> ha_node \<Rightarrow> ha_entry option \<times> bool" where
  "node_view c n = (ha_get (hn_store n) c, c \<in> hn_running n)"

definition view_of :: "string \<Rightarrow> monitor \<Rightarrow> view" where
  "view_of c s =
     \<lparr>vw_entry = ha_get (hn_store (mo_node s)) c, vw_running = (c \<in> hn_running (mo_node s)),
      vw_witness = map_of (mo_clocks s) (witness_key c), vw_primary = map_of (mo_clocks s) (primary_key c)\<rparr>"

lemma view_of_eqI:
  "node_view c (mo_node s) = node_view c (mo_node s') \<Longrightarrow>
   map_of (mo_clocks s) (witness_key c) = map_of (mo_clocks s') (witness_key c) \<Longrightarrow>
   map_of (mo_clocks s) (primary_key c) = map_of (mo_clocks s') (primary_key c) \<Longrightarrow>
   view_of c s = view_of c s'"
  by (simp add: view_of_def node_view_def)

lemma keys_neq [simp]:
  "witness_key c \<noteq> primary_key d" "primary_key d \<noteq> witness_key c"
  "witness_key c = witness_key d \<longleftrightarrow> c = d" "primary_key c = primary_key d \<longleftrightarrow> c = d"
  by (simp_all add: witness_key_def primary_key_def)

named_theorems node_frame \<open>operations on one subject leave the view of the others alone\<close>

lemma dedupe_other [node_frame]: "c \<noteq> d \<Longrightarrow> node_view c (dedupe_replicas h canon n d) = node_view c n"
  by (auto simp: dedupe_replicas_def node_view_def ha_get_get_mut Let_def split: option.splits)

lemma demote_other [node_frame]: "c \<noteq> d \<Longrightarrow> node_view c (fst (demote_local h n d p)) = node_view c n"
  by (auto simp: demote_local_def node_view_def ha_get_get_mut ha_get_append Let_def
      split: option.splits sum.splits)

lemma promote_other [node_frame]: "c \<noteq> d \<Longrightarrow> node_view c (fst (promote_local h n d me)) = node_view c n"
  by (auto simp: promote_local_def node_view_def ha_get_get_mut_const Let_def dest!: ha_get_SomeD
      split: option.splits sum.splits)

lemma set_stale_other [node_frame]: "c \<noteq> d \<Longrightarrow> node_view c (set_stale h d b n) = node_view c n"
  by (simp add: set_stale_def node_view_def ha_get_get_mut)

lemma try_other [node_frame]:
  "c \<noteq> d \<Longrightarrow> node_view c (try_stop h d n) = node_view c n"
  "c \<noteq> d \<Longrightarrow> node_view c (try_start h d n) = node_view c n"
  by (auto simp: try_stop_def try_start_def node_view_def)

lemma fail_elapsed_other:
  "k \<noteq> k' \<Longrightarrow> map_of (snd (fail_elapsed now k' b m)) k = map_of m k"
  by (auto simp: fail_elapsed_def delete_conv update_conv split: option.splits)

lemma reset_clock_view: "view_of c (reset_clock k s) = view_of c s"
  if "k \<noteq> witness_key c" "k \<noteq> primary_key c"
  using that by (simp add: view_of_def reset_clock_def delete_conv)

lemma monitor_entry_other:
  assumes "he_container e \<noteq> c"
  shows "view_of c (monitor_entry h w e s) = view_of c s"
proof -
  have "view_of c (monitor_primary h w e s) = view_of c s"
    unfolding monitor_primary_def Let_def
    using assms
    by (auto simp: reset_clock_view node_frame fail_elapsed_other case_prod_beta split: option.split
        intro!: view_of_eqI)
  moreover have "view_of c (monitor_fenced h w e s) = view_of c s"
    unfolding monitor_fenced_def Let_def using assms
    by (auto simp: node_frame split: option.split intro!: view_of_eqI)
  moreover have "view_of c (monitor_standby h w e s) = view_of c s"
    unfolding monitor_standby_def Let_def
    using assms
    by (auto simp: reset_clock_view node_frame fail_elapsed_other case_prod_beta split: option.split
        intro!: view_of_eqI)
  ultimately show ?thesis
    by (simp add: monitor_entry_def split: ha_role.split bool.split)
qed

section \<open>Ticks\<close>

definition keys :: "monitor \<Rightarrow> string list" where
  "keys s = map he_container (hn_store (mo_node s))"

abbreviation entry_step :: "(string \<Rightarrow> host \<times> net) \<Rightarrow> monitor \<Rightarrow> ha_entry \<Rightarrow> monitor" where
  "entry_step env \<equiv> \<lambda>s e. case env (he_container e) of (h, w) \<Rightarrow> monitor_entry h w e s"

lemma foldl_other:
  "\<forall>e \<in> set es. he_container e \<noteq> c \<Longrightarrow> view_of c (foldl (entry_step env) s es) = view_of c s"
  by (induction es arbitrary: s) (auto simp: monitor_entry_other split: prod.split)

lemma tick_view:
  assumes "distinct (keys s)" and "ha_get (hn_store (mo_node s)) c = Some e" and "env c = (h, w)"
  shows "\<exists>s'. view_of c s' = view_of c s
    \<and> view_of c (monitor_tick env s) = view_of c (monitor_entry h w e s')"
proof -
  from assms(2) have e: "e \<in> set (hn_store (mo_node s))" "he_container e = c"
    by (auto dest: ha_get_SomeD)
  from e(1) obtain pre post where st: "hn_store (mo_node s) = pre @ e # post" by (meson split_list)
  with assms(1) e(2) have "\<forall>x \<in> set pre. he_container x \<noteq> c" "\<forall>x \<in> set post. he_container x \<noteq> c"
    by (auto simp: keys_def image_iff)
  then have "view_of c (foldl (entry_step env) s pre) = view_of c s"
    and "view_of c (monitor_tick env s) =
      view_of c (monitor_entry h w e (foldl (entry_step env) s pre))"
    using e(2) assms(3) unfolding monitor_tick_def st by (simp_all add: foldl_other)
  then show ?thesis by blast
qed

text \<open>To prove something of the view after a tick, prove it of the entry's own step.\<close>

lemma tick_viewI:
  assumes "distinct (keys s)" and "ha_get (hn_store (mo_node s)) c = Some e"
    and "\<And>h w s'. env c = (h, w) \<Longrightarrow> view_of c s' = view_of c s \<Longrightarrow>
      ha_get (hn_store (mo_node s')) c = Some e \<Longrightarrow> P (view_of c (monitor_entry h w e s'))"
  shows "P (view_of c (monitor_tick env s))"
proof -
  obtain h w where env: "env c = (h, w)" by (cases "env c")
  from tick_view [where env = env, OF assms(1,2) env] obtain s' where s': "view_of c s' = view_of c s"
    "view_of c (monitor_tick env s) = view_of c (monitor_entry h w e s')" by blast
  from s'(1) assms(2) have "ha_get (hn_store (mo_node s')) c = Some e" by (simp add: view_of_def)
  from assms(3) [OF env s'(1) this] s'(2) show ?thesis by simp
qed

lemma tick_view_absent:
  assumes "ha_get (hn_store (mo_node s)) c = None"
  shows "view_of c (monitor_tick env s) = view_of c s"
  using assms unfolding monitor_tick_def ha_get_def find_None_filter by (rule foldl_other)

lemma store_keys_ops [keys_simps]:
  "map he_container (hn_store (dedupe_replicas h canon n c)) = map he_container (hn_store n)"
  "map he_container (hn_store (set_stale h c b n)) = map he_container (hn_store n)"
  "map he_container (hn_store (try_stop h c n)) = map he_container (hn_store n)"
  "map he_container (hn_store (try_start h c n)) = map he_container (hn_store n)"
  "map he_container (hn_store (fst (promote_local h n c me))) = map he_container (hn_store n)"
  by (auto simp: dedupe_replicas_def set_stale_def try_stop_def try_start_def promote_local_def
      keys_get_mut Let_def dest!: ha_get_SomeD split: option.splits sum.splits)

lemma store_keys_demote [keys_simps]:
  "ha_get (hn_store n) c \<noteq> None \<Longrightarrow>
   map he_container (hn_store (fst (demote_local h n c p))) = map he_container (hn_store n)"
  by (auto simp: demote_local_def keys_get_mut Let_def split: option.splits sum.splits)

lemma ha_get_None_keys: "ha_get st c = None \<longleftrightarrow> c \<notin> set (map he_container st)"
  by (auto simp: ha_get_def find_None_filter)

lemma keys_monitor_entry:
  assumes "he_container e \<in> set (keys s)"
  shows "keys (monitor_entry h w e s) = keys s"
proof -
  have mem: "ha_get (hn_store n) (he_container e) \<noteq> None"
    if "map he_container (hn_store n) = map he_container (hn_store (mo_node s))" for n
    using assms that by (simp add: ha_get_None_keys keys_def)
  show ?thesis
    unfolding monitor_entry_def monitor_primary_def monitor_fenced_def monitor_standby_def keys_def
    by (auto simp: keys_simps mem reset_clock_def Let_def case_prod_beta
        split: ha_role.split bool.split option.split)
qed

lemma keys_monitor_tick [simp]: "keys (monitor_tick env s) = keys s"
proof -
  have "keys (foldl (entry_step env) s' es) = keys s'"
    if "he_container ` set es \<subseteq> set (keys s')" for es s'
    using that by (induction es arbitrary: s') (auto simp: keys_monitor_entry split: prod.split)
  then show ?thesis unfolding monitor_tick_def by (simp add: keys_def image_subset_iff)
qed

definition ticks :: "(string \<Rightarrow> host \<times> net) list \<Rightarrow> monitor \<Rightarrow> monitor" where
  "ticks envs s = fold monitor_tick envs s"

lemma ticks_simps [simp]:
  "ticks [] s = s" "ticks (env # envs) s = ticks envs (monitor_tick env s)"
  by (simp_all add: ticks_def)

end
