(* ===== verification/Timeout.thy ===== *)
theory Timeout
  imports Rust_Prelude
begin

text \<open>
  The contract of a loop that acts once a condition has held for a while: the first step that sees
  the condition starts the clock, a step that finds the clock at least \<open>delay\<close> old acts, and having
  acted is final. The failover monitor has two such timers, fencing and promotion.
\<close>

locale timeout =
  fixes step :: "'e \<Rightarrow> 's \<Rightarrow> 's" and ok :: "'e \<Rightarrow> bool" and time :: "'e \<Rightarrow> nat" and delay :: nat
    and waiting :: "nat option \<Rightarrow> 's \<Rightarrow> bool" and acted :: "'s \<Rightarrow> bool"
  assumes acted_step: "acted s \<Longrightarrow> ok e \<Longrightarrow> acted (step e s)"
    and acts: "waiting k s \<Longrightarrow> ok e \<Longrightarrow> delay \<le> time e - unwrap_or (time e) k \<Longrightarrow> acted (step e s)"
    and waits: "waiting k s \<Longrightarrow> ok e \<Longrightarrow> time e - unwrap_or (time e) k < delay \<Longrightarrow>
      waiting (Some (unwrap_or (time e) k)) (step e s)"
begin

lemma run_started:
  assumes "acted s \<or> waiting (Some k) s" and "\<forall>e \<in> set es. ok e" and "es \<noteq> []"
    and "k + delay \<le> time (last es)"
  shows "acted (fold step es s)"
  using assms
proof (induction es arbitrary: s)
  case (Cons e es)
  then have "acted (step e s) \<or> (waiting (Some k) (step e s) \<and> time e - k < delay)"
    using acted_step [of s e] acts [of "Some k" s e] waits [of "Some k" s e] by fastforce
  with Cons show ?case by (cases "es = []") auto
qed simp

text \<open>Enough time between the first and the last step makes the loop act.\<close>

lemma run_acts:
  assumes "waiting None s" and "\<forall>e \<in> set es. ok e" and "es \<noteq> []"
    and "time (hd es) + delay \<le> time (last es)"
  shows "acted (fold step es s)"
proof -
  obtain e rest where es: "es = e # rest" using assms(3) by (cases es) auto
  have "acted (step e s) \<or> (waiting (Some (time e)) (step e s) \<and> 0 < delay)"
    using acts [of None s e] waits [of None s e] assms es by (cases "delay = 0") auto
  then show ?thesis
  proof
    assume a: "acted (step e s)"
    have "acted (fold step es' s')" if "acted s'" "\<forall>e \<in> set es'. ok e" for es' s'
      using that by (induction es' arbitrary: s') (simp_all add: acted_step)
    with a assms(2) es show ?thesis by simp
  next
    assume a: "waiting (Some (time e)) (step e s) \<and> 0 < delay"
    with assms(4) es have "rest \<noteq> []" by auto
    with run_started [of "step e s" "time e" rest] a assms es show ?thesis by simp
  qed
qed

text \<open>Until then it waits.\<close>

lemma run_waits:
  assumes "waiting None s" and "\<forall>e \<in> set es. ok e \<and> time e < time (hd es) + delay" and "es \<noteq> []"
  shows "waiting (Some (time (hd es))) (fold step es s)"
proof -
  obtain e rest where es: "es = e # rest" using assms(3) by (cases es) auto
  have later: "waiting (Some k) (step e' s')"
    if "waiting (Some k) s'" "ok e'" "time e' < k + delay" "0 < delay" for k e' s'
    using waits [of "Some k" s' e'] that by simp
  have rest: "waiting (Some k) (fold step es' s')"
    if "waiting (Some k) s'" "\<forall>e \<in> set es'. ok e \<and> time e < k + delay" "0 < delay" for k es' s'
    using that by (induction es' arbitrary: s') (simp_all add: later)
  from assms es have "waiting (Some (time e)) (step e s)" "0 < delay"
    using waits [of None s e] by simp_all
  with rest [of "time e" "step e s" rest] assms es show ?thesis by simp
qed

end

end
