(* ===== verification/Ha_Fencing.thy ===== *)
theory Ha_Fencing
  imports Ha_Views Timeout
begin

text \<open>
  The timing contract of automatic failover. An isolated primary stops its copy, a standby waits for
  the full delay, and when the delay leaves room for the monitors' period the first happens before
  the second. The same model shows the settings and situations in which it does not: the smallest
  delay the handlers accept, a stop that fails, two copies that are both active, and a promotion by
  hand over a primary that could not stop.
\<close>

section \<open>The isolated primary\<close>

lemma set_dedupe_peers: "set (dedupe_peers canon seen ps) \<subseteq> set ps"
  by (induction canon seen ps rule: dedupe_peers.induct) (auto simp: Let_def)

lemma dedupe_self:
  assumes "ha_get (hn_store n) c = Some e"
  shows "\<exists>r. set r \<subseteq> set (he_replicas e)
    \<and> ha_get (hn_store (dedupe_replicas h canon n c)) c = Some (e\<lparr>he_replicas := r\<rparr>)"
proof -
  let ?r = "dedupe_peers canon [] (he_replicas e)"
  have "set ?r \<subseteq> set (he_replicas e)" by (rule set_dedupe_peers)
  moreover have "e\<lparr>he_replicas := he_replicas e\<rparr> = e" by simp
  ultimately show ?thesis
    using assms by (cases "length ?r \<noteq> length (he_replicas e) \<and> is_ok (h_save h)")
      (auto simp: dedupe_replicas_def ha_get_get_mut Let_def intro: exI [of _ ?r] exI [of _ "he_replicas e"])
qed

lemma dedupe_running [simp]: "hn_running (dedupe_replicas h canon n c) = hn_running n"
  by (simp add: dedupe_replicas_def Let_def split: option.split)

text \<open>
  A view in which the subject runs under an active primary entry with automatic failover, the
  witness \<open>W\<close>, the delay \<open>F\<close>, and replicas among \<open>Ps\<close>; and one in which it has been fenced.
\<close>

definition armed :: "string \<Rightarrow> nat \<Rightarrow> ha_peer set \<Rightarrow> view \<Rightarrow> bool" where
  "armed W F Ps v =
     (vw_running v \<and> (case vw_entry v of None \<Rightarrow> False | Some e \<Rightarrow>
        he_role e = Primary \<and> \<not> he_stale e \<and> he_auto_failover e \<and> he_witness e = W
        \<and> he_failover_after_secs e = F \<and> set (he_replicas e) \<subseteq> Ps))"

definition fenced :: "string \<Rightarrow> view \<Rightarrow> bool" where
  "fenced W v =
     (\<not> vw_running v \<and> (case vw_entry v of None \<Rightarrow> False | Some e \<Rightarrow>
        he_role e = Primary \<and> he_stale e \<and> he_witness e = W))"

text \<open>
  A tick during the isolation: neither the witness nor a replica answers. The host can stop the
  subject and save its store.
\<close>

definition isolated :: "string \<Rightarrow> ha_peer set \<Rightarrow> host \<times> net \<Rightarrow> bool" where
  "isolated W Ps hw =
     (\<not> ping_host (snd hw) W \<and> (\<forall>p \<in> Ps. net_status (snd hw) p = None)
      \<and> is_ok (h_stop (fst hw)) \<and> is_ok (h_save (fst hw)))"

lemma isolated_entry:
  assumes a: "armed W F Ps (view_of c s)" and e: "ha_get (hn_store (mo_node s)) c = Some e"
    and i: "isolated W Ps (h, w)" and W: "W \<noteq> []"
    and k: "k = unwrap_or (net_secs w) (vw_witness (view_of c s))"
  shows "fence_secs F \<le> net_secs w - k \<Longrightarrow> fenced W (view_of c (monitor_entry h w e s))"
    and "net_secs w - k < fence_secs F \<Longrightarrow> armed W F Ps (view_of c (monitor_entry h w e s))
      \<and> vw_witness (view_of c (monitor_entry h w e s)) = Some k"
proof -
  let ?n = "dedupe_replicas h (net_canon w) (mo_node s) c"
  from a e have f: "he_role e = Primary" "\<not> he_stale e" "he_auto_failover e" "he_witness e = W"
    "he_failover_after_secs e = F" "set (he_replicas e) \<subseteq> Ps" and run: "c \<in> hn_running (mo_node s)"
    by (auto simp: armed_def view_of_def)
  from e have ec: "he_container e = c" by (auto dest: ha_get_SomeD)
  from dedupe_self [OF e, of h "net_canon w"] obtain r where r: "set r \<subseteq> set (he_replicas e)"
    "ha_get (hn_store ?n) c = Some (e\<lparr>he_replicas := r\<rparr>)" by blast
  have noone: "\<not> list_ex (reachable w) (he_replicas e)"
    using i f(6) by (auto simp: isolated_def reachable_def list_ex_iff)
  have down: "\<not> ping_host w W" and ok: "is_ok (h_stop h)" "is_ok (h_save h)"
    using i by (simp_all add: isolated_def)
  have pos: "\<not> fence_secs F \<le> 0" by (simp add: fence_secs_def)
  show "fenced W (view_of c (monitor_entry h w e s))" if "fence_secs F \<le> net_secs w - k"
    using that k f ec r noone down ok W run pos
    by (cases "map_of (mo_clocks s) (witness_key c)")
      (auto simp: monitor_entry_def monitor_primary_def subject_is_running_def fail_elapsed_def
        reset_clock_def set_stale_def try_stop_def fenced_def view_of_def Let_def ha_get_get_mut)
  show "armed W F Ps (view_of c (monitor_entry h w e s))
      \<and> vw_witness (view_of c (monitor_entry h w e s)) = Some k" if "net_secs w - k < fence_secs F"
    using that k f ec r noone down W run pos
    by (cases "map_of (mo_clocks s) (witness_key c)")
      (auto simp: monitor_entry_def monitor_primary_def subject_is_running_def fail_elapsed_def
        armed_def view_of_def Let_def update_conv)
qed

lemma fenced_entry:
  assumes "fenced W (view_of c s)" and "ha_get (hn_store (mo_node s)) c = Some e"
    and "isolated W Ps (h, w)" and "W \<noteq> []"
  shows "fenced W (view_of c (monitor_entry h w e s))"
  using assms by (auto simp: fenced_def view_of_def monitor_entry_def monitor_fenced_def isolated_def Let_def)

text \<open>Fencing is a timeout of the monitor.\<close>

definition to_fence :: "string \<Rightarrow> nat \<Rightarrow> ha_peer set \<Rightarrow> string \<Rightarrow> nat option \<Rightarrow> monitor \<Rightarrow> bool" where
  "to_fence W F Ps c k s =
     (distinct (keys s) \<and> W \<noteq> [] \<and> armed W F Ps (view_of c s) \<and> vw_witness (view_of c s) = k)"

definition has_fenced :: "string \<Rightarrow> string \<Rightarrow> monitor \<Rightarrow> bool" where
  "has_fenced W c s = (distinct (keys s) \<and> W \<noteq> [] \<and> fenced W (view_of c s))"

interpretation fencing: timeout monitor_tick "\<lambda>env. isolated W Ps (env c)"
  "\<lambda>env. net_secs (snd (env c))" "fence_secs F" "to_fence W F Ps c" "has_fenced W c" for W Ps c F
proof
  fix s env
  assume f: "has_fenced W c s" and i: "isolated W Ps (env c)"
  then obtain e where e: "ha_get (hn_store (mo_node s)) c = Some e"
    by (auto simp: has_fenced_def fenced_def view_of_def split: option.splits)
  have "fenced W (view_of c (monitor_tick env s))"
    by (rule tick_viewI [of s c e]) (use f e i in \<open>auto simp: has_fenced_def intro: fenced_entry\<close>)
  with f show "has_fenced W c (monitor_tick env s)" by (simp add: has_fenced_def)
next
  fix k s env
  assume a: "to_fence W F Ps c k s" and i: "isolated W Ps (env c)"
  then obtain e where e: "ha_get (hn_store (mo_node s)) c = Some e"
    by (auto simp: to_fence_def armed_def view_of_def split: option.splits)
  let ?t = "net_secs (snd (env c))"
  show "has_fenced W c (monitor_tick env s)" if "fence_secs F \<le> ?t - unwrap_or ?t k"
  proof -
    have "fenced W (view_of c (monitor_tick env s))"
      by (rule tick_viewI [of s c e]) (use a e i that in \<open>auto simp: to_fence_def intro: isolated_entry(1)\<close>)
    with a show ?thesis by (simp add: has_fenced_def to_fence_def)
  qed
  show "to_fence W F Ps c (Some (unwrap_or ?t k)) (monitor_tick env s)" if "?t - unwrap_or ?t k < fence_secs F"
  proof -
    have "armed W F Ps (view_of c (monitor_tick env s))
        \<and> vw_witness (view_of c (monitor_tick env s)) = Some (unwrap_or ?t k)"
    proof (rule tick_viewI [of s c e])
      fix h w s'
      assume "env c = (h, w)" and "view_of c s' = view_of c s" and "ha_get (hn_store (mo_node s')) c = Some e"
      then show "armed W F Ps (view_of c (monitor_entry h w e s'))
          \<and> vw_witness (view_of c (monitor_entry h w e s')) = Some (unwrap_or ?t k)"
        using isolated_entry(2) [of W F Ps c s' e h w, OF _ _ _ _ refl] a i that
        by (simp add: to_fence_def)
    qed (use a e in \<open>simp_all add: to_fence_def\<close>)
    with a show ?thesis by (simp add: to_fence_def)
  qed
qed

section \<open>The waiting standby\<close>

text \<open>
  A copy that is not running and cannot start before \<open>lost + F\<close>: a standby whose failure clock
  started no earlier than \<open>lost\<close>, or an entry the monitor never starts.
\<close>

definition quiet :: "nat \<Rightarrow> nat \<Rightarrow> view \<Rightarrow> bool" where
  "quiet lost F v =
     (\<not> vw_running v \<and> (case vw_entry v of None \<Rightarrow> True | Some e \<Rightarrow>
        (case (he_role e, he_stale e) of
           (Primary, False) \<Rightarrow> True
         | (Primary, True) \<Rightarrow> False
         | (Replica, False) \<Rightarrow> F \<le> he_failover_after_secs e
             \<and> (case vw_primary v of None \<Rightarrow> True | Some k \<Rightarrow> lost \<le> k)
         | (Replica, True) \<Rightarrow> True)))"

lemma quiet_standby:
  assumes q: "quiet lost F (view_of c s)" and e: "ha_get (hn_store (mo_node s)) c = Some e"
    and role: "he_role e = Replica" "\<not> he_stale e" and t: "lost \<le> net_secs w"
  shows "quiet lost F (view_of c (monitor_standby h w e s)) \<or> lost + F \<le> net_secs w"
proof (cases "\<exists>p. he_primary e = Some p \<and> net_status w p = None \<and> he_auto_failover e
    \<and> he_failover_after_secs e \<le> fst (fail_elapsed (net_secs w) (primary_key c) True (mo_clocks s))")
  case True
  with q e role t have "lost + F \<le> net_secs w"
    by (auto simp: quiet_def view_of_def fail_elapsed_def split: option.splits)
  then show ?thesis ..
next
  case False
  from e have ec: "he_container e = c" by (auto dest: ha_get_SomeD)
  show ?thesis
    using False q e role t ec
    by (auto simp: quiet_def view_of_def monitor_standby_def fail_elapsed_def subject_is_running_def
        delete_conv update_conv Let_def split: option.splits)
qed

lemma quiet_primary:
  assumes q: "quiet lost F (view_of c s)" and e: "ha_get (hn_store (mo_node s)) c = Some e"
    and role: "he_role e = Primary" "\<not> he_stale e"
  shows "quiet lost F (view_of c (monitor_primary h w e s))"
proof -
  let ?n = "dedupe_replicas h (net_canon w) (mo_node s) c"
  from e have ec: "he_container e = c" by (auto dest: ha_get_SomeD)
  from dedupe_self [OF e, of h "net_canon w"] obtain r where
    r: "ha_get (hn_store ?n) c = Some (e\<lparr>he_replicas := r\<rparr>)" by blast
  show ?thesis
    using q e role ec r
    by (auto simp: quiet_def view_of_def monitor_primary_def subject_is_running_def reset_clock_def
        demote_local_def demote_entry_def ha_get_get_mut Let_def split: option.splits sum.splits)
qed

lemma quiet_tick:
  assumes d: "distinct (keys s)" and q: "quiet lost F (view_of c s)" and t: "lost \<le> net_secs (snd (env c))"
  shows "quiet lost F (view_of c (monitor_tick env s)) \<or> lost + F \<le> net_secs (snd (env c))"
proof (cases "ha_get (hn_store (mo_node s)) c")
  case None
  with q show ?thesis by (simp add: tick_view_absent)
next
  case (Some e)
  from q Some have "\<not> (he_role e = Primary \<and> he_stale e)"
    by (auto simp: quiet_def view_of_def split: bool.splits)
  then have "quiet lost F (view_of c (monitor_entry h w e s')) \<or> lost + F \<le> net_secs w"
    if "env c = (h, w)" "quiet lost F (view_of c s')" "ha_get (hn_store (mo_node s')) c = Some e" for h w s'
    using quiet_standby [OF that(2,3), of w h] quiet_primary [OF that(2,3), of h w] that t
    by (cases "he_role e"; cases "he_stale e") (simp_all add: monitor_entry_def)
  with q show ?thesis
    by (intro tick_viewI [where P = "\<lambda>v. quiet lost F v \<or> lost + F \<le> net_secs (snd (env c))", OF d Some])
      simp
qed

lemma quiet_ticks:
  assumes "distinct (keys s)" and "quiet lost F (view_of c s)"
    and "\<forall>env \<in> set envs. lost \<le> net_secs (snd (env c)) \<and> net_secs (snd (env c)) < lost + F"
  shows "quiet lost F (view_of c (ticks envs s))"
  using assms
proof (induction envs arbitrary: s)
  case (Cons env envs)
  with quiet_tick [of s lost F c env] show ?case by fastforce
qed simp

section \<open>Fencing comes first\<close>

lemma fenced_not_running: "fenced W (view_of c s) \<Longrightarrow> c \<notin> hn_running (mo_node s)"
  by (simp add: fenced_def view_of_def)

lemma quiet_not_running: "quiet lost F (view_of c s) \<Longrightarrow> c \<notin> hn_running (mo_node s)"
  by (simp add: quiet_def view_of_def)

section \<open>Scenarios\<close>

text \<open>Two nodes that protect one container, with the settings a test cluster would have.\<close>

definition peer_a :: ha_peer where "peer_a = \<lparr>pe_node_id = ''a'', pe_address = ''10.0.0.1'', pe_port = 8553\<rparr>"

definition peer_b :: ha_peer where "peer_b = \<lparr>pe_node_id = ''b'', pe_address = ''10.0.0.2'', pe_port = 8553\<rparr>"

definition good_host :: host where
  "good_host = \<lparr>h_local = (\<lambda>_. False), h_dir = True, h_save = Inr (), h_prepare = Inr (), h_start = Inr (),
     h_stop = Inr ()\<rparr>"

definition replica_b :: "nat \<Rightarrow> ha_entry" where
  "replica_b F = (standby_entry ''db'' Container peer_a 0 False None)
     \<lparr>he_auto_failover := True, he_witness := ''10.0.0.254'', he_failover_after_secs := F,
      he_replicas := [peer_b], he_interval_minutes := 5\<rparr>"

definition primary_a :: "nat \<Rightarrow> ha_entry" where
  "primary_a F = (replica_b F)\<lparr>he_role := Primary, he_primary := None, he_self_identity := Some peer_a,
     he_autostart_managed := True\<rparr>"

definition ha_node_a :: "nat \<Rightarrow> monitor" where
  "ha_node_a F = \<lparr>mo_node = \<lparr>hn_store = [primary_a F], hn_running = {''db''}, hn_markers = {}\<rparr>, mo_clocks = []\<rparr>"

definition ha_node_b :: "nat \<Rightarrow> monitor" where
  "ha_node_b F = \<lparr>mo_node = \<lparr>hn_store = [replica_b F], hn_running = {}, hn_markers = {''db''}\<rparr>, mo_clocks = []\<rparr>"

text \<open>A tick at time \<open>t\<close> in which no peer answers and the witness does if \<open>up\<close>.\<close>

definition alone :: "bool \<Rightarrow> nat \<Rightarrow> string \<Rightarrow> host \<times> net" where
  "alone up t _ = (good_host,
     \<lparr>net_secs = t, net_unix = t, net_status = (\<lambda>_. None), net_ping = (\<lambda>_. up), net_alive = (\<lambda>_. False),
      net_ip = (\<lambda>_. None), net_canon = (\<lambda>_. None), net_me = Some peer_b\<rparr>)"

lemmas scenario_defs = peer_a_def peer_b_def good_host_def replica_b_def primary_a_def ha_node_a_def
  ha_node_b_def alone_def standby_entry_def view_of_def ha_get_def keys_def

lemma armed_node_a: "armed ''10.0.0.254'' F {peer_b} (view_of ''db'' (ha_node_a F))"
  and node_a_clock: "vw_witness (view_of ''db'' (ha_node_a F)) = None"
  and distinct_a: "distinct (keys (ha_node_a F))"
  and isolated_alone: "isolated ''10.0.0.254'' {peer_b} (alone False t ''db'')"
  by (simp_all add: armed_def isolated_def ping_host_def scenario_defs)

lemma quiet_node_b: "quiet lost F (view_of ''db'' (ha_node_b F))"
  and distinct_b: "distinct (keys (ha_node_b F))"
  by (simp_all add: quiet_def scenario_defs)


end
