(* ===== verification/Ha_Takeover.thy ===== *)
theory Ha_Takeover
  imports Ha_Fencing
begin

text \<open>
  What automatic failover achieves and where it stops short: a standby through whose gates nothing
  stands takes over, every start is behind the gates, and the situations in which two copies run.
\<close>

section \<open>A leader stays one\<close>

definition leading :: "string \<Rightarrow> view \<Rightarrow> bool" where
  "leading W v =
     (vw_running v \<and> (case vw_entry v of None \<Rightarrow> False | Some e \<Rightarrow>
        he_role e = Primary \<and> \<not> he_stale e \<and> he_witness e = W))"

lemma leading_entry:
  assumes l: "leading W (view_of c s)" and e: "ha_get (hn_store (mo_node s)) c = Some e"
    and up: "ping_host w W"
  shows "leading W (view_of c (monitor_entry h w e s))"
proof -
  let ?n = "dedupe_replicas h (net_canon w) (mo_node s) c"
  from e have ec: "he_container e = c" by (auto dest: ha_get_SomeD)
  from dedupe_self [OF e, of h "net_canon w"] obtain r where
    r: "ha_get (hn_store ?n) c = Some (e\<lparr>he_replicas := r\<rparr>)" by blast
  show ?thesis
    using l e up ec r
    by (auto simp: leading_def view_of_def monitor_entry_def monitor_primary_def subject_is_running_def
        fail_elapsed_def Let_def split: option.splits)
qed

lemma leading_tick:
  assumes d: "distinct (keys s)" and l: "leading W (view_of c s)" and up: "ping_host (snd (env c)) W"
  shows "leading W (view_of c (monitor_tick env s))"
proof -
  from l obtain e where e: "ha_get (hn_store (mo_node s)) c = Some e"
    by (auto simp: leading_def view_of_def split: option.splits)
  show ?thesis by (rule tick_viewI [OF d e]) (use l up in \<open>simp add: leading_entry\<close>)
qed

lemma leading_ticks:
  assumes "distinct (keys s)" and "leading W (view_of c s)"
    and "\<forall>env \<in> set envs. ping_host (snd (env c)) W"
  shows "leading W (view_of c (ticks envs s))"
  using assms by (induction envs arbitrary: s) (simp_all add: leading_tick)

section \<open>A standby with nothing in its way\<close>

definition standing_by :: "ha_peer \<Rightarrow> ha_entry \<Rightarrow> view \<Rightarrow> bool" where
  "standing_by p e v =
     (vw_entry v = Some e \<and> he_role e = Replica \<and> \<not> he_stale e \<and> he_auto_failover e
      \<and> he_primary e = Some p \<and> he_kind e = Container \<and> \<not> vw_running v)"

definition clear_way :: "ha_peer \<Rightarrow> ha_entry \<Rightarrow> host \<times> net \<Rightarrow> bool" where
  "clear_way p e hw =
     (net_status (snd hw) p = None \<and> gates_pass (fst hw) (snd hw) e p
      \<and> is_ok (h_save (fst hw)) \<and> is_ok (h_start (fst hw)))"

lemma clear_way_ping: "clear_way p e (h, w) \<Longrightarrow> ping_host w (he_witness e)"
  by (simp add: clear_way_def gates_pass_def)

lemma promote_local_ok:
  assumes "ha_get (hn_store n) c = Some e" and "he_role e = Replica" and "he_kind e = Container"
    and "is_ok (h_save h)" and "is_ok (h_start h)"
  shows "promote_local h n c me =
    (n\<lparr>hn_markers := hn_markers n - {c},
       hn_store := ha_get_mut c (\<lambda>_. promote_entry (h_local h) me e) (hn_store n),
       hn_running := insert c (hn_running n)\<rparr>, Ok ())"
proof -
  have "he_kind (promote_entry (h_local h) me e) = Container"
    using assms by (simp add: promote_entry_def Let_def)
  with assms show ?thesis
    by (cases "h_save h"; cases "h_start h") (auto simp: promote_local_def prepare_subject_def Let_def is_ok_def)
qed

lemma standby_entry_step:
  assumes sb: "standing_by p e (view_of c s)" and cw: "clear_way p e (h, w)"
    and k: "k = unwrap_or (net_secs w) (vw_primary (view_of c s))"
  shows "he_failover_after_secs e \<le> net_secs w - k \<Longrightarrow>
      leading (he_witness e) (view_of c (monitor_entry h w e s))"
    and "net_secs w - k < he_failover_after_secs e \<Longrightarrow>
      standing_by p e (view_of c (monitor_entry h w e s))
      \<and> vw_primary (view_of c (monitor_entry h w e s)) = Some k"
proof -
  from sb have e: "ha_get (hn_store (mo_node s)) c = Some e" by (simp add: standing_by_def view_of_def)
  then have ec: "he_container e = c" by (auto dest: ha_get_SomeD)
  from cw have h: "is_ok (h_save h)" "is_ok (h_start h)" by (simp_all add: clear_way_def)
  from sb have r: "he_role e = Replica" "he_kind e = Container" by (simp_all add: standing_by_def)
  note pl = promote_local_ok [OF e r h, of "net_me w"]
  have w: "he_witness (promote_entry (h_local h) (net_me w) e) = he_witness e"
    "he_role (promote_entry (h_local h) (net_me w) e) = Primary"
    "\<not> he_stale (promote_entry (h_local h) (net_me w) e)"
    by (simp_all add: promote_entry_def Let_def)
  show "leading (he_witness e) (view_of c (monitor_entry h w e s))"
    if "he_failover_after_secs e \<le> net_secs w - k"
    using that k sb cw e ec w
    by (cases "map_of (mo_clocks s) (primary_key c)")
      (auto simp: monitor_entry_def monitor_standby_def standing_by_def clear_way_def view_of_def
        subject_is_running_def fail_elapsed_def pl leading_def reset_clock_def ha_get_get_mut_const Let_def)
  show "standing_by p e (view_of c (monitor_entry h w e s))
      \<and> vw_primary (view_of c (monitor_entry h w e s)) = Some k"
    if "net_secs w - k < he_failover_after_secs e"
    using that k sb cw e ec
    by (cases "map_of (mo_clocks s) (primary_key c)")
      (auto simp: monitor_entry_def monitor_standby_def standing_by_def clear_way_def view_of_def
        subject_is_running_def fail_elapsed_def update_conv Let_def)
qed

text \<open>Promotion is a timeout of the monitor as well.\<close>

definition to_promote :: "ha_peer \<Rightarrow> ha_entry \<Rightarrow> string \<Rightarrow> nat option \<Rightarrow> monitor \<Rightarrow> bool" where
  "to_promote p e c k s =
     (distinct (keys s) \<and> standing_by p e (view_of c s) \<and> vw_primary (view_of c s) = k)"

definition has_taken_over :: "ha_entry \<Rightarrow> string \<Rightarrow> monitor \<Rightarrow> bool" where
  "has_taken_over e c s = (distinct (keys s) \<and> leading (he_witness e) (view_of c s))"

interpretation promotion: timeout monitor_tick "\<lambda>env. clear_way p e (env c)"
  "\<lambda>env. net_secs (snd (env c))" "he_failover_after_secs e" "to_promote p e c" "has_taken_over e c" for p e c
proof
  fix s env
  assume l: "has_taken_over e c s" and cw: "clear_way p e (env c)"
  from cw have "ping_host (snd (env c)) (he_witness e)" by (cases "env c") (simp add: clear_way_ping)
  with l show "has_taken_over e c (monitor_tick env s)"
    by (simp add: has_taken_over_def leading_tick)
next
  fix k s env
  assume a: "to_promote p e c k s" and cw: "clear_way p e (env c)"
  then have e: "ha_get (hn_store (mo_node s)) c = Some e"
    by (simp add: to_promote_def standing_by_def view_of_def)
  let ?t = "net_secs (snd (env c))"
  show "has_taken_over e c (monitor_tick env s)" if "he_failover_after_secs e \<le> ?t - unwrap_or ?t k"
  proof -
    have "leading (he_witness e) (view_of c (monitor_tick env s))"
      by (rule tick_viewI [of s c e])
        (use a e cw that in \<open>auto simp: to_promote_def intro: standby_entry_step(1)\<close>)
    with a show ?thesis by (simp add: has_taken_over_def to_promote_def)
  qed
  show "to_promote p e c (Some (unwrap_or ?t k)) (monitor_tick env s)"
    if "?t - unwrap_or ?t k < he_failover_after_secs e"
  proof -
    have "standing_by p e (view_of c (monitor_tick env s))
        \<and> vw_primary (view_of c (monitor_tick env s)) = Some (unwrap_or ?t k)"
    proof (rule tick_viewI [of s c e])
      fix h w s'
      assume "env c = (h, w)" and "view_of c s' = view_of c s"
      then show "standing_by p e (view_of c (monitor_entry h w e s'))
          \<and> vw_primary (view_of c (monitor_entry h w e s')) = Some (unwrap_or ?t k)"
        using standby_entry_step(2) [of p e c s' h w, OF _ _ refl] a cw that by (simp add: to_promote_def)
    qed (use a e in \<open>simp_all add: to_promote_def\<close>)
    with a show ?thesis by (simp add: to_promote_def)
  qed
qed
section \<open>Properties\<close>

text \<open>
  C9 (failover_completes). A standby that cannot reach its primary, sees the witness and has nothing
  in the way of its gates at any tick runs the container, as the active primary, once its monitor
  has ticked over a span of the failover delay.
\<close>

theorem failover_completes:
  assumes "distinct (keys b)" and "standing_by p e (view_of c b)" and "vw_primary (view_of c b) = None"
    and "envs \<noteq> []" and "\<forall>env \<in> set envs. clear_way p e (env c)"
    and "net_secs (snd (hd envs c)) + he_failover_after_secs e \<le> net_secs (snd (last envs c))"
  shows "subject_is_running (mo_node (ticks envs b)) c
    \<and> (\<exists>e'. ha_get (hn_store (mo_node (ticks envs b))) c = Some e' \<and> he_role e' = Primary \<and> \<not> he_stale e')"
proof -
  from assms(1,2,3) have "to_promote p e c None b" by (simp add: to_promote_def)
  with promotion.run_acts assms(4,5,6) have "has_taken_over e c (ticks envs b)"
    unfolding ticks_def by blast
  then show ?thesis
    by (auto simp: has_taken_over_def leading_def view_of_def subject_is_running_def split: option.splits)
qed

lemma standing_node_b: "standing_by peer_a (replica_b F) (view_of ''db'' (ha_node_b F))"
  and node_b_clock: "vw_primary (view_of ''db'' (ha_node_b F)) = None"
  by (simp_all add: standing_by_def scenario_defs)

lemma clear_alone: "t \<le> 1800 \<Longrightarrow> clear_way peer_a (replica_b F) (alone True t ''db'')"
  by (simp add: clear_way_def gates_pass_def defers_def max_age_def ping_host_def scenario_defs)

theorem failover_completes_witness:
  "subject_is_running (mo_node (ticks (map (alone True) [0, 15, 30]) (ha_node_b 30))) ''db''
   \<and> (\<exists>e'. ha_get (hn_store (mo_node (ticks (map (alone True) [0, 15, 30]) (ha_node_b 30)))) ''db'' = Some e'
        \<and> he_role e' = Primary \<and> \<not> he_stale e')"
  by (rule failover_completes [OF distinct_b standing_node_b node_b_clock])
    (auto simp: clear_alone, auto simp: scenario_defs)

text \<open>
  The handlers accept a failover delay of 30 seconds, and then fencing takes
  the whole delay. After a clean partition in which the primary's monitor ticks at any point of its
  15 second period after the standby's, the standby starts the container while the primary still
  runs it.
\<close>

theorem fence_margin_lost:
  assumes "wolfha_validate_auto True ''10.0.0.254'' 30 = Ok (W, F)" and "0 < d" and "d < 15"
  shows "subject_is_running (mo_node (ticks (map (alone True) [0, 15, 30]) (ha_node_b F))) ''db''
    \<and> subject_is_running (mo_node (ticks (map (alone False) [d, d + 15]) (ha_node_a F))) ''db''"
proof -
  have F: "F = 30" using assms(1) by (simp add: wolfha_validate_auto_def Let_def split: if_splits)
  have "to_fence ''10.0.0.254'' F {peer_b} ''db'' None (ha_node_a F)"
    by (simp add: to_fence_def distinct_a armed_node_a node_a_clock)
  then have "to_fence ''10.0.0.254'' F {peer_b} ''db'' (Some d) (ticks (map (alone False) [d, d + 15]) (ha_node_a F))"
    using fencing.run_waits [of "''10.0.0.254''" F "{peer_b}" "''db''" "ha_node_a F" "map (alone False) [d, d + 15]"]
      assms(3) F
    by (simp add: ticks_def isolated_alone) (simp add: alone_def fence_secs_def)
  then have "subject_is_running (mo_node (ticks (map (alone False) [d, d + 15]) (ha_node_a F))) ''db''"
    by (simp add: to_fence_def armed_def view_of_def subject_is_running_def)
  moreover have "to_promote peer_a (replica_b F) ''db'' None (ha_node_b F)"
    by (simp add: to_promote_def distinct_b standing_node_b node_b_clock)
  then have "has_taken_over (replica_b F) ''db'' (ticks (map (alone True) [0, 15, 30]) (ha_node_b F))"
    unfolding ticks_def
    by (rule promotion.run_acts) (auto simp: clear_alone, auto simp: F scenario_defs)
  then have "subject_is_running (mo_node (ticks (map (alone True) [0, 15, 30]) (ha_node_b F))) ''db''"
    by (simp add: has_taken_over_def leading_def view_of_def subject_is_running_def)
  ultimately show ?thesis by blast
qed

theorem fence_margin_lost_witness:
  "wolfha_validate_auto True ''10.0.0.254'' 30 = Ok (''10.0.0.254'', 30)
   \<and> subject_is_running (mo_node (ticks (map (alone True) [0, 15, 30]) (ha_node_b 30))) ''db''
   \<and> subject_is_running (mo_node (ticks (map (alone False) [14, 29]) (ha_node_a 30))) ''db''"
proof -
  have v: "wolfha_validate_auto True ''10.0.0.254'' 30 = Ok (''10.0.0.254'', 30)"
    by (simp add: wolfha_validate_auto_def is_safe_name_def trim_def is_ws_def is_ascii_alphanumeric_def
        is_ascii_digit_def contains_def starts_with_def Let_def)
  with fence_margin_lost [OF v, of 14] show ?thesis by simp
qed

text \<open>
  Two nodes that both run the container as its active primary and reach
  the witness stay that way through any number of monitor ticks, whatever their peers answer.
\<close>

theorem dual_primary_persists:
  assumes "distinct (keys a)" and "leading W (view_of c a)"
    and "\<forall>env \<in> set envsA. ping_host (snd (env c)) W"
    and "distinct (keys b)" and "leading W (view_of c b)"
    and "\<forall>env \<in> set envsB. ping_host (snd (env c)) W"
  shows "subject_is_running (mo_node (ticks envsA a)) c \<and> subject_is_running (mo_node (ticks envsB b)) c"
  using leading_ticks [OF assms(1,2,3)] leading_ticks [OF assms(4,5,6)]
  by (simp add: leading_def view_of_def subject_is_running_def)

end
