(* ===== verification/Ha_Handlers.thy ===== *)
theory Ha_Handlers
  imports Ha_Views
begin

text \<open>
  The rest of what changes a node's WolfHA state: the handlers of \<^verbatim>\<open>src/api/mod.rs\<close> that protect a
  subject, receive a round, drop a copy and end protection, and the scheduler that decides which
  subjects are due. All ways a node can change are gathered in one step relation.
\<close>

section \<open>Names and peers\<close>

datatype handler_error =
    BadName
  | NotFound
  | WrongHost
  | Missing string
  | AlreadyManaged
  | NoReplicas
  | InFlight
  | NoIdentity string
  | UnknownPeer string
  | SelfPeer
  | ProxmoxPeer string
  | BadSettings
  | SeedingFailed string
  | StoreFailed string
  | ActiveHere
  | ApplyFailed string
  | RunningHere
  | RemoveFailed string

definition safe_container :: "string \<Rightarrow> handler_error + string" where
  "safe_container raw = (if is_safe_name (trim raw) then Ok (trim raw) else Err BadName)"

record cluster_node =
  cn_id :: string
  cn_address :: string
  cn_port :: u16
  cn_is_self :: bool
  cn_node_type :: string

definition unusable_address :: "string \<Rightarrow> bool" where
  "unusable_address a = (a = [] \<or> a = ''0.0.0.0'' \<or> starts_with ''127.'' a)"

text \<open>\<open>wolfnet\<close> is this host's overlay address, if it has one.\<close>

definition wolfha_self_peer ::
  "string option \<Rightarrow> cluster_node list \<Rightarrow> handler_error + ha_peer" where
  "wolfha_self_peer wolfnet nodes =
     (case find cn_is_self nodes of
        None \<Rightarrow> Err (NoIdentity ''not established'')
      | Some me \<Rightarrow>
          (case (if unusable_address (cn_address me) then wolfnet else Some (cn_address me)) of
             None \<Rightarrow> Err (NoIdentity ''unroutable'')
           | Some a \<Rightarrow> Ok \<lparr>pe_node_id = cn_id me, pe_address = a, pe_port = cn_port me\<rparr>))"

fun enable_peers :: "cluster_node list \<Rightarrow> string list \<Rightarrow> handler_error + ha_peer list" where
  "enable_peers nodes [] = Ok []"
| "enable_peers nodes (i # is) =
     (case find (\<lambda>n. cn_id n = i) nodes of
        None \<Rightarrow> Err (UnknownPeer i)
      | Some n \<Rightarrow>
          if cn_is_self n then Err SelfPeer
          else if cn_node_type n = ''proxmox'' then Err (ProxmoxPeer i)
          else case enable_peers nodes is of
            Inl x \<Rightarrow> Err x
          | Inr ps \<Rightarrow> Ok (\<lparr>pe_node_id = cn_id n, pe_address = cn_address n, pe_port = cn_port n\<rparr> # ps))"

section \<open>Protecting a subject\<close>

record enable_req =
  er_container :: string
  er_kind :: subject_kind
  er_replica_node_ids :: "string list"
  er_interval_minutes :: nat
  er_auto_failover :: bool
  er_witness :: string
  er_failover_after_secs :: nat

text \<open>
  What the host and the cluster answer: whether the node is managed by Proxmox, whether the subject
  can be protected (for a VM this attaches the dirty bitmap), whether a protect of it is running,
  the registry, and whether the subject was set to start at boot. A Proxmox subject takes a separate
  path after the checks, which is not modelled.
\<close>

record enable_env =
  ee_proxmox :: bool
  ee_is_vmid :: bool
  ee_present :: "string + unit"
  ee_inflight :: bool
  ee_wolfnet :: "string option"
  ee_nodes :: "cluster_node list"
  ee_autostart :: bool

record enable_plan =
  ep_container :: string
  ep_kind :: subject_kind
  ep_me :: ha_peer
  ep_peers :: "ha_peer list"
  ep_interval :: nat
  ep_auto :: bool
  ep_witness :: string
  ep_after :: nat

definition wolfha_enable :: "enable_env \<Rightarrow> ha_node \<Rightarrow> enable_req \<Rightarrow> handler_error + enable_plan" where
  "wolfha_enable ee n r =
     (case safe_container (er_container r) of Inl x \<Rightarrow> Err x | Inr c \<Rightarrow>
      if ee_proxmox ee \<noteq> (er_kind r = PveContainer) then Err WrongHost
      else if er_kind r = PveContainer \<and> \<not> ee_is_vmid ee then Err BadName
      else case ee_present ee of Inl x \<Rightarrow> Err (Missing x) | Inr _ \<Rightarrow>
      if ha_get (hn_store n) c \<noteq> None then Err AlreadyManaged
      else if er_replica_node_ids r = [] then Err NoReplicas
      else if ee_inflight ee then Err InFlight
      else case wolfha_self_peer (ee_wolfnet ee) (ee_nodes ee) of Inl x \<Rightarrow> Err x | Inr me \<Rightarrow>
      case enable_peers (ee_nodes ee) (er_replica_node_ids r) of Inl x \<Rightarrow> Err x | Inr peers \<Rightarrow>
      case wolfha_validate_auto (er_auto_failover r) (er_witness r) (er_failover_after_secs r) of
        Inl _ \<Rightarrow> Err BadSettings
      | Inr (w, f) \<Rightarrow>
          Ok \<lparr>ep_container = c, ep_kind = er_kind r, ep_me = me, ep_peers = peers,
              ep_interval = if er_interval_minutes r = 0 then 5 else er_interval_minutes r,
              ep_auto = er_auto_failover r, ep_witness = w, ep_after = f\<rparr>)"

definition enabled_entry :: "enable_plan \<Rightarrow> bool \<Rightarrow> string \<Rightarrow> ha_entry" where
  "enabled_entry p had_autostart chain =
     \<lparr>he_container = ep_container p, he_kind = ep_kind p, he_role = Primary,
      he_interval_minutes = ep_interval p, he_replicas = ep_peers p, he_primary = None,
      he_autostart_managed = had_autostart, he_last_sync = [], he_last_delta_at = 0, he_stale = False,
      he_auto_failover = ep_auto p, he_witness = ep_witness p, he_failover_after_secs = ep_after p,
      he_pending_vm_delta = None, he_vm_chain = if ep_kind p = Vm then Some chain else None,
      he_self_identity = Some (ep_me p), he_zfs_datasets = []\<rparr>"

text \<open>The settings that travel with the seed.\<close>

definition enable_meta :: "enable_plan \<Rightarrow> ha_meta" where
  "enable_meta p =
     \<lparr>hm_kind = ep_kind p, hm_interval_minutes = ep_interval p, hm_replicas = ep_peers p,
      hm_auto_failover = ep_auto p, hm_witness = ep_witness p, hm_failover_after_secs = ep_after p,
      hm_primary = Some (ep_me p), hm_zfs_datasets = []\<rparr>"

text \<open>The background task: seed every peer in order, then store the entry. \<open>seed\<close> is a peer's answer.\<close>

fun seed_all :: "(ha_peer \<Rightarrow> string + unit) \<Rightarrow> ha_peer list \<Rightarrow> handler_error + unit" where
  "seed_all seed [] = Ok ()"
| "seed_all seed (p # ps) =
     (case seed p of Inl x \<Rightarrow> Err (SeedingFailed x) | Inr _ \<Rightarrow> seed_all seed ps)"

definition enable_task ::
  "host \<Rightarrow> (ha_peer \<Rightarrow> string + unit) \<Rightarrow> bool \<Rightarrow> string \<Rightarrow> enable_plan \<Rightarrow> ha_node \<Rightarrow>
   ha_node \<times> (handler_error + unit)" where
  "enable_task h seed had_autostart chain p n =
     (case seed_all seed (ep_peers p) of
        Inl x \<Rightarrow> (n, Err x)
      | Inr _ \<Rightarrow>
          (case h_save h of
             Inl x \<Rightarrow> (n, Err (StoreFailed x))
           | Inr _ \<Rightarrow>
               (n\<lparr>hn_store := ha_remove (ep_container p) (hn_store n) @ [enabled_entry p had_autostart chain]\<rparr>,
                Ok ())))"

section \<open>Receiving a round\<close>

text \<open>
  \<open>applied\<close> is the outcome of the block deltas and the archive, modelled with the drivers. The store
  is only touched after they have been applied.
\<close>

definition round_applied :: "nat \<Rightarrow> ha_meta option \<Rightarrow> ha_entry \<Rightarrow> ha_entry" where
  "round_applied now meta e =
     (let e1 = e\<lparr>he_last_delta_at := now, he_stale := False\<rparr> in
      case meta of Some m \<Rightarrow> apply_to m e1 | None \<Rightarrow> e1)"

definition wolfha_apply_delta ::
  "host \<Rightarrow> string + nat \<Rightarrow> nat \<Rightarrow> ha_node \<Rightarrow> string \<Rightarrow> ha_meta option \<Rightarrow>
   ha_node \<times> (handler_error + nat)" where
  "wolfha_apply_delta h applied now n c meta =
     (case ha_get (hn_store n) c of
        None \<Rightarrow> (n, Err NotFound)
      | Some e \<Rightarrow>
          if he_role e = Primary \<and> \<not> he_stale e then (n, Err ActiveHere)
          else case applied of
            Inl x \<Rightarrow> (n, Err (ApplyFailed x))
          | Inr deleted \<Rightarrow>
              (if is_ok (h_save h)
               then n\<lparr>hn_store := ha_get_mut c (round_applied now meta) (hn_store n)\<rparr> else n,
               Ok deleted))"

section \<open>Ending protection\<close>

datatype drop_outcome = Removed | LeftInPlace | KeptOrdinary | NoReplicaData

definition wolfha_drop ::
  "host \<Rightarrow> string + unit \<Rightarrow> bool \<Rightarrow> ha_node \<Rightarrow> string \<Rightarrow> ha_node \<times> (handler_error + drop_outcome)" where
  "wolfha_drop h remove_data destroy n c =
     (let kind = (case ha_get (hn_store n) c of Some e \<Rightarrow> he_kind e | None \<Rightarrow> Container) in
      case h_save h of Inl x \<Rightarrow> (n, Err (StoreFailed x)) | Inr _ \<Rightarrow>
      let n1 = n\<lparr>hn_store := ha_remove c (hn_store n)\<rparr>;
          rm = (\<lambda>n'. case remove_data of Inl x \<Rightarrow> (n1, Err (RemoveFailed x)) | Inr _ \<Rightarrow> (n', Ok Removed))
      in case kind of
           PveContainer \<Rightarrow> if destroy then rm n1 else (n1, Ok LeftInPlace)
         | Vm \<Rightarrow>
             if \<not> destroy then (n1, Ok LeftInPlace)
             else if subject_is_running n1 c then (n1, Err RunningHere)
             else rm n1
         | Container \<Rightarrow>
             if c \<notin> hn_markers n1 then (n1, Ok NoReplicaData)
             else if \<not> destroy then (n1\<lparr>hn_markers := hn_markers n1 - {c}\<rparr>, Ok KeptOrdinary)
             else if subject_is_running n1 c then (n1, Err RunningHere)
             else rm (n1\<lparr>hn_markers := hn_markers n1 - {c}\<rparr>))"

text \<open>
  On the primary, \<open>wolfha_disable\<close> first tells the replicas to drop (an unreachable one only adds a note)
  and hands the boot flag back; on a replica it removes the marker.
\<close>

definition wolfha_disable :: "host \<Rightarrow> ha_node \<Rightarrow> string \<Rightarrow> ha_node \<times> (handler_error + unit)" where
  "wolfha_disable h n c =
     (case ha_get (hn_store n) c of
        None \<Rightarrow> (n, Err NotFound)
      | Some e \<Rightarrow>
          let n1 = (if he_role e = Primary then n else n\<lparr>hn_markers := hn_markers n - {c}\<rparr>) in
          case h_save h of
            Inl x \<Rightarrow> (n1, Err (StoreFailed x))
          | Inr _ \<Rightarrow> (n1\<lparr>hn_store := ha_remove c (hn_store n1)\<rparr>, Ok ()))"

section \<open>The scheduler\<close>

definition last_synced :: "ha_entry \<Rightarrow> ha_peer \<Rightarrow> nat" where
  "last_synced e r = (case map_of (he_last_sync e) (pe_node_id r) of Some s \<Rightarrow> ss_at s | None \<Rightarrow> 0)"

fun oldest_of :: "nat list \<Rightarrow> nat" where
  "oldest_of [] = 0"
| "oldest_of [x] = x"
| "oldest_of (x # xs) = min x (oldest_of xs)"

definition sync_due :: "nat \<Rightarrow> ha_entry \<Rightarrow> bool" where
  "sync_due now e =
     (he_role e = Primary \<and> \<not> he_stale e
      \<and> \<not> now - oldest_of (map (last_synced e) (he_replicas e)) < max (he_interval_minutes e) 1 * 60)"

definition try_begin_sync :: "string \<Rightarrow> string set \<Rightarrow> string set \<times> bool" where
  "try_begin_sync c inflight = (insert c inflight, c \<notin> inflight)"

definition end_sync :: "string \<Rightarrow> string set \<Rightarrow> string set" where
  "end_sync c inflight = inflight - {c}"

text \<open>One pass of \<^verbatim>\<open>scheduler_forever\<close>: the subjects whose rounds it starts.\<close>

definition scheduler_pass :: "nat \<Rightarrow> ha_store \<Rightarrow> string set \<Rightarrow> string list \<times> string set" where
  "scheduler_pass now st inflight =
     foldl (\<lambda>(started, fl) e.
       if sync_due now e then
         case try_begin_sync (he_container e) fl of
           (fl', True) \<Rightarrow> (started @ [he_container e], fl')
         | (fl', False) \<Rightarrow> (started, fl')
       else (started, fl)) ([], inflight) st"

end
