(* ===== verification/Ha_Vm.thy ===== *)
theory Ha_Vm
  imports Ha_Views
begin

text \<open>
  Replication of a virtual machine's disk, \<^verbatim>\<open>src/wolfha/mod.rs\<close> and \<^verbatim>\<open>src/wolfha/replication/qemu_bitmap.rs\<close>. The primary
  records the blocks its guest writes, takes them as a delta once per round and ships it to every
  replica; a chain of tokens says which delta fits which copy, and a copy that does not fit is
  replaced by a full image.

  A disk is a function from block numbers to contents. QEMU is modelled by what the code relies on:
  the bitmap records every write of the guest, an incremental copies the recorded blocks and
  clears the bitmap, a commit writes the blocks of a delta. A commit that fails may have written
  some of them.
\<close>

section \<open>Copies\<close>

type_synonym disk = "nat \<Rightarrow> nat"

type_synonym disk_delta = "nat \<rightharpoonup> nat"

record vm_node =
  vn_node :: ha_node
  vn_disk :: disk
  vn_dirty :: "nat set"
  vn_files :: "string \<rightharpoonup> disk_delta"

datatype vm_error =
    NeedsSeed
  | NotAVm
  | VmRunning
  | ActivePrimary
  | CommitFailed string
  | NoChainToken
  | ForeignVm
  | InstallFailed string
  | VmStoreFailed string
  | NotHere
  | NotPrimaryHere
  | StalePrimary
  | TakeFailed string
  | NoSelfIdentity
  | NoAnswer

definition vm_entry :: "vm_node \<Rightarrow> string \<Rightarrow> ha_entry option" where
  "vm_entry v c = ha_get (hn_store (vn_node v)) c"

definition vm_update :: "host \<Rightarrow> string \<Rightarrow> (ha_entry \<Rightarrow> ha_entry) \<Rightarrow> vm_node \<Rightarrow> vm_node" where
  "vm_update h c f v =
     (if is_ok (h_save h)
      then v\<lparr>vn_node := (vn_node v)\<lparr>hn_store := ha_get_mut c f (hn_store (vn_node v))\<rparr>\<rparr> else v)"

definition guest_write :: "nat \<times> nat \<Rightarrow> vm_node \<Rightarrow> vm_node" where
  "guest_write w v = v\<lparr>vn_disk := (vn_disk v)(fst w := snd w), vn_dirty := insert (fst w) (vn_dirty v)\<rparr>"

definition guest_writes :: "(nat \<times> nat) list \<Rightarrow> vm_node \<Rightarrow> vm_node" where
  "guest_writes ws v = fold guest_write ws v"

text \<open>\<^verbatim>\<open>take_incremental\<close> and the commit of a delta into a disk.\<close>

definition dirty_blocks :: "vm_node \<Rightarrow> disk_delta" where
  "dirty_blocks v b = (if b \<in> vn_dirty v then Some (vn_disk v b) else None)"

definition vm_take_delta :: "string \<Rightarrow> vm_node \<Rightarrow> vm_node" where
  "vm_take_delta path v = v\<lparr>vn_files := (vn_files v)(path \<mapsto> dirty_blocks v), vn_dirty := {}\<rparr>"

definition commit_delta :: "disk_delta \<Rightarrow> disk \<Rightarrow> disk" where
  "commit_delta d disk b = (case d b of Some x \<Rightarrow> x | None \<Rightarrow> disk b)"

section \<open>The replica\<close>

text \<open>
  What a replica's host answers: the commit (with the blocks a failing one wrote, which also covers
  firmware variables that cannot be installed after it), whether a VM of that name is on the host,
  and the installation of a seed (with whether a failing one had already replaced the disk).
\<close>

record vm_host =
  vh_host :: host
  vh_commit :: "(string \<times> nat set) + unit"
  vh_exists :: bool
  vh_install :: "(string \<times> bool) + unit"

definition vm_apply_delta ::
  "vm_host \<Rightarrow> vm_node \<Rightarrow> string \<Rightarrow> disk_delta \<Rightarrow> string \<Rightarrow> string \<Rightarrow> vm_node \<times> (vm_error + unit)" where
  "vm_apply_delta vh v c d chain_prev chain_next =
     (case vm_entry v c of
        None \<Rightarrow> (v, Err NeedsSeed)
      | Some e \<Rightarrow>
          if he_kind e \<noteq> Vm then (v, Err NotAVm)
          else if subject_is_running (vn_node v) c then (v, Err VmRunning)
          else if chain_prev = [] \<or> chain_next = [] then (v, Err NeedsSeed)
          else if he_vm_chain e = Some chain_next then (v, Ok ())
          else if he_vm_chain e \<noteq> Some chain_prev then (v, Err NeedsSeed)
          else case vh_commit vh of
            Inl (x, written) \<Rightarrow> (v\<lparr>vn_disk := commit_delta (d |` written) (vn_disk v)\<rparr>, Err (CommitFailed x))
          | Inr _ \<Rightarrow>
              let v1 = v\<lparr>vn_disk := commit_delta d (vn_disk v)\<rparr> in
              case h_save (vh_host vh) of
                Inl x \<Rightarrow> (v1, Err (VmStoreFailed x))
              | Inr _ \<Rightarrow> (vm_update (vh_host vh) c (\<lambda>e. e\<lparr>he_vm_chain := Some chain_next\<rparr>) v1, Ok ()))"

definition vm_round_applied :: "nat \<Rightarrow> ha_meta option \<Rightarrow> ha_entry \<Rightarrow> ha_entry" where
  "vm_round_applied now meta e =
     (let e1 = e\<lparr>he_last_delta_at := now, he_stale := False\<rparr> in
      case meta of Some m \<Rightarrow> apply_to m e1 | None \<Rightarrow> e1)"

definition wolfha_apply_vm_delta ::
  "vm_host \<Rightarrow> nat \<Rightarrow> vm_node \<Rightarrow> string \<Rightarrow> disk_delta \<Rightarrow> string \<Rightarrow> string \<Rightarrow> ha_meta option \<Rightarrow>
   vm_node \<times> (vm_error + unit)" where
  "wolfha_apply_vm_delta vh now v c d chain_prev chain_next meta =
     (case vm_entry v c of
        None \<Rightarrow> (v, Err NeedsSeed)
      | Some e \<Rightarrow>
          if he_role e = Primary \<and> \<not> he_stale e then (v, Err ActivePrimary)
          else case vm_apply_delta vh v c d chain_prev chain_next of
            (v', Inl x) \<Rightarrow> (v', Err x)
          | (v', Inr _) \<Rightarrow> (vm_update (vh_host vh) c (vm_round_applied now meta) v', Ok ()))"

definition install_vm_seed ::
  "vm_host \<Rightarrow> nat \<Rightarrow> vm_node \<Rightarrow> string \<Rightarrow> disk \<Rightarrow> ha_peer \<Rightarrow> ha_meta option \<Rightarrow> string \<Rightarrow>
   vm_node \<times> (vm_error + unit)" where
  "install_vm_seed vh now v c img p meta chain =
     (let overwritable = (case vm_entry v c of
            Some e \<Rightarrow> he_kind e = Vm \<and> (he_role e = Replica \<or> he_stale e) | None \<Rightarrow> False)
      in if chain = [] then (v, Err NoChainToken)
         else if vh_exists vh \<and> \<not> overwritable then (v, Err ForeignVm)
         else if vh_exists vh \<and> subject_is_running (vn_node v) c then (v, Err VmRunning)
         else case vh_install vh of
           Inl (x, replaced) \<Rightarrow> (if replaced then v\<lparr>vn_disk := img, vn_dirty := {}\<rparr> else v, Err (InstallFailed x))
         | Inr _ \<Rightarrow>
             let v1 = v\<lparr>vn_disk := img, vn_dirty := {}\<rparr>;
                 e = standby_entry c Vm p now False (Some chain);
                 e' = (case meta of Some m \<Rightarrow> apply_to m e | None \<Rightarrow> e)
             in case h_save (vh_host vh) of
                  Inl x \<Rightarrow> (v1, Err (VmStoreFailed x))
                | Inr _ \<Rightarrow>
                    (v1\<lparr>vn_node := (vn_node v1)\<lparr>hn_store := ha_remove c (hn_store (vn_node v1)) @ [e']\<rparr>\<rparr>,
                     Ok ()))"

section \<open>The primary's round\<close>

text \<open>
  \<open>begin_round\<close>: an outstanding delta is retried; one whose file is gone breaks the chain; otherwise a
  running VM has a new one taken, which is recorded before it is shipped.
\<close>

definition lost_entry :: "nat \<Rightarrow> ha_peer list \<Rightarrow> pending_delta \<Rightarrow> ha_entry \<Rightarrow> ha_entry" where
  "lost_entry now reps lost e =
     (let behind = filter (\<lambda>i. i \<notin> set (pd_applied_by lost)) (map pe_node_id reps);
          status = \<lparr>ss_at = now, ss_ok = False, ss_message = ''staged disk delta was lost'',
                    ss_files_sent = 0, ss_bytes_sent = 0\<rparr>
      in e\<lparr>he_pending_vm_delta := None, he_vm_chain := None,
           he_last_sync := fold (\<lambda>i m. AList.update i status m) behind (he_last_sync e)\<rparr>)"

definition begin_round ::
  "host \<Rightarrow> string + unit \<Rightarrow> string \<Rightarrow> string \<Rightarrow> nat \<Rightarrow> ha_peer list \<Rightarrow> vm_node \<Rightarrow> string \<Rightarrow>
   vm_node \<times> (vm_error + pending_delta option)" where
  "begin_round h take_ok path token now reps v c =
     (case vm_entry v c of
        None \<Rightarrow> (v, Err NotHere)
      | Some e \<Rightarrow>
          if he_role e \<noteq> Primary then (v, Err NotPrimaryHere)
          else if he_stale e then (v, Err StalePrimary)
          else
            let recorded = he_pending_vm_delta e;
                pending = (case recorded of
                   Some p \<Rightarrow> if vn_files v (pd_path p) \<noteq> None then Some p else None | None \<Rightarrow> None);
                v1 = (case recorded of
                   Some lost \<Rightarrow> if pending = None then vm_update h c (lost_entry now reps lost) v else v
                 | None \<Rightarrow> v)
            in case pending of
                 Some p \<Rightarrow> (v1, Ok (Some p))
               | None \<Rightarrow>
                   if \<not> subject_is_running (vn_node v) c then (v1, Ok None)
                   else case take_ok of
                     Inl x \<Rightarrow> (v1, Err (TakeFailed x))
                   | Inr _ \<Rightarrow>
                       let p = \<lparr>pd_path = path, pd_taken_at = now, pd_applied_by = [], pd_token = token\<rparr>
                       in (vm_update h c (\<lambda>e. e\<lparr>he_pending_vm_delta := Some p\<rparr>) (vm_take_delta path v1),
                           Ok (Some p)))"

definition mark_applied :: "host \<Rightarrow> string \<Rightarrow> string \<Rightarrow> vm_node \<Rightarrow> vm_node" where
  "mark_applied h c i v =
     vm_update h c (\<lambda>e. e\<lparr>he_pending_vm_delta := map_option
       (\<lambda>p. if i \<in> set (pd_applied_by p) then p else p\<lparr>pd_applied_by := pd_applied_by p @ [i]\<rparr>)
       (he_pending_vm_delta e)\<rparr>) v"

text \<open>The full image of a round, taken at most once, and the token handed out with it.\<close>

definition stage_seed ::
  "host \<Rightarrow> string \<Rightarrow> vm_node \<Rightarrow> string \<Rightarrow> vm_node \<times> (vm_error + (disk \<times> string))" where
  "stage_seed h minted v c =
     (case vm_entry v c of
        None \<Rightarrow> (v, Err NotHere)
      | Some e \<Rightarrow>
          (case (he_pending_vm_delta e, he_vm_chain e) of
             (Some p, ch) \<Rightarrow>
               if pd_token p \<noteq> [] then (v, Ok (vn_disk v, pd_token p))
               else (case ch of
                   Some t \<Rightarrow> (v, Ok (vn_disk v, t))
                 | None \<Rightarrow>
                     (case h_save h of
                        Inl x \<Rightarrow> (v, Err (VmStoreFailed x))
                      | Inr _ \<Rightarrow> (vm_update h c (\<lambda>e. e\<lparr>he_vm_chain := Some minted\<rparr>) v, Ok (vn_disk v, minted))))
           | (None, Some t) \<Rightarrow> (v, Ok (vn_disk v, t))
           | (None, None) \<Rightarrow>
               (case h_save h of
                  Inl x \<Rightarrow> (v, Err (VmStoreFailed x))
                | Inr _ \<Rightarrow> (vm_update h c (\<lambda>e. e\<lparr>he_vm_chain := Some minted\<rparr>) v, Ok (vn_disk v, minted)))))"

text \<open>
  A round's state: the primary, the other nodes, and the staged image. A peer is visited with the
  guest's writes since the last visit and with what its host answers, \<open>None\<close> when it cannot be
  reached; its reply may be lost after it has acted.
\<close>

record vm_round =
  vr_primary :: vm_node
  vr_peers :: "string \<Rightarrow> vm_node"
  vr_staged :: "(disk \<times> string) option"

record visit =
  vi_writes :: "(nat \<times> nat) list"
  vi_host :: "vm_host option"
  vi_reply_lost :: bool
  vi_now :: nat

definition vm_reseed_replica_round ::
  "host \<Rightarrow> string \<Rightarrow> visit \<Rightarrow> vm_round \<Rightarrow> string \<Rightarrow> ha_peer \<Rightarrow> vm_round \<times> (vm_error + unit)" where
  "vm_reseed_replica_round h minted vi r c peer =
     (case (case vr_staged r of Some s \<Rightarrow> (vr_primary r, Ok s) | None \<Rightarrow> stage_seed h minted (vr_primary r) c) of
        (p, Inl x) \<Rightarrow> (r\<lparr>vr_primary := p\<rparr>, Err x)
      | (p, Inr (img, token)) \<Rightarrow>
          let r1 = r\<lparr>vr_primary := p, vr_staged := Some (img, token)\<rparr> in
          case vm_entry p c of
            None \<Rightarrow> (r1, Err NotPrimaryHere)
          | Some e \<Rightarrow>
              if he_role e \<noteq> Primary then (r1, Err NotPrimaryHere)
              else case he_self_identity e of
                None \<Rightarrow> (r1, Err NoSelfIdentity)
              | Some me \<Rightarrow>
                  (case vi_host vi of
                     None \<Rightarrow> (r1, Err NoAnswer)
                   | Some vh \<Rightarrow>
                       let i = pe_node_id peer;
                           (q, res) = install_vm_seed vh (vi_now vi) (vr_peers r1 i) c img me
                             (Some (from_entry e)) token;
                           r2 = r1\<lparr>vr_peers := (vr_peers r1)(i := q)\<rparr>
                       in case (if vi_reply_lost vi then Err NoAnswer else res) of
                            Inl x \<Rightarrow> (r2, Err x)
                          | Inr _ \<Rightarrow> (r2\<lparr>vr_primary := mark_applied h c i p\<rparr>, Ok ())))"

text \<open>Shipping the delta to one peer, with the full image as the answer to a copy it does not fit.\<close>

definition sync_vm_peer ::
  "host \<Rightarrow> string \<Rightarrow> visit \<Rightarrow> pending_delta \<Rightarrow> vm_round \<Rightarrow> string \<Rightarrow> ha_peer \<Rightarrow>
   vm_round \<times> (vm_error + unit)" where
  "sync_vm_peer h minted vi p r c peer =
     (if pe_node_id peer \<in> set (pd_applied_by p) then (r, Ok ())
      else
        let prim = vr_primary r; i = pe_node_id peer;
            chain_prev = (case vm_entry prim c of Some e \<Rightarrow> unwrap_or [] (he_vm_chain e) | None \<Rightarrow> []);
            meta = (case vm_entry prim c of
              Some e \<Rightarrow> if he_role e = Primary then Some (from_entry e) else None | None \<Rightarrow> None)
        in case vi_host vi of
             None \<Rightarrow> (r, Err NoAnswer)
           | Some vh \<Rightarrow>
               (case vn_files prim (pd_path p) of
                  None \<Rightarrow> (r, Err NoAnswer)
                | Some d \<Rightarrow>
                    (case (case wolfha_apply_vm_delta vh (vi_now vi) (vr_peers r i) c d chain_prev (pd_token p) meta of
                       (q, res) \<Rightarrow> (q, if vi_reply_lost vi then Err NoAnswer else res)) of
                       (q, Inr _) \<Rightarrow>
                         (r\<lparr>vr_primary := mark_applied h c i prim, vr_peers := (vr_peers r)(i := q)\<rparr>, Ok ())
                     | (q, Inl x) \<Rightarrow>
                         let r1 = r\<lparr>vr_peers := (vr_peers r)(i := q)\<rparr> in
                         if x = NeedsSeed then
                           (case vm_reseed_replica_round h minted vi r1 c peer of
                              (r2, Inr _) \<Rightarrow> (r2\<lparr>vr_primary := mark_applied h c i (vr_primary r2)\<rparr>, Ok ())
                            | (r2, Inl x) \<Rightarrow> (r2, Err x))
                         else (r1, Err x))))"

text \<open>
  The status a visit leaves. Of the messages only the marker matters to the code, which looks for it
  when the VM is stopped.
\<close>

definition VM_NEEDS_SEED :: string where "VM_NEEDS_SEED = ''WOLFHA_VM_NEEDS_SEED''"

definition visit_status :: "nat \<Rightarrow> vm_error + unit \<Rightarrow> ha_sync_status" where
  "visit_status now res =
     \<lparr>ss_at = now, ss_ok = is_ok res,
      ss_message = (case res of Inl NeedsSeed \<Rightarrow> VM_NEEDS_SEED | _ \<Rightarrow> []), ss_files_sent = 0, ss_bytes_sent = 0\<rparr>"

definition needs_seed :: "vm_node \<Rightarrow> string \<Rightarrow> string \<Rightarrow> bool" where
  "needs_seed v c i =
     (case vm_entry v c of
        None \<Rightarrow> False
      | Some e \<Rightarrow> he_vm_chain e = None
          \<or> (case map_of (he_last_sync e) i of
               Some s \<Rightarrow> \<not> ss_ok s \<and> contains VM_NEEDS_SEED (ss_message s) | None \<Rightarrow> False))"

definition visit_peer ::
  "host \<Rightarrow> string \<Rightarrow> visit \<Rightarrow> pending_delta option \<Rightarrow> string \<Rightarrow> vm_round \<Rightarrow> ha_peer \<Rightarrow> vm_round" where
  "visit_peer h minted vi delta c r peer =
     (let i = pe_node_id peer;
          r0 = (if subject_is_running (vn_node (vr_primary r)) c
                then r\<lparr>vr_primary := guest_writes (vi_writes vi) (vr_primary r)\<rparr> else r);
          (r1, res) = (case delta of
             Some p \<Rightarrow> sync_vm_peer h minted vi p r0 c peer
           | None \<Rightarrow>
               if needs_seed (vr_primary r0) c i then vm_reseed_replica_round h minted vi r0 c peer
               else (r0, Ok ()))
      in r1\<lparr>vr_primary := vm_update h c
           (\<lambda>e. e\<lparr>he_last_sync := AList.update i (visit_status (vi_now vi) res) (he_last_sync e)\<rparr>) (vr_primary r1)\<rparr>)"

text \<open>The delta is dropped, and the chain advances, once every replica has confirmed it.\<close>

definition finish_round :: "host \<Rightarrow> ha_peer list \<Rightarrow> string \<Rightarrow> vm_node \<Rightarrow> vm_node" where
  "finish_round h peers c v =
     (case vm_entry v c of
        None \<Rightarrow> v
      | Some e \<Rightarrow>
          (case he_pending_vm_delta e of
             None \<Rightarrow> v
           | Some p \<Rightarrow>
               if \<not> list_all (\<lambda>r. pe_node_id r \<in> set (pd_applied_by p)) peers then v
               else vm_update h c (\<lambda>e. e\<lparr>he_pending_vm_delta := None,
                       he_vm_chain := if pd_token p \<noteq> [] then Some (pd_token p) else he_vm_chain e\<rparr>)
                      (v\<lparr>vn_files := (vn_files v)(pd_path p := None)\<rparr>)))"

record round_env =
  re_host :: host
  re_local :: "ha_peer \<Rightarrow> bool"
  re_take :: "string + unit"
  re_path :: string
  re_token :: string
  re_minted :: string
  re_now :: nat
  re_visits :: "string \<Rightarrow> visit"

definition sync_vm_now :: "round_env \<Rightarrow> vm_node \<Rightarrow> (string \<Rightarrow> vm_node) \<Rightarrow> string \<Rightarrow>
   vm_node \<times> (string \<Rightarrow> vm_node) \<times> (vm_error + unit)" where
  "sync_vm_now env prim peers c =
     (let reps = (case vm_entry prim c of Some e \<Rightarrow> filter (\<lambda>r. \<not> re_local env r) (he_replicas e) | None \<Rightarrow> []);
          h = re_host env
      in case begin_round h (re_take env) (re_path env) (re_token env) (re_now env) reps prim c of
           (p, Inl x) \<Rightarrow> (p, peers, Err x)
         | (p, Inr d) \<Rightarrow>
             let r = foldl (\<lambda>r peer. visit_peer h (re_minted env) (re_visits env (pe_node_id peer)) d c r peer)
                       \<lparr>vr_primary = p, vr_peers = peers, vr_staged = None\<rparr> reps
             in (if d \<noteq> None then finish_round h reps c (vr_primary r) else vr_primary r, vr_peers r, Ok ()))"

end
