(* ===== verification/Ha_Vm_Chain.thy ===== *)
theory Ha_Vm_Chain
  imports Ha_Vm
begin

text \<open>
  What the chain of tokens guarantees while one node stays the primary: a copy that holds the
  primary's token agrees with its disk in every block the guest has not written since, however
  rounds fail, replies are lost, files vanish and copies are replaced.
\<close>

section \<open>What the chain speaks about\<close>

definition vm_chain_of :: "vm_node \<Rightarrow> string \<Rightarrow> string option" where
  "vm_chain_of v c = (case vm_entry v c of Some e \<Rightarrow> he_vm_chain e | None \<Rightarrow> None)"

definition outstanding :: "vm_node \<Rightarrow> string \<Rightarrow> (string \<times> string) option" where
  "outstanding v c = (case vm_entry v c of
     Some e \<Rightarrow> map_option (\<lambda>p. (pd_path p, pd_token p)) (he_pending_vm_delta e) | None \<Rightarrow> None)"

definition off :: "nat set \<Rightarrow> disk \<Rightarrow> disk \<Rightarrow> bool" where
  "off D d d' = (\<forall>b. b \<notin> D \<longrightarrow> d b = d' b)"

lemma off_mono: "off D d d' \<Longrightarrow> D \<subseteq> E \<Longrightarrow> off E d d'"
  by (auto simp: off_def)

lemma off_refl [simp]: "off D d d"
  by (simp add: off_def)

text \<open>A copy with token \<open>t\<close> and disk \<open>d\<close> is what the primary takes it to be.\<close>

definition fits :: "string \<Rightarrow> vm_node \<Rightarrow> string \<Rightarrow> disk \<Rightarrow> bool" where
  "fits c P t d =
     (case outstanding P c of
        None \<Rightarrow> vm_chain_of P c = Some t \<longrightarrow> off (vn_dirty P) d (vn_disk P)
      | Some (path, token) \<Rightarrow>
          (t = token \<longrightarrow> off (vn_dirty P) d (vn_disk P))
          \<and> (vm_chain_of P c = Some t \<longrightarrow> (case vn_files P path of
               Some dl \<Rightarrow> off (vn_dirty P \<union> dom dl) d (vn_disk P) | None \<Rightarrow> True)))"

definition primary_ok :: "string \<Rightarrow> vm_node \<Rightarrow> bool" where
  "primary_ok c P =
     (vm_chain_of P c \<noteq> Some []
      \<and> (case outstanding P c of
           None \<Rightarrow> True
         | Some (path, token) \<Rightarrow>
             token \<noteq> [] \<and> vm_chain_of P c \<noteq> Some token
             \<and> (case vn_files P path of
                  Some dl \<Rightarrow> \<forall>b x. dl b = Some x \<longrightarrow> b \<notin> vn_dirty P \<longrightarrow> vn_disk P b = x
                | None \<Rightarrow> True)))"

definition copies_ok :: "string \<Rightarrow> vm_node \<Rightarrow> (string \<Rightarrow> vm_node) \<Rightarrow> bool" where
  "copies_ok c P Rs = (\<forall>i t. vm_chain_of (Rs i) c = Some t \<longrightarrow> fits c P t (vn_disk (Rs i)))"

lemma fits_seed: "off (vn_dirty P) d (vn_disk P) \<Longrightarrow> fits c P t d"
  by (auto simp: fits_def off_def split: option.splits)

text \<open>Only the chain, the outstanding delta, the disk, the bitmap and the staged files matter.\<close>

definition same_core :: "string \<Rightarrow> vm_node \<Rightarrow> vm_node \<Rightarrow> bool" where
  "same_core c P Q =
     (vm_chain_of P c = vm_chain_of Q c \<and> outstanding P c = outstanding Q c \<and> vn_disk P = vn_disk Q
      \<and> vn_dirty P = vn_dirty Q \<and> vn_files P = vn_files Q)"

lemma same_coreD:
  assumes "same_core c P Q"
  shows "fits c P = fits c Q" and "primary_ok c P = primary_ok c Q"
proof -
  from assms have eqs: "vm_chain_of P c = vm_chain_of Q c" "outstanding P c = outstanding Q c" "vn_disk P = vn_disk Q"
    "vn_dirty P = vn_dirty Q" "vn_files P = vn_files Q" by (simp_all add: same_core_def)
  show "fits c P = fits c Q" unfolding fits_def [abs_def] eqs ..
  show "primary_ok c P = primary_ok c Q" unfolding primary_ok_def eqs ..
qed

section \<open>Updates of the entry\<close>

lemma vm_entry_update:
  assumes "\<And>e. he_container (f e) = he_container e"
  shows "vm_entry (vm_update h c f v) c =
    (if is_ok (h_save h) then map_option f (vm_entry v c) else vm_entry v c)"
  using assms by (simp add: vm_entry_def vm_update_def ha_get_get_mut)

lemma vm_update_rest [simp]:
  "vn_disk (vm_update h c f v) = vn_disk v" "vn_dirty (vm_update h c f v) = vn_dirty v"
  "vn_files (vm_update h c f v) = vn_files v"
  by (simp_all add: vm_update_def)

lemma same_core_update:
  assumes "\<And>e. he_container (f e) = he_container e" and "\<And>e. he_vm_chain (f e) = he_vm_chain e"
    and "\<And>e. map_option (\<lambda>p. (pd_path p, pd_token p)) (he_pending_vm_delta (f e)) =
      map_option (\<lambda>p. (pd_path p, pd_token p)) (he_pending_vm_delta e)"
  shows "same_core c (vm_update h c f v) v"
  using assms by (auto simp: same_core_def vm_chain_of_def outstanding_def vm_entry_update split: option.split)

lemma same_core_mark: "same_core c (mark_applied h c i v) v"
  unfolding mark_applied_def by (rule same_core_update) (auto simp: option.map_comp o_def intro: option.map_cong)

lemma chain_of_round_applied: "vm_chain_of (vm_update h c (vm_round_applied now meta) v) c = vm_chain_of v c"
proof -
  have "he_container (vm_round_applied now meta e) = he_container e"
    "he_vm_chain (vm_round_applied now meta e) = he_vm_chain e" for e
    by (auto simp: vm_round_applied_def apply_to_def Let_def split: option.split)
  then show ?thesis by (auto simp: vm_chain_of_def vm_entry_update split: option.split)
qed

section \<open>The guest\<close>

lemma vm_entry_write [simp]: "vm_entry (guest_write w v) = vm_entry v"
  by (simp add: vm_entry_def guest_write_def fun_eq_iff)

lemma chain_of_write [simp]: "vm_chain_of (guest_write w v) = vm_chain_of v"
  and outstanding_write [simp]: "outstanding (guest_write w v) = outstanding v"
  by (simp_all add: vm_chain_of_def outstanding_def fun_eq_iff)

lemma off_write: "off D d (vn_disk v) \<Longrightarrow> off (insert (fst w) D) d (vn_disk (guest_write w v))"
  by (auto simp: off_def guest_write_def)

lemma fits_write: "fits c v t d \<Longrightarrow> fits c (guest_write w v) t d"
  using off_write [of "vn_dirty v" d v w] off_write [of "vn_dirty v \<union> _" d v w]
  by (auto simp: fits_def split: option.splits) (simp_all add: guest_write_def)

lemma primary_ok_write: "primary_ok c v \<Longrightarrow> primary_ok c (guest_write w v)"
  by (auto simp: primary_ok_def guest_write_def vm_chain_of_def outstanding_def vm_entry_def split: option.splits)
section \<open>A delta reaches a copy\<close>

lemma chain_of_disk [simp]: "vm_chain_of (v\<lparr>vn_disk := d\<rparr>) c = vm_chain_of v c"
  by (simp add: vm_chain_of_def vm_entry_def)

lemma chain_of_token:
  "vm_entry v c = Some e \<Longrightarrow> is_ok (h_save h) \<Longrightarrow>
   vm_chain_of (vm_update h c (\<lambda>e. e\<lparr>he_vm_chain := Some t\<rparr>) (v\<lparr>vn_disk := d\<rparr>)) c = Some t"
  by (simp add: vm_chain_of_def vm_entry_update) (simp add: vm_entry_def)

lemma vm_apply_delta_cases:
  assumes "vm_apply_delta vh v c d chain_prev chain_next = (q, res)"
  shows "(vm_chain_of q c = vm_chain_of v c \<and> vn_disk q = vn_disk v)
    \<or> (chain_prev \<noteq> [] \<and> vm_chain_of v c = Some chain_prev \<and> vm_chain_of q c = vm_chain_of v c
        \<and> (\<exists>W. vn_disk q = commit_delta (d |` W) (vn_disk v)))
    \<or> (chain_prev \<noteq> [] \<and> vm_chain_of v c = Some chain_prev \<and> vm_chain_of q c = Some chain_next
        \<and> vn_disk q = commit_delta d (vn_disk v))"
proof (cases "vm_entry v c")
  case None
  with assms show ?thesis by (simp add: vm_apply_delta_def)
next
  case (Some e)
  have full: "d = d |` UNIV" by (simp add: restrict_map_def fun_eq_iff)
  show ?thesis
  proof (cases "he_vm_chain e = Some chain_prev \<and> chain_prev \<noteq> []")
    case False
    with Some assms have "q = v" by (auto simp: vm_apply_delta_def split: if_splits)
    then show ?thesis by simp
  next
    case True
    then have ch: "vm_chain_of v c = Some chain_prev" by (simp add: vm_chain_of_def Some)
    show ?thesis
      using assms True ch Some chain_of_token [OF Some, of "vh_host vh" chain_next] full
      by (auto simp: vm_apply_delta_def is_ok_def Let_def split: if_splits sum.splits) metis+
  qed
qed

lemma apply_vm_delta_cases:
  assumes "wolfha_apply_vm_delta vh now v c d chain_prev chain_next meta = (q, res)"
  shows "(vm_chain_of q c = vm_chain_of v c \<and> vn_disk q = vn_disk v)
    \<or> (chain_prev \<noteq> [] \<and> vm_chain_of v c = Some chain_prev \<and> vm_chain_of q c = vm_chain_of v c
        \<and> (\<exists>W. vn_disk q = commit_delta (d |` W) (vn_disk v)))
    \<or> (chain_prev \<noteq> [] \<and> vm_chain_of v c = Some chain_prev \<and> vm_chain_of q c = Some chain_next
        \<and> vn_disk q = commit_delta d (vn_disk v))"
proof -
  obtain q' res' where a: "vm_apply_delta vh v c d chain_prev chain_next = (q', res')"
    by (cases "vm_apply_delta vh v c d chain_prev chain_next")
  have "q = v \<or> (vm_chain_of q c = vm_chain_of q' c \<and> vn_disk q = vn_disk q')"
    using assms unfolding wolfha_apply_vm_delta_def a
    by (auto simp: chain_of_round_applied split: option.splits if_splits sum.splits)
  with vm_apply_delta_cases [OF a] show ?thesis by auto
qed

lemma apply_fits:
  assumes P: "primary_ok c P" "outstanding P c = Some (path, token)" "vn_files P path = Some dl"
    and v: "\<And>t. vm_chain_of v c = Some t \<Longrightarrow> fits c P t (vn_disk v)"
    and q: "wolfha_apply_vm_delta vh now v c dl (unwrap_or [] (vm_chain_of P c)) token meta = (q, res)"
    and t: "vm_chain_of q c = Some t"
  shows "fits c P t (vn_disk q)"
proof -
  let ?prev = "unwrap_or [] (vm_chain_of P c)"
  have prim: "vm_chain_of P c \<noteq> Some token" "\<And>b x. dl b = Some x \<Longrightarrow> b \<notin> vn_dirty P \<Longrightarrow> vn_disk P b = x"
    using P by (auto simp: primary_ok_def)
  have base: "off (vn_dirty P \<union> dom dl) (vn_disk v) (vn_disk P)" "vm_chain_of P c = Some ?prev"
    if "vm_chain_of v c = Some ?prev" "?prev \<noteq> []"
  proof -
    show p: "vm_chain_of P c = Some ?prev" using that(2) by (cases "vm_chain_of P c") simp_all
    show "off (vn_dirty P \<union> dom dl) (vn_disk v) (vn_disk P)"
      using v [OF that(1)] p P(2,3) by (simp add: fits_def)
  qed
  from apply_vm_delta_cases [OF q] consider
      (same) "vm_chain_of q c = vm_chain_of v c" "vn_disk q = vn_disk v"
    | (part) W where "?prev \<noteq> []" "vm_chain_of v c = Some ?prev" "vm_chain_of q c = vm_chain_of v c"
        "vn_disk q = commit_delta (dl |` W) (vn_disk v)"
    | (full) "?prev \<noteq> []" "vm_chain_of v c = Some ?prev" "vm_chain_of q c = Some token" "vn_disk q = commit_delta dl (vn_disk v)"
    by blast
  then show ?thesis
  proof cases
    case same
    with v t show ?thesis by simp
  next
    case part
    then have "t = ?prev" using t by simp
    moreover have "off (vn_dirty P \<union> dom dl) (vn_disk q) (vn_disk P)"
      using base(1) [OF part(2,1)] part(4) by (auto simp: off_def commit_delta_def restrict_map_def split: option.split)
    ultimately show ?thesis using P prim(1) base(2) [OF part(2,1)] by (auto simp: fits_def)
  next
    case full
    have "off (vn_dirty P) (vn_disk q) (vn_disk P)"
      using base(1) [OF full(2,1)] full(4) prim(2)
      by (auto simp: off_def commit_delta_def dom_def split: option.split)
    then show ?thesis by (rule fits_seed)
  qed
qed

lemma apply_token:
  assumes "wolfha_apply_vm_delta vh now v c dl chain_prev token meta = (q, res)"
  shows "vm_chain_of q c \<in> {vm_chain_of v c, Some token}"
  using apply_vm_delta_cases [OF assms] by auto

section \<open>A full image reaches a copy\<close>

lemma install_cases:
  assumes "install_vm_seed vh now v c img p meta token = (q, res)"
  shows "(vm_chain_of q c = vm_chain_of v c \<or> vm_chain_of q c = Some token) \<and> (vn_disk q = vn_disk v \<or> vn_disk q = img)
    \<and> (vn_disk q = vn_disk v \<and> vm_chain_of q c \<noteq> vm_chain_of v c \<longrightarrow> vn_disk v = img)"
proof -
  let ?e = "standby_entry c Vm p now False (Some token)"
  let ?e' = "case meta of Some m \<Rightarrow> apply_to m ?e | None \<Rightarrow> ?e"
  have e': "he_container ?e' = c" "he_vm_chain ?e' = Some token"
    by (auto simp: apply_to_def standby_entry_def Let_def split: option.split)
  have new: "vm_chain_of (v\<lparr>vn_disk := img, vn_dirty := {},
      vn_node := (vn_node v)\<lparr>hn_store := ha_remove c (hn_store (vn_node v)) @ [?e']\<rparr>\<rparr>) c = Some token"
    using e' by (simp add: vm_chain_of_def vm_entry_def ha_get_append ha_get_remove)
  have old: "vm_chain_of (v\<lparr>vn_disk := img, vn_dirty := {}\<rparr>) c = vm_chain_of v c"
    by (simp add: vm_chain_of_def vm_entry_def)
  show ?thesis
    using assms new old by (auto simp: install_vm_seed_def Let_def split: if_splits sum.splits)
qed

lemma install_fits:
  assumes v: "\<And>t. vm_chain_of v c = Some t \<Longrightarrow> fits c P t (vn_disk v)"
    and img: "off (vn_dirty P) img (vn_disk P)"
    and q: "install_vm_seed vh now v c img p meta token = (q, res)" and t: "vm_chain_of q c = Some t"
  shows "fits c P t (vn_disk q)"
proof (cases "vn_disk q = img")
  case True
  with img show ?thesis by (simp add: fits_seed)
next
  case False
  with install_cases [OF q] t have "vn_disk q = vn_disk v" "vm_chain_of v c = Some t" by auto
  with v show ?thesis by simp
qed

section \<open>Rounds\<close>

text \<open>
  During a round: the copies are what the primary takes them to be, a staged image agrees with the
  disk off the bitmap and carries the token the next delta builds on, and as long as no image is
  staged nobody holds the token that would be minted for one.
\<close>

definition round_ok :: "string \<Rightarrow> string \<Rightarrow> vm_round \<Rightarrow> bool" where
  "round_ok c minted r =
     (primary_ok c (vr_primary r) \<and> copies_ok c (vr_primary r) (vr_peers r)
      \<and> (case vr_staged r of
           Some (img, token) \<Rightarrow> off (vn_dirty (vr_primary r)) img (vn_disk (vr_primary r))
         | None \<Rightarrow> \<forall>i. vm_chain_of (vr_peers r i) c \<noteq> Some minted))"

lemma round_ok_core:
  assumes "round_ok c minted r" and "same_core c P (vr_primary r)"
  shows "round_ok c minted (r\<lparr>vr_primary := P\<rparr>)"
  using assms same_coreD [OF assms(2)]
  by (auto simp: round_ok_def copies_ok_def same_core_def split: option.splits)

lemma round_ok_writes:
  assumes "round_ok c minted r"
  shows "round_ok c minted (r\<lparr>vr_primary := guest_writes ws (vr_primary r)\<rparr>)"
  using assms
proof (induction ws arbitrary: r)
  case (Cons w ws)
  have "round_ok c minted (r\<lparr>vr_primary := guest_write w (vr_primary r)\<rparr>)"
    using Cons.prems off_write [of "vn_dirty (vr_primary r)" _ "vr_primary r" w]
    by (auto simp: round_ok_def copies_ok_def primary_ok_write fits_write split: option.splits)
      (simp add: guest_write_def)
  from Cons.IH [OF this] show ?case by (simp add: guest_writes_def)
qed (simp add: guest_writes_def)

lemma round_ok_peer:
  assumes "round_ok c minted r" and "\<And>t. vm_chain_of q c = Some t \<Longrightarrow> fits c (vr_primary r) t (vn_disk q)"
    and "vr_staged r = None \<Longrightarrow> vm_chain_of q c \<noteq> Some minted"
  shows "round_ok c minted (r\<lparr>vr_peers := (vr_peers r)(i := q)\<rparr>)"
  using assms by (auto simp: round_ok_def copies_ok_def split: option.splits)
lemma vm_entry_chain: "vm_entry v c = Some e \<Longrightarrow> vm_chain_of v c = he_vm_chain e"
  and vm_entry_outstanding: "vm_entry v c = Some e \<Longrightarrow>
    outstanding v c = map_option (\<lambda>p. (pd_path p, pd_token p)) (he_pending_vm_delta e)"
  by (simp_all add: vm_chain_of_def outstanding_def)

lemma mint_ok:
  assumes r: "round_ok c minted r" "vr_staged r = None" and m: "minted \<noteq> []"
    and e: "vm_entry (vr_primary r) c = Some e" "he_pending_vm_delta e = None" "is_ok (h_save h)"
  shows "round_ok c minted (r\<lparr>vr_primary := vm_update h c (\<lambda>e. e\<lparr>he_vm_chain := Some minted\<rparr>) (vr_primary r),
    vr_staged := Some (vn_disk (vr_primary r), t)\<rparr>)"
proof -
  let ?P = "vm_update h c (\<lambda>e. e\<lparr>he_vm_chain := Some minted\<rparr>) (vr_primary r)"
  have new: "vm_chain_of ?P c = Some minted" "outstanding ?P c = None"
    using e by (simp_all add: vm_chain_of_def outstanding_def vm_entry_update)
  with m have "primary_ok c ?P" by (simp add: primary_ok_def)
  moreover have "copies_ok c ?P (vr_peers r)"
    using r new by (auto simp: copies_ok_def fits_def round_ok_def)
  ultimately show ?thesis by (simp add: round_ok_def)
qed

lemma stage_seed_ok:
  assumes r: "round_ok c minted r" "vr_staged r = None" and m: "minted \<noteq> []"
    and s: "stage_seed h minted (vr_primary r) c = (p, res)"
  shows "(case res of Inl _ \<Rightarrow> p = vr_primary r
    | Inr s \<Rightarrow> round_ok c minted (r\<lparr>vr_primary := p, vr_staged := Some s\<rparr>))"
proof -
  have stay: "round_ok c minted (r\<lparr>vr_staged := Some (vn_disk (vr_primary r), t)\<rparr>)" for t
    using r by (simp add: round_ok_def)
  have tok: "pd_token pd \<noteq> []" if "vm_entry (vr_primary r) c = Some e" "he_pending_vm_delta e = Some pd" for e pd
    using r(1) that by (simp add: round_ok_def primary_ok_def vm_entry_outstanding)
  show ?thesis
    using s stay tok mint_ok [OF r m] unfolding stage_seed_def
    by (auto simp: is_ok_def split: option.splits sum.splits if_splits)
qed

lemma reseed_ok:
  assumes r: "round_ok c minted r" and m: "minted \<noteq> []"
    and s: "vm_reseed_replica_round h minted vi r c peer = (r', res)"
  shows "round_ok c minted r'"
proof -
  let ?st = "case vr_staged r of Some s \<Rightarrow> (vr_primary r, Ok s) | None \<Rightarrow> stage_seed h minted (vr_primary r) c"
  obtain p st where st: "?st = (p, st)" by (cases ?st)
  show ?thesis
  proof (cases st)
    case (Inl x)
    with st have none: "vr_staged r = None" and e: "stage_seed h minted (vr_primary r) c = (p, Inl x)"
      by (auto split: option.splits)
    from stage_seed_ok [OF r none m e] have "p = vr_primary r" by simp
    with s Inl r show ?thesis by (simp add: vm_reseed_replica_round_def st)
  next
    case (Inr s')
    obtain img token where s': "s' = (img, token)" by (cases s')
    let ?r = "r\<lparr>vr_primary := p, vr_staged := Some (img, token)\<rparr>"
    have r1: "round_ok c minted ?r"
    proof (cases "vr_staged r")
      case None
      with st Inr s' have e: "stage_seed h minted (vr_primary r) c = (p, Inr (img, token))" by simp
      from stage_seed_ok [OF r None m e] show ?thesis by simp
    next
      case (Some x)
      with st Inr s' have "p = vr_primary r" "x = (img, token)" by auto
      with r Some show ?thesis by (simp add: round_ok_def)
    qed
    have "round_ok c minted (?r\<lparr>vr_peers := (vr_peers r)(pe_node_id peer := q)\<rparr>)"
      if "install_vm_seed vh now (vr_peers r (pe_node_id peer)) c img me meta token = (q, res')" for vh now me meta q res'
    proof -
      have "round_ok c minted (?r\<lparr>vr_peers := (vr_peers ?r)(pe_node_id peer := q)\<rparr>)"
      proof (rule round_ok_peer [OF r1])
        fix t assume "vm_chain_of q c = Some t"
        with that r1 show "fits c (vr_primary ?r) t (vn_disk q)"
          by (intro install_fits [OF _ _ that]) (auto simp: round_ok_def copies_ok_def)
      qed simp
      then show ?thesis by simp
    qed
    note inst = this
    let ?i = "pe_node_id peer"
    have "r' = ?r \<or> (\<exists>vh now me meta q res'. install_vm_seed vh now (vr_peers r ?i) c img me meta token = (q, res')
        \<and> (r' = ?r\<lparr>vr_peers := (vr_peers r)(?i := q)\<rparr>
          \<or> r' = ?r\<lparr>vr_peers := (vr_peers r)(?i := q), vr_primary := mark_applied h c ?i p\<rparr>))"
      using s unfolding vm_reseed_replica_round_def st Inr s'
      by (auto simp: Let_def split: option.splits if_splits sum.splits prod.splits) blast+
    then show ?thesis
      using r1 inst round_ok_core [OF inst] same_core_mark by fastforce
  qed
qed
lemma outstanding_same_core: "same_core c P Q \<Longrightarrow> outstanding P c = outstanding Q c"
  by (simp add: same_core_def)

lemma outstanding_mint:
  "outstanding (vm_update h c (\<lambda>e. e\<lparr>he_vm_chain := t\<rparr>) v) c = outstanding v c"
  by (auto simp: outstanding_def vm_entry_update split: option.split)

lemma outstanding_reseed:
  assumes "vm_reseed_replica_round h minted vi r c peer = (r', res)"
  shows "outstanding (vr_primary r') c = outstanding (vr_primary r) c"
proof -
  have "outstanding p c = outstanding (vr_primary r) c" if "stage_seed h minted (vr_primary r) c = (p, s)" for p s
    using that by (auto simp: stage_seed_def outstanding_mint split: option.splits sum.splits if_splits)
  with assms show ?thesis
    by (auto simp: vm_reseed_replica_round_def Let_def outstanding_same_core [OF same_core_mark]
        split: option.splits if_splits sum.splits prod.splits)
qed

lemma sync_vm_peer_ok:
  assumes r: "round_ok c minted r" and m: "minted \<noteq> []"
    and p: "outstanding (vr_primary r) c = Some (pd_path p, pd_token p)" "pd_token p \<noteq> minted"
    and s: "sync_vm_peer h minted vi p r c peer = (r', res)"
  shows "round_ok c minted r' \<and> outstanding (vr_primary r') c = outstanding (vr_primary r) c"
proof (cases "pe_node_id peer \<in> set (pd_applied_by p) \<or> vi_host vi = None \<or> vn_files (vr_primary r) (pd_path p) = None")
  case True
  then have "r' = r" using s by (elim disjE) (auto simp: sync_vm_peer_def Let_def split: option.splits if_splits)
  with r show ?thesis by simp
next
  case False
  let ?i = "pe_node_id peer" and ?P = "vr_primary r"
  from False obtain vh dl where vh: "vi_host vi = Some vh" and dl: "vn_files ?P (pd_path p) = Some dl" by auto
  let ?prev = "unwrap_or [] (vm_chain_of ?P c)"
  let ?meta = "case vm_entry ?P c of Some e \<Rightarrow> if he_role e = Primary then Some (from_entry e) else None | None \<Rightarrow> None"
  have prev: "(case vm_entry ?P c of Some e \<Rightarrow> unwrap_or [] (he_vm_chain e) | None \<Rightarrow> []) = ?prev"
    by (simp add: vm_chain_of_def split: option.split)
  obtain q res0 where q: "wolfha_apply_vm_delta vh (vi_now vi) (vr_peers r ?i) c dl ?prev (pd_token p) ?meta = (q, res0)"
    by (cases "wolfha_apply_vm_delta vh (vi_now vi) (vr_peers r ?i) c dl ?prev (pd_token p) ?meta")
  let ?r = "r\<lparr>vr_peers := (vr_peers r)(?i := q)\<rparr>"
  have r1: "round_ok c minted ?r"
  proof (rule round_ok_peer [OF r])
    fix t assume "vm_chain_of q c = Some t"
    with r p(1) dl show "fits c ?P t (vn_disk q)"
      by (intro apply_fits [OF _ p(1) dl _ q]) (auto simp: round_ok_def copies_ok_def)
  next
    assume "vr_staged r = None"
    with r apply_token [OF q] p(2) show "vm_chain_of q c \<noteq> Some minted"
      by (auto simp: round_ok_def)
  qed
  have mark: "round_ok c minted (r2\<lparr>vr_primary := mark_applied h c ?i (vr_primary r2)\<rparr>)"
    if "round_ok c minted r2" for r2
    using round_ok_core [OF that same_core_mark] .
  have res: "(r', res) = (case (q, if vi_reply_lost vi then Err NoAnswer else res0) of
       (q, Inr _) \<Rightarrow> (r\<lparr>vr_primary := mark_applied h c ?i ?P, vr_peers := (vr_peers r)(?i := q)\<rparr>, Ok ())
     | (q, Inl x) \<Rightarrow>
         if x = NeedsSeed then
           (case vm_reseed_replica_round h minted vi ?r c peer of
              (r2, Inr _) \<Rightarrow> (r2\<lparr>vr_primary := mark_applied h c ?i (vr_primary r2)\<rparr>, Ok ())
            | (r2, Inl x) \<Rightarrow> (r2, Err x))
         else (?r, Err x))"
    unfolding s [symmetric] sync_vm_peer_def Let_def vh prev using False by (simp add: dl q)
  consider (acked) "r' = ?r\<lparr>vr_primary := mark_applied h c ?i (vr_primary ?r)\<rparr>" | (refused) "r' = ?r"
    | (reseed) r2 res2 where "vm_reseed_replica_round h minted vi ?r c peer = (r2, res2)"
        "r' = r2 \<or> r' = r2\<lparr>vr_primary := mark_applied h c ?i (vr_primary r2)\<rparr>"
    using res by (auto split: sum.splits if_splits prod.splits)
  then show ?thesis
  proof cases
    case acked
    then show ?thesis using mark [OF r1] by (simp add: outstanding_same_core [OF same_core_mark])
  next
    case refused
    with r1 show ?thesis by simp
  next
    case reseed
    then show ?thesis
      using reseed_ok [OF r1 m reseed(1)] outstanding_reseed [OF reseed(1)] mark
      by (auto simp: outstanding_same_core [OF same_core_mark])
  qed
qed
lemma outstanding_writes: "outstanding (guest_writes ws v) c = outstanding v c"
  by (induction ws arbitrary: v) (simp_all add: guest_writes_def)

lemma same_core_status:
  "same_core c (vm_update h c (\<lambda>e. e\<lparr>he_last_sync := f e\<rparr>) v) v"
  by (rule same_core_update) simp_all

lemma visit_peer_ok:
  assumes r: "round_ok c minted r" and m: "minted \<noteq> []"
    and d: "\<And>p. delta = Some p \<Longrightarrow>
      outstanding (vr_primary r) c = Some (pd_path p, pd_token p) \<and> pd_token p \<noteq> minted"
  shows "round_ok c minted (visit_peer h minted vi delta c r peer)
    \<and> outstanding (vr_primary (visit_peer h minted vi delta c r peer)) c = outstanding (vr_primary r) c"
proof -
  let ?r = "if subject_is_running (vn_node (vr_primary r)) c
    then r\<lparr>vr_primary := guest_writes (vi_writes vi) (vr_primary r)\<rparr> else r"
  have r0: "round_ok c minted ?r" "outstanding (vr_primary ?r) c = outstanding (vr_primary r) c"
    using r by (simp_all add: round_ok_writes outstanding_writes)
  let ?v = "case delta of Some p \<Rightarrow> sync_vm_peer h minted vi p ?r c peer
     | None \<Rightarrow> if needs_seed (vr_primary ?r) c (pe_node_id peer)
        then vm_reseed_replica_round h minted vi ?r c peer else (?r, Ok ())"
  obtain r1 res where v: "?v = (r1, res)" by (cases ?v)
  have r1: "round_ok c minted r1 \<and> outstanding (vr_primary r1) c = outstanding (vr_primary r) c"
  proof (cases delta)
    case None
    with v show ?thesis
      using r0 reseed_ok [OF r0(1) m, of h vi peer] outstanding_reseed [of h minted vi ?r c peer]
      by (simp split: if_splits)
  next
    case (Some p)
    with v have "sync_vm_peer h minted vi p ?r c peer = (r1, res)" by simp
    from sync_vm_peer_ok [OF r0(1) m _ _ this] d [OF Some] r0(2) show ?thesis by simp
  qed
  let ?P = "vm_update h c (\<lambda>e. e\<lparr>he_last_sync := AList.update (pe_node_id peer) (visit_status (vi_now vi) res)
      (he_last_sync e)\<rparr>) (vr_primary r1)"
  have "visit_peer h minted vi delta c r peer = r1\<lparr>vr_primary := ?P\<rparr>"
    unfolding visit_peer_def Let_def v by simp
  then show ?thesis
    using r1 round_ok_core [OF _ same_core_status, of c minted r1]
    by (simp add: outstanding_same_core [OF same_core_status])
qed

lemma visits_ok:
  assumes "round_ok c minted r" and "minted \<noteq> []"
    and "\<And>p. delta = Some p \<Longrightarrow>
      outstanding (vr_primary r) c = Some (pd_path p, pd_token p) \<and> pd_token p \<noteq> minted"
  shows "round_ok c minted (foldl (\<lambda>r peer. visit_peer h minted (vis (pe_node_id peer)) delta c r peer) r peers)"
  using assms
proof (induction peers arbitrary: r)
  case (Cons peer peers)
  let ?r = "visit_peer h minted (vis (pe_node_id peer)) delta c r peer"
  have r: "round_ok c minted ?r" "outstanding (vr_primary ?r) c = outstanding (vr_primary r) c"
    using visit_peer_ok [OF Cons.prems(1,2), where delta = delta and h = h and vi = "vis (pe_node_id peer)"
        and peer = peer] Cons.prems(3) by blast+
  have "round_ok c minted (foldl (\<lambda>r peer. visit_peer h minted (vis (pe_node_id peer)) delta c r peer) ?r peers)"
    using Cons.prems(3) r(2) by (intro Cons.IH [OF r(1) Cons.prems(2)]) simp
  then show ?case by simp
qed simp

section \<open>Beginning and end of a round\<close>

text \<open>A token is fresh when no copy holds it.\<close>

definition fresh_token :: "string \<Rightarrow> string \<Rightarrow> vm_node \<Rightarrow> (string \<Rightarrow> vm_node) \<Rightarrow> bool" where
  "fresh_token t c P Rs =
     (t \<noteq> [] \<and> vm_chain_of P c \<noteq> Some t \<and> (\<forall>path. outstanding P c \<noteq> Some (path, t))
      \<and> (\<forall>i. vm_chain_of (Rs i) c \<noteq> Some t))"

lemma lost_entry_fields [simp]:
  "he_container (lost_entry now reps l e) = he_container e" "he_vm_chain (lost_entry now reps l e) = None"
  "he_pending_vm_delta (lost_entry now reps l e) = None"
  by (simp_all add: lost_entry_def Let_def)

lemma lost_ok:
  assumes "primary_ok c P" and "copies_ok c P Rs" and "is_ok (h_save h)" and "vm_entry P c = Some e"
  shows "primary_ok c (vm_update h c (lost_entry now reps l) P)"
    and "copies_ok c (vm_update h c (lost_entry now reps l) P) Rs"
    and "outstanding (vm_update h c (lost_entry now reps l) P) c = None"
    and "vm_chain_of (vm_update h c (lost_entry now reps l) P) c = None"
  using assms by (simp_all add: primary_ok_def copies_ok_def fits_def vm_chain_of_def outstanding_def vm_entry_update)

lemma take_ok:
  assumes P: "primary_ok c P" "copies_ok c P Rs" "outstanding P c = None" and s: "is_ok (h_save h)"
    and t: "fresh_token (pd_token p) c P Rs" and e: "vm_entry P c = Some e"
  defines "Q \<equiv> vm_update h c (\<lambda>e. e\<lparr>he_pending_vm_delta := Some p\<rparr>) (vm_take_delta (pd_path p) P)"
  shows "primary_ok c Q" and "copies_ok c Q Rs" and "outstanding Q c = Some (pd_path p, pd_token p)"
proof -
  have e': "vm_entry (vm_take_delta (pd_path p) P) c = Some e"
    using e by (simp add: vm_take_delta_def vm_entry_def)
  have Q: "vm_chain_of Q c = vm_chain_of P c" "vn_files Q (pd_path p) = Some (dirty_blocks P)" "vn_dirty Q = {}" "vn_disk Q = vn_disk P"
    using s e e' by (simp_all add: Q_def vm_chain_of_def vm_entry_update) (simp_all add: vm_take_delta_def)
  show o: "outstanding Q c = Some (pd_path p, pd_token p)"
    using s e' by (simp add: Q_def outstanding_def vm_entry_update)
  have dom: "dom (dirty_blocks P) = vn_dirty P" by (auto simp: dirty_blocks_def dom_def split: if_splits)
  show "primary_ok c Q"
    using P(1) t Q o by (auto simp: primary_ok_def fresh_token_def dirty_blocks_def split: if_splits)
  show "copies_ok c Q Rs"
    using P(2,3) t Q o dom by (auto simp: copies_ok_def fits_def fresh_token_def)
qed

lemma begin_round_ok:
  assumes P: "primary_ok c P" "copies_ok c P Rs" and s: "is_ok (h_save h)"
    and t: "fresh_token token c P Rs"
    and b: "begin_round h take_ok path token now reps P c = (Q, res)"
  shows "primary_ok c Q \<and> copies_ok c Q Rs
    \<and> (\<forall>p. res = Ok (Some p) \<longrightarrow> outstanding Q c = Some (pd_path p, pd_token p)
         \<and> (pd_token p = token \<or> outstanding P c = Some (pd_path p, pd_token p)))"
proof (cases "vm_entry P c")
  case None
  with b P show ?thesis by (auto simp: begin_round_def)
next
  case (Some e)
  define lst where "lst l = vm_update h c (lost_entry now reps l) P" for l
  let ?p = "\<lparr>pd_path = path, pd_taken_at = now, pd_applied_by = [], pd_token = token\<rparr>"
  have t': "fresh_token token c (lst l) Rs" for l
    using t lost_ok(3,4) [OF P s Some] by (simp add: fresh_token_def lst_def)
  have e': "\<exists>e'. vm_entry (lst l) c = Some e'" for l using Some s by (simp add: vm_entry_update lst_def)
  note lost = lost_ok [OF P s Some, of now reps, folded lst_def]
  note take_lost = take_ok [OF lost(1,2,3) s, of ?p] and take = take_ok [OF P _ s, of ?p]
  show ?thesis
  proof (cases "he_pending_vm_delta e")
    case None
    with Some have o: "outstanding P c = None" by (simp add: outstanding_def)
    show ?thesis
      using b P take [OF o _ Some] t Some None unfolding begin_round_def
      by (auto simp: Let_def split: if_splits sum.splits)
  next
    case pend: (Some l)
    show ?thesis
    proof (cases "vn_files P (pd_path l)")
      case None
      then show ?thesis
        using b P lost [of l] take_lost [of l] t' [of l] e' [of l] Some pend unfolding begin_round_def
        by (auto simp: Let_def simp flip: lst_def split: if_splits sum.splits)
    next
      case (Some dl)
      with b P \<open>vm_entry P c = Some e\<close> pend show ?thesis
        unfolding begin_round_def by (auto simp: Let_def outstanding_def split: if_splits)
    qed
  qed
qed

lemma finish_round_ok:
  assumes P: "primary_ok c P" "copies_ok c P Rs" and s: "is_ok (h_save h)"
  shows "primary_ok c (finish_round h reps c P) \<and> copies_ok c (finish_round h reps c P) Rs"
proof (cases "vm_entry P c")
  case None
  with P show ?thesis by (simp add: finish_round_def)
next
  case (Some e)
  show ?thesis
  proof (cases "he_pending_vm_delta e")
    case None
    with P Some show ?thesis by (simp add: finish_round_def)
  next
    case pend: (Some p)
    let ?f = "\<lambda>e. e\<lparr>he_pending_vm_delta := None, he_vm_chain := if pd_token p \<noteq> [] then Some (pd_token p) else he_vm_chain e\<rparr>"
    let ?Q = "vm_update h c ?f (P\<lparr>vn_files := (vn_files P)(pd_path p := None)\<rparr>)"
    have tok: "pd_token p \<noteq> []" using P(1) Some pend by (simp add: primary_ok_def outstanding_def)
    have e': "vm_entry (P\<lparr>vn_files := (vn_files P)(pd_path p := None)\<rparr>) c = Some e"
      using Some by (simp add: vm_entry_def)
    have "vm_chain_of ?Q c = Some (pd_token p)" "outstanding ?Q c = None"
      using s tok e' by (simp_all add: vm_chain_of_def outstanding_def vm_entry_update)
    then have "primary_ok c ?Q" "copies_ok c ?Q Rs"
      using P tok Some pend by (auto simp: primary_ok_def copies_ok_def fits_def outstanding_def)
    with P Some pend show ?thesis by (simp add: finish_round_def)
  qed
qed

section \<open>Histories\<close>

lemma sync_vm_now_ok:
  assumes P: "primary_ok c P" "copies_ok c P Rs" and s: "is_ok (h_save (re_host env))"
    and t: "fresh_token (re_token env) c P Rs" "fresh_token (re_minted env) c P Rs" "re_token env \<noteq> re_minted env"
    and r: "sync_vm_now env P Rs c = (P', Rs', res)"
  shows "primary_ok c P' \<and> copies_ok c P' Rs'"
proof -
  define reps where "reps = (case vm_entry P c of Some e \<Rightarrow> filter (\<lambda>r. \<not> re_local env r) (he_replicas e) | None \<Rightarrow> [])"
  obtain Q b where b: "begin_round (re_host env) (re_take env) (re_path env) (re_token env) (re_now env) reps P c = (Q, b)"
    by (cases "begin_round (re_host env) (re_take env) (re_path env) (re_token env) (re_now env) reps P c")
  note Q = begin_round_ok [OF P s t(1) b]
  show ?thesis
  proof (cases b)
    case (Inl x)
    with r b Q show ?thesis by (auto simp: sync_vm_now_def Let_def simp flip: reps_def)
  next
    case (Inr d)
    let ?r = "foldl (\<lambda>r peer. visit_peer (re_host env) (re_minted env) (re_visits env (pe_node_id peer)) d c r peer)
      \<lparr>vr_primary = Q, vr_peers = Rs, vr_staged = None\<rparr> reps"
    have "outstanding Q c = Some (pd_path p, pd_token p) \<and> pd_token p \<noteq> re_minted env" if "d = Some p" for p
      using Q Inr that t(2,3) by (auto simp: fresh_token_def)
    then have "round_ok c (re_minted env) ?r"
      using Q t(2) by (intro visits_ok) (auto simp: round_ok_def fresh_token_def)
    then have "primary_ok c (vr_primary ?r)" "copies_ok c (vr_primary ?r) (vr_peers ?r)"
      by (simp_all add: round_ok_def)
    with finish_round_ok [OF this s] r b Inr show ?thesis
      by (auto simp: sync_vm_now_def Let_def simp flip: reps_def split: if_splits)
  qed
qed

text \<open>
  A history under one primary: it starts when every copy that holds the primary's token is equal to
  its disk, and goes on with writes of the guest, rounds (with fresh tokens, on a primary that can save
  its store), lost files, changes of what runs, and copies that lose their entry.
\<close>

inductive vm_reach :: "string \<Rightarrow> vm_node \<Rightarrow> (string \<Rightarrow> vm_node) \<Rightarrow> bool" for c where
  seeded: "outstanding P c = None \<Longrightarrow> vm_chain_of P c \<noteq> Some [] \<Longrightarrow>
    (\<And>i t. vm_chain_of (Rs i) c = Some t \<Longrightarrow> vm_chain_of P c = Some t \<Longrightarrow> vn_disk (Rs i) = vn_disk P) \<Longrightarrow> vm_reach c P Rs"
| guest: "vm_reach c P Rs \<Longrightarrow> vm_reach c (guest_write w P) Rs"
| round: "vm_reach c P Rs \<Longrightarrow> is_ok (h_save (re_host env)) \<Longrightarrow> fresh_token (re_token env) c P Rs \<Longrightarrow>
    fresh_token (re_minted env) c P Rs \<Longrightarrow> re_token env \<noteq> re_minted env \<Longrightarrow>
    sync_vm_now env P Rs c = (P', Rs', res) \<Longrightarrow> vm_reach c P' Rs'"
| file_lost: "vm_reach c P Rs \<Longrightarrow> vm_reach c (P\<lparr>vn_files := (vn_files P)(path := None)\<rparr>) Rs"
| runs: "vm_reach c P Rs \<Longrightarrow> vm_reach c (P\<lparr>vn_node := (vn_node P)\<lparr>hn_running := R\<rparr>\<rparr>) Rs"
| forgotten: "vm_reach c P Rs \<Longrightarrow> vm_chain_of v c = None \<Longrightarrow> vm_reach c P (Rs(i := v))"

lemma vm_reach_ok: "vm_reach c P Rs \<Longrightarrow> primary_ok c P \<and> copies_ok c P Rs"
proof (induction rule: vm_reach.induct)
  case (seeded P Rs)
  then show ?case by (auto simp: primary_ok_def copies_ok_def fits_def)
next
  case (guest P Rs w)
  then show ?case by (simp add: primary_ok_write copies_ok_def fits_write)
next
  case (round P Rs env P' Rs' res)
  then show ?case using sync_vm_now_ok by blast
next
  case (file_lost P Rs path)
  then show ?case
    by (auto simp: primary_ok_def copies_ok_def fits_def vm_chain_of_def outstanding_def vm_entry_def split: option.splits if_splits)
next
  case (runs P Rs R)
  then show ?case
    using same_coreD [of c "P\<lparr>vn_node := (vn_node P)\<lparr>hn_running := R\<rparr>\<rparr>" P]
    by (simp add: copies_ok_def same_core_def vm_chain_of_def outstanding_def vm_entry_def)
next
  case (forgotten P Rs v i)
  then show ?case by (auto simp: copies_ok_def)
qed

text \<open>
  C2 (vm_chain_sound). While one node stays the primary of a VM and every write of its own store during
  its rounds succeeds, what a copy's token says about its disk is true. When no delta is outstanding, a copy with the
  primary's token is equal to the primary's disk in every block the guest has not written since the last delta was
  taken. When a delta is outstanding, the same holds for a copy that already has the delta's token, and
  a copy that still has the primary's token differs in no other block than those and the ones in the
  staged delta. This holds whatever rounds were cut short, deltas half written by a replica, replies
  lost, staged files lost, replica saves failed and copies replaced by full images. Tokens are
  fresh. (A write of the primary's store that fails while a delta is taken breaks the guarantee.)
\<close>

theorem vm_chain_sound:
  assumes "vm_reach c P Rs" and "vm_chain_of (Rs i) c = Some t" and "b \<notin> vn_dirty P"
  shows "(outstanding P c = None \<and> vm_chain_of P c = Some t \<longrightarrow> vn_disk (Rs i) b = vn_disk P b)
    \<and> (outstanding P c = Some (path, t) \<longrightarrow> vn_disk (Rs i) b = vn_disk P b)
    \<and> (outstanding P c = Some (path, token) \<and> vm_chain_of P c = Some t \<and> vn_files P path = Some delta \<and> delta b = None \<longrightarrow>
         vn_disk (Rs i) b = vn_disk P b)"
  using vm_reach_ok [OF assms(1)] assms(2,3) by (auto simp: copies_ok_def fits_def off_def dom_def)

end
