(* ===== verification/Ha_Vm_Faults.thy ===== *)
theory Ha_Vm_Faults
  imports Ha_Vm_Chain
begin

text \<open>
  Handing a VM over to another node, and where the chain of tokens stops protecting the copies: a
  token that two different disks hold. The handlers are \<^verbatim>\<open>wolfha_demote\<close> (its VM path) of \<^verbatim>\<open>src/api/mod.rs\<close>
  and \<^verbatim>\<open>promote_local\<close> of \<^verbatim>\<open>src/wolfha/mod.rs\<close>.
\<close>

section \<open>Handing over\<close>

text \<open>
  What the old primary's host and peers answer during the handover: freezing the guest, taking the
  final delta, and the visits of the peers.
\<close>

record handover =
  ho_host :: host
  ho_paused :: "string + unit"
  ho_take :: "string + unit"
  ho_path :: string
  ho_next :: string
  ho_local :: "ha_peer \<Rightarrow> bool"
  ho_visits :: "string \<Rightarrow> visit"

text \<open>\<^verbatim>\<open>sync_vm_replica\<close> to one peer.\<close>

definition send_delta ::
  "visit \<Rightarrow> vm_node \<Rightarrow> string \<Rightarrow> disk_delta \<Rightarrow> string \<Rightarrow> string \<Rightarrow> ha_meta option \<Rightarrow> vm_node \<times> (vm_error + unit)" where
  "send_delta vi v c d chain_prev chain_next meta =
     (case vi_host vi of
        None \<Rightarrow> (v, Err NoAnswer)
      | Some vh \<Rightarrow>
          (case wolfha_apply_vm_delta vh (vi_now vi) v c d chain_prev chain_next meta of
             (q, res) \<Rightarrow> (q, if vi_reply_lost vi then Err NoAnswer else res)))"

text \<open>
  The final delta of a frozen guest, sent to the promoting node and, if that worked, to the other
  standbys. The result is the token of the handover, if there is one.
\<close>

definition final_delta ::
  "handover \<Rightarrow> vm_node \<Rightarrow> (string \<Rightarrow> vm_node) \<Rightarrow> string \<Rightarrow> ha_peer \<Rightarrow>
   vm_node \<times> (string \<Rightarrow> vm_node) \<times> string option" where
  "final_delta ho prim peers c np =
     (case ho_take ho of
        Inl _ \<Rightarrow> (prim, peers, None)
      | Inr _ \<Rightarrow>
          let taken = vm_take_delta (ho_path ho) prim;
              d = dirty_blocks prim;
              chain_prev = unwrap_or [] (vm_chain_of prim c);
              meta = (case vm_entry prim c of
                Some e \<Rightarrow> if he_role e = Primary then Some (from_entry e) else None | None \<Rightarrow> None);
              others = (case vm_entry prim c of None \<Rightarrow> [] | Some e \<Rightarrow>
                filter (\<lambda>r. \<not> (pe_node_id r = pe_node_id np \<or> pe_address r = pe_address np \<or> ho_local ho r))
                  (he_replicas e));
              send = (\<lambda>i v. send_delta (ho_visits ho i) v c d chain_prev (ho_next ho) meta);
              (q, res) = send (pe_node_id np) (peers (pe_node_id np));
              peers1 = peers(pe_node_id np := q);
              peers2 = (if is_ok res
                then foldl (\<lambda>m r. m(pe_node_id r := fst (send (pe_node_id r) (m (pe_node_id r))))) peers1 others
                else peers1)
          in (taken\<lparr>vn_files := (vn_files taken)(ho_path ho := None)\<rparr>, peers2,
              if is_ok res then Some (ho_next ho) else None))"

definition wolfha_demote_vm ::
  "handover \<Rightarrow> bool \<Rightarrow> vm_node \<Rightarrow> (string \<Rightarrow> vm_node) \<Rightarrow> string \<Rightarrow> ha_peer \<Rightarrow>
   vm_node \<times> (string \<Rightarrow> vm_node) \<times> (ha_error + unit)" where
  "wolfha_demote_vm ho final_sync prim peers c np =
     (let h = ho_host ho;
          was_running = subject_is_running (vn_node prim) c;
          (p1, peers1, token) =
            (if was_running \<and> final_sync \<and> is_ok (ho_paused ho) then final_delta ho prim peers c np
             else (prim, peers, None))
      in case (if was_running then map_err StopFailed (h_stop h) else Ok ()) of
           Inl x \<Rightarrow> (p1, peers1, Err x)
         | Inr _ \<Rightarrow>
             let n1 = (vn_node p1)\<lparr>hn_running := hn_running (vn_node p1) - {c}\<rparr>;
                 (n2, res) = demote_local h n1 c np;
                 p2 = p1\<lparr>vn_node := n2\<rparr>
             in case res of
                  Inl x \<Rightarrow> (p2, peers1, Err x)
                | Inr _ \<Rightarrow>
                    ((case token of
                        Some t \<Rightarrow> vm_update h c (\<lambda>e. e\<lparr>he_vm_chain := Some t\<rparr>) p2
                      | None \<Rightarrow> p2), peers1, Ok ()))"

text \<open>Promotion replaces the bitmap before the guest starts.\<close>

definition vm_promote :: "host \<Rightarrow> vm_node \<Rightarrow> string \<Rightarrow> ha_peer option \<Rightarrow> vm_node \<times> (ha_error + unit)" where
  "vm_promote h v c me =
     (case promote_local h (vn_node v) c me of
        (n, res) \<Rightarrow>
          (v\<lparr>vn_node := n, vn_dirty := (case res of
               Inr _ \<Rightarrow> {} | Inl (StartFailed _) \<Rightarrow> {} | Inl _ \<Rightarrow> vn_dirty v)\<rparr>, res))"

section \<open>A delta is skipped\<close>

definition takes_deltas :: "visit \<Rightarrow> vm_node \<Rightarrow> string \<Rightarrow> string \<Rightarrow> bool" where
  "takes_deltas vi v c t =
     (\<not> vi_reply_lost vi
      \<and> (case vi_host vi of Some vh \<Rightarrow> is_ok (vh_commit vh) \<and> is_ok (h_save (vh_host vh)) | None \<Rightarrow> False)
      \<and> \<not> subject_is_running (vn_node v) c
      \<and> (case vm_entry v c of Some e \<Rightarrow> he_kind e = Vm \<and> he_vm_chain e = Some t \<and> (he_role e = Replica \<or> he_stale e)
         | None \<Rightarrow> False))"

lemma send_delta_ok:
  assumes "takes_deltas vi v c t" and "t \<noteq> []" and "t' \<noteq> []" and "t' \<noteq> t"
  shows "\<exists>q. send_delta vi v c d t t' meta = (q, Ok ()) \<and> vm_chain_of q c = Some t'
    \<and> vn_disk q = commit_delta d (vn_disk v)"
proof -
  obtain vh e where vh: "vi_host vi = Some vh" "is_ok (vh_commit vh)" "is_ok (h_save (vh_host vh))"
    and e: "vm_entry v c = Some e" "he_kind e = Vm" "he_vm_chain e = Some t" "he_role e = Replica \<or> he_stale e"
    and rest: "\<not> vi_reply_lost vi" "\<not> subject_is_running (vn_node v) c"
    using assms(1) by (auto simp: takes_deltas_def split: option.splits)
  obtain u u' where ok: "vh_commit vh = Inr u" "h_save (vh_host vh) = Inr u'"
    using vh by (cases "vh_commit vh"; cases "h_save (vh_host vh)") (simp_all add: is_ok_def)
  let ?q = "vm_update (vh_host vh) c (\<lambda>e. e\<lparr>he_vm_chain := Some t'\<rparr>) (v\<lparr>vn_disk := commit_delta d (vn_disk v)\<rparr>)"
  have a: "vm_apply_delta vh v c d t t' = (?q, Ok ())"
    using e rest assms(2,3,4) ok by (simp add: vm_apply_delta_def Let_def)
  have "vm_chain_of ?q c = Some t'" using chain_of_token [OF e(1) vh(3)] by simp
  then show ?thesis
    using e(1,4) a rest by (auto simp: send_delta_def vh(1) wolfha_apply_vm_delta_def chain_of_round_applied)
qed
lemma foldl_upd_other:
  "\<forall>r \<in> set rs. pe_node_id r \<noteq> i \<Longrightarrow> foldl (\<lambda>m r. m(pe_node_id r := f r m)) m rs i = m i"
  by (induction rs arbitrary: m) auto

lemma final_delta_ok:
  assumes t: "takes_deltas (ho_visits ho (pe_node_id np)) (Rs (pe_node_id np)) c t" "vm_chain_of P c = Some t"
    "t \<noteq> []" "ho_next ho \<noteq> []" "ho_next ho \<noteq> t" and take: "is_ok (ho_take ho)"
  shows "\<exists>Rs'. final_delta ho P Rs c np =
      ((vm_take_delta (ho_path ho) P)\<lparr>vn_files := (vn_files P)(ho_path ho := None)\<rparr>, Rs', Some (ho_next ho))
    \<and> vm_chain_of (Rs' (pe_node_id np)) c = Some (ho_next ho)
    \<and> vn_disk (Rs' (pe_node_id np)) = commit_delta (dirty_blocks P) (vn_disk (Rs (pe_node_id np)))"
proof -
  let ?i = "pe_node_id np" and ?d = "dirty_blocks P"
  let ?meta = "case vm_entry P c of Some e \<Rightarrow> if he_role e = Primary then Some (from_entry e) else None | None \<Rightarrow> None"
  obtain q where q: "send_delta (ho_visits ho ?i) (Rs ?i) c ?d t (ho_next ho) ?meta = (q, Ok ())"
    "vm_chain_of q c = Some (ho_next ho)" "vn_disk q = commit_delta ?d (vn_disk (Rs ?i))"
    using send_delta_ok [OF t(1,3,4,5)] by blast
  let ?others = "case vm_entry P c of None \<Rightarrow> [] | Some e \<Rightarrow>
    filter (\<lambda>r. \<not> (pe_node_id r = ?i \<or> pe_address r = pe_address np \<or> ho_local ho r)) (he_replicas e)"
  have "\<forall>r \<in> set ?others. pe_node_id r \<noteq> ?i" by (auto split: option.splits)
  note other = foldl_upd_other [OF this, of "\<lambda>r m. fst (send_delta (ho_visits ho (pe_node_id r)) (m (pe_node_id r)) c ?d t (ho_next ho) ?meta)" "Rs(?i := q)"]
  obtain u where "ho_take ho = Inr u" using take by (cases "ho_take ho") (simp_all add: is_ok_def)
  then show ?thesis
    using q other t(2) by (simp add: final_delta_def Let_def vm_take_delta_def)
qed

lemma demote_local_vm:
  assumes "ha_get (hn_store n) c = Some e" and "he_kind e = Vm" and "c \<notin> hn_running n" and "is_ok (h_save h)"
  shows "\<exists>n'. demote_local h n c p = (n', Ok ()) \<and> ha_get (hn_store n') c = Some (demote_entry p e)"
proof -
  obtain u where "h_save h = Inr u" using assms(4) by (cases "h_save h") (simp_all add: is_ok_def)
  with assms show ?thesis
    by (auto simp: demote_local_def subject_is_running_def ha_get_get_mut Let_def)
qed

text \<open>
  A handover takes the final delta although an earlier one is still
  outstanding, and sends it to the promoting node as the successor of the token that node holds. The
  blocks of the outstanding delta never reach it: the two copies end with the same token and with
  different contents.
\<close>

theorem handoff_skips_pending:
  assumes e: "vm_entry P c = Some e" "he_kind e = Vm" "he_vm_chain e = Some t" and t: "t \<noteq> []"
    "ho_next ho \<noteq> []" "ho_next ho \<noteq> t"
    and i: "i = pe_node_id np" "takes_deltas (ho_visits ho i) (Rs i) c t"
    and ok: "is_ok (ho_paused ho)" "is_ok (ho_take ho)" "is_ok (h_stop (ho_host ho))" "is_ok (h_save (ho_host ho))"
    and run: "subject_is_running (vn_node P) c"
    and pend: "outstanding P c = Some (path, tok)" "vn_files P path = Some dl" "dl b = Some (vn_disk P b)"
      "b \<notin> vn_dirty P" "vn_disk (Rs i) b \<noteq> vn_disk P b"
  shows "\<exists>P' Rs'. wolfha_demote_vm ho True P Rs c np = (P', Rs', Ok ())
    \<and> vm_chain_of P' c = Some (ho_next ho) \<and> vm_chain_of (Rs' i) c = Some (ho_next ho)
    \<and> vn_disk (Rs' i) b \<noteq> vn_disk P' b"
proof -
  from e(1,3) have "vm_chain_of P c = Some t" by (simp add: vm_chain_of_def)
  from final_delta_ok [where Rs = Rs and P = P, OF i(2) [unfolded i(1)] this t ok(2)] obtain Rs' where fd:
    "final_delta ho P Rs c np =
      ((vm_take_delta (ho_path ho) P)\<lparr>vn_files := (vn_files P)(ho_path ho := None)\<rparr>, Rs', Some (ho_next ho))"
    "vm_chain_of (Rs' i) c = Some (ho_next ho)" "vn_disk (Rs' i) = commit_delta (dirty_blocks P) (vn_disk (Rs i))"
    using i(1) by auto
  let ?p1 = "(vm_take_delta (ho_path ho) P)\<lparr>vn_files := (vn_files P)(ho_path ho := None)\<rparr>"
  let ?n1 = "(vn_node ?p1)\<lparr>hn_running := hn_running (vn_node ?p1) - {c}\<rparr>"
  have "ha_get (hn_store ?n1) c = Some e" using e(1) by (simp add: vm_entry_def vm_take_delta_def)
  from demote_local_vm [OF this e(2) _ ok(4), of np] obtain n2 where
    n2: "demote_local (ho_host ho) ?n1 c np = (n2, Ok ())" "ha_get (hn_store n2) c = Some (demote_entry np e)" by auto
  obtain u where stop: "h_stop (ho_host ho) = Inr u"
    using ok(3) by (cases "h_stop (ho_host ho)") (simp_all add: is_ok_def)
  let ?P = "vm_update (ho_host ho) c (\<lambda>e. e\<lparr>he_vm_chain := Some (ho_next ho)\<rparr>) (?p1\<lparr>vn_node := n2\<rparr>)"
  have "wolfha_demote_vm ho True P Rs c np = (?P, Rs', Ok ())"
    using run ok(1) stop n2(1) by (simp add: wolfha_demote_vm_def fd(1) Let_def)
  moreover have "vm_chain_of ?P c = Some (ho_next ho)"
    using n2(2) ok(4) by (simp add: vm_chain_of_def vm_entry_update) (simp add: vm_entry_def)
  moreover have "vn_disk ?P b = vn_disk P b" by (simp add: vm_take_delta_def)
  moreover have "vn_disk (Rs' i) b = vn_disk (Rs i) b"
    using fd(3) pend(4) by (simp add: commit_delta_def dirty_blocks_def)
  ultimately show ?thesis using fd(2) pend(5) by metis
qed

section \<open>A delta is sent twice\<close>

definition pending_of :: "vm_node \<Rightarrow> string \<Rightarrow> pending_delta option" where
  "pending_of v c = (case vm_entry v c of Some e \<Rightarrow> he_pending_vm_delta e | None \<Rightarrow> None)"

lemma pending_update:
  assumes "\<And>e. he_container (f e) = he_container e" and "\<And>e. he_pending_vm_delta (f e) = he_pending_vm_delta e"
  shows "pending_of (vm_update h c f v) c = pending_of v c"
  using assms by (auto simp: pending_of_def vm_entry_update split: option.split)

lemma pending_disk [simp]: "pending_of (v\<lparr>vn_disk := d\<rparr>) c = pending_of v c"
  by (simp add: pending_of_def vm_entry_def)

lemma pending_apply:
  assumes "wolfha_apply_vm_delta vh now v c d s t meta = (q, res)"
  shows "pending_of q c = pending_of v c \<and> vn_files q = vn_files v"
proof -
  have "pending_of (vm_update h c (vm_round_applied now meta) v) c = pending_of v c" for h v
    by (rule pending_update) (auto simp: vm_round_applied_def apply_to_def Let_def split: option.split)
  moreover have "pending_of (vm_update h c (\<lambda>e. e\<lparr>he_vm_chain := Some t\<rparr>) v) c = pending_of v c" for h v
    by (rule pending_update) simp_all
  ultimately show ?thesis
    using assms by (auto simp: wolfha_apply_vm_delta_def vm_apply_delta_def Let_def
        split: option.splits if_splits sum.splits prod.splits)
qed

lemma pending_promote:
  assumes "vm_promote h v c me = (q, Ok ())"
  shows "pending_of q c = pending_of v c \<and> vn_files q = vn_files v
    \<and> (\<exists>e. vm_entry q c = Some e \<and> he_role e = Primary \<and> \<not> he_stale e)"
proof -
  obtain n where p: "promote_local h (vn_node v) c me = (n, Ok ())" and q: "q = v\<lparr>vn_node := n, vn_dirty := {}\<rparr>"
    using assms by (auto simp: vm_promote_def split: prod.splits)
  from p obtain e where e: "ha_get (hn_store (vn_node v)) c = Some e"
    by (auto simp: promote_local_def split: option.splits)
  let ?e = "promote_entry (h_local h) me e"
  have "he_container ?e = c" using e by (auto dest: ha_get_SomeD)
  with p e have "ha_get (hn_store n) c = Some ?e"
    by (auto simp: promote_local_def ha_get_get_mut_const Let_def split: if_splits sum.splits)
  then show ?thesis
    using e q by (simp add: pending_of_def vm_entry_def promote_entry_def Let_def)
qed

lemma pending_demote:
  assumes "wolfha_demote_vm ho fs P Rs c np = (P', Rs', Ok ())" and "vm_entry P c = Some e" and "path \<noteq> ho_path ho"
  shows "pending_of P' c = pending_of P c \<and> vn_files P' path = vn_files P path"
proof -
  have fd: "vn_node (fst (final_delta ho P Rs c np)) = vn_node P \<and> vn_files (fst (final_delta ho P Rs c np)) path = vn_files P path"
    using assms(3) by (auto simp: final_delta_def vm_take_delta_def Let_def case_prod_beta split: sum.split)
  have dem: "ha_get (hn_store n') c = Some (demote_entry np e)"
    if "demote_local h (n\<lparr>hn_running := R\<rparr>) c np = (n', Ok ())" "n = vn_node P" for h n n' R
    using that assms(2)
    by (auto simp: demote_local_def vm_entry_def ha_get_get_mut Let_def split: sum.splits if_splits)
  have tok: "pending_of (vm_update h c (\<lambda>e. e\<lparr>he_vm_chain := Some t\<rparr>) v) c = pending_of v c" for h t v
    by (rule pending_update) simp_all
  have fin: "pending_of (v\<lparr>vn_node := n'\<rparr>) c = pending_of P c" if "ha_get (hn_store n') c = Some (demote_entry np e)" for v n'
    using that assms(2) by (simp add: pending_of_def vm_entry_def demote_entry_def)
  show ?thesis
    using assms(1) fd unfolding wolfha_demote_vm_def Let_def
    by (auto simp: tok fin [OF dem] split: prod.splits sum.splits if_splits option.splits)
qed
text \<open>
  Demotion keeps the record of an outstanding delta, and so do the rounds the
  demoted copy receives. When the node is promoted again, its first round sends that old delta once
  more, and a standby that holds its current token writes the old blocks over newer ones.
\<close>

theorem stale_delta_replayed:
  assumes p: "pending_of P c = Some pd" "vn_files P (pd_path pd) = Some dl" "pd_path pd \<noteq> ho_path ho"
    and d: "wolfha_demote_vm ho fs P Rs c np = (P1, Rs1, Ok ())"
    and a: "wolfha_apply_vm_delta vh now P1 c d s t meta = (P2, res)"
    and m: "vm_promote h P2 c me = (P3, Ok ())"
    and v: "vm_chain_of P3 c = Some u" "u \<noteq> []" "pd_token pd \<noteq> []" "pd_token pd \<noteq> u" "takes_deltas vi v c u"
  shows "begin_round h' take_ok path token now' reps P3 c = (P3, Ok (Some pd))
    \<and> (\<exists>q. send_delta vi v c dl u (pd_token pd) meta' = (q, Ok ()) \<and> vn_disk q = commit_delta dl (vn_disk v))"
proof
  from p(1) obtain e where e: "vm_entry P c = Some e" by (auto simp: pending_of_def split: option.splits)
  from pending_demote [OF d e p(3)] pending_apply [OF a] pending_promote [OF m] p(1,2)
  obtain e3 where e3: "vm_entry P3 c = Some e3" "he_role e3 = Primary" "\<not> he_stale e3"
    and pd: "pending_of P3 c = Some pd" "vn_files P3 (pd_path pd) = Some dl" by auto
  from pd(1) e3(1) have "he_pending_vm_delta e3 = Some pd" by (simp add: pending_of_def)
  with e3 pd(2) show "begin_round h' take_ok path token now' reps P3 c = (P3, Ok (Some pd))"
    by (simp add: begin_round_def)
  from send_delta_ok [OF v(5,2,3,4)]
  show "\<exists>q. send_delta vi v c dl u (pd_token pd) meta' = (q, Ok ()) \<and> vn_disk q = commit_delta dl (vn_disk v)"
    by blast
qed

end
