(* ===== verification/Ha_Steps.thy ===== *)
theory Ha_Steps
  imports Ha_Handlers Ha_Vm_Faults
begin

text \<open>
  What changes a node's WolfHA state as one step relation, and what holds in every state it
  reaches: a subject has one entry, an entry names a primary exactly when it is a standby, and a
  standby runs only if something other than WolfHA started it.
\<close>

section \<open>The invariant\<close>

definition entry_ok :: "bool \<Rightarrow> ha_entry \<Rightarrow> bool" where
  "entry_ok runs e =
     ((he_role e = Replica \<longleftrightarrow> he_primary e \<noteq> None) \<and> (he_role e = Replica \<longrightarrow> \<not> runs))"

text \<open>
  \<open>T\<close> holds the subjects that something other than WolfHA has started here while they were standbys.
  For any other subject, an entry is checked against what runs.
\<close>

definition node_ok :: "string set \<Rightarrow> ha_node \<Rightarrow> bool" where
  "node_ok T n =
     (distinct (map he_container (hn_store n))
      \<and> list_all (\<lambda>e. entry_ok (subject_is_running n (he_container e) \<and> he_container e \<notin> T) e) (hn_store n))"

definition pair_ok :: "bool \<Rightarrow> ha_entry option \<times> bool \<Rightarrow> bool" where
  "pair_ok f v = (case fst v of None \<Rightarrow> True | Some e \<Rightarrow> entry_ok (snd v \<and> f) e)"

lemma ha_get_distinct:
  "distinct (map he_container st) \<Longrightarrow> e \<in> set st \<Longrightarrow> ha_get st (he_container e) = Some e"
  by (induction st) (auto simp: ha_get_def)

lemma node_ok_views:
  "node_ok T n \<longleftrightarrow> distinct (map he_container (hn_store n)) \<and> (\<forall>c. pair_ok (c \<notin> T) (node_view c n))"
  by (auto simp: node_ok_def pair_ok_def node_view_def list_all_iff subject_is_running_def
      dest: ha_get_SomeD ha_get_distinct split: option.splits)

lemma pair_okD: "node_ok T n \<Longrightarrow> pair_ok (c \<notin> T) (node_view c n)"
  by (simp add: node_ok_views)

text \<open>An operation on one subject keeps the invariant when it keeps it for that subject.\<close>

lemma node_ok_frame:
  assumes "node_ok T n" and "distinct (map he_container (hn_store n'))"
    and "\<And>d. d \<noteq> c \<Longrightarrow> node_view d n' = node_view d n" and "pair_ok (c \<notin> T) (node_view c n')"
  shows "node_ok T n'"
  unfolding node_ok_views using assms(2-4) pair_okD [OF assms(1)] by metis

lemma node_ok_distinct: "node_ok T n \<Longrightarrow> distinct (map he_container (hn_store n))"
  by (simp add: node_ok_def)

section \<open>Operations keep it\<close>

named_theorems pair_ok_intros \<open>operations keep the invariant for their own subject\<close>

lemma entry_ok_replicas [simp]: "entry_ok b (e\<lparr>he_replicas := r\<rparr>) = entry_ok b e"
  and entry_ok_stale [simp]: "entry_ok b (e\<lparr>he_stale := s\<rparr>) = entry_ok b e"
  and entry_ok_demote [simp]: "entry_ok b (demote_entry p e) = (\<not> b)"
  and entry_ok_promote [simp]: "entry_ok b (promote_entry l me e)"
  and entry_ok_standby [simp]: "entry_ok b (standby_entry c k p t st ch) = (\<not> b)"
  by (auto simp: entry_ok_def demote_entry_def promote_entry_def standby_entry_def Let_def)

lemma entry_ok_stopped: "entry_ok b e \<Longrightarrow> entry_ok False e"
  by (simp add: entry_ok_def)

lemma he_container_apply_to [simp]: "he_container (apply_to m e) = he_container e"
  by (simp add: apply_to_def Let_def)

lemma entry_ok_apply_to [simp]: "entry_ok b e \<Longrightarrow> entry_ok b (apply_to m e)"
  by (auto simp: entry_ok_def apply_to_def Let_def)

lemma pair_ok_dedupe [pair_ok_intros]:
  "pair_ok f (node_view c n) \<Longrightarrow> pair_ok f (node_view c (dedupe_replicas h canon n c))"
  by (auto simp: pair_ok_def node_view_def dedupe_replicas_def ha_get_get_mut Let_def split: option.splits)

lemma pair_ok_set_stale [pair_ok_intros]:
  "pair_ok f (node_view c n) \<Longrightarrow> pair_ok f (node_view c (set_stale h c b n))"
  by (auto simp: pair_ok_def node_view_def set_stale_def ha_get_get_mut split: option.splits)

lemma pair_ok_try_stop [pair_ok_intros]:
  "pair_ok f (node_view c n) \<Longrightarrow> pair_ok f (node_view c (try_stop h c n))"
  by (auto simp: pair_ok_def node_view_def try_stop_def entry_ok_def split: option.splits)

lemma pair_ok_try_start:
  "pair_ok f (node_view c n) \<Longrightarrow> ha_get (hn_store n) c = Some e \<Longrightarrow> he_role e = Primary \<Longrightarrow>
   pair_ok f (node_view c (try_start h c n))"
  by (simp add: pair_ok_def node_view_def try_start_def entry_ok_def)

lemma pair_ok_demote [pair_ok_intros]:
  "pair_ok f (node_view c n) \<Longrightarrow> pair_ok f (node_view c (fst (demote_local h n c p)))"
  by (auto simp: pair_ok_def node_view_def demote_local_def ha_get_get_mut ha_get_append Let_def
      intro: entry_ok_stopped split: option.splits sum.splits)

lemma pair_ok_promote [pair_ok_intros]:
  assumes "pair_ok f (node_view c n)"
  shows "pair_ok f (node_view c (fst (promote_local h n c me)))"
proof (cases "ha_get (hn_store n) c")
  case (Some e)
  then have "he_container (promote_entry (h_local h) me e) = c" by (auto dest: ha_get_SomeD)
  with Some assms show ?thesis
    by (auto simp: pair_ok_def node_view_def promote_local_def ha_get_get_mut_const Let_def
        split: sum.split)
qed (use assms in \<open>simp add: promote_local_def\<close>)

lemma store_keys_demote' [keys_simps]:
  "distinct (map he_container (hn_store n)) \<Longrightarrow>
   distinct (map he_container (hn_store (fst (demote_local h n c p))))"
  by (cases "ha_get (hn_store n) c")
    (auto simp: demote_local_def keys_get_mut ha_get_None_keys Let_def split: option.splits sum.splits)

lemma node_ok_ops:
  assumes "node_ok T n"
  shows "node_ok T (dedupe_replicas h canon n c)"
    and "node_ok T (fst (demote_local h n c p))"
    and "node_ok T (fst (promote_local h n c me))"
  using assms node_ok_distinct [OF assms]
  by (auto intro!: node_ok_frame [OF assms, of _ c] pair_ok_intros simp: node_frame keys_simps pair_okD)

section \<open>The monitor and the boot guard\<close>

lemma pair_ok_monitor_primary:
  "he_container e = c \<Longrightarrow> pair_ok f (node_view c (mo_node s)) \<Longrightarrow>
   pair_ok f (node_view c (mo_node (monitor_primary h w e s)))"
  by (simp add: monitor_primary_def reset_clock_def pair_ok_intros Let_def case_prod_beta split: option.split)

lemma pair_ok_resume:
  assumes "ha_get (hn_store n) c = Some e" and "he_role e = Primary" and "pair_ok f (node_view c n)"
  shows "pair_ok f (node_view c (try_start h c (set_stale h c False n)))"
proof -
  have "\<exists>e'. ha_get (hn_store (set_stale h c False n)) c = Some e' \<and> he_role e' = Primary"
    using assms(1,2) by (simp add: set_stale_def ha_get_get_mut)
  with pair_ok_try_start [OF pair_ok_set_stale [OF assms(3)]] show ?thesis by blast
qed

lemma pair_ok_monitor_fenced:
  "ha_get (hn_store (mo_node s)) c = Some e \<Longrightarrow> he_role e = Primary \<Longrightarrow> pair_ok f (node_view c (mo_node s)) \<Longrightarrow>
   pair_ok f (node_view c (mo_node (monitor_fenced h w e s)))"
  by (frule ha_get_SomeD) (simp add: monitor_fenced_def pair_ok_intros pair_ok_resume Let_def split: option.split)

lemma pair_ok_monitor_standby:
  "he_container e = c \<Longrightarrow> pair_ok f (node_view c (mo_node s)) \<Longrightarrow>
   pair_ok f (node_view c (mo_node (monitor_standby h w e s)))"
  by (simp add: monitor_standby_def reset_clock_def pair_ok_intros Let_def case_prod_beta split: option.split)

lemma pair_ok_monitor_entry:
  assumes "ha_get (hn_store (mo_node s)) c = Some e" and "pair_ok f (node_view c (mo_node s))"
  shows "pair_ok f (node_view c (mo_node (monitor_entry h w e s)))"
proof -
  from assms(1) have "he_container e = c" by (auto dest: ha_get_SomeD)
  with assms show ?thesis
    by (cases "he_role e"; cases "he_stale e") (simp_all add: monitor_entry_def pair_ok_monitor_primary
        pair_ok_monitor_fenced pair_ok_monitor_standby)
qed

lemma pair_ok_view: "pair_ok f (node_view c (mo_node s)) = pair_ok f (vw_entry (view_of c s), vw_running (view_of c s))"
  by (simp add: node_view_def view_of_def)

lemma node_ok_tick:
  assumes "node_ok T (mo_node s)"
  shows "node_ok T (mo_node (monitor_tick env s))"
proof -
  have d: "distinct (keys s)" using assms by (simp add: node_ok_def keys_def)
  have "pair_ok (c \<notin> T) (vw_entry (view_of c (monitor_tick env s)), vw_running (view_of c (monitor_tick env s)))" for c
  proof (cases "ha_get (hn_store (mo_node s)) c")
    case None
    with assms show ?thesis by (simp add: tick_view_absent pair_okD flip: pair_ok_view)
  next
    case (Some e)
    have "pair_ok (c \<notin> T) (vw_entry (view_of c s), vw_running (view_of c s))"
      using pair_okD [OF assms] by (simp flip: pair_ok_view)
    then show ?thesis
      by (intro tick_viewI [where P = "\<lambda>v. pair_ok (c \<notin> T) (vw_entry v, vw_running v)", OF d Some])
        (metis pair_ok_view pair_ok_monitor_entry)
  qed
  with d show ?thesis
    unfolding node_ok_views pair_ok_view by (metis keys_def keys_monitor_tick)
qed

lemma node_ok_fold:
  assumes "\<And>n e. node_ok T n \<Longrightarrow> ha_get (hn_store n) (he_container e) = Some e \<Longrightarrow>
      node_ok T (f n e) \<and> (\<forall>d. d \<noteq> he_container e \<longrightarrow> node_view d (f n e) = node_view d n)"
    and "distinct (map he_container es)" and "\<forall>e \<in> set es. ha_get (hn_store n) (he_container e) = Some e"
    and "node_ok T n"
  shows "node_ok T (foldl f n es)"
  using assms(2-4)
proof (induction es arbitrary: n)
  case (Cons e es)
  then have "node_ok T (f n e)" and other: "\<forall>d. d \<noteq> he_container e \<longrightarrow> node_view d (f n e) = node_view d n"
    using assms(1) [of n e] by auto
  moreover have "\<forall>e' \<in> set es. ha_get (hn_store (f n e)) (he_container e') = Some e'"
  proof
    fix e'
    assume e': "e' \<in> set es"
    with Cons.prems(1) have "he_container e' \<noteq> he_container e" by (auto simp: image_iff)
    with other have "node_view (he_container e') (f n e) = node_view (he_container e') n" by blast
    with Cons.prems(2) e' show "ha_get (hn_store (f n e)) (he_container e') = Some e'"
      by (simp add: node_view_def)
  qed
  ultimately show ?case using Cons.IH [of "f n e"] Cons.prems(1) by simp
qed simp

lemma node_ok_boot_entry:
  assumes n: "node_ok T n" and e: "ha_get (hn_store n) (he_container e) = Some e"
  shows "node_ok T (boot_entry h w e n)
    \<and> (\<forall>d. d \<noteq> he_container e \<longrightarrow> node_view d (boot_entry h w e n) = node_view d n)"
proof -
  let ?c = "he_container e"
  have start: "node_ok T (try_start h ?c n)" if "he_role e = Primary"
    by (rule node_ok_frame [OF n, of _ ?c])
      (use that e n in \<open>auto simp: keys_simps node_frame pair_okD node_ok_distinct intro: pair_ok_try_start\<close>)
  then show ?thesis
    using n by (auto simp: boot_entry_def node_frame node_ok_ops Let_def split: option.split)
qed

lemma node_ok_boot:
  assumes "node_ok T n"
  shows "node_ok T (boot_guard b env n)"
proof -
  have "distinct (map he_container (hn_store n))" by (rule node_ok_distinct [OF assms])
  then show ?thesis
    unfolding boot_guard_def
    by (auto simp: assms ha_get_distinct node_ok_boot_entry split: prod.split intro!: node_ok_fold)
qed

section \<open>Handlers\<close>

lemma keys_remove: "map he_container (ha_remove c st) = filter (\<lambda>k. k \<noteq> c) (map he_container st)"
  by (simp add: ha_remove_def filter_map o_def)

lemma ok_remove:
  assumes "node_ok T n"
  shows "node_ok T (n\<lparr>hn_store := ha_remove c (hn_store n)\<rparr>)"
  using assms by (auto simp: node_ok_def ha_remove_def distinct_map_filter list_all_iff subject_is_running_def)

lemma ok_push:
  assumes "node_ok T n" and "he_container e = c" and "entry_ok (c \<in> hn_running n \<and> c \<notin> T) e"
  shows "node_ok T (n\<lparr>hn_store := ha_remove c (hn_store n) @ [e]\<rparr>)"
  using ok_remove [OF assms(1), of c] assms(2,3)
  by (auto simp: node_ok_def subject_is_running_def ha_remove_def)

lemma ok_markers [simp]: "node_ok T (n\<lparr>hn_markers := m\<rparr>) = node_ok T n"
  by (simp add: node_ok_def subject_is_running_def)

lemma ok_modify:
  assumes "node_ok T n" and "\<And>e. he_container (f e) = he_container e" and "\<And>b e. entry_ok b e \<Longrightarrow> entry_ok b (f e)"
  shows "node_ok T (n\<lparr>hn_store := ha_get_mut c f (hn_store n)\<rparr>)"
  by (rule node_ok_frame [OF assms(1), of _ c])
    (use assms pair_okD [OF assms(1), of c] node_ok_distinct [OF assms(1)] in
      \<open>auto simp: keys_get_mut node_view_def ha_get_get_mut pair_ok_def split: option.splits\<close>)

lemma ok_stopped:
  assumes "node_ok T n"
  shows "node_ok T (n\<lparr>hn_running := hn_running n - {c}\<rparr>)"
  using assms by (auto simp: node_ok_def list_all_iff entry_ok_def subject_is_running_def)

lemma node_ok_handlers:
  assumes "node_ok T n"
  shows "node_ok T (fst (wolfha_update h n c r))"
    and "node_ok T (fst (wolfha_demote h n c p))"
    and "node_ok T (fst (wolfha_promote h canon me n c old))"
    and "node_ok T (fst (wolfha_drop h rm destroy n c))"
    and "node_ok T (fst (wolfha_disable h n c))"
proof -
  show "node_ok T (fst (wolfha_update h n c r))"
  proof (cases "ha_get (hn_store n) c")
    case (Some e)
    then have e: "he_container e = c" "entry_ok (c \<in> hn_running n \<and> c \<notin> T) e"
      using pair_okD [OF assms, of c] by (auto simp: pair_ok_def node_view_def dest: ha_get_SomeD)
    have "node_ok T (n\<lparr>hn_store := ha_get_mut c (\<lambda>_. e') (hn_store n)\<rparr>)"
      if "he_container e' = c" "entry_ok (c \<in> hn_running n \<and> c \<notin> T) e'" for e'
      by (rule node_ok_frame [OF assms, of _ c])
        (use that node_ok_distinct [OF assms] Some in
          \<open>auto simp: keys_get_mut node_view_def ha_get_get_mut_const pair_ok_def\<close>)
    with Some e assms show ?thesis
      by (auto simp: wolfha_update_def entry_ok_def Let_def split: sum.split)
  qed (use assms in \<open>simp add: wolfha_update_def\<close>)
  show "node_ok T (fst (wolfha_demote h n c p))"
    using assms ok_stopped [OF assms, of c] by (auto simp: wolfha_demote_def node_ok_ops split: sum.split)
  show "node_ok T (fst (wolfha_promote h canon me n c old))"
    using assms by (simp add: wolfha_promote_def node_ok_ops Let_def case_prod_beta split: option.split)
  show "node_ok T (fst (wolfha_drop h rm destroy n c))"
    using assms ok_remove [OF assms, of c]
    by (simp add: wolfha_drop_def Let_def split: sum.split subject_kind.split)
  show "node_ok T (fst (wolfha_disable h n c))"
    using assms ok_remove [OF assms, of c] ok_remove [of T "n\<lparr>hn_markers := hn_markers n - {c}\<rparr>" c]
    by (auto simp: wolfha_disable_def Let_def split: option.split sum.split)
qed

lemma node_ok_apply_delta:
  assumes "node_ok T n"
  shows "node_ok T (fst (wolfha_apply_delta h applied now n c meta))"
proof -
  have "node_ok T (n\<lparr>hn_store := ha_get_mut c (round_applied now meta) (hn_store n)\<rparr>)"
    by (rule ok_modify [OF assms]) (auto simp: round_applied_def entry_ok_def apply_to_def Let_def split: option.split)
  with assms show ?thesis by (simp add: wolfha_apply_delta_def split: option.split sum.split)
qed

lemma node_ok_seed:
  assumes "node_ok T n" and "c \<in> hn_running n \<Longrightarrow> h_dir h"
  shows "node_ok T (fst (install_seed h untar now n c k p meta))"
proof (cases "h_dir h \<and> (c \<notin> hn_markers n \<or> c \<in> hn_running n)")
  case True
  with assms show ?thesis by (auto simp: install_seed_def subject_is_running_def)
next
  case False
  with assms(2) have c: "c \<notin> hn_running n" by blast
  let ?n = "n\<lparr>hn_markers := insert c (hn_markers n)\<rparr>" and ?e = "standby_entry c k p now False None"
  let ?e' = "case meta of Some m \<Rightarrow> apply_to m ?e | None \<Rightarrow> ?e"
  have "entry_ok (c \<in> hn_running ?n \<and> c \<notin> T) ?e'" "he_container ?e' = c"
    using c by (simp_all split: option.split)
  with ok_push [of T ?n ?e' c] assms(1) have "node_ok T (?n\<lparr>hn_store := ha_remove c (hn_store ?n) @ [?e']\<rparr>)"
    by simp
  with assms(1) show ?thesis by (auto simp: install_seed_def Let_def split: sum.split)
qed

lemma node_ok_enable:
  assumes "node_ok T n"
  shows "node_ok T (fst (enable_task h seed b chain p n))"
proof -
  have "node_ok T (n\<lparr>hn_store := ha_remove (ep_container p) (hn_store n) @ [enabled_entry p b chain]\<rparr>)"
    by (rule ok_push [OF assms]) (simp_all add: enabled_entry_def entry_ok_def)
  with assms show ?thesis by (simp add: enable_task_def split: sum.split)
qed

lemma node_ok_outside:
  assumes "node_ok T n"
  shows "node_ok (T \<inter> R \<union> {c. c \<in> R \<and> c \<notin> hn_running n \<and> (\<exists>e. ha_get (hn_store n) c = Some e \<and> he_role e = Replica)})
    (n\<lparr>hn_running := R\<rparr>)"
  using assms by (auto simp: node_ok_def list_all_iff entry_ok_def subject_is_running_def dest: ha_get_distinct)

lemma node_ok_mono: "node_ok T n \<Longrightarrow> T \<inter> hn_running n \<subseteq> U \<Longrightarrow> node_ok U n"
  by (auto simp: node_ok_def list_all_iff entry_ok_def subject_is_running_def)

section \<open>Virtual machines\<close>

lemma node_ok_vm_update:
  assumes "node_ok T (vn_node v)" and "\<And>e. he_container (f e) = he_container e" and "\<And>b e. entry_ok b e \<Longrightarrow> entry_ok b (f e)"
  shows "node_ok T (vn_node (vm_update h c f v))"
  using assms(1) ok_modify [OF assms] by (simp add: vm_update_def)

lemma node_ok_vm_update_role:
  assumes "node_ok T (vn_node v)" and "\<And>e. he_container (f e) = he_container e"
    and "\<And>e. he_role (f e) = he_role e" and "\<And>e. he_primary (f e) = he_primary e"
  shows "node_ok T (vn_node (vm_update h c f v))"
  by (rule node_ok_vm_update [OF assms(1,2)]) (simp add: entry_ok_def assms(3,4))

lemma node_ok_vm_seed:
  assumes n: "node_ok T (vn_node v)" and "c \<in> hn_running (vn_node v) \<Longrightarrow> vh_exists vh"
  shows "node_ok T (vn_node (fst (install_vm_seed vh now v c img p meta token)))"
proof (cases "c \<in> hn_running (vn_node v)")
  case True
  with assms show ?thesis by (simp add: install_vm_seed_def subject_is_running_def Let_def)
next
  case False
  let ?e = "standby_entry c Vm p now False (Some token)"
  let ?e' = "case meta of Some m \<Rightarrow> apply_to m ?e | None \<Rightarrow> ?e"
  have "entry_ok (c \<in> hn_running (vn_node v) \<and> c \<notin> T) ?e'" "he_container ?e' = c"
    using False by (simp_all split: option.split)
  from ok_push [OF n this(2,1)] n show ?thesis
    by (auto simp: install_vm_seed_def Let_def split: sum.split)
qed

lemma node_ok_vm_delta:
  assumes "node_ok T (vn_node v)"
  shows "node_ok T (vn_node (fst (wolfha_apply_vm_delta vh now v c d cp cn meta)))"
proof -
  obtain v' res where a: "vm_apply_delta vh v c d cp cn = (v', res)" by (cases "vm_apply_delta vh v c d cp cn")
  have "node_ok T (vn_node (vm_update h c (\<lambda>e. e\<lparr>he_vm_chain := t\<rparr>) (v\<lparr>vn_disk := x\<rparr>)))" for h t x
    by (rule node_ok_vm_update_role) (simp_all add: assms)
  then have v': "node_ok T (vn_node v')"
    using a assms by (auto simp: vm_apply_delta_def Let_def split: option.splits if_splits sum.splits)
  have "node_ok T (vn_node (vm_update (vh_host vh) c (vm_round_applied now meta) v'))"
    by (rule node_ok_vm_update [OF v']) (auto simp: vm_round_applied_def entry_ok_def apply_to_def Let_def split: option.split)
  with v' a assms show ?thesis
    by (simp add: wolfha_apply_vm_delta_def split: option.split sum.split)
qed

text \<open>A round on the primary changes settled entries only in their chain, pending delta and statuses.\<close>

lemma node_ok_mark: "node_ok T (vn_node v) \<Longrightarrow> node_ok T (vn_node (mark_applied h c i v))"
  unfolding mark_applied_def by (rule node_ok_vm_update_role) simp_all

lemma node_ok_stage:
  assumes "node_ok T (vn_node v)"
  shows "node_ok T (vn_node (fst (stage_seed h minted v c)))"
  using assms node_ok_vm_update_role [OF assms, of "\<lambda>e. e\<lparr>he_vm_chain := Some minted\<rparr>"]
  by (auto simp: stage_seed_def split: option.splits sum.splits)

lemma node_ok_reseed:
  assumes "node_ok T (vn_node (vr_primary r))"
  shows "node_ok T (vn_node (vr_primary (fst (vm_reseed_replica_round h minted vi r c peer))))"
proof -
  let ?st = "case vr_staged r of Some s \<Rightarrow> (vr_primary r, Ok s) | None \<Rightarrow> stage_seed h minted (vr_primary r) c"
  obtain p st where st: "?st = (p, st)" by (cases ?st)
  with assms node_ok_stage [OF assms, of h minted c] have p: "node_ok T (vn_node p)"
    by (auto split: option.splits)
  then show ?thesis
    using node_ok_mark [OF p] unfolding vm_reseed_replica_round_def st
    by (auto simp: Let_def split: option.split sum.split prod.split)
qed

lemma node_ok_sync_peer:
  assumes "node_ok T (vn_node (vr_primary r))"
  shows "node_ok T (vn_node (vr_primary (fst (sync_vm_peer h minted vi p r c peer))))"
proof -
  have "node_ok T (vn_node (vr_primary (r\<lparr>vr_peers := q\<rparr>)))" for q using assms by simp
  note reseed = node_ok_reseed [OF this]
  have "node_ok T (vn_node (vr_primary r2))"
    if "vm_reseed_replica_round h minted vi (r\<lparr>vr_peers := q\<rparr>) c peer = (r2, res)" for q r2 res
    using reseed [of h minted vi q c peer] that by simp
  then show ?thesis
    using assms node_ok_mark unfolding sync_vm_peer_def
    by (auto simp: Let_def split: option.split sum.split prod.split)
qed

lemma vn_node_writes [simp]: "vn_node (guest_writes ws v) = vn_node v"
  unfolding guest_writes_def by (induction ws arbitrary: v) (simp_all add: guest_write_def)

lemma node_ok_visit:
  assumes "node_ok T (vn_node (vr_primary r))"
  shows "node_ok T (vn_node (vr_primary (visit_peer h minted vi delta c r peer)))"
proof -
  define r0 where "r0 = (if subject_is_running (vn_node (vr_primary r)) c
    then r\<lparr>vr_primary := guest_writes (vi_writes vi) (vr_primary r)\<rparr> else r)"
  have r: "node_ok T (vn_node (vr_primary r0))" using assms by (simp add: r0_def)
  define v where "v = (case delta of Some p \<Rightarrow> sync_vm_peer h minted vi p r0 c peer
     | None \<Rightarrow> if needs_seed (vr_primary r0) c (pe_node_id peer)
        then vm_reseed_replica_round h minted vi r0 c peer else (r0, Ok ()))"
  have "node_ok T (vn_node (vr_primary (fst v)))"
    using r by (simp add: v_def node_ok_reseed node_ok_sync_peer split: option.split)
  then show ?thesis
    unfolding visit_peer_def Let_def r0_def [symmetric] v_def [symmetric]
    by (cases v) (simp add: node_ok_vm_update_role)
qed

lemma node_ok_begin:
  assumes "node_ok T (vn_node v)"
  shows "node_ok T (vn_node (fst (begin_round h take_ok path token now reps v c)))"
proof -
  have lost: "node_ok T (vn_node (vm_update h c (lost_entry now reps l) v))" for l
    by (rule node_ok_vm_update_role [OF assms]) (simp_all add: lost_entry_def Let_def)
  have "node_ok T (vn_node (vm_update h c (\<lambda>e. e\<lparr>he_pending_vm_delta := p\<rparr>) (vm_take_delta path u)))"
    if "node_ok T (vn_node u)" for p u
    by (rule node_ok_vm_update_role) (simp_all add: that vm_take_delta_def)
  with assms lost show ?thesis
    by (simp add: begin_round_def Let_def split: option.split sum.split)
qed

lemma node_ok_finish:
  assumes "node_ok T (vn_node v)"
  shows "node_ok T (vn_node (finish_round h peers c v))"
  using assms by (simp add: finish_round_def node_ok_vm_update_role split: option.split)

lemma node_ok_round:
  assumes "node_ok T (vn_node v)"
  shows "node_ok T (vn_node (fst (sync_vm_now env v peers c)))"
proof -
  have fold: "node_ok T (vn_node (vr_primary (foldl (\<lambda>r peer. visit_peer h m (vis peer) d c r peer) r reps)))"
    if "node_ok T (vn_node (vr_primary r))" for h m vis d r reps
    using that by (induction reps arbitrary: r) (simp_all add: node_ok_visit)
  define b where "b = begin_round (re_host env) (re_take env) (re_path env) (re_token env) (re_now env)
    (case vm_entry v c of Some e \<Rightarrow> filter (\<lambda>r. \<not> re_local env r) (he_replicas e) | None \<Rightarrow> []) v c"
  have "node_ok T (vn_node (fst b))" unfolding b_def by (rule node_ok_begin [OF assms])
  then show ?thesis
    by (cases b; cases "snd b") (simp_all add: sync_vm_now_def Let_def fold node_ok_finish flip: b_def)
qed

lemma node_ok_vm_demote:
  assumes "node_ok T (vn_node v)"
  shows "node_ok T (vn_node (fst (wolfha_demote_vm ho sync v peers c np)))"
proof -
  let ?b = "subject_is_running (vn_node v) c \<and> sync \<and> is_ok (ho_paused ho)"
  obtain p ps token where f: "(if ?b then final_delta ho v peers c np else (v, peers, None)) = (p, ps, token)"
    by (cases "if ?b then final_delta ho v peers c np else (v, peers, None)")
  then have p: "vn_node p = vn_node v"
    by (auto simp: final_delta_def vm_take_delta_def Let_def split: if_splits sum.splits prod.splits)
  let ?n = "(vn_node v)\<lparr>hn_running := hn_running (vn_node v) - {c}\<rparr>"
  obtain n2 res where d: "demote_local (ho_host ho) ?n c np = (n2, res)" by (cases "demote_local (ho_host ho) ?n c np")
  have "node_ok T (fst (demote_local (ho_host ho) ?n c np))" by (intro node_ok_ops ok_stopped assms)
  with d have n2: "node_ok T (vn_node (p\<lparr>vn_node := n2\<rparr>))" by simp
  note upd = node_ok_vm_update_role [OF n2]
  show ?thesis
    unfolding wolfha_demote_vm_def Let_def f
    using assms n2 p by (simp add: Let_def d upd split: sum.split option.split)
qed

section \<open>Steps\<close>

text \<open>
  A step of WolfHA on a node: a handler that accepted a container name, a round of a VM, the monitor,
  or the boot guard. The protect task runs after its checks, so the plan may come from an earlier
  state. A seed is received on a host that finds what it runs: a running container has a directory,
  a running VM a configuration. The handlers for Proxmox subjects are not among the steps.
\<close>

inductive ha_step :: "monitor \<Rightarrow> monitor \<Rightarrow> bool" where
  enable: "wolfha_enable ee n0 r = Ok p \<Longrightarrow> ep_kind p \<noteq> PveContainer \<Longrightarrow>
    ha_step s (s\<lparr>mo_node := fst (enable_task h seed b chain p (mo_node s))\<rparr>)"
| seed: "safe_container raw = Ok c \<Longrightarrow> (c \<in> hn_running (mo_node s) \<Longrightarrow> h_dir h) \<Longrightarrow>
    ha_step s (s\<lparr>mo_node := fst (install_seed h untar now (mo_node s) c k p meta)\<rparr>)"
| delta: "safe_container raw = Ok c \<Longrightarrow>
    ha_step s (s\<lparr>mo_node := fst (wolfha_apply_delta h applied now (mo_node s) c meta)\<rparr>)"
| vm_seed: "safe_container raw = Ok c \<Longrightarrow> vn_node v = mo_node s \<Longrightarrow> (c \<in> hn_running (mo_node s) \<Longrightarrow> vh_exists vh) \<Longrightarrow>
    ha_step s (s\<lparr>mo_node := vn_node (fst (install_vm_seed vh now v c img p meta token))\<rparr>)"
| vm_delta: "safe_container raw = Ok c \<Longrightarrow> vn_node v = mo_node s \<Longrightarrow>
    ha_step s (s\<lparr>mo_node := vn_node (fst (wolfha_apply_vm_delta vh now v c d cp cn meta))\<rparr>)"
| vm_round: "vn_node v = mo_node s \<Longrightarrow>
    ha_step s (s\<lparr>mo_node := vn_node (fst (sync_vm_now rv v peers c))\<rparr>)"
| settings: "ha_step s (s\<lparr>mo_node := fst (wolfha_update h (mo_node s) c u)\<rparr>)"
| demote: "safe_container raw = Ok c \<Longrightarrow>
    ha_step s (s\<lparr>mo_node := fst (wolfha_demote h (mo_node s) c p)\<rparr>)"
| vm_demote: "safe_container raw = Ok c \<Longrightarrow> vn_node v = mo_node s \<Longrightarrow>
    ha_step s (s\<lparr>mo_node := vn_node (fst (wolfha_demote_vm ho sync v peers c p))\<rparr>)"
| promote: "safe_container raw = Ok c \<Longrightarrow>
    ha_step s (s\<lparr>mo_node := fst (wolfha_promote h canon me (mo_node s) c old)\<rparr>)"
| drop: "safe_container raw = Ok c \<Longrightarrow>
    ha_step s (s\<lparr>mo_node := fst (wolfha_drop h rm destroy (mo_node s) c)\<rparr>)"
| disable: "safe_container raw = Ok c \<Longrightarrow>
    ha_step s (s\<lparr>mo_node := fst (wolfha_disable h (mo_node s) c)\<rparr>)"
| tick: "ha_step s (monitor_tick env s)"
| boot: "ha_step s (\<lparr>mo_node = boot_guard recently env (mo_node s), mo_clocks = []\<rparr>)"

text \<open>
  Between the steps anything else may start and stop any subject: an operator in the container list
  or in the terminal interface, the host, the guest. The histories record which of the subjects that
  now run were standbys when something else started them.
\<close>

definition started_outside :: "ha_node \<Rightarrow> string set \<Rightarrow> string set" where
  "started_outside n R =
     {c. c \<in> R \<and> c \<notin> hn_running n \<and> (\<exists>e. ha_get (hn_store n) c = Some e \<and> he_role e = Replica)}"

inductive ha_reach :: "string set \<Rightarrow> monitor \<Rightarrow> bool" where
  fresh: "ha_reach {} \<lparr>mo_node = \<lparr>hn_store = [], hn_running = R, hn_markers = {}\<rparr>, mo_clocks = []\<rparr>"
| step: "ha_reach T s \<Longrightarrow> ha_step s s' \<Longrightarrow> ha_reach (T \<inter> hn_running (mo_node s')) s'"
| outside: "ha_reach T s \<Longrightarrow>
    ha_reach (T \<inter> R \<union> started_outside (mo_node s) R) (s\<lparr>mo_node := (mo_node s)\<lparr>hn_running := R\<rparr>\<rparr>)"

lemma node_ok_step: "ha_step s s' \<Longrightarrow> node_ok T (mo_node s) \<Longrightarrow> node_ok T (mo_node s')"
proof (induction rule: ha_step.induct)
  case (vm_seed raw c v s vh now img p meta token)
  then show ?case using node_ok_vm_seed [of T v c vh] by simp
qed (simp_all add: node_ok_enable node_ok_seed node_ok_apply_delta node_ok_handlers
      node_ok_vm_delta node_ok_vm_demote node_ok_round node_ok_tick node_ok_boot)

text \<open>
  C3 (reachable_node_ok). From an empty store, however WolfHA's handlers (those for Proxmox subjects
  excepted), VM rounds, monitor ticks and reboots interleave with anything else starting and stopping
  subjects, and whichever saves and host commands fail: no subject has two entries, an entry names a
  primary exactly when it is a standby, and a standby that runs was started, while a standby, by
  something other than WolfHA and has run since. WolfHA itself never starts a standby and never makes a
  running subject one.
\<close>

theorem reachable_node_ok:
  assumes "ha_reach T s"
  shows "distinct (map he_container (hn_store (mo_node s)))
    \<and> (\<forall>e \<in> set (hn_store (mo_node s)). (he_role e = Replica \<longleftrightarrow> he_primary e \<noteq> None)
         \<and> (he_role e = Replica \<and> subject_is_running (mo_node s) (he_container e) \<longrightarrow> he_container e \<in> T))"
proof -
  from assms have "node_ok T (mo_node s)"
  proof induction
    case (step T s s')
    then show ?case using node_ok_mono [OF node_ok_step] by blast
  next
    case (outside T s R)
    then show ?case by (simp add: started_outside_def node_ok_outside)
  qed (simp add: node_ok_def)
  then show ?thesis by (auto simp: node_ok_def list_all_iff entry_ok_def)
qed

end
