(* ===== verification/Ha_Theorems.thy ===== *)
theory Ha_Theorems
  imports Ha_Takeover Ha_Steps
begin

text \<open>
  Promotion by hand, rounds that reach a fenced copy, the gates in front of every start, and the
  files and requests around protection.
\<close>

section \<open>Every start is behind the gates\<close>

lemma not_started [simp]:
  "c \<in> hn_running (dedupe_replicas h canon n d) \<longleftrightarrow> c \<in> hn_running n"
  "c \<in> hn_running (set_stale h d b n) \<longleftrightarrow> c \<in> hn_running n"
  by (simp_all add: set_stale_def)

lemma demote_not_started: "c \<in> hn_running (fst (demote_local h n d p)) \<Longrightarrow> c \<in> hn_running n"
  by (auto simp: demote_local_def Let_def split: option.splits sum.splits if_splits)

lemma try_stop_not_started: "c \<in> hn_running (try_stop h d n) \<Longrightarrow> c \<in> hn_running n"
  by (auto simp: try_stop_def split: if_splits)

text \<open>
  When a node may start a subject, in terms of what it is told: a fenced primary whose witness answers
  (if it has one) and all of whose replicas answer that they neither run the subject nor hold the
  primary role; or a standby whose copy is not stale and is at most six intervals, and at least half an
  hour, old, that has a witness and reaches it, whose primary neither answers nor shows in the
  gossip and has not answered since the clock \<open>k\<close> was started, before which no peer in the replica order
  (the primary aside) is a primary or has a fresh copy, and whose address does not answer a ping.
\<close>

definition resume_ok :: "net \<Rightarrow> ha_entry \<Rightarrow> bool" where
  "resume_ok w e =
     (he_stale e \<and> (he_witness e \<noteq> [] \<longrightarrow> net_ping w (he_witness e))
      \<and> (\<forall>p \<in> set (he_replicas e). \<exists>st. net_status w p = Some st \<and> \<not> st_active st \<and> st_role st \<noteq> Some Primary))"

definition first_in_line :: "host \<Rightarrow> net \<Rightarrow> ha_entry \<Rightarrow> bool" where
  "first_in_line h w e =
     (\<forall>me pre q post. net_me w = Some me \<and> he_replicas e = pre @ q # post
        \<and> (\<forall>r \<in> insert q (set pre). pe_node_id r \<noteq> pe_node_id me \<and> \<not> h_local h r)
        \<and> map_option pe_node_id (he_primary e) \<noteq> Some (pe_node_id q) \<longrightarrow>
        (case net_status w q of None \<Rightarrow> True
         | Some st \<Rightarrow> st_role st \<noteq> Some Primary \<and> (st_role st = Some Replica \<longrightarrow> st_stale st)))"

definition takeover_ok :: "host \<Rightarrow> net \<Rightarrow> ha_entry \<Rightarrow> nat option \<Rightarrow> bool" where
  "takeover_ok h w e k =
     (\<not> he_stale e \<and> net_unix w \<le> he_last_delta_at e + max (max (he_interval_minutes e) 1 * 360) 1800
      \<and> he_witness e \<noteq> [] \<and> net_ping w (he_witness e)
      \<and> (\<exists>p. he_primary e = Some p \<and> net_status w p = None \<and> \<not> net_alive w (pe_node_id p))
      \<and> he_failover_after_secs e \<le> (case k of None \<Rightarrow> 0 | Some start \<Rightarrow> net_secs w - start)
      \<and> first_in_line h w e
      \<and> (\<forall>ip. net_ip w (he_container e) = Some ip \<and> ip \<noteq> [] \<longrightarrow> \<not> net_ping w ip))"

definition may_start :: "host \<Rightarrow> net \<Rightarrow> ha_entry \<Rightarrow> nat option \<Rightarrow> bool" where
  "may_start h w e k =
     (he_auto_failover e \<and> (case he_role e of Primary \<Rightarrow> resume_ok w e | Replica \<Rightarrow> takeover_ok h w e k))"

lemma not_took_over:
  "reachable w p \<and> \<not> took_over w p \<longleftrightarrow>
   (\<exists>st. net_status w p = Some st \<and> \<not> st_active st \<and> st_role st \<noteq> Some Primary)"
  by (auto simp: reachable_def took_over_def split: option.splits)

lemma in_takeWhile: "(\<forall>r \<in> insert q (set pre). P r) \<Longrightarrow> q \<in> set (takeWhile P (pre @ q # post))"
  by (simp add: takeWhile_append2)

lemma gates_first_in_line:
  assumes "he_primary e = Some p" and "\<not> defers h w p (he_replicas e)"
  shows "first_in_line h w e"
  unfolding first_in_line_def
proof (intro allI impI)
  fix me pre q post
  assume a: "net_me w = Some me \<and> he_replicas e = pre @ q # post
    \<and> (\<forall>r \<in> insert q (set pre). pe_node_id r \<noteq> pe_node_id me \<and> \<not> h_local h r)
    \<and> map_option pe_node_id (he_primary e) \<noteq> Some (pe_node_id q)"
  then have "q \<in> set (takeWhile (\<lambda>p. \<not> (pe_node_id p = pe_node_id me \<or> h_local h p)) (he_replicas e))"
    using in_takeWhile [of q pre "\<lambda>p. \<not> (pe_node_id p = pe_node_id me \<or> h_local h p)" post] by simp
  with a assms have "\<not> healthy_standby w q" by (auto simp: defers_def list_ex_iff)
  then show "case net_status w q of None \<Rightarrow> True
      | Some st \<Rightarrow> st_role st \<noteq> Some Primary \<and> (st_role st = Some Replica \<longrightarrow> st_stale st)"
    by (auto simp: healthy_standby_def split: option.splits)
qed

lemma gates_takeover:
  assumes "he_primary e = Some p" and "gates_pass h w e p" and "net_status w p = None" and "\<not> he_stale e"
    and "he_failover_after_secs e \<le> (case k of None \<Rightarrow> 0 | Some start \<Rightarrow> net_secs w - start)"
  shows "takeover_ok h w e k"
  using assms gates_first_in_line [of e p h w]
  by (auto simp: takeover_ok_def gates_pass_def ping_host_def max_age_def mult.assoc)

lemma may_start_entry:
  assumes "ha_get (hn_store (mo_node s)) c = Some e" and "c \<notin> hn_running (mo_node s)"
    and "c \<in> hn_running (mo_node (monitor_entry h w e s))"
  shows "may_start h w e (vw_primary (view_of c s))"
proof -
  from assms(1) have ec: "he_container e = c" by (auto dest: ha_get_SomeD)
  show ?thesis
  proof (cases "he_role e")
    case Primary
    with assms ec have "he_auto_failover e \<and> he_stale e \<and> (he_witness e = [] \<or> ping_host w (he_witness e))
        \<and> (\<forall>p \<in> set (he_replicas e). reachable w p \<and> \<not> took_over w p)"
      by (auto simp: monitor_entry_def monitor_primary_def monitor_fenced_def subject_is_running_def
          reset_clock_def list_all_iff find_None_iff Let_def case_prod_beta
          dest: demote_not_started try_stop_not_started split: bool.splits option.splits if_splits)
    with Primary show ?thesis by (auto simp: may_start_def resume_ok_def ping_host_def not_took_over)
  next
    case Replica
    with assms ec obtain p where "he_auto_failover e" "he_primary e = Some p" "gates_pass h w e p"
        "net_status w p = None" "\<not> he_stale e"
        "he_failover_after_secs e \<le> (case vw_primary (view_of c s) of None \<Rightarrow> 0 | Some k \<Rightarrow> net_secs w - k)"
      by (auto simp: monitor_entry_def monitor_standby_def subject_is_running_def view_of_def
          fail_elapsed_def Let_def dest: try_stop_not_started split: bool.splits option.splits if_splits)
    with Replica gates_takeover [of e p h w] show ?thesis by (simp add: may_start_def)
  qed
qed



theorem dual_primary_persists_witness:
  "subject_is_running (mo_node (ticks (map (alone True) [0, 15]) (ha_node_a 30))) ''db''
   \<and> subject_is_running (mo_node (ticks (map (alone True) [5, 20]) (ha_node_a 90))) ''db''"
  by (rule dual_primary_persists [where W = "''10.0.0.254''"]) code_simp+

section \<open>Promotion by hand\<close>

lemma wolfha_demote_ok:
  assumes "is_ok (h_stop h)" and "is_ok (h_save h)"
  shows "\<exists>eo. ha_get (hn_store (fst (wolfha_demote h n c p))) c = Some eo \<and> he_role eo = Replica
      \<and> he_stale eo \<and> he_primary eo = Some p"
    and "c \<notin> hn_running (fst (wolfha_demote h n c p))"
proof -
  let ?n = "n\<lparr>hn_running := hn_running n - {c}\<rparr>"
  have d: "fst (wolfha_demote h n c p) = fst (demote_local h ?n c p)"
    using assms(1) by (cases "h_stop h") (simp_all add: wolfha_demote_def is_ok_def)
  obtain u where save: "h_save h = Inr u" using assms(2) by (cases "h_save h") (simp_all add: is_ok_def)
  show "\<exists>eo. ha_get (hn_store (fst (wolfha_demote h n c p))) c = Some eo \<and> he_role eo = Replica
      \<and> he_stale eo \<and> he_primary eo = Some p"
    unfolding d by (cases "ha_get (hn_store n) c") (simp_all add: demote_local_def save subject_is_running_def
        ha_get_get_mut ha_get_append demote_entry_def standby_entry_def Let_def)
  show "c \<notin> hn_running (fst (wolfha_demote h n c p))"
    unfolding d by (simp add: demote_local_def save subject_is_running_def Let_def)
qed

text \<open>
  C12 (handoff_clean). A promotion by hand that reaches the old primary, on hosts that can stop, start
  and save, moves the container: it runs here under an active primary entry, and the old node has
  stopped it and keeps a stale standby of this node.
\<close>

theorem handoff_clean:
  assumes e: "ha_get (hn_store n) c = Some e" "he_role e = Replica" "he_kind e = Container"
    "he_primary e \<noteq> None"
    and h: "is_ok (h_save h)" "is_ok (h_start h)" and ho: "is_ok (h_stop ho)" "is_ok (h_save ho)"
  shows "\<exists>n' no' e' eo. wolfha_promote h canon me n c (Some (ho, no)) = (n', Some no', Ok ())
    \<and> subject_is_running n' c \<and> ha_get (hn_store n') c = Some e' \<and> he_role e' = Primary \<and> \<not> he_stale e'
    \<and> \<not> subject_is_running no' c \<and> ha_get (hn_store no') c = Some eo \<and> he_role eo = Replica
    \<and> he_stale eo \<and> he_primary eo = Some me"
proof -
  note pl = promote_local_ok [OF e(1,2,3) h, of "Some me"]
  let ?n = "fst (promote_local h n c (Some me))"
  let ?e = "promote_entry (h_local h) (Some me) e"
  from e(1) have "he_container ?e = c" by (auto dest: ha_get_SomeD)
  then have "ha_get (hn_store ?n) c = Some ?e" using e(1) by (simp add: pl ha_get_get_mut_const)
  from dedupe_self [OF this, of h canon] obtain r where
    r: "ha_get (hn_store (dedupe_replicas h canon ?n c)) c = Some (?e\<lparr>he_replicas := r\<rparr>)" by blast
  have new: "he_role (?e\<lparr>he_replicas := r\<rparr>) = Primary" "\<not> he_stale (?e\<lparr>he_replicas := r\<rparr>)"
    by (simp_all add: promote_entry_def Let_def)
  let ?no = "fst (wolfha_demote ho no c me)"
  note old = wolfha_demote_ok [where n = no and c = c and p = me, OF ho]
  have "wolfha_promote h canon me n c (Some (ho, no)) = (dedupe_replicas h canon ?n c, Some ?no, Ok ())"
    using e pl by (auto simp: wolfha_promote_def Let_def split: option.split)
  moreover have "c \<in> hn_running (dedupe_replicas h canon ?n c)" by (simp add: pl)
  ultimately show ?thesis using r new old by (fastforce simp: subject_is_running_def)
qed

text \<open>
  C37 (promote_over_refusal). When the old primary answers that it could not stop the container, the
  promotion goes ahead as if it had been unreachable: both nodes run it, both as active primaries.
\<close>

theorem promote_over_refusal:
  assumes "ha_get (hn_store n) c = Some e" and "he_role e = Replica" and "he_kind e = Container"
    and "is_ok (h_save h)" and "is_ok (h_start h)" and "subject_is_running no c" and "h_stop ho = Err x"
  shows "wolfha_demote ho no c me = (no, Err (StopFailed x))
    \<and> (\<exists>n'. wolfha_promote h canon me n c (Some (ho, no)) = (n', Some no, Ok ())
         \<and> subject_is_running n' c)"
proof
  show d: "wolfha_demote ho no c me = (no, Err (StopFailed x))"
    using assms(6,7) by (simp add: wolfha_demote_def)
  obtain n1 where p: "promote_local h n c (Some me) = (n1, Ok ())" and "c \<in> hn_running n1"
    using promote_local_ok [OF assms(1-5), of "Some me"] by simp
  with d assms(1,2) show "\<exists>n'. wolfha_promote h canon me n c (Some (ho, no)) = (n', Some no, Ok ())
      \<and> subject_is_running n' c"
    by (auto simp: wolfha_promote_def subject_is_running_def p Let_def split: option.split)
qed

lemmas handoff_scenario = ha_node_b_def ha_node_a_def replica_b_def primary_a_def standby_entry_def good_host_def
  ha_get_def subject_is_running_def

theorem handoff_clean_witness:
  "\<exists>n' no' e' eo. wolfha_promote good_host (\<lambda>_. None) peer_b (mo_node (ha_node_b 90)) ''db''
       (Some (good_host, mo_node (ha_node_a 90))) = (n', Some no', Ok ())
    \<and> subject_is_running n' ''db'' \<and> ha_get (hn_store n') ''db'' = Some e' \<and> he_role e' = Primary \<and> \<not> he_stale e'
    \<and> \<not> subject_is_running no' ''db'' \<and> ha_get (hn_store no') ''db'' = Some eo \<and> he_role eo = Replica
    \<and> he_stale eo \<and> he_primary eo = Some peer_b"
  by (rule handoff_clean [of _ _ "replica_b 90"]) (simp_all add: handoff_scenario)

theorem promote_over_refusal_witness:
  "wolfha_demote (good_host\<lparr>h_stop := Err ''busy''\<rparr>) (mo_node (ha_node_a 90)) ''db'' peer_b =
     (mo_node (ha_node_a 90), Err (StopFailed ''busy''))
   \<and> (\<exists>n'. wolfha_promote good_host (\<lambda>_. None) peer_b (mo_node (ha_node_b 90)) ''db''
          (Some (good_host\<lparr>h_stop := Err ''busy''\<rparr>, mo_node (ha_node_a 90))) = (n', Some (mo_node (ha_node_a 90)), Ok ())
        \<and> subject_is_running n' ''db'')"
  by (rule promote_over_refusal [of _ _ "replica_b 90"]) (simp_all add: handoff_scenario)

section \<open>Rounds\<close>

lemma boot_other:
  "d \<noteq> he_container e \<Longrightarrow> node_view d (boot_entry h w e n) = node_view d n"
  by (auto simp: boot_entry_def node_frame Let_def split: option.split)

lemma boot_fold_other:
  "\<forall>e \<in> set es. he_container e \<noteq> d \<Longrightarrow>
   node_view d (foldl (\<lambda>n e. case env (he_container e) of (h, w) \<Rightarrow> boot_entry h w e n) n es) = node_view d n"
  by (induction es arbitrary: n) (auto simp: boot_other split: prod.split)

lemma boot_starts:
  assumes "node_ok T n" and "ha_get (hn_store n) c = Some e" and "he_role e = Primary" and "\<not> he_stale e"
    and "he_autostart_managed e" and "c \<notin> hn_running n" and "is_ok (h_start h)"
    and "env c = (h, w)" and "\<forall>p. net_status w p = None"
  shows "c \<in> hn_running (boot_guard True env n)"
proof -
  let ?f = "\<lambda>n e. case env (he_container e) of (h, w) \<Rightarrow> boot_entry h w e n"
  from assms(2) have e: "e \<in> set (hn_store n)" "he_container e = c" by (auto dest: ha_get_SomeD)
  then obtain pre post where st: "hn_store n = pre @ e # post" by (meson split_list)
  with node_ok_distinct [OF assms(1)] e(2)
  have o: "\<forall>x \<in> set pre. he_container x \<noteq> c" "\<forall>x \<in> set post. he_container x \<noteq> c"
    by (auto simp: image_iff)
  have "c \<notin> hn_running (foldl ?f n pre)"
    using boot_fold_other [OF o(1), of env n] assms(6) by (simp add: node_view_def)
  moreover have "find (took_over w) (he_replicas e) = None"
    using assms(9) by (simp add: find_None_iff took_over_def)
  ultimately have "c \<in> hn_running (boot_entry h w e (foldl ?f n pre))"
    using assms(3,4,5,7) e(2) by (simp add: boot_entry_def subject_is_running_def try_start_def Let_def)
  then show ?thesis
    using boot_fold_other [OF o(2), of env "boot_entry h w e (foldl ?f n pre)"] assms(8) e(2)
    by (simp add: boot_guard_def st node_view_def)
qed

text \<open>
  A round that reaches a self-fenced primary (stale, and still with the
  primary role) is accepted and clears the stale flag but leaves the role. The copy then counts as
  an active primary: the next round is refused, and a reboot while its replicas are unreachable starts it,
  next to the node that took over.
\<close>

theorem delta_reactivates_fenced:
  assumes "node_ok T n" and "ha_get (hn_store n) c = Some e" and "he_role e = Primary" and "he_stale e"
    and "he_autostart_managed e" and "\<not> subject_is_running n c"
    and "is_ok (h_save h)" and "is_ok (h_start h)"
    and "n' = fst (wolfha_apply_delta h (Ok d) now n c None)"
    and "env c = (h, w)" and "\<forall>p. net_status w p = None"
  shows "snd (wolfha_apply_delta h (Ok d) now n c None) = Ok d
    \<and> snd (wolfha_apply_delta h (Ok d') later n' c None) = Err ActiveHere
    \<and> subject_is_running (boot_guard True env n') c"
proof -
  let ?e = "e\<lparr>he_last_delta_at := now, he_stale := False\<rparr>"
  have n': "n' = n\<lparr>hn_store := ha_get_mut c (round_applied now None) (hn_store n)\<rparr>"
    and ok: "snd (wolfha_apply_delta h (Ok d) now n c None) = Ok d"
    using assms(2,4,7,9) by (simp_all add: wolfha_apply_delta_def)
  from assms(2) have ec: "he_container e = c" by (auto dest: ha_get_SomeD)
  have e': "ha_get (hn_store n') c = Some ?e"
    unfolding n' using assms(2) by (simp add: ha_get_get_mut round_applied_def)
  with assms(3) have refused: "snd (wolfha_apply_delta h (Ok d') later n' c None) = Err ActiveHere"
    by (simp add: wolfha_apply_delta_def)
  have "node_ok T n'" using node_ok_apply_delta [OF assms(1)] assms(9) by simp
  with e' have "c \<in> hn_running (boot_guard True env n')"
    using boot_starts [of T n' c ?e h env w] assms ec by (simp add: n' subject_is_running_def)
  with ok refused show ?thesis by (simp add: subject_is_running_def)
qed

definition fenced_a :: ha_node where
  "fenced_a = \<lparr>hn_store = [(primary_a 90)\<lparr>he_stale := True\<rparr>], hn_running = {}, hn_markers = {}\<rparr>"

theorem delta_reactivates_fenced_witness:
  "snd (wolfha_apply_delta good_host (Ok 0) 500 fenced_a ''db'' None) = Ok 0
   \<and> snd (wolfha_apply_delta good_host (Ok 0) 600
        (fst (wolfha_apply_delta good_host (Ok 0) 500 fenced_a ''db'' None)) ''db'' None) = Err ActiveHere
   \<and> subject_is_running (boot_guard True (alone True 700)
        (fst (wolfha_apply_delta good_host (Ok 0) 500 fenced_a ''db'' None))) ''db''"
  by (rule delta_reactivates_fenced [where w = "snd (alone True 700 ''db'')" and e = "(primary_a 90)\<lparr>he_stale := True\<rparr>"])
    (simp_all add: fenced_a_def alone_def handoff_scenario node_ok_def entry_ok_def)

section \<open>Fencing a container that does not stop\<close>

definition unstopped :: "string \<Rightarrow> view \<Rightarrow> bool" where
  "unstopped W v =
     (vw_running v \<and> (case vw_entry v of None \<Rightarrow> False | Some e \<Rightarrow>
        he_role e = Primary \<and> he_stale e \<and> he_witness e = W))"

lemma unstopped_tick:
  assumes d: "distinct (keys s)" and u: "unstopped W (view_of c s)" and W: "W \<noteq> []"
    and down: "\<not> ping_host (snd (env c)) W"
  shows "unstopped W (view_of c (monitor_tick env s))"
proof -
  from u obtain e where e: "ha_get (hn_store (mo_node s)) c = Some e" "he_role e = Primary" "he_stale e"
    "he_witness e = W"
    by (auto simp: unstopped_def view_of_def split: option.splits)
  show ?thesis
    by (rule tick_viewI [OF d e(1)]) (use u e W down in \<open>simp add: monitor_entry_def monitor_fenced_def Let_def\<close>)
qed

lemma unstopped_ticks:
  assumes "distinct (keys s)" and "unstopped W (view_of c s)" and "W \<noteq> []"
    and "\<forall>env \<in> set envs. \<not> ping_host (snd (env c)) W"
  shows "unstopped W (view_of c (ticks envs s))"
  using assms by (induction envs arbitrary: s) (simp_all add: unstopped_tick)

lemma fence_unstopped:
  assumes a: "armed W F Ps (view_of c s)" and e: "ha_get (hn_store (mo_node s)) c = Some e"
    and k: "vw_witness (view_of c s) = Some k" "k + fence_secs F \<le> net_secs w"
    and w: "\<not> ping_host w W" "\<forall>p \<in> Ps. net_status w p = None"
    and h: "\<not> is_ok (h_stop h)" "is_ok (h_save h)" and W: "W \<noteq> []"
  shows "unstopped W (view_of c (monitor_entry h w e s))"
proof -
  let ?n = "dedupe_replicas h (net_canon w) (mo_node s) c"
  from a e have f: "he_role e = Primary" "\<not> he_stale e" "he_auto_failover e" "he_witness e = W"
    "he_failover_after_secs e = F" "set (he_replicas e) \<subseteq> Ps" and run: "c \<in> hn_running (mo_node s)"
    by (auto simp: armed_def view_of_def)
  from e have ec: "he_container e = c" by (auto dest: ha_get_SomeD)
  from dedupe_self [OF e, of h "net_canon w"] obtain r where
    r: "ha_get (hn_store ?n) c = Some (e\<lparr>he_replicas := r\<rparr>)" by blast
  have noone: "\<not> list_ex (reachable w) (he_replicas e)"
    using w(2) f(6) by (auto simp: reachable_def list_ex_iff)
  show ?thesis
    using f ec r noone w(1) h W run k
    by (auto simp: monitor_entry_def monitor_primary_def subject_is_running_def fail_elapsed_def
        reset_clock_def set_stale_def try_stop_def unstopped_def view_of_def Let_def ha_get_get_mut)
qed

text \<open>
  Fencing does not look at the result of the stop. On a host where the
  container cannot be stopped the entry is marked stale all the same, and as long as the witness stays
  away the monitor does not try again: the container keeps running.
\<close>

theorem fence_ignores_failed_stop:
  assumes d: "distinct (keys s)" and a: "armed W F Ps (view_of c s)" and W: "W \<noteq> []"
    and k: "vw_witness (view_of c s) = Some k" "k + fence_secs F \<le> net_secs (snd (env c))"
    and w: "\<not> ping_host (snd (env c)) W" "\<forall>p \<in> Ps. net_status (snd (env c)) p = None"
    and h: "\<not> is_ok (h_stop (fst (env c)))" "is_ok (h_save (fst (env c)))"
    and l: "\<forall>env \<in> set later. \<not> ping_host (snd (env c)) W"
  shows "subject_is_running (mo_node (ticks (env # later) s)) c
    \<and> st_stale (wolfha_status (mo_node (ticks (env # later) s)) c)"
proof -
  from a obtain e where e: "ha_get (hn_store (mo_node s)) c = Some e"
    by (auto simp: armed_def view_of_def split: option.splits)
  have "unstopped W (view_of c (monitor_tick env s))"
    by (rule tick_viewI [OF d e]) (use a k w h W in \<open>auto intro: fence_unstopped\<close>)
  from unstopped_ticks [OF _ this W l] d show ?thesis
    by (auto simp: unstopped_def view_of_def subject_is_running_def wolfha_status_def split: option.splits)
qed
theorem fence_ignores_failed_stop_witness:
  "subject_is_running (mo_node (ticks
      ((\<lambda>c. (good_host\<lparr>h_stop := Err ''busy''\<rparr>, snd (alone False 45 c))) # map (alone False) [60, 75])
      ((ha_node_a 90)\<lparr>mo_clocks := [(witness_key ''db'', 0)]\<rparr>))) ''db''
   \<and> st_stale (wolfha_status (mo_node (ticks
      ((\<lambda>c. (good_host\<lparr>h_stop := Err ''busy''\<rparr>, snd (alone False 45 c))) # map (alone False) [60, 75])
      ((ha_node_a 90)\<lparr>mo_clocks := [(witness_key ''db'', 0)]\<rparr>))) ''db'')"
  by (rule fence_ignores_failed_stop [where W = "''10.0.0.254''" and F = 90 and Ps = "{peer_b}" and k = 0])
    (simp_all add: armed_def view_of_def keys_def alone_def ping_host_def fence_secs_def handoff_scenario)

section \<open>The replica's configuration\<close>

lemma join_nl_snoc: "join [nl] (ls @ [x]) = unlines ls @ x"
  by (induction ls rule: induct_list012) (simp_all add: unlines_def)

lemma lines_terminated:
  assumes c: "list_all clean ls" and w: "w = (let out = join [nl] ls in if out \<noteq> [] \<and> last out = nl then out else out @ [nl])"
  shows "set (lines w) \<subseteq> insert [] (set ls)"
proof (cases ls rule: rev_cases)
  case Nil
  then have "w = unlines [[]]" using w by (simp add: unlines_def)
  then show ?thesis using lines_unlines [of "[[]]"] by simp
next
  case (snoc ls0 x)
  with c have cl: "list_all clean ls0" "clean x" by simp_all
  show ?thesis
  proof (cases "x = [] \<and> ls0 \<noteq> []")
    case True
    then obtain ys y where y: "ls0 = ys @ [y]" by (cases ls0 rule: rev_cases) auto
    have "w = unlines ls0" using w snoc True join_nl_snoc [of ls0 "[]"] unfolding y
      by (simp add: unlines_append unlines_def Let_def)
    then show ?thesis using lines_unlines [OF cl(1)] snoc by auto
  next
    case False
    have "w = unlines ls"
    proof (cases "x = []")
      case True
      with False w snoc show ?thesis by (simp add: unlines_def)
    next
      case x: False
      then have "last x \<noteq> nl" using cl(2) last_in_set [of x] by (auto simp: clean_def list_all_iff)
      with x w snoc show ?thesis by (simp add: join_nl_snoc unlines_append unlines_def)
    qed
    then show ?thesis using lines_unlines [OF c] by auto
  qed
qed

lemma clean_split: "CHR 0x0D \<notin> set s \<Longrightarrow> list_all clean (split_char nl s)"
  by (induction s) (auto simp: clean_def nl_def split: list.splits)

lemma clean_lines: "CHR 0x0D \<notin> set s \<Longrightarrow> list_all clean (lines s)"
  by (drule clean_split) (auto simp: lines_def strip_cr_def clean_def list_all_iff Let_def
      dest: in_set_butlastD split: if_splits)

text \<open>
  The configuration a replica keeps has no line that sets \<open>lxc.start.auto\<close>,
  however the primary's file indents it, and every root filesystem line points at the replica's own
  directory. (The file has Unix line ends and the directory's name no line break.)
\<close>

theorem replica_config_dark:
  assumes "CHR 0x0D \<notin> set cfg" and "clean dir" and "l \<in> set (lines (write_replica_config dir cfg))"
  shows "\<not> starts_with ''lxc.start.auto'' (trim_start l)
    \<and> (starts_with ''lxc.rootfs.path'' (trim_start l) \<longrightarrow> l = ''lxc.rootfs.path = dir:'' @ dir @ ''/rootfs'')"
proof -
  let ?r = "''lxc.rootfs.path = dir:'' @ dir @ ''/rootfs''"
  have r: "\<not> starts_with ''lxc.start.auto'' (trim_start ?r)" "clean ?r"
    using assms(2) by (simp_all add: starts_with_def trim_start_def is_ws_def)
  have "list_all clean (replica_config_lines dir cfg)"
    using clean_lines [OF assms(1)] r(2) by (auto simp: replica_config_lines_def list_all_iff)
  from lines_terminated [OF this] assms(3) have "l = [] \<or> l \<in> set (replica_config_lines dir cfg)"
    by (auto simp: write_replica_config_def)
  then show ?thesis
    using r(1) by (auto simp: replica_config_lines_def starts_with_def trim_start_def split: if_splits)
qed

theorem replica_config_dark_witness:
  "''lxc.rootfs.path = dir:/x/rootfs'' \<in> set (lines (write_replica_config ''/x''
      (unlines [''  lxc.start.auto = 1'', ''lxc.rootfs.path = overlay:/y''])))
   \<and> \<not> starts_with ''lxc.start.auto'' (trim_start ''lxc.rootfs.path = dir:/x/rootfs'')"
proof -
  have l: "''lxc.rootfs.path = dir:/x/rootfs'' \<in> set (lines (write_replica_config ''/x''
      (unlines [''  lxc.start.auto = 1'', ''lxc.rootfs.path = overlay:/y''])))" by code_simp
  with replica_config_dark [OF _ _ l] show ?thesis by (simp add: unlines_def nl_def)
qed
section \<open>Requests\<close>

lemma validate_auto_ok:
  assumes "wolfha_validate_auto auto w f = Ok (w', f')"
  shows "30 \<le> f' \<and> (auto \<longrightarrow> w' \<noteq> [] \<and> is_safe_name w')"
  using assms by (auto simp: wolfha_validate_auto_def Let_def split: if_splits)

lemma enable_peers_ok:
  assumes "enable_peers nodes ids = Ok ps" and "distinct (map cn_id nodes)"
  shows "map pe_node_id ps = ids \<and> (\<forall>n \<in> set nodes. cn_is_self n \<longrightarrow> cn_id n \<notin> set ids)"
  using assms
proof (induction ids arbitrary: ps)
  case (Cons i ids)
  from Cons.prems obtain n ps' where n: "find (\<lambda>n. cn_id n = i) nodes = Some n" "\<not> cn_is_self n"
    "enable_peers nodes ids = Ok ps'"
    "ps = \<lparr>pe_node_id = cn_id n, pe_address = cn_address n, pe_port = cn_port n\<rparr> # ps'"
    by (auto split: option.splits if_splits sum.splits)
  from n(1) have i: "n \<in> set nodes" "cn_id n = i" by (auto dest: find_SomeD)
  have "\<forall>m \<in> set nodes. cn_is_self m \<longrightarrow> cn_id m \<noteq> i"
    using i n(2) Cons.prems(2) by (metis distinct_map inj_onD)
  moreover have "map pe_node_id ps' = ids \<and> (\<forall>n \<in> set nodes. cn_is_self n \<longrightarrow> cn_id n \<notin> set ids)"
    using Cons.IH [OF n(3)] Cons.prems(2) by blast
  ultimately show ?case using n(4) i by simp
qed simp

text \<open>
  A request that \<^verbatim>\<open>wolfha_enable\<close> accepts becomes a plan for a subject the node did not
  manage, under a name that is safe in a path; its standbys are the requested nodes in the requested
  order, at least one and never this node; its interval is at least a minute and its failover delay at
  least 30 seconds, and it has a witness if failover is automatic.
\<close>

theorem enable_plan_sound:
  assumes "wolfha_enable ee n r = Ok p" and "distinct (map cn_id (ee_nodes ee))"
  shows "is_safe_name (ep_container p) \<and> ha_get (hn_store n) (ep_container p) = None
    \<and> map pe_node_id (ep_peers p) = er_replica_node_ids r \<and> ep_peers p \<noteq> []
    \<and> pe_node_id (ep_me p) \<notin> pe_node_id ` set (ep_peers p)
    \<and> 1 \<le> ep_interval p \<and> 30 \<le> ep_after p \<and> (ep_auto p \<longrightarrow> ep_witness p \<noteq> [] \<and> is_safe_name (ep_witness p))"
proof -
  let ?c = "trim (er_container r)"
  from assms(1) have c: "is_safe_name ?c" "ha_get (hn_store n) ?c = None" "er_replica_node_ids r \<noteq> []"
    unfolding wolfha_enable_def safe_container_def by (simp_all split: sum.splits if_splits)
  with assms(1) obtain me ps w f where
    me: "wolfha_self_peer (ee_wolfnet ee) (ee_nodes ee) = Ok me" and
    ps: "enable_peers (ee_nodes ee) (er_replica_node_ids r) = Ok ps" and
    v: "wolfha_validate_auto (er_auto_failover r) (er_witness r) (er_failover_after_secs r) = Ok (w, f)" and
    p: "p = \<lparr>ep_container = ?c, ep_kind = er_kind r, ep_me = me, ep_peers = ps,
         ep_interval = if er_interval_minutes r = 0 then 5 else er_interval_minutes r,
         ep_auto = er_auto_failover r, ep_witness = w, ep_after = f\<rparr>"
    unfolding wolfha_enable_def safe_container_def
    by (simp split: sum.splits if_splits prod.splits)
  from me obtain m where m: "m \<in> set (ee_nodes ee)" "cn_is_self m" "pe_node_id me = cn_id m"
    by (auto simp: wolfha_self_peer_def dest: find_SomeD split: option.splits)
  from enable_peers_ok [OF ps assms(2)] m have ids: "map pe_node_id ps = er_replica_node_ids r"
    "pe_node_id me \<notin> set (er_replica_node_ids r)" by auto
  then have "pe_node_id me \<notin> pe_node_id ` set ps" by (metis list.set_map)
  then show ?thesis using ids validate_auto_ok [OF v] c p by auto
qed
definition empty_node :: ha_node where
  "empty_node = \<lparr>hn_store = [], hn_running = {}, hn_markers = {}\<rparr>"

definition two_nodes :: enable_env where
  "two_nodes = \<lparr>ee_proxmox = False, ee_is_vmid = False, ee_present = Inr (), ee_inflight = False,
     ee_wolfnet = Some ''10.10.0.1'', ee_nodes =
       [\<lparr>cn_id = ''a'', cn_address = ''0.0.0.0'', cn_port = 8553, cn_is_self = True, cn_node_type = ''wolfstack''\<rparr>,
        \<lparr>cn_id = ''b'', cn_address = ''10.0.0.2'', cn_port = 8553, cn_is_self = False, cn_node_type = ''wolfstack''\<rparr>],
     ee_autostart = True\<rparr>"

definition protect_db :: enable_req where
  "protect_db = \<lparr>er_container = ''db'', er_kind = Container, er_replica_node_ids = [''b''],
     er_interval_minutes = 0, er_auto_failover = False, er_witness = [], er_failover_after_secs = 0\<rparr>"

definition plan_db :: enable_plan where
  "plan_db = \<lparr>ep_container = ''db'', ep_kind = Container,
     ep_me = \<lparr>pe_node_id = ''a'', pe_address = ''10.10.0.1'', pe_port = 8553\<rparr>, ep_peers = [peer_b],
     ep_interval = 5, ep_auto = False, ep_witness = [], ep_after = 90\<rparr>"

lemma protect_db_plan: "wolfha_enable two_nodes empty_node protect_db = Ok plan_db"
  by (simp add: wolfha_enable_def safe_container_def two_nodes_def empty_node_def protect_db_def plan_db_def
      is_safe_name_def trim_def is_ws_def is_ascii_alphanumeric_def is_ascii_lower_def contains_def
      starts_with_def ha_get_def wolfha_self_peer_def unusable_address_def wolfha_validate_auto_def
      peer_b_def Let_def)

theorem enable_plan_sound_witness:
  "is_safe_name (ep_container plan_db) \<and> map pe_node_id (ep_peers plan_db) = [''b''] \<and> 30 \<le> ep_after plan_db"
  using enable_plan_sound [OF protect_db_plan] by (simp add: two_nodes_def protect_db_def)

definition standby_db :: monitor where
  "standby_db = \<lparr>mo_node = fst (install_seed (good_host\<lparr>h_dir := False\<rparr>) (Inr ()) 100 empty_node ''db'' Container peer_a None),
     mo_clocks = []\<rparr>"

lemma standby_db_reach: "ha_reach {} standby_db"
proof -
  let ?s = "\<lparr>mo_node = empty_node, mo_clocks = []\<rparr>"
  have "ha_reach {} ?s" unfolding empty_node_def by (rule ha_reach.fresh)
  moreover have "safe_container ''db'' = Ok ''db''" by code_simp
  then have "ha_step ?s standby_db"
    using ha_step.seed [of "''db''" "''db''" ?s "good_host\<lparr>h_dir := False\<rparr>" "Inr ()" 100 Container peer_a None]
    by (simp add: standby_db_def empty_node_def)
  ultimately have "ha_reach ({} \<inter> hn_running (mo_node standby_db)) standby_db" by (rule ha_reach.step)
  then show ?thesis by simp
qed

lemma standby_db_store: "hn_store (mo_node standby_db) = [standby_entry ''db'' Container peer_a 100 False None]"
  by (simp add: standby_db_def install_seed_def empty_node_def good_host_def ha_remove_def)

theorem reachable_node_ok_witness:
  "map (\<lambda>e. (he_container e, he_role e)) (hn_store (mo_node standby_db)) = [(''db'', Replica)]
   \<and> he_primary (hd (hn_store (mo_node standby_db))) \<noteq> None \<and> \<not> subject_is_running (mo_node standby_db) ''db''"
  using reachable_node_ok [OF standby_db_reach] by (simp add: standby_db_store standby_entry_def)

section \<open>The scheduler\<close>

lemma oldest_le: "x \<in> set xs \<Longrightarrow> oldest_of xs \<le> x"
  by (induction xs rule: oldest_of.induct) auto

lemma scheduler_fold:
  "foldl (\<lambda>(started, fl) e. if sync_due now e then
       case try_begin_sync (he_container e) fl of
         (fl', True) \<Rightarrow> (started @ [he_container e], fl') | (fl', False) \<Rightarrow> (started, fl')
     else (started, fl)) (s0, fl0) st = (started, fl) \<Longrightarrow>
   distinct s0 \<Longrightarrow> set s0 \<subseteq> fl0 \<Longrightarrow> set s0 \<inter> inflight = {} \<Longrightarrow> inflight \<subseteq> fl0 \<Longrightarrow>
   distinct started \<and> set started \<inter> inflight = {}
   \<and> fl = fl0 \<union> set started \<and> set s0 \<subseteq> set started
   \<and> (\<forall>e \<in> set st. sync_due now e \<longrightarrow> he_container e \<in> fl)"
proof (induction st arbitrary: s0 fl0)
  case (Cons e st)
  show ?case
  proof (cases "sync_due now e \<and> he_container e \<notin> fl0")
    case True
    with Cons.prems Cons.IH [of "s0 @ [he_container e]" "insert (he_container e) fl0"] show ?thesis
      by (auto simp: try_begin_sync_def)
  next
    case False
    with Cons.prems Cons.IH [of s0 fl0] show ?thesis
      by (auto simp: try_begin_sync_def insert_absorb split: if_splits)
  qed
qed auto

text \<open>
  A pass of the scheduler starts at most one round per subject and none for a
  subject whose round is still in flight; afterwards every subject that is due is in flight; and a
  subject that is not due has synced every replica within its interval.
\<close>

theorem scheduler_pass_sound:
  assumes "scheduler_pass now st inflight = (started, fl)"
  shows "distinct started \<and> set started \<inter> inflight = {} \<and> fl = inflight \<union> set started
    \<and> (\<forall>e \<in> set st. sync_due now e \<longrightarrow> he_container e \<in> fl)
    \<and> (\<forall>e \<in> set st. \<forall>r \<in> set (he_replicas e). he_role e = Primary \<and> \<not> he_stale e \<and> \<not> sync_due now e \<longrightarrow>
         now - last_synced e r < max (he_interval_minutes e) 1 * 60)"
proof -
  have "now - last_synced e r < max (he_interval_minutes e) 1 * 60"
    if "r \<in> set (he_replicas e)" "he_role e = Primary" "\<not> he_stale e" "\<not> sync_due now e" for e r
  proof -
    have "oldest_of (map (last_synced e) (he_replicas e)) \<le> last_synced e r"
      using that(1) by (intro oldest_le) simp
    with that(2-4) show ?thesis by (auto simp: sync_due_def)
  qed
  moreover from assms have "distinct started \<and> set started \<inter> inflight = {} \<and> fl = inflight \<union> set started
      \<and> (\<forall>e \<in> set st. sync_due now e \<longrightarrow> he_container e \<in> fl)"
    using scheduler_fold [of now "[]" inflight st started fl inflight] by (auto simp: scheduler_pass_def)
  ultimately show ?thesis by blast
qed

theorem scheduler_pass_sound_witness:
  "scheduler_pass 1000 [primary_a 90] {} = ([''db''], {''db''}) \<and> distinct [''db'']"
proof -
  have s: "scheduler_pass 1000 [primary_a 90] {} = ([''db''], {''db''})"
    by (simp add: scheduler_pass_def sync_due_def last_synced_def try_begin_sync_def primary_a_def replica_b_def
        standby_entry_def)
  with scheduler_pass_sound [OF s] show ?thesis by simp
qed

end
