(* ===== verification/Ha_Vm_Stall.thy ===== *)
theory Ha_Vm_Stall
  imports Ha_Vm_Faults
begin

text \<open>
  What a standby that does not answer does to the others, and what becomes of a standby's request for
  a full image when the image cannot be delivered.
\<close>

section \<open>One visit\<close>

text \<open>
  The outstanding delta a visit leaves: the same path and token, and at most the visited peer added to
  those that have it.
\<close>

definition acked :: "string set \<Rightarrow> vm_node \<Rightarrow> vm_node \<Rightarrow> string \<Rightarrow> bool" where
  "acked A P P' c =
     (vn_files P' = vn_files P
      \<and> (case pending_of P c of None \<Rightarrow> pending_of P' c = None
         | Some pd \<Rightarrow> (case pending_of P' c of None \<Rightarrow> False
            | Some pd' \<Rightarrow> pd_path pd' = pd_path pd \<and> pd_token pd' = pd_token pd
                \<and> set (pd_applied_by pd) \<subseteq> set (pd_applied_by pd')
                \<and> set (pd_applied_by pd') \<subseteq> A \<union> set (pd_applied_by pd))))"

lemma acked_refl [simp]: "acked A P P c"
  by (simp add: acked_def split: option.split)

lemma acked_trans: "acked A P Q c \<Longrightarrow> acked A Q R c \<Longrightarrow> acked A P R c"
  by (auto simp: acked_def split: option.splits)

lemma acked_same: "pending_of P' c = pending_of P c \<Longrightarrow> vn_files P' = vn_files P \<Longrightarrow> acked A P P' c"
  by (simp add: acked_def split: option.split)

lemma acked_mark: "i \<in> A \<Longrightarrow> acked A P (mark_applied h c i P) c"
proof -
  let ?f = "\<lambda>e. e\<lparr>he_pending_vm_delta := map_option
     (\<lambda>p. if i \<in> set (pd_applied_by p) then p else p\<lparr>pd_applied_by := pd_applied_by p @ [i]\<rparr>) (he_pending_vm_delta e)\<rparr>"
  assume "i \<in> A"
  then show ?thesis
    by (auto simp: acked_def mark_applied_def pending_of_def vm_entry_update [of ?f] split: option.splits)
qed

lemma acked_stage:
  assumes "stage_seed h minted P c = (P', res)"
  shows "acked A P P' c"
proof -
  have "pending_of (vm_update h c (\<lambda>e. e\<lparr>he_vm_chain := Some minted\<rparr>) P) c = pending_of P c"
    by (rule pending_update) simp_all
  with assms show ?thesis
    by (auto simp: stage_seed_def intro!: acked_same split: option.splits sum.splits if_splits)
qed

lemma reseed_visit:
  assumes "vm_reseed_replica_round h minted vi r c peer = (r', res)"
  shows "acked (if vi_host vi = None then {} else {pe_node_id peer}) (vr_primary r) (vr_primary r') c
    \<and> (\<forall>j. j \<noteq> pe_node_id peer \<longrightarrow> vr_peers r' j = vr_peers r j) \<and> res \<noteq> Err NeedsSeed"
proof -
  let ?A = "if vi_host vi = None then {} else {pe_node_id peer}"
  let ?st = "case vr_staged r of Some s \<Rightarrow> (vr_primary r, Ok s) | None \<Rightarrow> stage_seed h minted (vr_primary r) c"
  obtain p st where st: "?st = (p, st)" by (cases ?st)
  have p: "acked A (vr_primary r) p c" for A
    using st acked_stage by (auto split: option.splits)
  have stE: "st \<noteq> Err NeedsSeed"
    using st by (auto simp: stage_seed_def split: option.splits sum.splits if_splits)
  have inst: "snd (install_vm_seed vh now v c img me meta t) \<noteq> Err NeedsSeed" for vh now v img me meta t
    by (simp add: install_vm_seed_def Let_def split: sum.split)
  have mark: "acked {pe_node_id peer} (vr_primary r) (mark_applied h c (pe_node_id peer) p) c"
    using acked_trans [OF p acked_mark] by blast
  show ?thesis
    using assms p stE mark inst unfolding vm_reseed_replica_round_def st
    by (auto simp: Let_def split: sum.splits prod.splits option.splits if_splits) (metis snd_conv)+
qed
lemma sync_visit:
  assumes s: "sync_vm_peer h minted vi p r c peer = (r', res)"
  shows "acked (if vi_host vi = None then {} else {pe_node_id peer}) (vr_primary r) (vr_primary r') c
    \<and> (\<forall>j. j \<noteq> pe_node_id peer \<or> j \<in> set (pd_applied_by p) \<longrightarrow> vr_peers r' j = vr_peers r j)
    \<and> res \<noteq> Err NeedsSeed"
proof (cases "pe_node_id peer \<in> set (pd_applied_by p) \<or> vi_host vi = None \<or> vn_files (vr_primary r) (pd_path p) = None")
  case True
  then have "r' = r \<and> res \<noteq> Err NeedsSeed"
    using s by (elim disjE) (auto simp: sync_vm_peer_def Let_def split: option.splits if_splits)
  then show ?thesis by simp
next
  case False
  let ?i = "pe_node_id peer" and ?P = "vr_primary r"
  from False obtain vh dl where vh: "vi_host vi = Some vh" and dl: "vn_files ?P (pd_path p) = Some dl"
    and i: "?i \<notin> set (pd_applied_by p)" by auto
  have mark: "acked {?i} ?P (mark_applied h c ?i Q) c" if "acked {?i} ?P Q c" for Q
    using acked_trans [OF that acked_mark] by blast
  have "acked {?i} ?P (vr_primary r') c \<and> (\<forall>j. j \<noteq> ?i \<longrightarrow> vr_peers r' j = vr_peers r j) \<and> res \<noteq> Err NeedsSeed"
  proof -
    obtain q res0 where q: "(case wolfha_apply_vm_delta vh (vi_now vi) (vr_peers r ?i) c dl
        (case vm_entry ?P c of Some e \<Rightarrow> unwrap_or [] (he_vm_chain e) | None \<Rightarrow> []) (pd_token p)
        (case vm_entry ?P c of Some e \<Rightarrow> if he_role e = Primary then Some (from_entry e) else None | None \<Rightarrow> None) of
        (q, res) \<Rightarrow> (q, if vi_reply_lost vi then Err NoAnswer else res)) = (q, res0)" by fastforce
    let ?r = "r\<lparr>vr_peers := (vr_peers r)(?i := q)\<rparr>"
    have res: "(r', res) = (case res0 of
         Inr _ \<Rightarrow> (r\<lparr>vr_primary := mark_applied h c ?i ?P, vr_peers := (vr_peers r)(?i := q)\<rparr>, Ok ())
       | Inl x \<Rightarrow>
           if x = NeedsSeed then
             (case vm_reseed_replica_round h minted vi ?r c peer of
                (r2, Inr _) \<Rightarrow> (r2\<lparr>vr_primary := mark_applied h c ?i (vr_primary r2)\<rparr>, Ok ())
              | (r2, Inl x) \<Rightarrow> (r2, Err x))
           else (?r, Err x))"
      unfolding s [symmetric] sync_vm_peer_def Let_def vh using i by (simp add: dl q)
    obtain r2 res2 where r2: "vm_reseed_replica_round h minted vi ?r c peer = (r2, res2)" by fastforce
    from reseed_visit [OF r2] vh have v: "acked {?i} ?P (vr_primary r2) c"
      "\<forall>j. j \<noteq> ?i \<longrightarrow> vr_peers r2 j = vr_peers r j" "res2 \<noteq> Err NeedsSeed" by auto
    show ?thesis
      using res r2 v mark [OF v(1)] mark [OF acked_refl]
      by (auto split: sum.splits if_splits)
  qed
  with vh i show ?thesis by auto
qed

section \<open>A round with a standby that does not answer\<close>

lemma writes_pending [simp]: "pending_of (guest_writes ws v) c = pending_of v c"
  and writes_files [simp]: "vn_files (guest_writes ws v) = vn_files v"
  by (induction ws arbitrary: v) (simp_all add: guest_writes_def pending_of_def guest_write_def vm_entry_def)

lemma visit_peer_frame:
  assumes "delta = Some p"
  shows "acked (if vi_host vi = None then {} else {pe_node_id peer}) (vr_primary r)
      (vr_primary (visit_peer h minted vi delta c r peer)) c
    \<and> (\<forall>j. j \<noteq> pe_node_id peer \<or> j \<in> set (pd_applied_by p) \<longrightarrow>
         vr_peers (visit_peer h minted vi delta c r peer) j = vr_peers r j)"
proof -
  let ?r = "if subject_is_running (vn_node (vr_primary r)) c
    then r\<lparr>vr_primary := guest_writes (vi_writes vi) (vr_primary r)\<rparr> else r"
  obtain r1 res where r1: "sync_vm_peer h minted vi p ?r c peer = (r1, res)" by fastforce
  let ?A = "if vi_host vi = None then {} else {pe_node_id peer}"
  let ?P = "vm_update h c (\<lambda>e. e\<lparr>he_last_sync := AList.update (pe_node_id peer) (visit_status (vi_now vi) res)
      (he_last_sync e)\<rparr>) (vr_primary r1)"
  have v: "visit_peer h minted vi delta c r peer = r1\<lparr>vr_primary := ?P\<rparr>"
    unfolding visit_peer_def Let_def using r1 assms by simp
  have a1: "acked ?A (vr_primary r) (vr_primary ?r) c" by (simp add: acked_same)
  have a3: "acked ?A (vr_primary r1) ?P c" by (intro acked_same pending_update) simp_all
  note s = sync_visit [OF r1]
  from acked_trans [OF acked_trans [OF a1 conjunct1 [OF s]] a3] have "acked ?A (vr_primary r) ?P c" .
  moreover have "vr_peers ?r = vr_peers r" by simp
  ultimately show ?thesis using s unfolding v by auto
qed

lemma visits_stall:
  assumes "\<forall>q. pending_of (vr_primary r) c = Some q \<longrightarrow> j \<notin> set (pd_applied_by q)"
    and "vi_host (vis j) = None" and "i \<in> set (pd_applied_by p)" and "pending_of (vr_primary r) c \<noteq> None"
  shows "(\<exists>q0 q. pending_of (vr_primary r) c = Some q0
      \<and> pending_of (vr_primary (foldl (\<lambda>r peer. visit_peer h minted (vis (pe_node_id peer)) (Some p) c r peer) r peers)) c = Some q
      \<and> pd_path q = pd_path q0 \<and> pd_token q = pd_token q0 \<and> j \<notin> set (pd_applied_by q)
      \<and> set (pd_applied_by q0) \<subseteq> set (pd_applied_by q))
    \<and> vn_files (vr_primary (foldl (\<lambda>r peer. visit_peer h minted (vis (pe_node_id peer)) (Some p) c r peer) r peers)) =
        vn_files (vr_primary r)
    \<and> vr_peers (foldl (\<lambda>r peer. visit_peer h minted (vis (pe_node_id peer)) (Some p) c r peer) r peers) i = vr_peers r i"
  using assms
proof (induction peers arbitrary: r)
  case (Cons peer peers)
  let ?r = "visit_peer h minted (vis (pe_node_id peer)) (Some p) c r peer"
  note f = visit_peer_frame [OF refl, of "vis (pe_node_id peer)" peer r h minted p c]
  obtain q0 where q0: "pending_of (vr_primary r) c = Some q0" using Cons.prems(4) by blast
  from f q0 obtain q where q: "pending_of (vr_primary ?r) c = Some q" "pd_path q = pd_path q0" "pd_token q = pd_token q0"
    "set (pd_applied_by q0) \<subseteq> set (pd_applied_by q)"
    "set (pd_applied_by q) \<subseteq> (if vi_host (vis (pe_node_id peer)) = None then {} else {pe_node_id peer}) \<union> set (pd_applied_by q0)"
    and files: "vn_files (vr_primary ?r) = vn_files (vr_primary r)"
    by (auto simp: acked_def split: option.splits)
  have "j \<notin> set (pd_applied_by q)" using q(5) Cons.prems(1,2) q0 by (auto split: if_splits)
  moreover have "vr_peers ?r i = vr_peers r i" using f Cons.prems(3) by blast
  ultimately show ?case
    using Cons.IH [of ?r] Cons.prems(2,3) q q0 files by auto
qed auto

text \<open>
  No new delta is taken while one is outstanding. As long as one standby does
  not answer, a standby that has the outstanding delta gets nothing more in any round: its copy and
  its freshness stay what they were, while the round reports it as up to date.
\<close>

theorem dead_standby_stalls:
  assumes e: "vm_entry P c = Some e" "he_role e = Primary" "\<not> he_stale e"
    and p: "he_pending_vm_delta e = Some pd" "vn_files P (pd_path pd) \<noteq> None" "i \<in> set (pd_applied_by pd)"
    and j: "peer \<in> set (he_replicas e)" "\<not> re_local env peer" "pe_node_id peer \<notin> set (pd_applied_by pd)"
      "vi_host (re_visits env (pe_node_id peer)) = None"
    and s: "sync_vm_now env P Rs c = (P', Rs', res)"
  shows "res = Ok () \<and> Rs' i = Rs i
    \<and> (\<exists>pd'. pending_of P' c = Some pd' \<and> pd_path pd' = pd_path pd \<and> i \<in> set (pd_applied_by pd')
         \<and> pe_node_id peer \<notin> set (pd_applied_by pd'))
    \<and> vn_files P' (pd_path pd) \<noteq> None"
proof -
  let ?reps = "filter (\<lambda>r. \<not> re_local env r) (he_replicas e)"
  let ?h = "re_host env"
  have b: "begin_round ?h (re_take env) (re_path env) (re_token env) (re_now env) ?reps P c = (P, Ok (Some pd))"
    using e p by (auto simp: begin_round_def)
  let ?r = "foldl (\<lambda>r peer. visit_peer ?h (re_minted env) (re_visits env (pe_node_id peer)) (Some pd) c r peer)
    \<lparr>vr_primary = P, vr_peers = Rs, vr_staged = None\<rparr> ?reps"
  from e(1) p(1) have "pending_of P c = Some pd" by (simp add: pending_of_def)
  with visits_stall [of "\<lparr>vr_primary = P, vr_peers = Rs, vr_staged = None\<rparr>" c "pe_node_id peer" "re_visits env" i pd ?h
      "re_minted env" ?reps] j p(3)
  obtain q where q: "pending_of (vr_primary ?r) c = Some q" "pd_path q = pd_path pd"
    "pe_node_id peer \<notin> set (pd_applied_by q)" "set (pd_applied_by pd) \<subseteq> set (pd_applied_by q)"
    and rest: "vn_files (vr_primary ?r) = vn_files P" "vr_peers ?r i = Rs i" by auto
  have fin: "finish_round ?h ?reps c (vr_primary ?r) = vr_primary ?r"
    using q(1,3) j(1,2) by (auto simp: finish_round_def pending_of_def list_all_iff split: option.splits)
  have "P' = vr_primary ?r" "Rs' = vr_peers ?r" "res = Ok ()"
    using s b fin by (simp_all add: sync_vm_now_def e(1) Let_def)
  with q rest p(2,3) show ?thesis by auto
qed
section \<open>A request for a full image\<close>

text \<open>
  When a standby refuses a delta and asks for a full image, the round
  tries to send one at once and records that attempt's result in place of the refusal. If the image
  could not be delivered, the request is gone: a later round of the stopped VM finds nothing to heal.
\<close>

theorem reseed_request_forgotten:
  assumes "is_ok (h_save h)" and "vm_chain_of (vr_primary (visit_peer h minted vi (Some p) c r peer)) c \<noteq> None"
  shows "\<not> needs_seed (vr_primary (visit_peer h minted vi (Some p) c r peer)) c (pe_node_id peer)"
proof -
  let ?r = "if subject_is_running (vn_node (vr_primary r)) c
    then r\<lparr>vr_primary := guest_writes (vi_writes vi) (vr_primary r)\<rparr> else r"
  obtain r1 res where r1: "sync_vm_peer h minted vi p ?r c peer = (r1, res)" by fastforce
  let ?f = "\<lambda>e. e\<lparr>he_last_sync := AList.update (pe_node_id peer) (visit_status (vi_now vi) res) (he_last_sync e)\<rparr>"
  have v: "visit_peer h minted vi (Some p) c r peer = r1\<lparr>vr_primary := vm_update h c ?f (vr_primary r1)\<rparr>"
    unfolding visit_peer_def Let_def using r1 by simp
  from assms(2) obtain e where e: "vm_entry (vr_primary r1) c = Some e" "he_vm_chain e \<noteq> None"
    unfolding v by (auto simp: vm_chain_of_def vm_entry_update split: option.splits if_splits)
  have "\<not> contains VM_NEEDS_SEED (ss_message (visit_status (vi_now vi) res))"
    using sync_visit [OF r1]
    by (auto simp: visit_status_def contains_def VM_NEEDS_SEED_def split: sum.split vm_error.split)
  with e assms(1) show ?thesis
    unfolding v by (simp add: needs_seed_def vm_entry_update update_conv)
qed

end
