(* ===== verification/Ha_Vm_Scenarios.thy ===== *)
theory Ha_Vm_Scenarios
  imports Ha_Vm_Stall
begin

text \<open>
  Concrete runs of the replication of a VM's disk: the two in which copies diverge under one token, and
  the instances of the general theorems.
\<close>

section \<open>Three nodes\<close>

text \<open>Three nodes and a VM whose disk has the blocks 0 to 9.\<close>

definition vm_peer :: "string \<Rightarrow> ha_peer" where
  "vm_peer i = \<lparr>pe_node_id = i, pe_address = ''10.0.0.'' @ i, pe_port = 8553\<rparr>"

definition ok_host :: host where
  "ok_host = \<lparr>h_local = (\<lambda>_. False), h_dir = False, h_save = Inr (), h_prepare = Inr (), h_start = Inr (),
     h_stop = Inr ()\<rparr>"

definition ok_visit :: "(nat \<times> nat) list \<Rightarrow> visit" where
  "ok_visit ws = \<lparr>vi_writes = ws, vi_host = Some \<lparr>vh_host = ok_host, vh_commit = Inr (), vh_exists = True,
     vh_install = Inr ()\<rparr>, vi_reply_lost = False, vi_now = 100\<rparr>"

definition no_visit :: visit where
  "no_visit = (ok_visit [])\<lparr>vi_host := None\<rparr>"

definition vm_standby :: "string \<Rightarrow> string option \<Rightarrow> ha_entry" where
  "vm_standby p t = (standby_entry ''w'' Vm (vm_peer p) 0 False t)\<lparr>he_replicas := [vm_peer ''2'', vm_peer ''3'']\<rparr>"

definition vm_primary :: "string option \<Rightarrow> pending_delta option \<Rightarrow> ha_entry" where
  "vm_primary t pd = (vm_standby ''1'' t)\<lparr>he_role := Primary, he_primary := None, he_pending_vm_delta := pd,
     he_self_identity := Some (vm_peer ''1'')\<rparr>"

definition vm_at :: "ha_entry \<Rightarrow> bool \<Rightarrow> disk \<Rightarrow> nat set \<Rightarrow> (string \<rightharpoonup> disk_delta) \<Rightarrow> vm_node" where
  "vm_at e runs d dirty files = \<lparr>vn_node = \<lparr>hn_store = [e], hn_running = (if runs then {''w''} else {}), hn_markers = {}\<rparr>,
     vn_disk = d, vn_dirty = dirty, vn_files = files\<rparr>"

definition round_at :: "host \<Rightarrow> string \<Rightarrow> (string \<Rightarrow> visit) \<Rightarrow> round_env" where
  "round_at h token vis = \<lparr>re_host = h, re_local = (\<lambda>_. False), re_take = Inr (), re_path = ''/d-'' @ token, re_token = token,
     re_minted = ''minted-'' @ token, re_now = 100, re_visits = vis\<rparr>"

definition ambiguous_round :: "vm_node \<times> (string \<Rightarrow> vm_node) \<times> (vm_error + unit)" where
  "ambiguous_round = sync_vm_now
     (round_at ok_host ''t1'' (\<lambda>i. if i = ''3'' then ok_visit [(5, 55)] else ok_visit []))
     (vm_at (vm_primary (Some ''t0'') None) True (\<lambda>_. 1) {} Map.empty)
     (\<lambda>i. if i = ''2'' then vm_at (vm_standby ''1'' (Some ''t0'')) False (\<lambda>_. 1) {} Map.empty
          else vm_at (vm_standby ''1'' None) False (\<lambda>_. 0) {} Map.empty) ''w''"

definition after_takeover :: "vm_node \<times> (string \<Rightarrow> vm_node) \<times> (vm_error + unit)" where
  "after_takeover =
     (let peers = fst (snd ambiguous_round);
          p2 = fst (vm_promote ok_host (peers ''2'') ''w'' (Some (vm_peer ''2'')))
      in sync_vm_now (round_at ok_host ''t2'' (\<lambda>i. if i = ''3'' then ok_visit [] else no_visit))
           (guest_write (7, 77) p2) peers ''w'')"

text \<open>
  A full image is taken later than the delta whose token it carries. Here node 3
  gets one after block 5 was written again, while node 2 applied the delta; both now hold the same
  token. When node 2 takes over, its first delta is accepted by node 3, and from then on the two report the
  same token with different contents in block 5.
\<close>

theorem reseed_token_ambiguous:
  "(case ambiguous_round of (p, peers, _) \<Rightarrow> (vm_chain_of (peers ''2'') ''w'', vm_chain_of (peers ''3'') ''w'')) =
     (Some ''t1'', Some ''t1'')
   \<and> (case after_takeover of (p, peers, _) \<Rightarrow>
        (outstanding p ''w'', vm_chain_of (peers ''3'') ''w'', 5 \<in> vn_dirty p, vn_disk p 5, vn_disk (peers ''3'') 5)) =
     (Some (''/d-t2'', ''t2''), Some ''t2'', False, 1, 55)"
  by (rule conjI; code_simp)

definition full_disk :: host where "full_disk = ok_host\<lparr>h_save := Err ''no space left''\<rparr>"

definition unrecorded_round :: "vm_node \<times> (string \<Rightarrow> vm_node) \<times> (vm_error + unit)" where
  "unrecorded_round =
     (let standby = vm_at (vm_standby ''1'' (Some ''t0'')) False (\<lambda>_. 1) {} Map.empty;
          (p1, peers1, _) = sync_vm_now (round_at full_disk ''t1'' (\<lambda>i. if i = ''3'' then no_visit else ok_visit []))
             (vm_at (vm_primary (Some ''t0'') None) True ((\<lambda>_. 1)(5 := 55)) {5} Map.empty) (\<lambda>_. standby) ''w''
      in sync_vm_now (round_at ok_host ''t2'' (\<lambda>_. ok_visit [])) p1 peers1 ''w'')"

text \<open>
  The record of a new delta is saved before it is shipped, but a failed
  save is ignored. Here the store cannot be saved during one round in which node 3 does not answer; the
  blocks of that delta are then in no later delta, and the next round leaves node 3 with the primary's
  token and an old block.
\<close>

theorem unrecorded_delta_diverges:
  "(case unrecorded_round of (p, peers, _) \<Rightarrow>
      (vm_chain_of p ''w'', outstanding p ''w'', vm_chain_of (peers ''3'') ''w'', 5 \<in> vn_dirty p,
       vn_disk p 5, vn_disk (peers ''3'') 5)) =
   (Some ''t2'', None, Some ''t2'', False, 55, 1)"
  by code_simp

section \<open>Instances of the general theorems\<close>

lemmas vm_scenario = vm_at_def vm_primary_def vm_standby_def standby_entry_def vm_entry_def ha_get_def
  ok_visit_def ok_host_def vm_peer_def subject_is_running_def

definition quiet_pair :: "vm_node \<times> (string \<Rightarrow> vm_node)" where
  "quiet_pair = (vm_at (vm_primary (Some ''t0'') None) True (\<lambda>_. 1) {} Map.empty,
     \<lambda>_. vm_at (vm_standby ''1'' (Some ''t0'')) False (\<lambda>_. 1) {} Map.empty)"

lemma quiet_pair_reach: "vm_reach ''w'' (guest_write (5, 55) (fst quiet_pair)) (snd quiet_pair)"
  by (intro vm_reach.guest vm_reach.seeded)
    (simp_all add: quiet_pair_def outstanding_def vm_chain_of_def vm_scenario)

theorem vm_chain_sound_witness:
  "vn_disk (snd quiet_pair ''2'') 3 = vn_disk (guest_write (5, 55) (fst quiet_pair)) 3
   \<and> vn_disk (snd quiet_pair ''2'') 5 \<noteq> vn_disk (guest_write (5, 55) (fst quiet_pair)) 5"
proof
  let ?P = "guest_write (5, 55) (fst quiet_pair)"
  have "vm_chain_of (snd quiet_pair ''2'') ''w'' = Some ''t0''" "(3::nat) \<notin> vn_dirty ?P"
    "outstanding ?P ''w'' = None" "vm_chain_of ?P ''w'' = Some ''t0''"
    by (simp_all add: quiet_pair_def outstanding_def vm_chain_of_def guest_write_def vm_scenario)
  with vm_chain_sound [OF quiet_pair_reach this(1,2)] show "vn_disk (snd quiet_pair ''2'') 3 = vn_disk ?P 3" by blast
qed (simp add: quiet_pair_def guest_write_def vm_scenario)

definition old_delta :: pending_delta where
  "old_delta = \<lparr>pd_path = ''/old'', pd_taken_at = 1, pd_applied_by = [''3''], pd_token = ''t1''\<rparr>"

definition mid_round :: vm_node where
  "mid_round = vm_at (vm_primary (Some ''t0'') (Some old_delta)) True ((\<lambda>_. 1)(5 := 55)) {} [''/old'' \<mapsto> [5 \<mapsto> 55]]"

definition standby_2 :: "string \<Rightarrow> vm_node" where
  "standby_2 _ = vm_at (vm_standby ''1'' (Some ''t0'')) False (\<lambda>_. 1) {} Map.empty"

definition to_node_2 :: handover where
  "to_node_2 = \<lparr>ho_host = ok_host, ho_paused = Inr (), ho_take = Inr (), ho_path = ''/final'', ho_next = ''t2'',
     ho_local = (\<lambda>_. False), ho_visits = (\<lambda>_. ok_visit [])\<rparr>"

theorem handoff_skips_pending_witness:
  "\<exists>P' Rs'. wolfha_demote_vm to_node_2 True mid_round standby_2 ''w'' (vm_peer ''2'') = (P', Rs', Ok ())
   \<and> vm_chain_of P' ''w'' = Some ''t2'' \<and> vm_chain_of (Rs' ''2'') ''w'' = Some ''t2''
   \<and> vn_disk (Rs' ''2'') 5 \<noteq> vn_disk P' 5"
  using handoff_skips_pending [of mid_round "''w''" "vm_primary (Some ''t0'') (Some old_delta)" "''t0''" to_node_2 "''2''"
      "vm_peer ''2''" standby_2 "''/old''" "''t1''" "[5 \<mapsto> 55]" 5]
  by (simp add: mid_round_def standby_2_def to_node_2_def old_delta_def takes_deltas_def outstanding_def vm_scenario)

theorem dead_standby_stalls_witness:
  "\<exists>P' Rs'. sync_vm_now (round_at ok_host ''t9'' (\<lambda>_. no_visit)) mid_round standby_2 ''w'' = (P', Rs', Ok ())
   \<and> Rs' ''3'' = standby_2 ''3'' \<and> vn_files P' ''/old'' \<noteq> None"
proof -
  obtain P' Rs' res where s: "sync_vm_now (round_at ok_host ''t9'' (\<lambda>_. no_visit)) mid_round standby_2 ''w'' = (P', Rs', res)"
    by (metis prod_cases3)
  show ?thesis
    using dead_standby_stalls [OF _ _ _ _ _ _ _ _ _ _ s, of "vm_primary (Some ''t0'') (Some old_delta)" old_delta "''3''"
        "vm_peer ''2''"] s
    by (simp add: mid_round_def old_delta_def round_at_def no_visit_def vm_scenario)
qed

theorem reseed_request_forgotten_witness:
  "\<not> needs_seed (vr_primary (visit_peer ok_host ''m'' no_visit (Some old_delta) ''w''
       \<lparr>vr_primary = mid_round, vr_peers = standby_2, vr_staged = None\<rparr> (vm_peer ''2''))) ''w'' ''2''"
proof -
  have "vm_chain_of (vr_primary (visit_peer ok_host ''m'' no_visit (Some old_delta) ''w''
       \<lparr>vr_primary = mid_round, vr_peers = standby_2, vr_staged = None\<rparr> (vm_peer ''2''))) ''w'' \<noteq> None"
    by code_simp
  from reseed_request_forgotten [OF _ this] show ?thesis by (simp add: ok_host_def vm_peer_def)
qed

text \<open>Node 1 hands over to node 2 with the old delta outstanding, receives a round from it, and takes over again.\<close>

definition handed_over :: vm_node where
  "handed_over = fst (wolfha_demote_vm to_node_2 True mid_round standby_2 ''w'' (vm_peer ''2''))"

definition caught_up :: vm_node where
  "caught_up = fst (wolfha_apply_vm_delta (the (vi_host (ok_visit []))) 100 handed_over ''w'' [5 \<mapsto> 99] ''t2'' ''t3'' None)"

definition back_again :: vm_node where
  "back_again = fst (vm_promote ok_host caught_up ''w'' (Some (vm_peer ''1'')))"

definition standby_t3 :: vm_node where
  "standby_t3 = vm_at (vm_standby ''1'' (Some ''t3'')) False ((\<lambda>_. 1)(5 := 99)) {} Map.empty"

theorem stale_delta_replayed_witness:
  "begin_round ok_host (Inr ()) ''/new'' ''t4'' 200 [] back_again ''w'' = (back_again, Ok (Some old_delta))
   \<and> (\<exists>q. send_delta (ok_visit []) standby_t3 ''w'' [5 \<mapsto> 55] ''t3'' ''t1'' None = (q, Ok ())
        \<and> vn_disk q = commit_delta [5 \<mapsto> 55] (vn_disk standby_t3))"
proof -
  have d: "wolfha_demote_vm to_node_2 True mid_round standby_2 ''w'' (vm_peer ''2'') =
      (handed_over, fst (snd (wolfha_demote_vm to_node_2 True mid_round standby_2 ''w'' (vm_peer ''2''))), Ok ())"
  proof -
    have "snd (snd (wolfha_demote_vm to_node_2 True mid_round standby_2 ''w'' (vm_peer ''2''))) = Ok ()" by code_simp
    then show ?thesis by (simp add: handed_over_def prod_eq_iff)
  qed
  have a: "wolfha_apply_vm_delta (the (vi_host (ok_visit []))) 100 handed_over ''w'' [5 \<mapsto> 99] ''t2'' ''t3'' None =
      (caught_up, snd (wolfha_apply_vm_delta (the (vi_host (ok_visit []))) 100 handed_over ''w'' [5 \<mapsto> 99] ''t2'' ''t3'' None))"
    by (simp add: caught_up_def)
  have m: "vm_promote ok_host caught_up ''w'' (Some (vm_peer ''1'')) = (back_again, Ok ())"
  proof -
    have "snd (vm_promote ok_host caught_up ''w'' (Some (vm_peer ''1''))) = Ok ()" by code_simp
    then show ?thesis by (simp add: back_again_def prod_eq_iff)
  qed
  have p: "pending_of mid_round ''w'' = Some old_delta" "vn_files mid_round (pd_path old_delta) = Some [5 \<mapsto> 55]"
    by (simp_all add: pending_of_def mid_round_def old_delta_def vm_scenario)
  have c: "vm_chain_of back_again ''w'' = Some ''t3''" by code_simp
  have v: "takes_deltas (ok_visit []) standby_t3 ''w'' ''t3''" by (simp add: takes_deltas_def standby_t3_def vm_scenario)
  show ?thesis
    using stale_delta_replayed [OF p _ d a m c _ _ _ v] by (simp add: old_delta_def to_node_2_def)
qed

end
