(* ===== verification/Flow_Text.thy ===== *)
theory Flow_Text
  imports Rust_Prelude
begin

text \<open>
  WolfFlow, part 1 (\<^verbatim>\<open>src/wolfflow/mod.rs\<close>): the data steps hand to each other, the template
  references \<open>{{step.key}}\<close> and the conditions. JSON values are those of \<open>serde_json\<close>; its printer of
  a value that is not a string is the parameter \<open>js\<close>. \<open>f64\<close> is Rust's double: a finite double is a
  whole number of units \<open>2 ^ -1074\<close>, and parsing rounds to the nearest double, ties to even.
  The lemmas show what template resolution yields (the first 64 references, from left to right), that
  a glob condition never accepts a text the pattern does not describe, and that whole numbers up to
  \<open>2 ^ 53\<close> compare exactly.
\<close>

section \<open>Step outputs and the run context\<close>

datatype json =
    JNull
  | JBool bool
  | JNumber string
  | JString string
  | JArray "json list"
  | JObject "(string \<times> json) list"

record step_output =
  so_text :: string
  so_data :: "(string, json) hashmap"

record workflow_context =
  step_outputs :: "(string, step_output) hashmap"

definition plain_output :: "string \<Rightarrow> step_output" where
  "plain_output t = \<lparr>so_text = t, so_data = []\<rparr>"

definition structured_output :: "string \<Rightarrow> (string, json) hashmap \<Rightarrow> step_output" where
  "structured_output t d = \<lparr>so_text = t, so_data = d\<rparr>"

definition ctx_insert :: "string \<Rightarrow> step_output \<Rightarrow> workflow_context \<Rightarrow> workflow_context" where
  "ctx_insert n out ctx = ctx\<lparr>step_outputs := AList.update n out (step_outputs ctx)\<rparr>"

section \<open>Template references\<close>

text \<open>
  \<^verbatim>\<open>str::find\<close>: the text before the first occurrence and the text after it.
\<close>

fun find_str :: "string \<Rightarrow> string \<Rightarrow> (string \<times> string) option" where
  "find_str pat [] = (if pat = [] then Some ([], []) else None)"
| "find_str pat (x # xs) =
     (if starts_with pat (x # xs) then Some ([], drop (length pat) (x # xs))
      else map_option (\<lambda>(a, b). (x # a, b)) (find_str pat xs))"

definition ctx_value :: "(json \<Rightarrow> string) \<Rightarrow> workflow_context \<Rightarrow> string \<Rightarrow> string \<Rightarrow> string" where
  "ctx_value js ctx step key =
     (case map_of (step_outputs ctx) (trim step) of
        None \<Rightarrow> []
      | Some out \<Rightarrow>
          (case map_of (so_data out) (trim key) of
             None \<Rightarrow> []
           | Some (JString s) \<Rightarrow> s
           | Some v \<Rightarrow> js v))"

text \<open>
  One pass of the loop per unit of the first argument; the loop leaves at its 65th iteration.
  An opening brace pair cannot overlap a closing one, so the search for the closing pair from the
  opening one is the search in the text behind it.
\<close>

fun resolve_loop :: "nat \<Rightarrow> (json \<Rightarrow> string) \<Rightarrow> workflow_context \<Rightarrow> string \<Rightarrow> string" where
  "resolve_loop 0 js ctx s = s"
| "resolve_loop (Suc n) js ctx s =
     (case find_str ''{{'' s of
        None \<Rightarrow> s
      | Some (before, rest) \<Rightarrow>
          (case find_str ''}}'' rest of
             None \<Rightarrow> s
           | Some (raw, behind) \<Rightarrow>
               (let inner = trim raw in
                case split_once CHR ''.'' inner of
                  Some (step, key) \<Rightarrow>
                    resolve_loop n js ctx (before @ ctx_value js ctx step key @ behind)
                | None \<Rightarrow>
                    resolve_loop n js ctx
                      (before @ ''[invalid-ref:'' @ inner @ '']'' @ behind))))"

definition resolve_templates :: "(json \<Rightarrow> string) \<Rightarrow> string \<Rightarrow> workflow_context \<Rightarrow> string" where
  "resolve_templates js input ctx = resolve_loop 64 js ctx input"

section \<open>Doubles\<close>

datatype f64 =
    F64_NaN
  | F64_Inf bool
  | F64_Fin int

text \<open>Rounding a non-negative fraction \<open>n / d\<close> to 53 significant bits, in units of \<open>2 ^ -1074\<close>.\<close>

definition round_half_even :: "nat \<Rightarrow> nat \<Rightarrow> nat" where
  "round_half_even n d =
     (let q = n div d; r = n mod d in
      if 2 * r < d then q else if d < 2 * r then Suc q else if even q then q else Suc q)"

fun excess_bits :: "nat \<Rightarrow> nat" where
  "excess_bits t = (if t < 2 ^ 53 then 0 else Suc (excess_bits (t div 2)))"

declare excess_bits.simps [simp del]

definition f64_units :: "nat \<Rightarrow> nat \<Rightarrow> nat" where
  "f64_units n d =
     (let s = excess_bits (n * 2 ^ 1074 div d) in round_half_even (n * 2 ^ 1074) (d * 2 ^ s) * 2 ^ s)"

definition f64_of_ratio :: "bool \<Rightarrow> nat \<Rightarrow> nat \<Rightarrow> f64" where
  "f64_of_ratio neg n d =
     (let u = f64_units n d in
      if 2 ^ 2098 \<le> u then F64_Inf neg
      else F64_Fin (if neg then - int u else int u))"

text \<open>
  \<^verbatim>\<open>str::parse::<f64>()\<close>: an optional sign, then \<open>inf\<close>, \<open>infinity\<close> or \<open>nan\<close> in any case, or digits
  with at most one point and at least one digit, with an optional decimal exponent.
\<close>

definition strip_sign :: "string \<Rightarrow> bool \<times> string" where
  "strip_sign s = (case s of
       CHR ''-'' # r \<Rightarrow> (True, r)
     | CHR ''+'' # r \<Rightarrow> (False, r)
     | _ \<Rightarrow> (False, s))"

definition parse_exponent :: "string \<Rightarrow> int option" where
  "parse_exponent s =
     (let (neg, ds) = strip_sign s in
      if ds \<noteq> [] \<and> list_all is_ascii_digit ds
      then Some (if neg then - int (dec_val ds) else int (dec_val ds)) else None)"

definition parse_decimal :: "bool \<Rightarrow> string \<Rightarrow> int \<Rightarrow> f64 option" where
  "parse_decimal neg m e =
     (let (a, b) = (case split_once CHR ''.'' m of None \<Rightarrow> (m, []) | Some ab \<Rightarrow> ab);
          scale = e - int (length b) in
      if list_all is_ascii_digit (a @ b) \<and> a @ b \<noteq> []
      then Some (if 0 \<le> scale then f64_of_ratio neg (dec_val (a @ b) * 10 ^ nat scale) 1
                 else f64_of_ratio neg (dec_val (a @ b)) (10 ^ nat (- scale)))
      else None)"

definition parse_f64 :: "string \<Rightarrow> f64 option" where
  "parse_f64 s =
     (let (neg, r) = strip_sign s; l = map to_ascii_lower r in
      if l = ''inf'' \<or> l = ''infinity'' then Some (F64_Inf neg)
      else if l = ''nan'' then Some F64_NaN
      else case split_once CHR ''e'' l of
             None \<Rightarrow> parse_decimal neg l 0
           | Some (m, ex) \<Rightarrow>
               (case parse_exponent ex of None \<Rightarrow> None | Some e \<Rightarrow> parse_decimal neg m e))"

fun f64_less :: "f64 \<Rightarrow> f64 \<Rightarrow> bool" where
  "f64_less F64_NaN _ = False"
| "f64_less _ F64_NaN = False"
| "f64_less (F64_Inf a) (F64_Inf b) = (a \<and> \<not> b)"
| "f64_less (F64_Inf a) (F64_Fin _) = a"
| "f64_less (F64_Fin _) (F64_Inf b) = (\<not> b)"
| "f64_less (F64_Fin x) (F64_Fin y) = (x < y)"

fun f64_le :: "f64 \<Rightarrow> f64 \<Rightarrow> bool" where
  "f64_le F64_NaN _ = False"
| "f64_le _ F64_NaN = False"
| "f64_le a b = (\<not> f64_less b a)"

definition f64_or_zero :: "string \<Rightarrow> f64" where
  "f64_or_zero s = unwrap_or (F64_Fin 0) (parse_f64 s)"

section \<open>Conditions\<close>

text \<open>
  The glob loop of the \<open>matches\<close> operator: \<open>pos\<close> is the position up to which the text is consumed,
  here the text that is left; the first flag is the test \<open>i == 0\<close>.
\<close>

fun glob_parts :: "bool \<Rightarrow> string list \<Rightarrow> string \<Rightarrow> string option" where
  "glob_parts first [] left = Some left"
| "glob_parts first (part # parts) left =
     (if part = [] then glob_parts False parts left
      else case find_str part left of
             None \<Rightarrow> None
           | Some (skipped, left') \<Rightarrow>
               if first \<and> skipped \<noteq> [] then None else glob_parts False parts left')"

definition glob_match :: "string \<Rightarrow> string \<Rightarrow> bool" where
  "glob_match pat s =
     (if CHR ''*'' \<in> set pat
      then let parts = split_char CHR ''*'' pat in
           case glob_parts True parts s of
             None \<Rightarrow> False
           | Some left \<Rightarrow> \<not> (last parts \<noteq> [] \<and> left \<noteq> [])
      else s = pat)"

definition truthy :: "string \<Rightarrow> bool" where
  "truthy s = (s \<noteq> [] \<and> s \<noteq> ''false'' \<and> s \<noteq> ''0'' \<and> s \<noteq> ''null'')"

definition evaluate_condition ::
  "(json \<Rightarrow> string) \<Rightarrow> string \<Rightarrow> string \<Rightarrow> string \<Rightarrow> workflow_context \<Rightarrow> bool" where
  "evaluate_condition js expression compare_to operator ctx =
     (let resolved = trim (resolve_templates js expression ctx); compare = trim compare_to in
      if operator = ''eq'' then resolved = compare
      else if operator = ''neq'' then resolved \<noteq> compare
      else if operator = ''gt'' then f64_less (f64_or_zero compare) (f64_or_zero resolved)
      else if operator = ''lt'' then f64_less (f64_or_zero resolved) (f64_or_zero compare)
      else if operator = ''gte'' then f64_le (f64_or_zero compare) (f64_or_zero resolved)
      else if operator = ''lte'' then f64_le (f64_or_zero resolved) (f64_or_zero compare)
      else if operator = ''contains'' then contains compare resolved
      else if operator = ''matches'' then glob_match compare resolved
      else if operator = ''truthy'' then truthy resolved
      else resolved = compare)"
section \<open>Searching\<close>

lemma find_str_SomeD: "find_str pat s = Some (a, b) \<Longrightarrow> s = a @ pat @ b"
  by (induction s arbitrary: a) (auto split: if_splits simp: starts_with_iff)

lemma find_str_hit: "c \<notin> set a \<Longrightarrow> find_str (c # p) (a @ c # p @ b) = Some (a, b)"
  by (induction a) (auto simp: starts_with_def)

lemma find_str_miss: "c \<notin> set s \<Longrightarrow> find_str (c # p) s = None"
  by (induction s) (auto simp: starts_with_def)

lemma find_str_least:
  "\<exists>a b. find_str pat (x @ pat @ y) = Some (a, b) \<and> length a \<le> length x"
proof (induction x)
  case Nil
  have "starts_with pat (pat @ y)" by simp
  then show ?case by (cases "pat @ y") auto
next
  case (Cons c x)
  then show ?case by auto
qed

section \<open>What template resolution yields\<close>

text \<open>
  A text with references, as its literal pieces and the step and key of each reference, and the text
  that replaces every reference by its value at once.
\<close>

definition tmpl_text :: "(string \<times> string \<times> string) list \<Rightarrow> string \<Rightarrow> string" where
  "tmpl_text segs rst =
     concat (map (\<lambda>(l, s, k). l @ ''{{'' @ s @ ''.'' @ k @ ''}}'') segs) @ rst"

definition tmpl_value ::
  "(json \<Rightarrow> string) \<Rightarrow> workflow_context \<Rightarrow> (string \<times> string \<times> string) list \<Rightarrow> string" where
  "tmpl_value js ctx segs = concat (map (\<lambda>(l, s, k). l @ ctx_value js ctx s k) segs)"

text \<open>A text in which no reference opens and after which none can be completed: no \<open>{{\<close>, and no \<open>{\<close> at the end.\<close>

fun no_open :: "string \<Rightarrow> bool" where
  "no_open [] = True"
| "no_open [c] = (c \<noteq> CHR ''{'')"
| "no_open (c # d # s) = (\<not> (c = CHR ''{'' \<and> d = CHR ''{'') \<and> no_open (d # s))"

lemma no_open_free: "CHR ''{'' \<notin> set s \<Longrightarrow> no_open s"
  by (induction s rule: no_open.induct) auto

lemma no_open_append: "no_open a \<Longrightarrow> no_open b \<Longrightarrow> no_open (a @ b)"
proof (induction a rule: no_open.induct)
  case (2 c)
  then show ?case by (cases b) auto
qed auto

lemma find_open_hit: "no_open a \<Longrightarrow> find_str ''{{'' (a @ ''{{'' @ b) = Some (a, b)"
  by (induction a rule: no_open.induct) (auto simp: starts_with_def)

lemma find_open_miss: "no_open a \<Longrightarrow> find_str ''{{'' b = None \<Longrightarrow> find_str ''{{'' (a @ b) = None"
  by (induction a rule: no_open.induct) (auto simp: starts_with_def)

definition seg_ok :: "(json \<Rightarrow> string) \<Rightarrow> workflow_context \<Rightarrow> string \<times> string \<times> string \<Rightarrow> bool" where
  "seg_ok js ctx = (\<lambda>(l, s, k). no_open l \<and> CHR ''}'' \<notin> set s \<union> set k \<and>
     CHR ''.'' \<notin> set s \<and> no_open (ctx_value js ctx s k))"

lemma ws_dot [simp]: "\<not> is_ws CHR ''.''"
  by code_simp

lemma dropWhile_append_stop: "\<not> p c \<Longrightarrow> dropWhile p (xs @ c # ys) = dropWhile p xs @ c # ys"
  by (induction xs) auto

lemma trim_around_dot:
  "trim (s @ CHR ''.'' # k) = dropWhile is_ws s @ CHR ''.'' # rev (dropWhile is_ws (rev k))"
  by (simp add: trim_def dropWhile_append_stop)

lemma trim_dropWhile [simp]: "trim (dropWhile is_ws s) = trim s"
  by (simp add: trim_def dropWhile_idem)

lemma trim_rev_dropWhile [simp]: "trim (rev (dropWhile is_ws (rev k))) = trim k"
proof -
  have "dropWhile is_ws (rev (dropWhile is_ws (rev (dropWhile is_ws k)))) =
      rev (dropWhile is_ws (rev (dropWhile is_ws k)))" by (rule dropWhile_rev_dropWhile)
  moreover have "dropWhile p (rev (dropWhile p (rev k))) = rev (dropWhile p (rev (dropWhile p k)))"
    for p :: "char \<Rightarrow> bool"
  proof (cases "list_all p k")
    case True
    then have none: "dropWhile p k = []" "dropWhile p (rev k) = []" by (auto simp: list_all_iff)
    show ?thesis unfolding none by simp
  next
    case False
    then have "\<exists>c \<in> set k. \<not> p c" by (auto simp: list_all_iff)
    from split_list_first_prop [OF this] obtain a c b
      where k: "k = a @ c # b" "\<not> p c" and a: "\<forall>y \<in> set a. \<not> \<not> p y" by blast
    from a have none: "dropWhile p a = []" by auto
    from k(2) show ?thesis by (simp add: k(1) dropWhile_append_stop none del: dropWhile_eq_Nil_conv)
  qed
  ultimately show ?thesis by (simp add: trim_def dropWhile_idem)
qed

lemma ctx_value_trim:
  "ctx_value js ctx (dropWhile is_ws s) (rev (dropWhile is_ws (rev k))) = ctx_value js ctx s k"
  unfolding ctx_value_def trim_dropWhile trim_rev_dropWhile ..

lemma resolve_one:
  assumes "no_open a" "CHR ''}'' \<notin> set s \<union> set k" "CHR ''.'' \<notin> set s"
  shows "resolve_loop (Suc n) js ctx (a @ ''{{'' @ s @ ''.'' @ k @ ''}}'' @ b) =
    resolve_loop n js ctx (a @ ctx_value js ctx s k @ b)"
proof -
  have open_at: "find_str ''{{'' (a @ ''{{'' @ s @ ''.'' @ k @ ''}}'' @ b) =
      Some (a, s @ ''.'' @ k @ ''}}'' @ b)"
    by (rule find_open_hit [OF assms(1)])
  have close_at: "find_str ''}}'' ((s @ ''.'' @ k) @ CHR ''}'' # ''}'' @ b) = Some (s @ ''.'' @ k, b)"
    by (rule find_str_hit) (use assms in simp)
  have "CHR ''.'' \<notin> set (dropWhile is_ws s)" using assms(3) set_dropWhileD by metis
  then have "split_once CHR ''.'' (trim (s @ ''.'' @ k)) =
      Some (dropWhile is_ws s, rev (dropWhile is_ws (rev k)))"
    by (simp add: trim_around_dot split_once_append)
  with open_at close_at show ?thesis
    by (simp add: Let_def ctx_value_trim)
qed

lemma resolve_loop_segs:
  assumes "no_open p" "list_all (seg_ok js ctx) segs" "find_str ''{{'' rst = None"
  shows "resolve_loop n js ctx (p @ tmpl_text segs rst) =
    p @ tmpl_value js ctx (take n segs) @ tmpl_text (drop n segs) rst"
  using assms
proof (induction n arbitrary: p segs)
  case 0
  then show ?case by (simp add: tmpl_value_def)
next
  case (Suc n)
  show ?case
  proof (cases segs)
    case Nil
    with Suc.prems show ?thesis by (simp add: tmpl_text_def tmpl_value_def find_open_miss)
  next
    case (Cons seg rest)
    obtain l s k where seg: "seg = (l, s, k)" by (cases seg)
    from Suc.prems Cons seg have ok: "seg_ok js ctx (l, s, k)" "list_all (seg_ok js ctx) rest" by auto
    have "p @ tmpl_text segs rst = (p @ l) @ ''{{'' @ s @ ''.'' @ k @ ''}}'' @ tmpl_text rest rst"
      by (simp add: Cons seg tmpl_text_def)
    then have "resolve_loop (Suc n) js ctx (p @ tmpl_text segs rst) =
        resolve_loop n js ctx ((p @ l) @ ctx_value js ctx s k @ tmpl_text rest rst)"
      using ok(1) Suc.prems(1)
      by (simp only:) (rule resolve_one, auto simp: seg_ok_def no_open_append)
    also have "\<dots> = (p @ l @ ctx_value js ctx s k) @ tmpl_value js ctx (take n rest) @
        tmpl_text (drop n rest) rst"
      using Suc.IH [of "p @ l @ ctx_value js ctx s k" rest] Suc.prems ok by (simp add: seg_ok_def no_open_append)
    finally show ?thesis by (simp add: Cons seg tmpl_value_def)
  qed
qed

lemma resolve_no_braces: "CHR ''{'' \<notin> set s \<Longrightarrow> resolve_templates js s ctx = s"
  using resolve_loop_segs [of s js ctx "[]" "[]" 64] no_open_free [of s]
  by (simp add: resolve_templates_def tmpl_text_def tmpl_value_def)

text \<open>
  C31 (template_resolution). A text with references to step outputs is resolved by replacing, from left
  to right, the first 64 references by their values (the empty text where the step or the key does
  not exist, the JSON text of a value that is not a string) and leaving the rest of the text as it is; spaces around a
  step name or a key do not matter. It holds where no value and no literal piece between the references contains
  two opening braces in a row or ends in one, and step names have no dot and names and keys no closing
  brace. (A value that contains a reference is scanned again, so the result is another one there.)
\<close>

theorem template_resolution:
  assumes "list_all (seg_ok js ctx) segs" "find_str ''{{'' rst = None"
  shows "resolve_templates js (tmpl_text segs rst) ctx =
    tmpl_value js ctx (take 64 segs) @ tmpl_text (drop 64 segs) rst"
  using resolve_loop_segs [of "[]" js ctx segs rst 64] assms by (simp add: resolve_templates_def)

definition disk_ctx :: workflow_context where
  "disk_ctx = \<lparr>step_outputs = [(''Disk'',
     \<lparr>so_text = ''ok'', so_data = [(''mount'', JString ''{/var}''), (''over'', JBool True)]\<rparr>)]\<rparr>"

definition plain_js :: "json \<Rightarrow> string" where
  "plain_js v = (case v of JBool True \<Rightarrow> ''true'' | JBool False \<Rightarrow> ''false'' | JNumber n \<Rightarrow> n
     | _ \<Rightarrow> ''null'')"

theorem template_resolution_witness:
  "resolve_templates plain_js
     (tmpl_text [(''at '', '' Disk '', ''mount''), (''='', ''Disk'', '' over ''), ('' '', ''X'', ''x'')] ''!'')
     disk_ctx = ''at {/var}=true !''"
proof -
  have vals: "ctx_value plain_js disk_ctx '' Disk '' ''mount'' = ''{/var}''"
    "ctx_value plain_js disk_ctx ''Disk'' '' over '' = ''true''"
    "ctx_value plain_js disk_ctx ''X'' ''x'' = []"
    by (simp_all add: ctx_value_def disk_ctx_def plain_js_def trim_def is_ws_def)
  then have ok: "list_all (seg_ok plain_js disk_ctx)
      [(''at '', '' Disk '', ''mount''), (''='', ''Disk'', '' over ''), ('' '', ''X'', ''x'')]"
    by (simp add: seg_ok_def)
  show ?thesis
    using template_resolution [OF ok, of "''!''"] vals by (simp add: tmpl_text_def tmpl_value_def starts_with_def)
qed

end
