(* ===== verification/Flow_Cond.thy ===== *)
theory Flow_Cond
  imports Flow_Text
begin

text \<open>
  WolfFlow, part 2: what the conditions of \<^verbatim>\<open>evaluate_condition\<close> decide. \<open>glob_lang\<close> is the meaning of
  a pattern with stars; the search of the code is greedy, so it accepts only texts of the pattern, and
  all of them when the pattern ends in a star. Whole numbers up to \<open>2 ^ 53\<close> are doubles, so they
  compare exactly.
\<close>

section \<open>Glob patterns\<close>

primrec glob_from :: "string list \<Rightarrow> string \<Rightarrow> bool" where
  "glob_from [] s = (s = [])"
| "glob_from (p # ps) s = (\<exists>x r. s = x @ p @ r \<and> glob_from ps r)"

definition glob_lang :: "string \<Rightarrow> string \<Rightarrow> bool" where
  "glob_lang pat s = (case split_char CHR ''*'' pat of
      [] \<Rightarrow> False | p # ps \<Rightarrow> \<exists>r. s = p @ r \<and> glob_from ps r)"

lemma glob_from_skip: "glob_from ps s \<Longrightarrow> glob_from ([] # ps) s"
  by (metis append_Nil glob_from.simps(2))

lemma glob_parts_sound:
  assumes "glob_parts False ps left = Some rest" "ps \<noteq> []" "last ps \<noteq> [] \<longrightarrow> rest = []"
  shows "glob_from ps left"
  using assms
proof (induction ps arbitrary: left)
  case (Cons p ps)
  show ?case
  proof (cases "p = []")
    case True
    show ?thesis
    proof (cases "ps = []")
      case True
      with \<open>p = []\<close> show ?thesis by (auto intro: exI [of _ left])
    next
      case False
      with Cons True have "glob_from ps left" by auto
      with True show ?thesis using glob_from_skip by blast
    qed
  next
    case False
    with Cons.prems obtain a b where f: "find_str p left = Some (a, b)"
        and g: "glob_parts False ps b = Some rest"
      by (auto split: option.splits)
    from find_str_SomeD [OF f] have left: "left = a @ p @ b" .
    have "glob_from ps b"
    proof (cases "ps = []")
      case True
      with g Cons.prems False show ?thesis by simp
    next
      case False
      with Cons.IH [OF g] Cons.prems show ?thesis by simp
    qed
    with left show ?thesis by auto
  qed
qed simp

lemma glob_parts_complete:
  assumes "glob_from ps left" "ps \<noteq> [] \<longrightarrow> last ps = []"
  shows "\<exists>rest. glob_parts False ps (y @ left) = Some rest"
  using assms
proof (induction ps arbitrary: left y)
  case (Cons p ps)
  then obtain x r where left: "left = x @ p @ r" and r: "glob_from ps r" by auto
  from Cons.prems have last: "ps \<noteq> [] \<longrightarrow> last ps = []" by auto
  show ?case
  proof (cases "p = []")
    case True
    with Cons.IH [OF r last, of "y @ x"] left show ?thesis by simp
  next
    case False
    from find_str_least [of p "y @ x" r] obtain a b
      where f: "find_str p ((y @ x) @ p @ r) = Some (a, b)" and le: "length a \<le> length (y @ x)"
      by blast
    from find_str_SomeD [OF f] have eq: "((y @ x) @ p) @ r = (a @ p) @ b" by simp
    have "b = drop (length (a @ p)) (((y @ x) @ p) @ r)" unfolding eq by simp
    also have "\<dots> = drop (length (a @ p)) ((y @ x) @ p) @ r" using le by simp
    finally obtain z where "b = z @ r" ..
    with Cons.IH [OF r last, of z] f False left show ?thesis by simp
  qed
qed simp

lemma glob_parts_first:
  assumes "s = p @ r"
  shows "glob_parts True (p # ps) s = glob_parts False ps r"
proof (cases "p = []")
  case False
  from find_str_least [of p "[]" r] find_str_SomeD have "find_str p (p @ r) = Some ([], r)"
    by fastforce
  with False assms show ?thesis by simp
qed (use assms in simp)

lemma glob_parts_first_prefix:
  assumes "glob_parts True (p # ps) s = Some rest"
  shows "\<exists>r. s = p @ r"
  using assms by (auto split: if_splits option.splits dest!: find_str_SomeD)

lemma split_char_single: "split_char c s = [p] \<Longrightarrow> c \<notin> set s"
  by (induction s arbitrary: p) (auto split: if_splits list.splits)

lemma glob_match_lang:
  "glob_match pat s \<Longrightarrow> glob_lang pat s"
  "last (split_char CHR ''*'' pat) = [] \<Longrightarrow> glob_lang pat s \<Longrightarrow> glob_match pat s"
proof -
  obtain p ps where parts: "split_char CHR ''*'' pat = p # ps" by (metis neq_Nil_conv split_char_neq_Nil)
  show "glob_lang pat s" if m: "glob_match pat s"
  proof (cases "CHR ''*'' \<in> set pat")
    case False
    with m show ?thesis by (simp add: glob_match_def glob_lang_def split_char_no_sep)
  next
    case True
    with m parts obtain rest where g: "glob_parts True (p # ps) s = Some rest"
        and l: "last (p # ps) \<noteq> [] \<longrightarrow> rest = []"
      by (auto simp: glob_match_def Let_def split: option.splits)
    from glob_parts_first_prefix [OF g] obtain r where s: "s = p @ r" ..
    have "ps \<noteq> []" using parts True by (metis split_char_single)
    with glob_parts_sound [of ps r rest] g l s have "glob_from ps r"
      by (simp add: glob_parts_first del: glob_parts.simps)
    with s parts show ?thesis by (auto simp: glob_lang_def)
  qed
  show "glob_match pat s" if last: "last (split_char CHR ''*'' pat) = []" and m: "glob_lang pat s"
  proof (cases "CHR ''*'' \<in> set pat")
    case False
    with m show ?thesis by (simp add: glob_match_def glob_lang_def split_char_no_sep)
  next
    case True
    from m parts obtain r where s: "s = p @ r" and r: "glob_from ps r" by (auto simp: glob_lang_def)
    have "ps \<noteq> [] \<longrightarrow> last ps = []" using last parts by (auto split: if_splits)
    from glob_parts_complete [OF r this, of "[]"] obtain rest where "glob_parts False ps r = Some rest"
      by auto
    with s parts last True show ?thesis
      by (simp add: glob_match_def Let_def glob_parts_first del: glob_parts.simps)
  qed
qed

text \<open>
  The \<open>matches\<close> operator accepts a text only if the text is one the pattern
  describes: the literal pieces in order, the first at the start, the last at the end, anything
  in place of the stars. When the pattern ends in a star it accepts every such text.
\<close>

theorem glob_condition_sound:
  "(glob_match pat s \<longrightarrow> glob_lang pat s) \<and>
   (last (split_char CHR ''*'' pat) = [] \<longrightarrow> (glob_match pat s \<longleftrightarrow> glob_lang pat s))"
  using glob_match_lang [of pat s] by blast

theorem glob_condition_sound_witness:
  "glob_lang ''node-*-db*'' ''node-7-db-main'' \<and> \<not> glob_lang ''node-*-db*'' ''edge-7-db''"
proof -
  have eval: "glob_match ''node-*-db*'' ''node-7-db-main''" "\<not> glob_match ''node-*-db*'' ''edge-7-db''"
    "last (split_char CHR ''*'' ''node-*-db*'') = []" by code_simp+
  with glob_condition_sound [of "''node-*-db*''" "''node-7-db-main''"]
    glob_condition_sound [of "''node-*-db*''" "''edge-7-db''"] show ?thesis by blast
qed

text \<open>
  With a pattern that ends in a literal piece the greedy search stops at
  the first occurrence of that piece, so a text in which the piece also occurs earlier is rejected
  although the pattern describes it: \<open>*.log\<close> does not match \<open>a.log.log\<close>.
\<close>

theorem glob_condition_incomplete:
  "glob_lang ''*.log'' ''a.log.log'' \<and> \<not> glob_match ''*.log'' ''a.log.log''"
proof -
  have "split_char CHR ''*'' ''*.log'' = [[], ''.log'']" "\<not> glob_match ''*.log'' ''a.log.log''"
    by code_simp+
  moreover have "glob_from [''.log''] ''a.log.log''" by (auto intro!: exI [of _ "''a.log''"])
  ultimately show ?thesis by (simp add: glob_lang_def del: glob_from.simps)
qed
section \<open>Numbers\<close>

lemma excess_bits_le: "t < 2 ^ (53 + k) \<Longrightarrow> excess_bits t \<le> k"
proof (induction k arbitrary: t)
  case 0
  then show ?case by (simp add: excess_bits.simps [of t])
next
  case (Suc k)
  then have "t < 2 ^ (53 + k) * 2" by (simp only: add_Suc_right power_Suc2)
  then have "t div 2 < 2 ^ (53 + k)" by (rule less_mult_imp_div_less)
  from Suc.IH [OF this] show ?case by (simp add: excess_bits.simps [of t])
qed

lemma round_half_even_exact: "0 < d \<Longrightarrow> d dvd n \<Longrightarrow> round_half_even n d = n div d"
  by (simp add: round_half_even_def)

lemma f64_units_exact:
  assumes "n < 2 ^ 53"
  shows "f64_units n 1 = n * 2 ^ 1074"
proof -
  let ?s = "excess_bits (n * 2 ^ 1074)"
  have "n * 2 ^ 1074 < 2 ^ 53 * 2 ^ 1074"
    by (rule mult_strict_right_mono [OF assms]) (rule zero_less_power, simp)
  then have "n * 2 ^ 1074 < 2 ^ (53 + 1074)" by (simp only: power_add)
  then have "?s \<le> 1074" by (rule excess_bits_le)
  then have dvd: "2 ^ ?s dvd n * 2 ^ 1074" by (simp only: le_imp_power_dvd dvd_mult)
  have "f64_units n 1 = round_half_even (n * 2 ^ 1074) (2 ^ ?s) * 2 ^ ?s"
    unfolding f64_units_def Let_def by (simp only: div_by_1 mult_1)
  also have "\<dots> = n * 2 ^ 1074"
    unfolding round_half_even_exact [OF zero_less_power [OF zero_less_numeral] dvd]
    using dvd by (rule dvd_div_mult_self)
  finally show ?thesis .
qed

lemma f64_of_small: "n < 2 ^ 53 \<Longrightarrow> f64_of_ratio False n 1 = F64_Fin (int (n * 2 ^ 1074))"
proof -
  assume n: "n < 2 ^ 53"
  have "n * 2 ^ 1074 < 2 ^ 53 * 2 ^ 1074"
    by (rule mult_strict_right_mono [OF n]) (rule zero_less_power, simp)
  also have "\<dots> = 2 ^ (53 + 1074)" by (simp only: power_add)
  also have "\<dots> < (2 :: nat) ^ 2098" by (rule power_strict_increasing) simp_all
  finally have "\<not> 2 ^ 2098 \<le> n * 2 ^ 1074" by (simp only: not_le)
  then show ?thesis
    unfolding f64_of_ratio_def Let_def f64_units_exact [OF n] by (simp only: if_False if_cancel)
qed

lemma digit_facts:
  assumes "is_ascii_digit c"
  shows "to_ascii_lower c = c" "c \<noteq> CHR ''-''" "c \<noteq> CHR ''+''" "c \<noteq> CHR ''i''" "c \<noteq> CHR ''n''"
    "c \<noteq> CHR ''e''" "c \<noteq> CHR ''.''" "c \<noteq> CHR ''{''" "\<not> is_ws c"
  using assms by (auto simp: to_ascii_lower_def is_ascii_upper_def is_ascii_digit_def is_ws_def)

lemma parse_f64_digits:
  assumes ds: "list_all is_ascii_digit ds" "ds \<noteq> []" and small: "dec_val ds < 2 ^ 53"
  shows "parse_f64 ds = Some (F64_Fin (int (dec_val ds * 2 ^ 1074)))"
proof -
  obtain c cs where c: "ds = c # cs" "is_ascii_digit c" using ds by (cases ds) auto
  have sign: "strip_sign ds = (False, ds)"
    using digit_facts(2,3) [OF c(2)] by (simp add: strip_sign_def c(1) split: char.splits bool.splits)
  have lower: "map to_ascii_lower ds = ds"
    using ds(1) digit_facts(1) by (auto simp: list_all_iff intro: map_idI)
  have names: "ds \<noteq> ''inf''" "ds \<noteq> ''infinity''" "ds \<noteq> ''nan''"
    using digit_facts(4,5) [OF c(2)] c(1) by auto
  have "CHR ''e'' \<notin> set ds" "CHR ''.'' \<notin> set ds" using ds(1) digit_facts(6,7) by (auto simp: list_all_iff)
  then have "split_once CHR ''e'' ds = None" "split_once CHR ''.'' ds = None" by auto
  then show ?thesis
    using ds small names
    by (simp add: parse_f64_def sign lower parse_decimal_def f64_of_small [unfolded One_nat_def]
        del: split_once_None_iff)
qed

lemma trim_digits: "list_all is_ascii_digit ds \<Longrightarrow> trim ds = ds"
  by (rule trim_no_ws) (auto simp: list_all_iff digit_facts(9))

lemma f64_or_zero_nat:
  "n < 2 ^ 53 \<Longrightarrow> f64_or_zero (show_nat n) = F64_Fin (int (n * 2 ^ 1074))"
  by (simp add: f64_or_zero_def parse_f64_digits show_nat_digits del: show_nat.simps)

text \<open>
  The numeric operators compare whole numbers below \<open>2 ^ 53\<close> exactly:
  on their decimal texts \<open>gt\<close>, \<open>lt\<close>, \<open>gte\<close> and \<open>lte\<close> are the order of the numbers.
\<close>

theorem numeric_condition_exact:
  assumes "a < 2 ^ 53" "b < 2 ^ 53"
  shows "(evaluate_condition js (show_nat a) (show_nat b) ''gt'' ctx \<longleftrightarrow> b < a) \<and>
    (evaluate_condition js (show_nat a) (show_nat b) ''lt'' ctx \<longleftrightarrow> a < b) \<and>
    (evaluate_condition js (show_nat a) (show_nat b) ''gte'' ctx \<longleftrightarrow> b \<le> a) \<and>
    (evaluate_condition js (show_nat a) (show_nat b) ''lte'' ctx \<longleftrightarrow> a \<le> b)"
proof -
  have "CHR ''{'' \<notin> set (show_nat a)"
    using show_nat_digits [of a] digit_facts(8) by (auto simp: list_all_iff)
  then have res: "resolve_templates js (show_nat a) ctx = show_nat a" by (rule resolve_no_braces)
  have scale: "int (x * 2 ^ 1074) < int (y * 2 ^ 1074) \<longleftrightarrow> x < y" for x y :: nat
    by (simp only: of_nat_less_iff mult_less_cancel2 zero_less_power [OF zero_less_numeral] simp_thms)
  show ?thesis
    unfolding evaluate_condition_def Let_def res trim_digits [OF show_nat_digits]
      f64_or_zero_nat [OF assms(1)] f64_or_zero_nat [OF assms(2)]
    by (simp add: scale not_less del: of_nat_mult of_nat_power)
qed

theorem numeric_condition_exact_witness:
  "evaluate_condition plain_js (show_nat 500) (show_nat 72) ''gt'' disk_ctx"
  using numeric_condition_exact [of 500 72 plain_js disk_ctx] by simp

end
