(* ===== verification/Flow_Cron.thy ===== *)
theory Flow_Cron
  imports Rust_Prelude
begin

text \<open>
  WolfFlow, part 3 (\<^verbatim>\<open>src/wolfflow/mod.rs\<close>): the matcher of five-field schedules. A point in time is
  the record of what the calls on chrono's date and time return. The abstract side is the syntax of
  schedules, \<open>cron_seg\<close>, with its printed form and its meaning; the matcher run on the printed form
  decides the meaning.
\<close>

section \<open>The matcher\<close>

record naive_dt =
  dt_minute :: nat
  dt_hour :: nat
  dt_day :: nat
  dt_month :: nat
  dt_weekday :: nat

definition dt_ok :: "naive_dt \<Rightarrow> bool" where
  "dt_ok t = (dt_minute t \<le> 59 \<and> dt_hour t \<le> 23 \<and> 1 \<le> dt_day t \<and> dt_day t \<le> 31 \<and>
     1 \<le> dt_month t \<and> dt_month t \<le> 12 \<and> dt_weekday t \<le> 6)"

definition parse_u32 :: "string \<Rightarrow> nat option" where
  "parse_u32 = parse_uint (2 ^ 32 - 1)"

definition sunday_zero :: "nat \<Rightarrow> nat" where
  "sunday_zero v = (if v = 7 then 0 else v)"

definition cron_range :: "string \<Rightarrow> (nat \<times> nat) option" where
  "cron_range s = (case split_once CHR ''-'' s of
      None \<Rightarrow> None
    | Some (lo, hi) \<Rightarrow>
        (case (parse_u32 lo, parse_u32 hi) of
           (Some l, Some h) \<Rightarrow> Some (l, h)
         | _ \<Rightarrow> None))"

definition single_field_matches :: "string \<Rightarrow> nat \<Rightarrow> nat \<Rightarrow> nat \<Rightarrow> bool" where
  "single_field_matches part value minv maxv =
     (case split_once CHR ''/'' part of
        Some (range_part, step_str) \<Rightarrow>
          (case parse_u32 step_str of
             None \<Rightarrow> False
           | Some step \<Rightarrow>
               if step = 0 then False
               else case (if range_part = ''*'' then Some (minv, maxv) else cron_range range_part) of
                      None \<Rightarrow> False
                    | Some (lo, hi) \<Rightarrow>
                        if value < lo \<or> hi < value then False else (value - lo) mod step = 0)
      | None \<Rightarrow>
          if part = ''*'' then True
          else if CHR ''-'' \<in> set part
          then (case cron_range part of None \<Rightarrow> False | Some (lo, hi) \<Rightarrow> lo \<le> value \<and> value \<le> hi)
          else (case parse_u32 part of
                  None \<Rightarrow> False
                | Some v \<Rightarrow>
                    if minv = 0 \<and> maxv = 7 then sunday_zero value = sunday_zero v else value = v))"

definition field_matches :: "string \<Rightarrow> nat \<Rightarrow> nat \<Rightarrow> nat \<Rightarrow> bool" where
  "field_matches field value minv maxv =
     list_ex (\<lambda>part. single_field_matches (trim part) value minv maxv) (split_char CHR '','' field)"

definition cron_matches :: "string \<Rightarrow> naive_dt \<Rightarrow> bool" where
  "cron_matches expr now =
     (case split_whitespace expr of
        [f0, f1, f2, f3, f4] \<Rightarrow>
          field_matches f0 (dt_minute now) 0 59 \<and>
          field_matches f1 (dt_hour now) 0 23 \<and>
          field_matches f2 (dt_day now) 1 31 \<and>
          field_matches f3 (dt_month now) 1 12 \<and>
          field_matches f4 (dt_weekday now) 0 7
      | _ \<Rightarrow> False)"

section \<open>Schedules and their meaning\<close>

datatype cron_seg =
    Every
  | At nat
  | Between nat nat
  | EveryStep nat
  | BetweenStep nat nat nat

fun seg_text :: "cron_seg \<Rightarrow> string" where
  "seg_text Every = ''*''"
| "seg_text (At n) = show_nat n"
| "seg_text (Between a b) = show_nat a @ ''-'' @ show_nat b"
| "seg_text (EveryStep n) = ''*/'' @ show_nat n"
| "seg_text (BetweenStep a b n) = show_nat a @ ''-'' @ show_nat b @ ''/'' @ show_nat n"

fun seg_nums :: "cron_seg \<Rightarrow> nat list" where
  "seg_nums Every = []"
| "seg_nums (At n) = [n]"
| "seg_nums (Between a b) = [a, b]"
| "seg_nums (EveryStep n) = [n]"
| "seg_nums (BetweenStep a b n) = [a, b, n]"

definition u32_seg :: "cron_seg \<Rightarrow> bool" where
  "u32_seg g = list_all (\<lambda>n. n < 2 ^ 32) (seg_nums g)"

text \<open>
  The numbers an entry names in a field with values from \<open>lo\<close> to \<open>hi\<close>. In the last field the
  numbers 0 and 7 are both Sunday.
\<close>

fun names :: "nat \<Rightarrow> nat \<Rightarrow> cron_seg \<Rightarrow> nat set" where
  "names lo hi Every = {lo..hi}"
| "names lo hi (At n) = {n}"
| "names lo hi (Between a b) = {a..b}"
| "names lo hi (EveryStep n) = {v. n \<noteq> 0 \<and> v \<in> {lo..hi} \<and> n dvd v - lo}"
| "names lo hi (BetweenStep a b n) = {v. n \<noteq> 0 \<and> v \<in> {a..b} \<and> n dvd v - a}"

definition field_names :: "nat \<Rightarrow> nat \<Rightarrow> nat \<Rightarrow> cron_seg list \<Rightarrow> bool" where
  "field_names lo hi v gs = (\<exists>g \<in> set gs. v \<in> names lo hi g)"

definition weekday_names :: "nat \<Rightarrow> cron_seg list \<Rightarrow> bool" where
  "weekday_names v gs = (\<exists>g \<in> set gs. v \<in> names 0 7 g \<or> v = 0 \<and> 7 \<in> names 0 7 g)"

text \<open>A range of weekdays that ends at 7 or later but does not start at 0.\<close>

fun wraps_week :: "cron_seg \<Rightarrow> bool" where
  "wraps_week (Between a b) = (1 \<le> a \<and> 7 \<le> b)"
| "wraps_week (BetweenStep a b n) = (1 \<le> a \<and> 7 \<le> b)"
| "wraps_week g = False"

definition time_ok :: "naive_dt \<Rightarrow> bool" where
  "time_ok t = (dt_minute t \<le> 59 \<and> dt_hour t \<le> 23 \<and> dt_day t \<in> {1..31} \<and> dt_month t \<in> {1..12} \<and> dt_weekday t \<le> 6)"

text \<open>What the matcher computes for one entry; it agrees with the meaning except for ranges that wrap.\<close>

fun seg_holds :: "nat \<Rightarrow> nat \<Rightarrow> nat \<Rightarrow> cron_seg \<Rightarrow> bool" where
  "seg_holds lo hi v Every = True"
| "seg_holds lo hi v (At n) =
     (v = n \<or> (lo = 0 \<and> hi = 7 \<and> {v, n} = {0, 7}))"
| "seg_holds lo hi v (Between a b) = (v \<in> {a..b})"
| "seg_holds lo hi v (EveryStep n) = (n \<noteq> 0 \<and> v \<in> {lo..hi} \<and> n dvd v - lo)"
| "seg_holds lo hi v (BetweenStep a b n) = (n \<noteq> 0 \<and> v \<in> {a..b} \<and> n dvd v - a)"

definition field_text :: "cron_seg list \<Rightarrow> string" where
  "field_text gs = join '','' (map seg_text gs)"

definition cron_text :: "cron_seg list list \<Rightarrow> string" where
  "cron_text fs = join '' '' (map field_text fs)"

section \<open>The matcher decides the meaning\<close>

lemma show_nat_chars:
  assumes "c \<in> set (show_nat n)" shows "is_ascii_digit c"
  using show_nat_digits [of n] assms by (simp add: list_all_iff del: show_nat.simps)

lemma show_nat_no [simp]:
  "CHR ''-'' \<notin> set (show_nat n)" "CHR ''/'' \<notin> set (show_nat n)" "CHR ''*'' \<notin> set (show_nat n)"
  "CHR '','' \<notin> set (show_nat n)"
  by (auto dest!: show_nat_chars simp: is_ascii_digit_def simp del: show_nat.simps)

lemma parse_u32_show [simp]: "n < 2 ^ 32 \<Longrightarrow> parse_u32 (show_nat n) = Some n"
  by (simp add: parse_u32_def parse_uint_show_nat del: show_nat.simps)

lemma show_nat_not_star [simp]: "show_nat n \<noteq> ''*''" "show_nat a @ CHR ''-'' # b \<noteq> ''*''"
  using show_nat_no(3) [of n] show_nat_no(3) [of a] show_nat_neq_Nil [of a]
  by (auto simp del: show_nat.simps show_nat_no simp: append_eq_Cons_conv)

lemma cron_range_text [simp]:
  "a < 2 ^ 32 \<Longrightarrow> b < 2 ^ 32 \<Longrightarrow> cron_range (show_nat a @ CHR ''-'' # show_nat b) = Some (a, b)"
  by (simp add: cron_range_def split_once_append del: show_nat.simps)

lemma split_once_none [simp]: "c \<notin> set s \<Longrightarrow> split_once c s = None"
  by simp

lemma single_field_text:
  assumes "u32_seg g"
  shows "single_field_matches (seg_text g) v lo hi \<longleftrightarrow> seg_holds lo hi v g"
proof (cases g)
  case Every
  have "split_once CHR ''/'' ''*'' = None" by simp
  with Every show ?thesis by (simp add: single_field_matches_def)
next
  case (At n)
  have "split_once CHR ''/'' (show_nat n) = None" by (simp del: show_nat.simps)
  with At assms show ?thesis
    by (auto simp: single_field_matches_def u32_seg_def sunday_zero_def doubleton_eq_iff
        simp del: show_nat.simps split_once_None_iff)
next
  case (Between a b)
  have "split_once CHR ''/'' (show_nat a @ CHR ''-'' # show_nat b) = None" by (simp del: show_nat.simps)
  with Between assms show ?thesis
    by (simp add: single_field_matches_def u32_seg_def del: show_nat.simps split_once_None_iff)
next
  case (EveryStep n)
  have "split_once CHR ''/'' (''*'' @ CHR ''/'' # show_nat n) = Some (''*'', show_nat n)"
    by (rule split_once_append) simp
  with EveryStep assms show ?thesis
    by (auto simp: single_field_matches_def u32_seg_def mod_eq_0_iff_dvd simp del: show_nat.simps)
next
  case (BetweenStep a b n)
  have "split_once CHR ''/'' ((show_nat a @ CHR ''-'' # show_nat b) @ CHR ''/'' # show_nat n) =
      Some (show_nat a @ CHR ''-'' # show_nat b, show_nat n)"
    by (rule split_once_append) (simp del: show_nat.simps)
  with BetweenStep assms show ?thesis
    by (auto simp: single_field_matches_def u32_seg_def mod_eq_0_iff_dvd simp del: show_nat.simps)
qed

lemma seg_text_chars:
  assumes "c \<in> set (seg_text g)"
  shows "is_ascii_digit c \<or> c = CHR ''*'' \<or> c = CHR ''-'' \<or> c = CHR ''/''"
  using assms by (cases g) (auto dest: show_nat_chars simp del: show_nat.simps)

lemma seg_text_clean:
  "CHR '','' \<notin> set (seg_text g)" "\<forall>c \<in> set (seg_text g). \<not> is_ws c" "seg_text g \<noteq> []"
proof -
  show "CHR '','' \<notin> set (seg_text g)"
    by (auto dest!: seg_text_chars simp: is_ascii_digit_def)
  show "\<forall>c \<in> set (seg_text g). \<not> is_ws c"
    by (auto dest!: seg_text_chars simp: is_ascii_digit_def is_ws_def)
  show "seg_text g \<noteq> []" by (cases g) (auto simp del: show_nat.simps)
qed

lemma split_by_clean: "\<forall>x \<in> set a. \<not> p x \<Longrightarrow> split_by p a = [a]"
  by (induction a) auto

lemma split_by_join:
  assumes "ws \<noteq> []" "\<forall>w \<in> set ws. \<forall>x \<in> set w. \<not> p x" "p c"
  shows "split_by p (join [c] ws) = ws"
  using assms by (induction "[c]" ws rule: join.induct) (auto simp: split_by_clean split_by_append list_all_iff)

lemma set_join: "set (join sep ps) \<subseteq> set sep \<union> \<Union> (set ` set ps)"
  by (induction sep ps rule: join.induct) auto

lemma join_neq_Nil: "ps \<noteq> [] \<Longrightarrow> \<forall>p \<in> set ps. p \<noteq> [] \<Longrightarrow> join sep ps \<noteq> []"
  by (induction sep ps rule: join.induct) auto

lemma field_text_clean:
  assumes "gs \<noteq> []"
  shows "\<forall>c \<in> set (field_text gs). \<not> is_ws c" "field_text gs \<noteq> []"
proof -
  have "\<not> is_ws CHR '',''" by code_simp
  then show "\<forall>c \<in> set (field_text gs). \<not> is_ws c"
    using set_join [of "'',''" "map seg_text gs"] seg_text_clean(2) by (fastforce simp: field_text_def)
  show "field_text gs \<noteq> []" using assms seg_text_clean(3) by (simp add: field_text_def join_neq_Nil)
qed

lemma field_matches_text:
  assumes "gs \<noteq> []" "list_all u32_seg gs"
  shows "field_matches (field_text gs) v lo hi \<longleftrightarrow> list_ex (seg_holds lo hi v) gs"
proof -
  have "split_char CHR '','' (field_text gs) = map seg_text gs"
    unfolding field_text_def by (rule split_char_join) (use assms seg_text_clean(1) in auto)
  then show ?thesis
    using assms(2)
    by (auto simp: field_matches_def list_ex_iff list_all_iff trim_no_ws [OF seg_text_clean(2)]
        single_field_text)
qed

lemma split_whitespace_cron:
  assumes "fs \<noteq> []" "list_all (\<lambda>gs. gs \<noteq> []) fs"
  shows "split_whitespace (cron_text fs) = map field_text fs"
proof -
  have "is_ws CHR '' ''" by code_simp
  then have "split_by is_ws (cron_text fs) = map field_text fs"
    unfolding cron_text_def
    by (intro split_by_join) (use assms field_text_clean(1) in \<open>auto simp: list_all_iff\<close>)
  then show ?thesis
    using assms(2) field_text_clean(2)
    by (auto simp: split_whitespace_def list_all_iff intro!: filter_True)
qed

lemma cron_matches_text:
  assumes "list_all (\<lambda>gs. gs \<noteq> [] \<and> list_all u32_seg gs) [m, h, d, mo, w]"
  shows "cron_matches (cron_text [m, h, d, mo, w]) t \<longleftrightarrow>
    list_ex (seg_holds 0 59 (dt_minute t)) m \<and> list_ex (seg_holds 0 23 (dt_hour t)) h \<and>
    list_ex (seg_holds 1 31 (dt_day t)) d \<and> list_ex (seg_holds 1 12 (dt_month t)) mo \<and>
    list_ex (seg_holds 0 7 (dt_weekday t)) w"
proof -
  have "split_whitespace (cron_text [m, h, d, mo, w]) = map field_text [m, h, d, mo, w]"
    by (rule split_whitespace_cron) (use assms in auto)
  with assms show ?thesis by (simp add: cron_matches_def field_matches_text)
qed

lemma seg_holds_names:
  assumes "v \<in> {lo..hi}" "\<not> (lo = 0 \<and> hi = 7)"
  shows "seg_holds lo hi v g \<longleftrightarrow> v \<in> names lo hi g"
  using assms by (cases g) auto

lemma seg_holds_weekday:
  assumes "v \<le> 6" "\<not> wraps_week g"
  shows "seg_holds 0 7 v g \<longleftrightarrow> v \<in> names 0 7 g \<or> v = 0 \<and> 7 \<in> names 0 7 g"
  using assms by (cases g) (auto simp: doubleton_eq_iff)

text \<open>
  C22 (cron_schedule_meaning). Take a schedule of five fields, each a non-empty list of single values, ranges,
  stars and steps with numbers below \<open>2^32\<close>, in which no range of weekdays (with or without a step) that starts at 1 or
  later goes up to 7. It matches a point in time exactly when in every field some entry names that
  time's minute, hour, day of the month, month and day of the week, respectively, where 0 and 7 both name Sunday. For the excluded ranges
  this is not so: the days \<open>5-7\<close> do not include Sunday (\<open>cron_seven_in_range\<close>).
\<close>

theorem cron_schedule_meaning:
  assumes "list_all (\<lambda>gs. gs \<noteq> [] \<and> list_all u32_seg gs) [m, h, d, mo, w]"
    and "list_all (\<lambda>g. \<not> wraps_week g) w" "time_ok t"
  shows "cron_matches (cron_text [m, h, d, mo, w]) t \<longleftrightarrow>
    field_names 0 59 (dt_minute t) m \<and> field_names 0 23 (dt_hour t) h \<and> field_names 1 31 (dt_day t) d \<and>
    field_names 1 12 (dt_month t) mo \<and> weekday_names (dt_weekday t) w"
proof -
  have w: "list_ex (seg_holds 0 7 (dt_weekday t)) w \<longleftrightarrow> weekday_names (dt_weekday t) w"
    using assms(2,3) seg_holds_weekday by (force simp: list_ex_iff list_all_iff weekday_names_def time_ok_def)
  have f: "list_ex (seg_holds lo hi v) gs \<longleftrightarrow> field_names lo hi v gs"
    if "v \<in> {lo..hi}" "\<not> (lo = 0 \<and> hi = 7)" for lo hi v gs
    using seg_holds_names [OF that] by (simp add: list_ex_iff field_names_def)
  show ?thesis
    unfolding cron_matches_text [OF assms(1)] w using assms(3) by (simp add: f time_ok_def)
qed

definition march_thursday :: naive_dt where
  "march_thursday = \<lparr>dt_minute = 30, dt_hour = 14, dt_day = 19, dt_month = 3, dt_weekday = 4\<rparr>"

theorem cron_schedule_meaning_witness:
  "cron_matches (cron_text [[EveryStep 15], [At 2, Between 9 17], [Every], [BetweenStep 1 11 2], [Between 1 4, At 7]])
     march_thursday
   \<and> cron_matches (cron_text [[Every], [Every], [Every], [Every], [At 7]]) (march_thursday\<lparr>dt_weekday := 0\<rparr>)"
  using cron_schedule_meaning [of "[EveryStep 15]" "[At 2, Between 9 17]" "[Every]"
      "[BetweenStep 1 11 2]" "[Between 1 4, At 7]" march_thursday]
    cron_schedule_meaning [of "[Every]" "[Every]" "[Every]" "[Every]" "[At 7]" "march_thursday\<lparr>dt_weekday := 0\<rparr>"]
  by (simp add: u32_seg_def march_thursday_def time_ok_def field_names_def weekday_names_def)

text \<open>
  The entry \<open>7\<close> stands for Sunday, and so does \<open>0\<close>, but not inside a range or
  a step: a schedule for the days \<open>a-7\<close> with \<open>a\<close> at least 1 never runs on a Sunday.
\<close>

theorem cron_seven_in_range:
  assumes "1 \<le> a" "a < 2 ^ 32" "dt_weekday t = 0"
  shows "cron_matches (cron_text [[Every], [Every], [Every], [Every], [At 7]]) t \<and>
    \<not> cron_matches (cron_text [[Every], [Every], [Every], [Every], [Between a 7]]) t"
  using assms by (simp add: cron_matches_text u32_seg_def)

theorem cron_seven_in_range_witness:
  "\<not> cron_matches (cron_text [[Every], [Every], [Every], [Every], [Between 5 7]])
     (march_thursday\<lparr>dt_weekday := 0\<rparr>)"
  using cron_seven_in_range [of 5 "march_thursday\<lparr>dt_weekday := 0\<rparr>"] by simp

end
