(* ===== verification/Flow_Store.thy ===== *)
theory Flow_Store
  imports Flow_Text Flow_Cron
begin

text \<open>
  WolfFlow, part 4 (\<^verbatim>\<open>src/wolfflow/mod.rs\<close>, the handlers of \<^verbatim>\<open>src/api/mod.rs\<close>, the scheduler task of
  \<^verbatim>\<open>src/main.rs\<close>): workflows, runs, the store that holds both in memory and on disk, the workflow
  handlers and the schedule poll. Text that \<open>chrono\<close>, the clock or the identifier generator produce is
  an argument. \<open>fs_writable\<close> is the file system's answer to a write; a file holds what was last
  written to it.
\<close>

section \<open>Workflows\<close>

record http_header =
  hh_name :: string
  hh_value :: string

datatype http_auth =
    AuthBearer string
  | AuthBasic string string
  | AuthApiKey string string

record webhook_config =
  wh_token :: string
  wh_secret :: "string option"
  wh_enabled :: bool

datatype sql_step_permission = SqlRead | SqlUpdate | SqlDelete

datatype action_type =
    UpdatePackages
  | UpdateWolfstack string
  | RestartService string
  | RunCommand string u64
  | CleanLogs "u32 option"
  | CheckDiskSpace "u32 option" "string option"
  | RestartContainer string string
  | DockerPrune
  | DockerCheckUpdate string
  | DockerUpdate string bool
  | DockerCheckUpdateMany string "string list"
  | DockerUpdateMany string "string list"
  | RunBackupSchedule string
  | HttpRequest string string "http_header list" "string option" "http_auth option" u64 bool bool
  | Condition string string string
  | NetBirdAction string string string string "string option"
  | TrueNasAction string string string string "string option"
  | UnifiAction string string string string string "string option"
  | IntegrationAction string string json
  | AiInvoke string "string option" "string option" "string option" u32
  | AgentChat string string u64
  | SqlQuery string string sql_step_permission u64 bool
  | SendEmail "string list" string string bool

datatype on_failure = Continue | Abort | Alert | NotifyAndAbort | NotifyAndContinue

record container_target =
  ct_node_id :: string
  ct_runtime :: string
  ct_name :: string

datatype wf_target =
    TargetLocal
  | TargetAllNodes
  | TargetCluster string
  | TargetNodes "string list"
  | TargetContainers "container_target list"
  | TargetEverything

record workflow_step =
  st_name :: string
  st_action :: action_type
  st_on_failure :: on_failure
  st_target_override :: "wf_target option"
  st_on_true :: "nat option"
  st_on_false :: "nat option"
  st_retry_count :: u32
  st_retry_delay_secs :: u64

record workflow =
  wf_id :: string
  wf_name :: string
  wf_description :: string
  wf_cluster :: string
  wf_steps :: "workflow_step list"
  wf_target_scope :: wf_target
  wf_schedule :: "string option"
  wf_enabled :: bool
  wf_created_at :: string
  wf_updated_at :: string
  wf_last_run :: "string option"
  wf_email_results :: "string option"
  wf_webhook :: "webhook_config option"
  wf_max_runtime_secs :: u64

section \<open>Runs\<close>

datatype run_status = Running | Completed | Failed | PartialFailure

record step_result =
  sr_step_name :: string
  sr_node_id :: string
  sr_node_hostname :: string
  sr_status :: run_status
  sr_output :: string
  sr_started_at :: string
  sr_finished_at :: string
  sr_duration_ms :: nat

record workflow_run =
  run_id :: string
  run_workflow_id :: string
  run_workflow_name :: string
  run_state :: run_status
  run_trigger :: string
  run_steps :: "step_result list"
  run_started_at :: string
  run_finished_at :: "string option"
  run_duration_ms :: nat
  run_email_status :: "string option"

section \<open>The store\<close>

record flow_state =
  fs_workflows :: "workflow list"
  fs_runs :: "workflow_run list"
  fs_disk_workflows :: "workflow list option"
  fs_disk_runs :: "workflow_run list option"
  fs_writable :: bool

definition max_runs :: nat where "max_runs = 500"

definition load_workflows :: "flow_state \<Rightarrow> flow_state" where
  "load_workflows st = (case fs_disk_workflows st of None \<Rightarrow> st | Some ws \<Rightarrow> st\<lparr>fs_workflows := ws\<rparr>)"

definition save_workflows :: "flow_state \<Rightarrow> flow_state" where
  "save_workflows st =
     (if fs_writable st then st\<lparr>fs_disk_workflows := Some (fs_workflows st)\<rparr> else st)"

definition load_runs :: "flow_state \<Rightarrow> flow_state" where
  "load_runs st = (case fs_disk_runs st of None \<Rightarrow> st | Some rs \<Rightarrow> st\<lparr>fs_runs := rs\<rparr>)"

definition save_runs :: "flow_state \<Rightarrow> flow_state" where
  "save_runs st = (if fs_writable st then st\<lparr>fs_disk_runs := Some (fs_runs st)\<rparr> else st)"

text \<open>A new process starts from empty lists and what the two files hold.\<close>

definition flow_new :: "flow_state \<Rightarrow> flow_state" where
  "flow_new disk = load_runs (load_workflows (disk\<lparr>fs_workflows := [], fs_runs := []\<rparr>))"

definition list_workflows :: "string option \<Rightarrow> flow_state \<Rightarrow> workflow list" where
  "list_workflows cl st = (case cl of
      Some c \<Rightarrow> filter (\<lambda>w. wf_cluster w = c) (fs_workflows st)
    | None \<Rightarrow> fs_workflows st)"

definition get_workflow :: "string \<Rightarrow> flow_state \<Rightarrow> workflow option" where
  "get_workflow i st = find (\<lambda>w. wf_id w = i) (fs_workflows st)"

definition create_workflow :: "workflow \<Rightarrow> flow_state \<Rightarrow> workflow \<times> flow_state" where
  "create_workflow w st = (w, save_workflows (st\<lparr>fs_workflows := fs_workflows st @ [w]\<rparr>))"

definition update_workflow ::
  "string \<Rightarrow> string \<Rightarrow> workflow \<Rightarrow> flow_state \<Rightarrow> workflow option \<times> flow_state" where
  "update_workflow now i updated st =
     (case find (\<lambda>w. wf_id w = i) (fs_workflows st) of
        None \<Rightarrow> (None, st)
      | Some existing \<Rightarrow>
          (let u = updated\<lparr>wf_id := i, wf_created_at := wf_created_at existing, wf_updated_at := now\<rparr> in
           (Some u, save_workflows
              (st\<lparr>fs_workflows := update_first (\<lambda>w. wf_id w = i) (\<lambda>_. u) (fs_workflows st)\<rparr>))))"

definition delete_workflow :: "string \<Rightarrow> flow_state \<Rightarrow> workflow option \<times> flow_state" where
  "delete_workflow i st =
     (case find (\<lambda>w. wf_id w = i) (fs_workflows st) of
        None \<Rightarrow> (None, st)
      | Some w \<Rightarrow>
          (Some w, save_workflows
             (st\<lparr>fs_workflows := remove_first (\<lambda>w. wf_id w = i) (fs_workflows st)\<rparr>)))"

definition mark_last_run :: "string \<Rightarrow> string \<Rightarrow> flow_state \<Rightarrow> flow_state" where
  "mark_last_run now i st =
     save_workflows (st\<lparr>fs_workflows :=
       update_first (\<lambda>w. wf_id w = i) (wf_last_run_update (\<lambda>_. Some now)) (fs_workflows st)\<rparr>)"

definition list_runs :: "string option \<Rightarrow> flow_state \<Rightarrow> workflow_run list" where
  "list_runs wid st = (case wid of
      Some w \<Rightarrow> filter (\<lambda>r. run_workflow_id r = w) (fs_runs st)
    | None \<Rightarrow> fs_runs st)"

definition trim_runs :: "workflow_run list \<Rightarrow> workflow_run list" where
  "trim_runs rs = (if max_runs < length rs then drop (length rs - max_runs) rs else rs)"

definition add_run :: "workflow_run \<Rightarrow> flow_state \<Rightarrow> flow_state" where
  "add_run r st = save_runs (st\<lparr>fs_runs := trim_runs (fs_runs st @ [r])\<rparr>)"

definition update_run :: "string \<Rightarrow> workflow_run \<Rightarrow> flow_state \<Rightarrow> flow_state" where
  "update_run i r st =
     save_runs (st\<lparr>fs_runs := update_first (\<lambda>x. run_id x = i) (\<lambda>_. r) (fs_runs st)\<rparr>)"

definition flow_rename_cluster :: "string \<Rightarrow> string \<Rightarrow> flow_state \<Rightarrow> nat \<times> flow_state" where
  "flow_rename_cluster old new st =
     (let n = length (filter (\<lambda>w. wf_cluster w = old) (fs_workflows st));
          st' = st\<lparr>fs_workflows :=
            map (\<lambda>w. if wf_cluster w = old then w\<lparr>wf_cluster := new\<rparr> else w) (fs_workflows st)\<rparr> in
      (n, if 0 < n then save_workflows st' else st'))"

section \<open>The schedule poll\<close>

text \<open>
  \<open>now_minute\<close> is the current time printed by \<open>chrono\<close> with the format \<^verbatim>\<open>%Y-%m-%d %H:%M\<close>.
\<close>

definition already_ran :: "string \<Rightarrow> workflow_run list \<Rightarrow> workflow \<Rightarrow> bool" where
  "already_ran now_minute runs w =
     list_ex (\<lambda>r. run_workflow_id r = wf_id w \<and> run_trigger r = ''scheduled'' \<and>
       starts_with now_minute (run_started_at r)) runs"

definition get_due_workflows :: "naive_dt \<Rightarrow> string \<Rightarrow> flow_state \<Rightarrow> workflow list" where
  "get_due_workflows now now_minute st =
     filter (\<lambda>w. wf_enabled w \<and>
       (case wf_schedule w of
          None \<Rightarrow> False
        | Some expr \<Rightarrow> cron_matches expr now \<and> \<not> already_ran now_minute (fs_runs st) w))
       (fs_workflows st)"

text \<open>
  The times, in milliseconds, at which the scheduler task polls: each round sleeps sixty seconds and
  \<open>lag\<close> is what the round takes beyond that (the timer's rounding, the poll itself).
\<close>

primrec poll_time :: "nat \<Rightarrow> (nat \<Rightarrow> nat) \<Rightarrow> nat \<Rightarrow> nat" where
  "poll_time start lag 0 = start + 60000"
| "poll_time start lag (Suc n) = poll_time start lag n + 60000 + lag n"

definition poll_minute :: "nat \<Rightarrow> (nat \<Rightarrow> nat) \<Rightarrow> nat \<Rightarrow> nat" where
  "poll_minute start lag n = poll_time start lag n div 60000"

section \<open>The handlers\<close>

datatype flow_response =
    RWorkflows "workflow list"
  | RWorkflow workflow
  | RDone
  | RMessage string
  | RRuns "workflow_run list"
  | RRun workflow_run
  | RNotFound string
  | RBadRequest string
  | RRefused nat

text \<open>
  \<open>auth\<close> is the answer of the authentication gate, a refusal or a user; \<open>body\<close> is the request's body
  as \<open>serde_json\<close> reads it, an error text or a workflow.
\<close>

definition wolfflow_list :: "nat + string \<Rightarrow> string option \<Rightarrow> flow_state \<Rightarrow> flow_response" where
  "wolfflow_list auth cl st =
     (case auth of Inl code \<Rightarrow> RRefused code | Inr _ \<Rightarrow> RWorkflows (list_workflows cl st))"

definition wolfflow_create ::
  "nat + string \<Rightarrow> string \<Rightarrow> string \<Rightarrow> string + workflow \<Rightarrow> flow_state \<Rightarrow> flow_response \<times> flow_state" where
  "wolfflow_create auth fresh now body st =
     (case auth of
        Inl code \<Rightarrow> (RRefused code, st)
      | Inr _ \<Rightarrow>
          (case body of
             Inl e \<Rightarrow> (RBadRequest (''Invalid workflow: '' @ e), st)
           | Inr flow \<Rightarrow>
               (let a = (if wf_id flow = [] then flow\<lparr>wf_id := fresh\<rparr> else flow);
                    b = (if wf_created_at a = [] then a\<lparr>wf_created_at := now\<rparr> else a);
                    (created, st') = create_workflow (b\<lparr>wf_updated_at := now\<rparr>) st in
                (RWorkflow created, st'))))"

definition wolfflow_get :: "nat + string \<Rightarrow> string \<Rightarrow> flow_state \<Rightarrow> flow_response" where
  "wolfflow_get auth i st =
     (case auth of
        Inl code \<Rightarrow> RRefused code
      | Inr _ \<Rightarrow> (case get_workflow i st of
                    Some w \<Rightarrow> RWorkflow w
                  | None \<Rightarrow> RNotFound ''Workflow not found''))"

definition wolfflow_update ::
  "nat + string \<Rightarrow> string \<Rightarrow> string \<Rightarrow> string + workflow \<Rightarrow> flow_state \<Rightarrow> flow_response \<times> flow_state" where
  "wolfflow_update auth now i body st =
     (case auth of
        Inl code \<Rightarrow> (RRefused code, st)
      | Inr _ \<Rightarrow>
          (case body of
             Inl e \<Rightarrow> (RBadRequest (''Invalid workflow: '' @ e), st)
           | Inr flow \<Rightarrow>
               (case update_workflow now i (flow\<lparr>wf_updated_at := now\<rparr>) st of
                  (Some u, st') \<Rightarrow> (RWorkflow u, st')
                | (None, st') \<Rightarrow> (RNotFound ''Workflow not found'', st'))))"

definition wolfflow_delete :: "nat + string \<Rightarrow> string \<Rightarrow> flow_state \<Rightarrow> flow_response \<times> flow_state" where
  "wolfflow_delete auth i st =
     (case auth of
        Inl code \<Rightarrow> (RRefused code, st)
      | Inr _ \<Rightarrow>
          (case delete_workflow i st of
             (Some _, st') \<Rightarrow> (RDone, st')
           | (None, st') \<Rightarrow> (RNotFound ''Workflow not found'', st')))"

definition wolfflow_runs_list ::
  "nat + string \<Rightarrow> string option \<Rightarrow> string option \<Rightarrow> flow_state \<Rightarrow> flow_response" where
  "wolfflow_runs_list auth wid lim st =
     (case auth of
        Inl code \<Rightarrow> RRefused code
      | Inr _ \<Rightarrow>
          (let limit = unwrap_or 50 (Option.bind lim (parse_uint (2 ^ 64 - 1))) in
           RRuns (take limit (rev (list_runs wid st)))))"

definition wolfflow_run_detail :: "nat + string \<Rightarrow> string \<Rightarrow> flow_state \<Rightarrow> flow_response" where
  "wolfflow_run_detail auth i st =
     (case auth of
        Inl code \<Rightarrow> RRefused code
      | Inr _ \<Rightarrow> (case find (\<lambda>r. run_id r = i) (list_runs None st) of
                    Some r \<Rightarrow> RRun r
                  | None \<Rightarrow> RNotFound ''Run not found''))"

end
