(* ===== verification/Flow_Remote.thy ===== *)
theory Flow_Remote
  imports Flow_Store Ip_Addr
begin

text \<open>
  WolfFlow, part 6 (\<^verbatim>\<open>src/wolfflow/mod.rs\<close>, \<^verbatim>\<open>src/api/mod.rs\<close>): running an action inside a container
  or a virtual machine, in all containers of a node, and on a peer through its exec endpoints. The
  argument \<open>proc\<close> is what the operating system makes of a command, \<open>local\<close> what
  \<^verbatim>\<open>execute_action_local\<close> answers, and \<open>post\<close> the transport of a request to a peer. The lemmas compose the
  callers with the endpoints they call.
\<close>

section \<open>Commands\<close>

type_synonym action_result = "string + step_output"

datatype proc_outcome =
    SpawnFailed string
  | TimedOut
  | WaitFailed string
  | Exited bool "int option" string string

text \<open>\<^verbatim>\<open>chars().take(n)\<close> on UTF-8 text: a character is a byte with the continuation bytes behind it.\<close>

fun take_chars :: "nat \<Rightarrow> string \<Rightarrow> string" where
  "take_chars n [] = []"
| "take_chars n (c # cs) =
     (if is_continuation c then c # take_chars n cs
      else case n of 0 \<Rightarrow> [] | Suc m \<Rightarrow> c # take_chars m cs)"

definition run_command ::
  "(string \<Rightarrow> string list \<Rightarrow> u64 \<Rightarrow> proc_outcome) \<Rightarrow> string \<Rightarrow> string list \<Rightarrow> u64 \<Rightarrow> string + string" where
  "run_command proc cmd args timeout_secs =
     (case proc cmd args timeout_secs of
        SpawnFailed e \<Rightarrow> Err (''Failed to spawn '' @ quoted cmd @ '': '' @ e)
      | TimedOut \<Rightarrow>
          Err (''Command '' @ quoted cmd @ '' timed out after '' @ show_nat (unat timeout_secs) @ ''s'')
      | WaitFailed e \<Rightarrow> Err (''Failed to execute command: '' @ e)
      | Exited success code out err \<Rightarrow>
          (let combined = (if err = [] then out else if out = [] then err else out @ [nl] @ err) in
           if success then Ok combined
           else Err (''Command exited with code '' @ show_int (unwrap_or (-1) code) @ '': '' @
                  take_chars 2000 combined)))"

definition exec_in_docker ::
  "(string \<Rightarrow> string list \<Rightarrow> u64 \<Rightarrow> proc_outcome) \<Rightarrow> string \<Rightarrow> string \<Rightarrow> u64 \<Rightarrow> string + string" where
  "exec_in_docker proc container command t =
     run_command proc ''docker'' [''exec'', container, ''sh'', ''-c'', command] t"

definition exec_in_lxc ::
  "(string \<Rightarrow> string list \<Rightarrow> u64 \<Rightarrow> proc_outcome) \<Rightarrow> string \<Rightarrow> string \<Rightarrow> u64 \<Rightarrow> string + string" where
  "exec_in_lxc proc container command t =
     run_command proc ''lxc-attach'' [''-n'', container, ''--'', ''sh'', ''-c'', command] t"

record flow_vm =
  fvm_name :: string
  fvm_wolfnet_ip :: "string option"
  fvm_mac_address :: "string option"
  fvm_running :: bool

definition is_ascii_hexdigit :: "char \<Rightarrow> bool" where
  "is_ascii_hexdigit c = (hex_digit c \<noteq> None)"

definition vm_err :: "string \<Rightarrow> string \<Rightarrow> string + 'a" where
  "vm_err vm msg = Err (''Cannot execute in VM '' @ quoted vm @ '': '' @ msg)"

definition vm_address ::
  "(string \<Rightarrow> string list \<Rightarrow> u64 \<Rightarrow> proc_outcome) \<Rightarrow> flow_vm list \<Rightarrow> string \<Rightarrow> string + string" where
  "vm_address proc vms vm_name =
     (let vm = find (\<lambda>v. fvm_name v = vm_name) vms in
      case Option.bind vm fvm_wolfnet_ip of
        Some (c # cs) \<Rightarrow> Ok (c # cs)
      | _ \<Rightarrow>
          (case Option.bind vm fvm_mac_address of
             None \<Rightarrow> vm_err vm_name ''no MAC or IP address found.''
           | Some mac \<Rightarrow>
               if \<not> list_all (\<lambda>c. is_ascii_hexdigit c \<or> c = CHR '':'') mac \<or> length mac \<noteq> 17
               then vm_err vm_name ''invalid MAC address format.''
               else (case run_command proc ''grep'' [''-i'', mac, ''/proc/net/arp''] 5 of
                       Ok out \<Rightarrow>
                         if trim out = []
                         then vm_err vm_name
                           ''no IP address found. Ensure the VM has a network connection.''
                         else (let ip = (case split_whitespace out of [] \<Rightarrow> [] | w # _ \<Rightarrow> w) in
                               if parse_ipv4 ip \<noteq> None then Ok ip
                               else vm_err vm_name ''ARP lookup returned invalid IP.'')
                     | Err _ \<Rightarrow>
                         vm_err vm_name
                           ''no IP address found. Ensure the VM has a network connection.'')))"

definition exec_in_vm ::
  "(string \<Rightarrow> string list \<Rightarrow> u64 \<Rightarrow> proc_outcome) \<Rightarrow> flow_vm list \<Rightarrow> string \<Rightarrow> string \<Rightarrow> u64 \<Rightarrow>
   string + string" where
  "exec_in_vm proc vms vm_name command t =
     res_bind (vm_address proc vms vm_name) (\<lambda>ip.
       if parse_ip_addr ip = None
       then vm_err vm_name (''invalid IP address '' @ quoted ip)
       else run_command proc ''ssh''
         [''-o'', ''StrictHostKeyChecking=no'', ''-o'', ''ConnectTimeout=5'', ''-o'', ''BatchMode=yes'',
          ''root@'' @ ip, ''sh'', ''-c'', command] t)"

section \<open>Actions inside containers\<close>

definition validate_service_name :: "string \<Rightarrow> string + unit" where
  "validate_service_name name =
     (if list_ex (\<lambda>c. c \<in> set name)
           [CHR '';'', CHR ''&'', CHR ''|'', CHR 0x60, CHR ''$'', CHR '' '']
      then Err ''Invalid service name'' else Ok ())"

definition upgrade_command :: string where
  "upgrade_command = ''apt-get update -y && apt-get upgrade -y 2>/dev/null || dnf upgrade -y 2>/dev/null || true''"

definition old_logs :: string where
  "old_logs = ''find /var/log -type f -name '' @ quoted ''*.log'' @ '' -mtime +7 -delete''"

definition vacuum :: "u32 option \<Rightarrow> string" where
  "vacuum mb = ''journalctl --vacuum-size='' @ show_nat (unat (unwrap_or 500 mb)) @ ''M 2>/dev/null || ''"

definition docker_command :: "action_type \<Rightarrow> string option" where
  "docker_command a = (case a of
      UpdatePackages \<Rightarrow> Some upgrade_command
    | CleanLogs _ \<Rightarrow> Some (old_logs @ '' 2>/dev/null; echo '' @ quoted ''Logs cleaned'')
    | CheckDiskSpace _ _ \<Rightarrow> Some ''df -h''
    | _ \<Rightarrow> None)"

definition guest_command :: "(u32 option \<Rightarrow> string) \<Rightarrow> action_type \<Rightarrow> string + string option" where
  "guest_command clean a = (case a of
      UpdatePackages \<Rightarrow> Ok (Some upgrade_command)
    | CleanLogs mb \<Rightarrow> Ok (Some (clean mb))
    | CheckDiskSpace _ _ \<Rightarrow> Ok (Some ''df -h'')
    | RestartService s \<Rightarrow>
        res_bind (validate_service_name s) (\<lambda>_. Ok (Some (''systemctl restart '' @ s)))
    | _ \<Rightarrow> Ok None)"

definition lxc_command :: "action_type \<Rightarrow> string + string option" where
  "lxc_command = guest_command (\<lambda>mb. vacuum mb @ old_logs @ ''; echo '' @ quoted ''Logs cleaned'')"

definition vm_command :: "action_type \<Rightarrow> string + string option" where
  "vm_command = guest_command (\<lambda>mb. vacuum mb @ ''echo '' @ quoted ''no journalctl'')"

definition res_map :: "('a \<Rightarrow> 'b) \<Rightarrow> 'e + 'a \<Rightarrow> 'e + 'b" where
  "res_map f r = res_bind r (\<lambda>x. Ok (f x))"

definition execute_action_in_container ::
  "(string \<Rightarrow> string list \<Rightarrow> u64 \<Rightarrow> proc_outcome) \<Rightarrow> flow_vm list \<Rightarrow> (action_type \<Rightarrow> action_result) \<Rightarrow>
   action_type \<Rightarrow> container_target \<Rightarrow> action_result" where
  "execute_action_in_container proc vms exec_local action ct =
     (case action of
        RunCommand command t \<Rightarrow>
          res_map plain_output
            (if ct_runtime ct = ''docker'' then exec_in_docker proc (ct_name ct) command t
             else if ct_runtime ct = ''lxc'' then exec_in_lxc proc (ct_name ct) command t
             else if ct_runtime ct = ''vm'' then exec_in_vm proc vms (ct_name ct) command t
             else Err (''Unknown runtime: '' @ ct_runtime ct))
      | RestartContainer _ _ \<Rightarrow> exec_local (RestartContainer (ct_runtime ct) (ct_name ct))
      | _ \<Rightarrow>
          if action = DockerPrune \<and> ct_runtime ct = ''docker'' then exec_local action
          else if ct_runtime ct = ''docker'' then
            (case docker_command action of
               Some cmd \<Rightarrow> res_map plain_output (exec_in_docker proc (ct_name ct) cmd 300)
             | None \<Rightarrow> exec_local action)
          else if ct_runtime ct = ''lxc'' then
            res_bind (lxc_command action) (\<lambda>cmd. case cmd of
               Some c \<Rightarrow> res_map plain_output (exec_in_lxc proc (ct_name ct) c 300)
             | None \<Rightarrow> exec_local action)
          else if ct_runtime ct = ''vm'' then
            res_bind (vm_command action) (\<lambda>cmd. case cmd of
               Some c \<Rightarrow> res_map plain_output (exec_in_vm proc vms (ct_name ct) c 300)
             | None \<Rightarrow> exec_local action)
          else exec_local action)"

definition container_line :: "string \<Rightarrow> string \<Rightarrow> action_result \<Rightarrow> string" where
  "container_line runtime name r =
     ''['' @ runtime @ '':'' @ name @ ''] '' @ (case r of Ok out \<Rightarrow> so_text out | Err e \<Rightarrow> ''ERROR: '' @ e)"

definition execute_in_all_local_containers ::
  "(container_target \<Rightarrow> action_result) \<Rightarrow> string list \<Rightarrow> string list \<Rightarrow> flow_vm list \<Rightarrow> action_result" where
  "execute_in_all_local_containers exec dockers lxcs vms =
     (let line = (\<lambda>runtime name. container_line runtime name
            (exec \<lparr>ct_node_id = [], ct_runtime = runtime, ct_name = name\<rparr>));
          outputs = map (line ''docker'') dockers @ map (line ''lxc'') lxcs @
            map (\<lambda>v. line ''vm'' (fvm_name v)) (filter fvm_running vms) in
      if outputs = [] then Ok (plain_output ''No containers or VMs found on this node'')
      else Ok (plain_output (join [nl] outputs)))"

section \<open>The exec endpoints\<close>

text \<open>A response is its status code and its JSON body; \<open>auth\<close> is a refusal or the acting operator.\<close>

type_synonym json_response = "nat \<times> json"

definition error_body :: "string \<Rightarrow> json" where
  "error_body e = JObject [(''error'', JString e)]"

definition wolfflow_exec ::
  "json_response + string \<Rightarrow> (action_type \<Rightarrow> action_result) \<Rightarrow> string + action_type \<Rightarrow> json_response" where
  "wolfflow_exec auth exec_local body =
     (case auth of
        Inl resp \<Rightarrow> resp
      | Inr _ \<Rightarrow>
          (case body of
             Inl e \<Rightarrow> (400, error_body (''Invalid action: '' @ e))
           | Inr action \<Rightarrow>
               (case exec_local action of
                  Ok out \<Rightarrow>
                    (200, JObject [(''ok'', JBool True),
                       (''output'', JObject [(''data'', JObject (so_data out)),
                                             (''text'', JString (so_text out))])])
                | Err e \<Rightarrow> (200, JObject [(''ok'', JBool False), (''output'', JString e)]))))"

definition text_response :: "action_result \<Rightarrow> json_response" where
  "text_response r = (case r of
      Ok out \<Rightarrow> (200, JObject [(''ok'', JBool True), (''output'', JString (so_text out))])
    | Err e \<Rightarrow> (200, JObject [(''error'', JString e), (''ok'', JBool False)]))"

definition wolfflow_container_exec ::
  "json_response + string \<Rightarrow> (action_type \<Rightarrow> container_target \<Rightarrow> action_result) \<Rightarrow>
   string + action_type \<Rightarrow> string + container_target \<Rightarrow> json_response" where
  "wolfflow_container_exec auth exec_in action ct =
     (case auth of
        Inl resp \<Rightarrow> resp
      | Inr _ \<Rightarrow>
          (case action of
             Inl e \<Rightarrow> (400, error_body (''Invalid action: '' @ e))
           | Inr a \<Rightarrow>
               (case ct of
                  Inl e \<Rightarrow> (400, error_body (''Invalid container target: '' @ e))
                | Inr c \<Rightarrow> text_response (exec_in a c))))"

definition wolfflow_all_containers_exec ::
  "json_response + string \<Rightarrow> (action_type \<Rightarrow> action_result) \<Rightarrow> string + action_type \<Rightarrow> json_response" where
  "wolfflow_all_containers_exec auth exec_all body =
     (case auth of
        Inl resp \<Rightarrow> resp
      | Inr _ \<Rightarrow>
          (case body of
             Inl e \<Rightarrow> (400, error_body (''Invalid action: '' @ e))
           | Inr action \<Rightarrow> text_response (exec_all action)))"

section \<open>The callers\<close>

text \<open>
  What a request to one URL gives: no answer, or a status, the body read as JSON and the body as
  text. \<open>status_text\<close> prints a status code.
\<close>

datatype http_reply =
    SendError
  | Reply nat "string + json" string

definition bracket_host :: "string \<Rightarrow> string" where
  "bracket_host host =
     (case parse_ip_addr (trim host) of Some (V6 _) \<Rightarrow> ''['' @ trim host @ '']'' | _ \<Rightarrow> host)"

definition build_node_urls ::
  "(string \<Rightarrow> string option) \<Rightarrow> string \<Rightarrow> u16 \<Rightarrow> string \<Rightarrow> string list" where
  "build_node_urls wolfnet_ip address port path =
     (let host = bracket_host address; p = show_nat (unat port) in
      [''https://'' @ host @ '':'' @ p @ path] @
      (case wolfnet_ip address of
         Some wn \<Rightarrow> [''http://'' @ wn @ '':'' @ show_nat (unat (port + 1)) @ path]
       | None \<Rightarrow> []) @
      [''http://'' @ host @ '':'' @ p @ path])"

definition json_get :: "string \<Rightarrow> json \<Rightarrow> json option" where
  "json_get k j = (case j of JObject kvs \<Rightarrow> map_of kvs k | _ \<Rightarrow> None)"

definition json_str :: "json \<Rightarrow> string option" where
  "json_str j = (case j of JString s \<Rightarrow> Some s | _ \<Rightarrow> None)"

definition json_obj :: "json \<Rightarrow> (string \<times> json) list option" where
  "json_obj j = (case j of JObject kvs \<Rightarrow> Some kvs | _ \<Rightarrow> None)"

definition is_success :: "nat \<Rightarrow> bool" where
  "is_success status = (200 \<le> status \<and> status < 300)"

definition read_result :: "(json \<Rightarrow> (string, json) hashmap) \<Rightarrow> json \<Rightarrow> action_result" where
  "read_result data_of result =
     (case Option.bind (json_get ''error'' result) json_str of
        Some e \<Rightarrow> Err e
      | None \<Rightarrow>
          Ok \<lparr>so_text = unwrap_or ''OK'' (Option.bind (json_get ''output'' result) json_str),
              so_data = data_of result\<rparr>)"

fun post_action ::
  "(nat \<Rightarrow> string) \<Rightarrow> string \<Rightarrow> (string \<Rightarrow> string) \<Rightarrow> (json \<Rightarrow> (string, json) hashmap) \<Rightarrow>
   (string \<Rightarrow> http_reply) \<Rightarrow> string \<Rightarrow> string list \<Rightarrow> action_result" where
  "post_action status_text parse_error refused data_of post unreachable [] = Err unreachable"
| "post_action status_text parse_error refused data_of post unreachable (url # urls) =
     (case post url of
        SendError \<Rightarrow> post_action status_text parse_error refused data_of post unreachable urls
      | Reply status body txt \<Rightarrow>
          if is_success status
          then (case body of
                  Inl e \<Rightarrow> Err (parse_error @ e)
                | Inr result \<Rightarrow> read_result data_of result)
          else Err (refused url @ status_text status @ '': '' @ txt))"

definition no_client :: string where "no_client = ''HTTP client not available''"

definition host_port :: "string \<Rightarrow> u16 \<Rightarrow> string" where
  "host_port address port = address @ '':'' @ show_nat (unat port)"

definition execute_action_remote ::
  "(nat \<Rightarrow> string) \<Rightarrow> (string \<Rightarrow> string option) \<Rightarrow> (string \<Rightarrow> action_type \<Rightarrow> http_reply) option \<Rightarrow>
   string \<Rightarrow> u16 \<Rightarrow> action_type \<Rightarrow> action_result" where
  "execute_action_remote status_text wolfnet_ip client address port action =
     (case client of
        None \<Rightarrow> Err no_client
      | Some send \<Rightarrow>
          post_action status_text ''Failed to parse response: '' (\<lambda>_. ''Remote node returned '')
            (\<lambda>result. unwrap_or [] (Option.bind (json_get ''data'' result) json_obj))
            (\<lambda>url. send url action)
            (''Could not reach node at '' @ host_port address port)
            (build_node_urls wolfnet_ip address port ''/api/wolfflow/exec''))"

definition execute_container_remote ::
  "(nat \<Rightarrow> string) \<Rightarrow> (string \<Rightarrow> string option) \<Rightarrow>
   (string \<Rightarrow> action_type \<Rightarrow> container_target \<Rightarrow> http_reply) option \<Rightarrow> string \<Rightarrow> u16 \<Rightarrow> action_type \<Rightarrow>
   container_target \<Rightarrow> action_result" where
  "execute_container_remote status_text wolfnet_ip client address port action ct =
     (case client of
        None \<Rightarrow> Err no_client
      | Some send \<Rightarrow>
          post_action status_text ''Parse error: '' (\<lambda>url. ''Remote '' @ url @ '' returned '') (\<lambda>_. [])
            (\<lambda>url. send url action ct)
            (''Failed to reach node '' @ host_port address port)
            (build_node_urls wolfnet_ip address port ''/api/wolfflow/container-exec''))"

definition execute_all_containers_remote ::
  "(nat \<Rightarrow> string) \<Rightarrow> (string \<Rightarrow> string option) \<Rightarrow> (string \<Rightarrow> action_type \<Rightarrow> http_reply) option \<Rightarrow>
   string \<Rightarrow> u16 \<Rightarrow> action_type \<Rightarrow> action_result" where
  "execute_all_containers_remote status_text wolfnet_ip client address port action =
     (case client of
        None \<Rightarrow> Err no_client
      | Some send \<Rightarrow>
          post_action status_text ''Parse error: '' (\<lambda>url. ''Remote '' @ url @ '' returned '') (\<lambda>_. [])
            (\<lambda>url. send url action)
            (''Failed to reach node '' @ host_port address port)
            (build_node_urls wolfnet_ip address port ''/api/wolfflow/all-containers-exec''))"
section \<open>Callers and endpoints together\<close>

text \<open>A peer that can be reached: every request is answered with the response of its endpoint.\<close>

definition reply_of :: "(json \<Rightarrow> string) \<Rightarrow> json_response \<Rightarrow> http_reply" where
  "reply_of js resp = Reply (fst resp) (Inr (snd resp)) (js (snd resp))"

lemma build_node_urls_Cons:
  "\<exists>u us. build_node_urls wn address port path = u # us"
  by (simp add: build_node_urls_def Let_def)

lemma post_action_reply:
  assumes "\<And>url. post url = reply_of js (200, j)"
  shows "post_action status_text pe refused data_of post unreachable
      (build_node_urls wn address port path) = read_result data_of j"
  using build_node_urls_Cons [of wn address port path] assms
  by (auto simp: reply_of_def is_success_def)

lemma read_text_response:
  "fst (text_response r) = 200"
  "read_result (\<lambda>_. []) (snd (text_response r)) = res_map (\<lambda>out. plain_output (so_text out)) r"
  by (cases r; simp add: text_response_def read_result_def json_get_def json_str_def res_map_def
      plain_output_def)+

lemma remote_exec_answer:
  "execute_action_remote status_text wn
     (Some (\<lambda>url a. reply_of js (wolfflow_exec (Inr operator) exec_local (Inr a)))) address port action =
   Ok (plain_output (case exec_local action of Err e \<Rightarrow> e | Ok _ \<Rightarrow> ''OK''))"
proof -
  obtain j where j: "wolfflow_exec (Inr operator) exec_local (Inr action) = (200, j)"
    and r: "read_result (\<lambda>result. unwrap_or [] (Option.bind (json_get ''data'' result) json_obj)) j =
      Ok (plain_output (case exec_local action of Err e \<Rightarrow> e | Ok _ \<Rightarrow> ''OK''))"
    by (cases "exec_local action")
      (simp_all add: wolfflow_exec_def read_result_def json_get_def json_str_def plain_output_def)
  show ?thesis
    unfolding execute_action_remote_def option.case
    by (rule trans [OF post_action_reply [where js = js and j = j] r]) (simp add: j)
qed

text \<open>
  An action in a container of a reachable peer comes back as it went: its
  error as an error, its output text as the output; only the structured data are dropped. The same
  holds for an action in all containers of the peer.
\<close>

theorem container_exec_reported:
  "execute_container_remote status_text wn (Some (\<lambda>url a c.
     reply_of js (wolfflow_container_exec (Inr operator) exec_in (Inr a) (Inr c)))) address port action ct =
   res_map (\<lambda>out. plain_output (so_text out)) (exec_in action ct) \<and>
   execute_all_containers_remote status_text wn (Some (\<lambda>url a.
     reply_of js (wolfflow_all_containers_exec (Inr operator) exec_all (Inr a)))) address port action =
   res_map (\<lambda>out. plain_output (so_text out)) (exec_all action)"
proof -
  have pair: "(200, snd (text_response r)) = text_response r" for r
    using read_text_response(1) [of r] by (metis prod.collapse)
  show ?thesis
  proof
    show "execute_container_remote status_text wn (Some (\<lambda>url a c.
        reply_of js (wolfflow_container_exec (Inr operator) exec_in (Inr a) (Inr c)))) address port action ct =
      res_map (\<lambda>out. plain_output (so_text out)) (exec_in action ct)"
      unfolding execute_container_remote_def option.case
      by (rule trans [OF post_action_reply [where js = js and j = "snd (text_response (exec_in action ct))"]
            read_text_response(2)]) (simp add: wolfflow_container_exec_def pair)
    show "execute_all_containers_remote status_text wn (Some (\<lambda>url a.
        reply_of js (wolfflow_all_containers_exec (Inr operator) exec_all (Inr a)))) address port action =
      res_map (\<lambda>out. plain_output (so_text out)) (exec_all action)"
      unfolding execute_all_containers_remote_def option.case
      by (rule trans [OF post_action_reply [where js = js and j = "snd (text_response (exec_all action))"]
            read_text_response(2)]) (simp add: wolfflow_all_containers_exec_def pair)
  qed
qed

text \<open>
  Running an action in all containers of a node never counts as failed,
  whatever fails inside the containers: the errors are lines of the output.
\<close>

theorem all_containers_never_fail:
  "\<exists>out. execute_in_all_local_containers exec dockers lxcs vms = Ok out"
  by (simp add: execute_in_all_local_containers_def Let_def)

text \<open>
  Inside an LXC container or a virtual machine a service is restarted only if
  its name holds none of the characters \<open>; & | ` $\<close> and no space; otherwise no command runs and
  the step fails.
\<close>

theorem service_name_screened:
  assumes "ct_runtime ct = ''lxc'' \<or> ct_runtime ct = ''vm''" "c \<in> set s" "c \<in> set '';&|$ '' \<or> c = CHR 0x60"
  shows "execute_action_in_container proc vms exec_local (RestartService s) ct =
    Err ''Invalid service name''"
proof -
  have "validate_service_name s = Err ''Invalid service name''"
    using assms(2,3) by (auto simp: validate_service_name_def)
  then show ?thesis
    using assms(1)
    by (auto simp: execute_action_in_container_def lxc_command_def vm_command_def guest_command_def)
qed

theorem service_name_screened_witness:
  "execute_action_in_container (\<lambda>_ _ _. TimedOut) [] (\<lambda>_. Ok (plain_output [])) (RestartService ''a;b'')
     \<lparr>ct_node_id = [], ct_runtime = ''lxc'', ct_name = ''web''\<rparr> = Err ''Invalid service name''"
  by (rule service_name_screened [of _ "CHR '';''"]) simp_all

end
