(* ===== verification/Flow_Engine.thy ===== *)
theory Flow_Engine
  imports Flow_Remote Keyed_Store
begin

text \<open>
  WolfFlow, part 7 (\<^verbatim>\<open>resolve_targets\<close> and \<^verbatim>\<open>execute_workflow\<close> of \<^verbatim>\<open>src/wolfflow/mod.rs\<close>): the run of a
  workflow. What the run observes is the record \<open>flow_env\<close>: the cluster's nodes, the clock, the
  answers of the actions, the other tasks that use the store in between, and the mail server, each at
  a numbered observation. The loop over the steps takes fuel, one unit per round; a run that
  panics leaves the store as it was at that moment.
\<close>

section \<open>Targets\<close>

record flow_node =
  fn_id :: string
  fn_hostname :: string
  fn_address :: string
  fn_port :: u16
  fn_online :: bool
  fn_is_self :: bool
  fn_node_type :: string
  fn_cluster_name :: "string option"

type_synonym target_node = "string \<times> string \<times> string \<times> u16 \<times> bool"

definition as_target :: "flow_node \<Rightarrow> target_node" where
  "as_target n = (fn_id n, fn_hostname n, fn_address n, fn_port n, fn_is_self n)"

fun container_hosts :: "flow_node list \<Rightarrow> string list \<Rightarrow> container_target list \<Rightarrow> target_node list" where
  "container_hosts nodes seen [] = []"
| "container_hosts nodes seen (ct # cts) =
     (if ct_node_id ct \<in> set seen then container_hosts nodes seen cts
      else case find (\<lambda>n. fn_id n = ct_node_id ct \<and> fn_online n) nodes of
             Some n \<Rightarrow> as_target n # container_hosts nodes (ct_node_id ct # seen) cts
           | None \<Rightarrow> container_hosts nodes seen cts)"

definition resolve_targets :: "flow_node list \<Rightarrow> wf_target \<Rightarrow> target_node list" where
  "resolve_targets nodes target = (case target of
      TargetLocal \<Rightarrow>
        map (\<lambda>n. (fn_id n, fn_hostname n, fn_address n, fn_port n, True)) (filter fn_is_self nodes)
    | TargetAllNodes \<Rightarrow>
        map as_target (filter (\<lambda>n. fn_online n \<and> fn_node_type n = ''wolfstack'') nodes)
    | TargetCluster name \<Rightarrow>
        map as_target (filter (\<lambda>n. fn_online n \<and> fn_node_type n = ''wolfstack'' \<and>
          unwrap_or ''WolfStack'' (fn_cluster_name n) = name) nodes)
    | TargetNodes ids \<Rightarrow>
        map as_target (filter (\<lambda>n. fn_online n \<and> fn_id n \<in> set ids) nodes)
    | TargetContainers cts \<Rightarrow> container_hosts nodes [] cts
    | TargetEverything \<Rightarrow>
        map as_target (filter (\<lambda>n. fn_online n \<and> fn_node_type n = ''wolfstack'') nodes))"

section \<open>What a run observes\<close>

record flow_env =
  env_nodes :: "nat \<Rightarrow> flow_node list"
  env_now :: "nat \<Rightarrow> string"
  env_elapsed_ns :: "nat \<Rightarrow> nat"
  env_task_times :: "nat \<Rightarrow> string \<times> string \<times> nat"
  env_task_panic :: "nat \<Rightarrow> string option"
  env_local :: "nat \<Rightarrow> action_type \<Rightarrow> action_result"
  env_remote :: "nat \<Rightarrow> string \<Rightarrow> u16 \<Rightarrow> action_type \<Rightarrow> action_result"
  env_container :: "nat \<Rightarrow> action_type \<Rightarrow> container_target \<Rightarrow> action_result"
  env_container_remote :: "nat \<Rightarrow> string \<Rightarrow> u16 \<Rightarrow> action_type \<Rightarrow> container_target \<Rightarrow> action_result"
  env_all_containers :: "nat \<Rightarrow> action_type \<Rightarrow> action_result"
  env_all_containers_remote :: "nat \<Rightarrow> string \<Rightarrow> u16 \<Rightarrow> action_type \<Rightarrow> action_result"
  env_others :: "nat \<Rightarrow> flow_state \<Rightarrow> flow_state"
  env_json_text :: "json \<Rightarrow> string"
  env_smtp_host :: string
  env_send_mail :: "string \<Rightarrow> string \<Rightarrow> string \<Rightarrow> string + unit"

section \<open>The tasks of one attempt\<close>

datatype flow_task =
    NodeTask target_node
  | ContainerTask target_node container_target
  | MissingHost container_target
  | AllContainersTask target_node

definition container_task :: "flow_node list \<Rightarrow> target_node list \<Rightarrow> container_target \<Rightarrow> flow_task" where
  "container_task nodes targets ct =
     (case find (\<lambda>t. fst t = ct_node_id ct) targets of
        Some t \<Rightarrow> ContainerTask t ct
      | None \<Rightarrow>
          (case find (\<lambda>n. fn_id n = ct_node_id ct \<and> fn_online n) nodes of
             Some n \<Rightarrow> ContainerTask (as_target n) ct
           | None \<Rightarrow> MissingHost ct))"

definition step_tasks :: "flow_env \<Rightarrow> nat \<Rightarrow> wf_target \<Rightarrow> target_node list \<Rightarrow> flow_task list" where
  "step_tasks env k target targets = (case target of
      TargetContainers cts \<Rightarrow>
        map (\<lambda>(i, ct). container_task (env_nodes env i) targets ct) (enumerate k cts)
    | TargetEverything \<Rightarrow> map NodeTask targets @ map AllContainersTask targets
    | _ \<Rightarrow> map NodeTask targets)"

definition task_result ::
  "flow_env \<Rightarrow> nat \<Rightarrow> string \<Rightarrow> string \<Rightarrow> string \<Rightarrow> action_result \<Rightarrow> step_result \<times> step_output option" where
  "task_result env k step_name node_id shown r =
     (let (started, finished, elapsed) = env_task_times env k;
          base = \<lparr>sr_step_name = step_name, sr_node_id = node_id, sr_node_hostname = shown,
            sr_status = Completed, sr_output = [], sr_started_at = started, sr_finished_at = finished,
            sr_duration_ms = elapsed\<rparr> in
      case r of
        Ok out \<Rightarrow> (base\<lparr>sr_output := take_chars 5000 (so_text out)\<rparr>, Some out)
      | Err e \<Rightarrow> (base\<lparr>sr_status := Failed, sr_output := take_chars 5000 e\<rparr>, None))"

definition instant_result ::
  "flow_env \<Rightarrow> nat \<Rightarrow> string \<Rightarrow> string \<Rightarrow> string \<Rightarrow> run_status \<Rightarrow> string \<Rightarrow> step_result" where
  "instant_result env k step_name node_id shown status output =
     \<lparr>sr_step_name = step_name, sr_node_id = node_id, sr_node_hostname = shown, sr_status = status,
      sr_output = output, sr_started_at = env_now env k, sr_finished_at = env_now env k,
      sr_duration_ms = 0\<rparr>"

definition run_task ::
  "flow_env \<Rightarrow> workflow_step \<Rightarrow> nat \<Rightarrow> flow_task \<Rightarrow> step_result \<times> step_output option" where
  "run_task env step k task = (case task of
      NodeTask (nid, host, addr, port, is_self) \<Rightarrow>
        task_result env k (st_name step) nid host
          (if is_self then env_local env k (st_action step)
           else env_remote env k addr port (st_action step))
    | ContainerTask (nid, host, addr, port, is_self) ct \<Rightarrow>
        task_result env k (st_name step) nid
          (ct_runtime ct @ '':'' @ ct_name ct @ '' on '' @ host)
          (if is_self then env_container env k (st_action step) ct
           else env_container_remote env k addr port (st_action step) ct)
    | MissingHost ct \<Rightarrow>
        (instant_result env k (st_name step) (ct_node_id ct) (ct_runtime ct @ '':'' @ ct_name ct) Failed
           (''Host node '' @ quoted (ct_node_id ct) @ '' not found or offline''), None)
    | AllContainersTask (nid, host, addr, port, is_self) \<Rightarrow>
        task_result env k (st_name step) nid (host @ '' (containers)'')
          (if is_self then env_all_containers env k (st_action step)
           else env_all_containers_remote env k addr port (st_action step)))"

text \<open>Awaiting a task yields its result, or an error when the task panicked.\<close>

definition await_task ::
  "flow_env \<Rightarrow> workflow_step \<Rightarrow> nat \<times> flow_task \<Rightarrow> step_result \<times> step_output option" where
  "await_task env step = (\<lambda>(k, task).
     case env_task_panic env k of
       None \<Rightarrow> run_task env step k task
     | Some e \<Rightarrow>
         (instant_result env k (st_name step) ''unknown'' ''unknown'' Failed (''Task error: '' @ e), None))"

definition attempt_results ::
  "flow_env \<Rightarrow> workflow_step \<Rightarrow> wf_target \<Rightarrow> target_node list \<Rightarrow> nat \<Rightarrow>
   (step_result \<times> step_output option) list" where
  "attempt_results env step target targets k =
     map (await_task env step) (enumerate k (step_tasks env k target targets))"

definition any_failed :: "(step_result \<times> step_output option) list \<Rightarrow> bool" where
  "any_failed rs = list_ex (\<lambda>(r, _). sr_status r = Failed) rs"

definition last_output :: "(step_result \<times> step_output option) list \<Rightarrow> step_output option" where
  "last_output rs = (case List.map_filter snd rs of [] \<Rightarrow> None | outs \<Rightarrow> Some (last outs))"

section \<open>The steps\<close>

record exec_state =
  x_store :: flow_state
  x_run :: workflow_run
  x_ctx :: workflow_context
  x_idx :: nat
  x_had_failure :: bool
  x_aborted :: bool
  x_clock :: nat

definition aborts :: "on_failure \<Rightarrow> bool" where
  "aborts f = (f = Abort \<or> f = NotifyAndAbort)"

definition push_results :: "step_result list \<Rightarrow> workflow_run \<Rightarrow> workflow_run" where
  "push_results rs run = run\<lparr>run_steps := run_steps run @ rs\<rparr>"

definition forget_step :: "string \<Rightarrow> workflow_run \<Rightarrow> workflow_run" where
  "forget_step name run = run\<lparr>run_steps := filter (\<lambda>r. sr_step_name r \<noteq> name) (run_steps run)\<rparr>"

text \<open>
  The retry loop: \<open>attempt\<close> counts from 0, the second number is how many attempts are left.
\<close>

fun attempt_loop ::
  "flow_env \<Rightarrow> workflow_step \<Rightarrow> wf_target \<Rightarrow> target_node list \<Rightarrow> nat \<Rightarrow> nat \<Rightarrow> exec_state \<Rightarrow> exec_state" where
  "attempt_loop env step target targets attempt 0 x = x"
| "attempt_loop env step target targets attempt (Suc left) x =
     (let rs = attempt_results env step target targets (x_clock x);
          run = (if 0 < attempt then forget_step (st_name step) (x_run x) else x_run x);
          x' = x\<lparr>x_run := push_results (map fst rs) run, x_clock := x_clock x + length rs + 1\<rparr> in
      if \<not> any_failed rs
      then (case last_output rs of
              Some out \<Rightarrow> x'\<lparr>x_ctx := ctx_insert (st_name step) out (x_ctx x')\<rparr>
            | None \<Rightarrow> x')
      else if left = 0
      then x'\<lparr>x_had_failure := True, x_aborted := x_aborted x' \<or> aborts (st_on_failure step)\<rparr>
      else attempt_loop env step target targets (Suc attempt) left x')"

definition max_attempts :: "workflow_step \<Rightarrow> nat" where
  "max_attempts step = unat (st_retry_count step + 1)"

definition save_progress :: "flow_env \<Rightarrow> exec_state \<Rightarrow> exec_state" where
  "save_progress env x =
     (let run = (x_run x)\<lparr>run_duration_ms := env_elapsed_ns env (x_clock x) div 1000000\<rparr> in
      x\<lparr>x_run := run,
        x_store := update_run (run_id run) run (env_others env (x_clock x) (x_store x)),
        x_clock := x_clock x + 1\<rparr>)"

definition bool_text :: "bool \<Rightarrow> string" where
  "bool_text b = (if b then ''true'' else ''false'')"

definition right_arrow :: string where "right_arrow = [CHR 0xE2, CHR 0x86, CHR 0x92]"

definition condition_step ::
  "flow_env \<Rightarrow> workflow_step \<Rightarrow> string \<Rightarrow> string \<Rightarrow> string \<Rightarrow> exec_state \<Rightarrow> exec_state" where
  "condition_step env step expression compare_to operator x =
     (let js = env_json_text env;
          result = evaluate_condition js expression compare_to operator (x_ctx x);
          out = \<lparr>so_text = ''Condition: '' @ expression @ '' '' @ right_arrow @ '' '' @ bool_text result,
            so_data = [(''result'', JBool result),
              (''expression_resolved'', JString (resolve_templates js expression (x_ctx x)))]\<rparr>;
          ctx = ctx_insert (st_name step) out (x_ctx x);
          r = instant_result env (x_clock x) (st_name step) ''local'' ''local'' Completed
            (''Condition '' @ quoted (resolve_templates js expression ctx) @ '' '' @ operator @ '' '' @
             quoted compare_to @ '' '' @ right_arrow @ '' '' @ bool_text result) in
      save_progress env
        (x\<lparr>x_ctx := ctx, x_run := push_results [r] (x_run x),
           x_idx := unwrap_or (x_idx x + 1) (if result then st_on_true step else st_on_false step)\<rparr>))"

definition no_target_step :: "flow_env \<Rightarrow> workflow_step \<Rightarrow> exec_state \<Rightarrow> exec_state" where
  "no_target_step env step x =
     (let r = instant_result env (x_clock x) (st_name step) ''none'' ''none'' Failed
        ''No target nodes found'' in
      x\<lparr>x_run := push_results [r] (x_run x), x_had_failure := True,
        x_aborted := x_aborted x \<or> aborts (st_on_failure step), x_idx := x_idx x + 1,
        x_clock := x_clock x + 1\<rparr>)"

definition action_step ::
  "flow_env \<Rightarrow> workflow_step \<Rightarrow> wf_target \<Rightarrow> target_node list \<Rightarrow> exec_state \<Rightarrow> exec_state" where
  "action_step env step target targets x =
     (let x' = save_progress env (attempt_loop env step target targets 0 (max_attempts step) x) in
      x'\<lparr>x_idx := x_idx x' + 1\<rparr>)"

definition exec_step :: "flow_env \<Rightarrow> workflow \<Rightarrow> workflow_step \<Rightarrow> exec_state \<Rightarrow> exec_state" where
  "exec_step env w step x =
     (case st_action step of
        Condition expression compare_to operator \<Rightarrow>
          condition_step env step expression compare_to operator x
      | _ \<Rightarrow>
          (let target = unwrap_or (wf_target_scope w) (st_target_override step);
               targets = resolve_targets (env_nodes env (x_clock x)) target in
           if targets = [] then no_target_step env step x
           else action_step env step target targets x))"

section \<open>The run\<close>

definition over_time :: "flow_env \<Rightarrow> workflow \<Rightarrow> exec_state \<Rightarrow> bool" where
  "over_time env w x =
     (0 < wf_max_runtime_secs w \<and>
      unat (wf_max_runtime_secs w) * 1000000000 < env_elapsed_ns env (x_clock x))"

fun run_loop :: "nat \<Rightarrow> flow_env \<Rightarrow> workflow \<Rightarrow> exec_state \<Rightarrow> exec_state option" where
  "run_loop 0 env w x = None"
| "run_loop (Suc fuel) env w x =
     (if x_idx x < length (wf_steps w) \<and> \<not> x_aborted x
      then if over_time env w x then Some (x\<lparr>x_aborted := True\<rparr>)
           else run_loop fuel env w (exec_step env w (wf_steps w ! x_idx x) x)
      else Some x)"

definition final_status :: "exec_state \<Rightarrow> run_status" where
  "final_status x =
     (if x_aborted x then Failed else if x_had_failure x then PartialFailure else Completed)"

subsection \<open>Mailing the results\<close>

fun status_debug :: "run_status \<Rightarrow> string" where
  "status_debug Running = ''Running''"
| "status_debug Completed = ''Completed''"
| "status_debug Failed = ''Failed''"
| "status_debug PartialFailure = ''PartialFailure''"

text \<open>\<^verbatim>\<open>&s.output[..500]\<close> panics, here \<^const>\<open>None\<close>, unless byte 500 starts a character.\<close>

definition mail_cell :: "string \<Rightarrow> string option" where
  "mail_cell output =
     (if 500 < length output then map_option (\<lambda>s. s @ ''...'') (str_slice_to 500 output)
      else Some output)"

definition mail_row :: "step_result \<Rightarrow> string option" where
  "mail_row r = map_option (\<lambda>cell.
     ''<tr><td>'' @ sr_step_name r @ ''</td><td>'' @ sr_node_hostname r @ ''</td><td>'' @
     status_debug (sr_status r) @ ''</td><td>'' @ show_nat (sr_duration_ms r) @ ''ms</td><td><pre>'' @
     cell @ ''</pre></td></tr>'') (mail_cell (sr_output r))"

definition all_some :: "'a option list \<Rightarrow> 'a list option" where
  "all_some xs = (if list_all (\<lambda>x. x \<noteq> None) xs then Some (map the xs) else None)"

definition mail_body :: "workflow \<Rightarrow> string \<Rightarrow> workflow_run \<Rightarrow> string option" where
  "mail_body w trigger run = map_option (\<lambda>rows.
     ''<html><body style='' @ quoted ''font-family:sans-serif;'' @ ''><h2>[WolfFlow] '' @ wf_name w @
     '' &mdash; '' @ status_debug (run_state run) @ ''</h2><p>Trigger: '' @ trigger @ '' | Duration: '' @
     show_nat (run_duration_ms run) @ ''ms | Steps: '' @ show_nat (length (run_steps run)) @
     ''</p><table border='' @ quoted ''1'' @ '' cellpadding='' @ quoted ''6'' @ '' cellspacing='' @ quoted ''0'' @
     '' style='' @ quoted ''border-collapse:collapse;font-size:13px;'' @
     ''><tr><th>Step</th><th>Node</th><th>Status</th><th>Duration</th><th>Output</th></tr>'' @
     concat rows @ ''</table></body></html>'') (all_some (map mail_row (run_steps run)))"

definition smtp_missing :: string where
  "smtp_missing = ''Failed: SMTP not configured in Settings '' @ right_arrow @ '' AI Agent''"

definition mail_results :: "flow_env \<Rightarrow> workflow \<Rightarrow> string \<Rightarrow> workflow_run \<Rightarrow> workflow_run option" where
  "mail_results env w trigger run =
     (case wf_email_results w of
        Some (c # cs) \<Rightarrow>
          (let email = c # cs;
               subject = ''[WolfFlow] '' @ wf_name w @ '' '' @ em_dash @ '' '' @ status_debug (run_state run) in
           if env_smtp_host env = []
           then Some (run\<lparr>run_email_status := Some smtp_missing\<rparr>)
           else map_option (\<lambda>body.
                  run\<lparr>run_email_status := Some (case env_send_mail env email subject body of
                        Inr _ \<Rightarrow> ''Sent to '' @ email
                      | Inl e \<Rightarrow> ''Failed: '' @ e)\<rparr>)
                (mail_body w trigger run))
      | _ \<Rightarrow> Some run)"

subsection \<open>The whole run\<close>

datatype run_outcome =
    Finished workflow_run flow_state
  | Panicked flow_state

definition new_run :: "string \<Rightarrow> string \<Rightarrow> workflow \<Rightarrow> string \<Rightarrow> workflow_run" where
  "new_run rid started w trigger =
     \<lparr>run_id = rid, run_workflow_id = wf_id w, run_workflow_name = wf_name w, run_state = Running,
      run_trigger = trigger, run_steps = [], run_started_at = started, run_finished_at = None,
      run_duration_ms = 0, run_email_status = None\<rparr>"

definition start_run :: "flow_env \<Rightarrow> string \<Rightarrow> workflow \<Rightarrow> string \<Rightarrow> flow_state \<Rightarrow> exec_state" where
  "start_run env rid w trigger st =
     (let run = new_run rid (env_now env 0) w trigger in
      \<lparr>x_store = add_run run (env_others env 0 st), x_run = run, x_ctx = \<lparr>step_outputs = []\<rparr>, x_idx = 0,
       x_had_failure = False, x_aborted = False, x_clock = 1\<rparr>)"

definition finish_run :: "flow_env \<Rightarrow> workflow \<Rightarrow> string \<Rightarrow> exec_state \<Rightarrow> run_outcome" where
  "finish_run env w trigger x =
     (let k = x_clock x;
          run = (x_run x)\<lparr>run_state := final_status x, run_finished_at := Some (env_now env k),
            run_duration_ms := env_elapsed_ns env k div 1000000\<rparr> in
      case mail_results env w trigger run of
        None \<Rightarrow> Panicked (x_store x)
      | Some run' \<Rightarrow>
          Finished run'
            (mark_last_run (env_now env (k + 1)) (wf_id w)
              (env_others env (k + 1)
                (update_run (run_id run') run' (env_others env k (x_store x))))))"

definition execute_workflow ::
  "nat \<Rightarrow> flow_env \<Rightarrow> string \<Rightarrow> workflow \<Rightarrow> string \<Rightarrow> flow_state \<Rightarrow> run_outcome option" where
  "execute_workflow fuel env rid w trigger st =
     map_option (finish_run env w trigger) (run_loop fuel env w (start_run env rid w trigger st))"

end
