(* ===== verification/Flow_Runs.thy ===== *)
theory Flow_Runs
  imports Flow_Engine
begin

text \<open>
  WolfFlow, part 8: what a run guarantees. The locale \<open>run_invariant\<close> carries a property of the state
  of a run through the loop; it is interpreted for the run's identity, for the link between
  failed results and the failure flag, and for the record in the store. Then: when a run ends (every
  branch leads forward, or the run has a time limit) and when it does not (a cycle of conditions
  without a limit).
\<close>

section \<open>Invariants of the loop\<close>

locale run_invariant =
  fixes P :: "exec_state \<Rightarrow> bool" and env :: flow_env and w :: workflow
  assumes exec: "P x \<Longrightarrow> x_idx x < length (wf_steps w) \<Longrightarrow>
      P (exec_step env w (wf_steps w ! x_idx x) x)"
    and stop: "P x \<Longrightarrow> P (x\<lparr>x_aborted := True\<rparr>)"
begin

lemma run_loop: "run_loop fuel env w x = Some x' \<Longrightarrow> P x \<Longrightarrow> P x'"
proof (induction fuel arbitrary: x)
  case (Suc fuel)
  then show ?case using exec stop by (auto split: if_splits)
qed simp

lemma execute:
  assumes "execute_workflow fuel env rid w trigger st = Some out" "P (start_run env rid w trigger st)"
  obtains x where "P x" "out = finish_run env w trigger x"
  using assms run_loop by (auto simp: execute_workflow_def)

end

definition is_condition :: "workflow_step \<Rightarrow> bool" where
  "is_condition step = (case st_action step of Condition _ _ _ \<Rightarrow> True | _ \<Rightarrow> False)"

definition step_target :: "workflow \<Rightarrow> workflow_step \<Rightarrow> wf_target" where
  "step_target w step = unwrap_or (wf_target_scope w) (st_target_override step)"

lemma exec_step_action:
  "\<not> is_condition step \<Longrightarrow> exec_step env w step x =
     (if resolve_targets (env_nodes env (x_clock x)) (step_target w step) = []
      then no_target_step env step x
      else action_step env step (step_target w step)
             (resolve_targets (env_nodes env (x_clock x)) (step_target w step)) x)"
  by (simp add: exec_step_def is_condition_def step_target_def Let_def split: action_type.splits)

text \<open>The three kinds of step, for case distinctions.\<close>

lemma exec_step_cases:
  obtains (condition) e c p where "st_action step = Condition e c p"
    "exec_step env w step x = condition_step env step e c p x"
  | (no_target) "\<not> is_condition step" "exec_step env w step x = no_target_step env step x"
  | (action) target targets where "\<not> is_condition step"
      "exec_step env w step x = action_step env step target targets x"
proof (cases "is_condition step")
  case True
  then obtain e c p where "st_action step = Condition e c p"
    by (auto simp: is_condition_def split: action_type.splits)
  then show thesis using condition by (simp add: exec_step_def)
next
  case False
  from exec_step_action [OF False, of env w x] show thesis
    using no_target action False by (simp split: if_splits)
qed

section \<open>The results of an attempt\<close>

lemma task_result_facts:
  "sr_step_name (fst (task_result env k n i h r)) = n"
  "sr_status (fst (task_result env k n i h r)) = (case r of Ok _ \<Rightarrow> Completed | Err _ \<Rightarrow> Failed)"
  by (cases "env_task_times env k"; cases r; simp add: task_result_def)+

lemma await_task_facts:
  "sr_step_name (fst (await_task env step t)) = st_name step"
  "sr_status (fst (await_task env step t)) \<in> {Completed, Failed}"
  by (auto simp: await_task_def run_task_def instant_result_def task_result_facts
      split: prod.splits option.splits flow_task.splits sum.splits)

lemma attempt_results_facts:
  assumes "(r, out) \<in> set (attempt_results env step target targets k)"
  shows "sr_step_name r = st_name step" "sr_status r \<in> {Completed, Failed}"
proof -
  from assms obtain t where "(r, out) = await_task env step t" by (auto simp: attempt_results_def)
  then have "r = fst (await_task env step t)" by (metis fst_conv)
  then show "sr_step_name r = st_name step" "sr_status r \<in> {Completed, Failed}"
    using await_task_facts [of env step t] by auto
qed

lemma no_failure_completed:
  assumes "\<not> any_failed (attempt_results env step target targets k)"
    "r \<in> fst ` set (attempt_results env step target targets k)"
  shows "sr_status r = Completed"
  using assms attempt_results_facts(2) by (fastforce simp: any_failed_def list_ex_iff)

section \<open>What the retry loop leaves alone\<close>

lemma attempt_loop_frame:
  "x_idx (attempt_loop env step target targets a n x) = x_idx x"
  "x_store (attempt_loop env step target targets a n x) = x_store x"
  "run_id (x_run (attempt_loop env step target targets a n x)) = run_id (x_run x)"
  "run_state (x_run (attempt_loop env step target targets a n x)) = run_state (x_run x)"
  by (induction env step target targets a n x rule: attempt_loop.induct)
    (auto simp: Let_def push_results_def forget_step_def split: option.splits)

lemma attempt_loop_clock: "x_clock x \<le> x_clock (attempt_loop env step target targets a n x)"
proof (induction env step target targets a n x rule: attempt_loop.induct)
  case (2 env step target targets a left x)
  show ?case
  proof (cases "any_failed (attempt_results env step target targets (x_clock x)) \<and> left \<noteq> 0")
    case True
    with 2 [OF refl refl refl] show ?thesis by (simp add: Let_def)
  next
    case False
    then show ?thesis by (auto simp: Let_def split: option.splits)
  qed
qed simp

lemma save_progress_frame [simp]:
  "x_idx (save_progress env x) = x_idx x"
  "run_id (x_run (save_progress env x)) = run_id (x_run x)"
  "run_state (x_run (save_progress env x)) = run_state (x_run x)"
  "run_steps (x_run (save_progress env x)) = run_steps (x_run x)"
  "x_had_failure (save_progress env x) = x_had_failure x"
  "x_aborted (save_progress env x) = x_aborted x"
  "x_clock (save_progress env x) = x_clock x + 1"
  by (simp_all add: save_progress_def Let_def)

lemma exec_step_clock: "x_clock x < x_clock (exec_step env w step x)"
proof (cases rule: exec_step_cases [of step env w x])
  case (condition e c p)
  then show ?thesis by (simp add: condition_step_def Let_def)
next
  case no_target
  then show ?thesis by (simp add: no_target_step_def Let_def)
next
  case (action target targets)
  with attempt_loop_clock [of x env step target targets 0 "max_attempts step"]
  show ?thesis by (simp add: action_step_def Let_def less_Suc_eq_le)
qed

section \<open>Failed results and the failure flag\<close>

definition all_completed :: "exec_state \<Rightarrow> bool" where
  "all_completed x = (x_had_failure x \<or> (\<forall>r \<in> set (run_steps (x_run x)). sr_status r = Completed))"

definition completed_but :: "string \<Rightarrow> exec_state \<Rightarrow> bool" where
  "completed_but name x = (x_had_failure x \<or>
     (\<forall>r \<in> set (run_steps (x_run x)). sr_step_name r \<noteq> name \<longrightarrow> sr_status r = Completed))"

lemma attempt_loop_completed:
  assumes "if a = 0 then all_completed x else completed_but (st_name step) x" "a = 0 \<or> n \<noteq> 0"
  shows "all_completed (attempt_loop env step target targets a n x)"
  using assms
proof (induction env step target targets a n x rule: attempt_loop.induct)
  case (2 env step target targets a left x)
  let ?rs = "attempt_results env step target targets (x_clock x)"
  let ?run = "if 0 < a then forget_step (st_name step) (x_run x) else x_run x"
  let ?x = "x\<lparr>x_run := push_results (map fst ?rs) ?run, x_clock := x_clock x + length ?rs + 1\<rparr>"
  from 2(2) have old: "x_had_failure x \<or> (\<forall>r \<in> set (run_steps ?run). sr_status r = Completed)"
    by (auto simp: all_completed_def completed_but_def forget_step_def split: if_splits)
  show ?case
  proof (cases "any_failed ?rs")
    case False
    with old no_failure_completed [OF False] have "all_completed ?x"
      by (auto simp: all_completed_def push_results_def)
    with False show ?thesis by (auto simp: Let_def all_completed_def split: option.splits)
  next
    case True
    show ?thesis
    proof (cases "left = 0")
      case True
      with \<open>any_failed ?rs\<close> show ?thesis by (simp add: Let_def all_completed_def)
    next
      case False
      have "completed_but (st_name step) ?x"
        using old attempt_results_facts(1) [of _ _ env step target targets "x_clock x"]
        by (fastforce simp: completed_but_def push_results_def)
      with 2(1) [OF refl refl refl] True False show ?thesis by (simp add: Let_def)
    qed
  qed
qed simp

lemma exec_step_completed: "all_completed x \<Longrightarrow> all_completed (exec_step env w step x)"
proof (cases rule: exec_step_cases [of step env w x])
  case (condition e c p)
  assume "all_completed x"
  with condition show ?thesis
    by (auto simp: condition_step_def Let_def all_completed_def push_results_def instant_result_def)
next
  case no_target
  then show ?thesis by (simp add: no_target_step_def Let_def all_completed_def)
next
  case (action target targets)
  assume "all_completed x"
  then have "all_completed (attempt_loop env step target targets 0 (max_attempts step) x)"
    by (simp add: attempt_loop_completed)
  with action show ?thesis by (simp add: action_step_def Let_def all_completed_def)
qed

interpretation results: run_invariant all_completed env w for env w
  by unfold_locales (auto simp: exec_step_completed, simp add: all_completed_def)
section \<open>The record in the store\<close>

text \<open>
  What other tasks do to the store between two observations of this run: they start runs of their own, \<open>n\<close>
  of them, update those, and change workflows. The history keeps the newest 500 runs, so a run's record is
  safe while fewer than 500 others have been started after it.
\<close>

inductive others_do :: "string \<Rightarrow> nat \<Rightarrow> (flow_state \<Rightarrow> flow_state) \<Rightarrow> bool" for rid where
  nothing: "others_do rid 0 (\<lambda>st. st)"
| starts: "others_do rid n f \<Longrightarrow> run_id r \<noteq> rid \<Longrightarrow> others_do rid (Suc n) (\<lambda>st. add_run r (f st))"
| updates: "others_do rid n f \<Longrightarrow> i \<noteq> rid \<Longrightarrow> run_id r \<noteq> rid \<Longrightarrow> others_do rid n (\<lambda>st. update_run i r (f st))"
| edits: "others_do rid n f \<Longrightarrow> (\<And>st. fs_runs (g st) = fs_runs st) \<Longrightarrow> others_do rid n (\<lambda>st. g (f st))"

definition others_keep :: "string \<Rightarrow> flow_env \<Rightarrow> bool" where
  "others_keep rid env =
     (\<exists>n. (\<forall>k. others_do rid (n k) (env_others env k)) \<and> (\<forall>K. (\<Sum>k<K. n k) < max_runs))"

text \<open>The history holds \<open>r\<close> under \<open>rid\<close> with at most \<open>m\<close> newer runs.\<close>

definition held :: "string \<Rightarrow> nat \<Rightarrow> workflow_run \<Rightarrow> flow_state \<Rightarrow> bool" where
  "held rid m r st =
     (\<exists>pre post. fs_runs st = pre @ r # post \<and> (\<forall>x \<in> set pre. run_id x \<noteq> rid) \<and> run_id r = rid \<and> length post \<le> m)"

lemma held_find: "held rid m r st \<Longrightarrow> find (\<lambda>r. run_id r = rid) (fs_runs st) = Some r"
proof -
  have "find (\<lambda>r. run_id r = rid) (pre @ r # post) = Some r" if "\<forall>x \<in> set pre. run_id x \<noteq> rid" "run_id r = rid" for pre post
    using that by (induction pre) auto
  then show "held rid m r st \<Longrightarrow> find (\<lambda>r. run_id r = rid) (fs_runs st) = Some r" by (auto simp: held_def)
qed

lemma held_mono: "held rid m r st \<Longrightarrow> m \<le> m' \<Longrightarrow> held rid m' r st"
  unfolding held_def by (meson le_trans)

lemma fs_runs_simps [simp]:
  "fs_runs (save_runs st) = fs_runs st" "fs_runs (save_workflows st) = fs_runs st"
  "fs_runs (mark_last_run now i st) = fs_runs st"
  by (simp_all add: save_runs_def save_workflows_def mark_last_run_def)

lemma held_edit: "fs_runs st' = fs_runs st \<Longrightarrow> held rid m r st' = held rid m r st"
  by (simp add: held_def)

lemma held_update_own:
  assumes "held rid m r st" "run_id run = rid"
  shows "held rid m run (update_run rid run st)"
proof -
  have "update_first (\<lambda>x. run_id x = rid) (\<lambda>_. run) (pre @ r # post) = pre @ run # post"
    if "\<forall>x \<in> set pre. run_id x \<noteq> rid" "run_id r = rid" for pre post
    using that by (induction pre) auto
  with assms show ?thesis unfolding held_def update_run_def by fastforce
qed

lemma update_first_around:
  assumes "\<not> p r"
  shows "\<exists>pre' post'. update_first p f (pre @ r # post) = pre' @ r # post' \<and> length post' = length post
    \<and> set pre' \<subseteq> set pre \<union> range f"
proof (induction pre)
  case Nil
  show ?case using assms by (intro exI [of _ "[]"] exI [of _ "update_first p f post"]) simp
next
  case (Cons a pre)
  then obtain pre' post' where "update_first p f (pre @ r # post) = pre' @ r # post'" "length post' = length post"
    "set pre' \<subseteq> set pre \<union> range f" by blast
  then have "update_first p f ((a # pre) @ r # post) = (if p a then (f a # pre) @ r # post else (a # pre') @ r # post')"
    by simp
  then show ?case
    using \<open>length post' = length post\<close> \<open>set pre' \<subseteq> set pre \<union> range f\<close>
    by (intro exI [of _ "if p a then f a # pre else a # pre'"] exI [of _ "if p a then post else post'"]) auto
qed

lemma held_update_other:
  assumes "held rid m r st" "i \<noteq> rid" "run_id r' \<noteq> rid"
  shows "held rid m r (update_run i r' st)"
proof -
  from assms(1) obtain pre post where st: "fs_runs st = pre @ r # post" "\<forall>x \<in> set pre. run_id x \<noteq> rid" "run_id r = rid"
    "length post \<le> m" by (auto simp: held_def)
  from update_first_around [of "\<lambda>x. run_id x = i" r "\<lambda>_. r'" pre post] assms(2) st(3)
  obtain pre' post' where u: "update_first (\<lambda>x. run_id x = i) (\<lambda>_. r') (pre @ r # post) = pre' @ r # post'"
    "length post' = length post" "set pre' \<subseteq> insert r' (set pre)" by auto
  with st assms(3) show ?thesis unfolding held_def update_run_def by (intro exI [of _ pre'] exI [of _ post']) auto
qed

lemma held_add_other:
  assumes "held rid m r st" "Suc m < max_runs"
  shows "held rid (Suc m) r (add_run r' st)"
proof -
  from assms(1) obtain pre post where st: "fs_runs st = pre @ r # post" "\<forall>x \<in> set pre. run_id x \<noteq> rid" "run_id r = rid"
    "length post \<le> m" by (auto simp: held_def)
  let ?d = "length (fs_runs st) + 1 - max_runs"
  have "?d \<le> length pre" using st(1,4) assms(2) by simp
  then have "trim_runs (fs_runs st @ [r']) = drop ?d pre @ r # (post @ [r'])"
    using st(1) by (auto simp: trim_runs_def)
  with st show ?thesis unfolding held_def add_run_def
    by (intro exI [of _ "drop ?d pre"] exI [of _ "post @ [r']"]) (auto dest: in_set_dropD)
qed

lemma others_do_held:
  assumes "others_do rid n f" "held rid m r st" "m + n < max_runs"
  shows "held rid (m + n) r (f st)"
  using assms
proof (induction arbitrary: m)
  case (starts n f r')
  then show ?case using held_add_other [of rid "m + n" r "f st" r'] by simp
next
  case (updates n f i r')
  then show ?case by (simp add: held_update_other)
next
  case (edits n f g)
  then show ?case by (simp add: held_edit [of "g (f st)" "f st"])
qed simp

lemma others_do_absent:
  assumes "others_do rid n f" "rid \<notin> run_id ` set (fs_runs st)"
  shows "rid \<notin> run_id ` set (fs_runs (f st))"
  using assms
proof induction
  case (updates n f i r)
  have "set (update_first p (\<lambda>_. r) xs) \<subseteq> insert r (set xs)" for p xs by (induction xs) auto
  with updates show ?case by (fastforce simp: update_run_def)
qed (auto simp: add_run_def trim_runs_def dest: in_set_dropD)

lemma held_add_own:
  assumes "rid \<notin> run_id ` set (fs_runs st)" "run_id run = rid"
  shows "held rid 0 run (add_run run st)"
proof -
  let ?d = "length (fs_runs st) + 1 - max_runs"
  have "trim_runs (fs_runs st @ [run]) = drop ?d (fs_runs st) @ run # []"
    by (auto simp: trim_runs_def max_runs_def)
  moreover have "\<forall>x \<in> set (drop ?d (fs_runs st)). run_id x \<noteq> rid" using assms(1) by (force dest: in_set_dropD)
  ultimately show ?thesis unfolding held_def add_run_def using assms(2)
    by (intro exI [of _ "drop ?d (fs_runs st)"] exI [of _ "[]"]) simp
qed

text \<open>While the loop runs, the run and its record in the store are \<open>Running\<close>.\<close>

definition in_progress :: "(nat \<Rightarrow> nat) \<Rightarrow> string \<Rightarrow> exec_state \<Rightarrow> bool" where
  "in_progress n rid x =
     (run_id (x_run x) = rid \<and> run_state (x_run x) = Running
      \<and> (\<exists>r. held rid (\<Sum>k<x_clock x. n k) r (x_store x) \<and> run_state r = Running))"

definition paced :: "(nat \<Rightarrow> nat) \<Rightarrow> string \<Rightarrow> flow_env \<Rightarrow> bool" where
  "paced n rid env = ((\<forall>k. others_do rid (n k) (env_others env k)) \<and> (\<forall>K. (\<Sum>k<K. n k) < max_runs))"

lemma others_keep_paced: "others_keep rid env \<longleftrightarrow> (\<exists>n. paced n rid env)"
  by (simp add: others_keep_def paced_def)

lemma paced_held:
  assumes "paced n rid env" "held rid (\<Sum>k<K. n k) r st"
  shows "held rid (\<Sum>k<Suc K. n k) r (env_others env K st)"
  using others_do_held [of rid "n K" "env_others env K" "\<Sum>k<K. n k" r st] assms
  by (simp add: paced_def flip: sum.lessThan_Suc)

lemma in_progress_later:
  assumes "in_progress n rid x" "x_store y = x_store x" "run_id (x_run y) = rid" "run_state (x_run y) = Running"
    "x_clock x \<le> x_clock y"
  shows "in_progress n rid y"
proof -
  have "(\<Sum>k<x_clock x. n k) \<le> (\<Sum>k<x_clock y. n k)" using assms(5) by (intro sum_mono2) auto
  with assms held_mono show ?thesis unfolding in_progress_def by metis
qed

lemma save_progress_in_progress:
  assumes "paced n rid env" "in_progress n rid x"
  shows "in_progress n rid (save_progress env x)"
proof -
  from assms(2) obtain r where "held rid (\<Sum>k<x_clock x. n k) r (x_store x)" by (auto simp: in_progress_def)
  note own = held_update_own [OF paced_held [OF assms(1) this]]
  let ?run = "(x_run x)\<lparr>run_duration_ms := env_elapsed_ns env (x_clock x) div 1000000\<rparr>"
  have run: "run_id ?run = rid" "run_state ?run = Running" using assms(2) by (simp_all add: in_progress_def)
  have "held rid (\<Sum>k<Suc (x_clock x). n k) ?run (update_run rid ?run (env_others env (x_clock x) (x_store x)))"
    by (rule own [OF run(1)])
  with run show ?thesis unfolding in_progress_def save_progress_def Let_def by auto
qed

lemma exec_step_in_progress:
  assumes "paced n rid env" "in_progress n rid x"
  shows "in_progress n rid (exec_step env w step x)"
proof (cases rule: exec_step_cases [of step env w x])
  case (condition e c p)
  have "in_progress n rid (x\<lparr>x_ctx := ctx, x_run := push_results rs (x_run x), x_idx := i\<rparr>)" for ctx rs i
    using assms(2) by (simp add: in_progress_def push_results_def)
  with condition assms(1) show ?thesis by (simp add: condition_step_def Let_def save_progress_in_progress)
next
  case no_target
  have "in_progress n rid (no_target_step env step x)"
    using assms(2) by (intro in_progress_later [OF assms(2)])
      (simp_all add: no_target_step_def Let_def push_results_def in_progress_def)
  with no_target show ?thesis by simp
next
  case (action target targets)
  let ?x = "attempt_loop env step target targets 0 (max_attempts step) x"
  have "in_progress n rid ?x"
    using assms(2) by (intro in_progress_later [OF assms(2)]) (simp_all add: in_progress_def attempt_loop_frame attempt_loop_clock)
  from save_progress_in_progress [OF assms(1) this] action show ?thesis
    by (simp add: action_step_def Let_def in_progress_def)
qed

interpretation stored: run_invariant "\<lambda>x. paced n rid env \<longrightarrow> in_progress n rid x" env w for n rid env w
  by unfold_locales (use exec_step_in_progress in blast, simp add: in_progress_def)

lemma start_run_in_progress:
  assumes "paced n rid env" "find (\<lambda>r. run_id r = rid) (fs_runs st) = None"
  shows "in_progress n rid (start_run env rid w trigger st)"
proof -
  have "rid \<notin> run_id ` set (fs_runs (env_others env 0 st))"
  proof (rule others_do_absent [where f = "env_others env 0" and n = "n 0"])
    show "others_do rid (n 0) (env_others env 0)" using assms(1) by (simp add: paced_def)
    show "rid \<notin> run_id ` set (fs_runs st)" using assms(2) by (auto simp: find_None_iff)
  qed
  from held_mono [OF held_add_own [OF this]] show ?thesis
    by (force simp: start_run_def new_run_def Let_def in_progress_def)
qed

lemma mail_results_frame:
  "mail_results env w trigger run = Some run' \<Longrightarrow>
    run_id run' = run_id run \<and> run_steps run' = run_steps run \<and> run_state run' = run_state run"
  by (auto simp: mail_results_def Let_def split: option.splits list.splits if_splits)

lemma finish_run_Finished:
  assumes "finish_run env w trigger x = Finished run st"
  shows "run_id run = run_id (x_run x)" "run_steps run = run_steps (x_run x)" "run_state run = final_status x"
    "\<exists>now. st = mark_last_run now (wf_id w) (env_others env (Suc (x_clock x))
       (update_run (run_id run) run (env_others env (x_clock x) (x_store x))))"
  using assms mail_results_frame by (fastforce simp: finish_run_def Let_def split: option.splits)+

text \<open>
  C7 (completed_run_clean). A run that ends as \<open>Completed\<close> has no failed result in its record, on any node,
  in any step: the results of failed attempts were replaced by those of a successful one.
\<close>

theorem completed_run_clean:
  assumes "execute_workflow fuel env rid w trigger st = Some (Finished run st')"
    and "run_state run = Completed" "r \<in> set (run_steps run)"
  shows "sr_status r = Completed"
proof -
  have "all_completed (start_run env rid w trigger st)"
    by (simp add: all_completed_def start_run_def new_run_def Let_def)
  from results.execute [OF assms(1) this] obtain x
    where x: "all_completed x" "finish_run env w trigger x = Finished run st'" by metis
  have "final_status x = Completed" using finish_run_Finished(3) [OF x(2)] assms(2) by simp
  then have "\<not> x_had_failure x" by (auto simp: final_status_def split: if_splits)
  with x(1) assms(3) show ?thesis by (simp add: all_completed_def finish_run_Finished(2) [OF x(2)])
qed

text \<open>
  C10 (run_record_final). When a run returns, the history holds under its identifier the run that was
  returned, and its status is a final one. Other tasks may use the store at any time, starting and updating
  runs with other identifiers and editing workflows, as long as they start fewer than 500 runs from the
  start of this one to its end: the history keeps the newest 500, and a run that is overtaken by as many
  loses its record (\<open>run_record_trimmed\<close>).
\<close>

theorem run_record_final:
  assumes "execute_workflow fuel env rid w trigger st = Some (Finished run st')"
    and "others_keep rid env" "find (\<lambda>r. run_id r = rid) (fs_runs st) = None"
  shows "find (\<lambda>r. run_id r = rid) (fs_runs st') = Some run \<and> run_state run \<noteq> Running"
proof -
  from assms(2) obtain n where n: "paced n rid env" by (auto simp: others_keep_paced)
  from stored.execute [OF assms(1)] start_run_in_progress [OF n assms(3)] n obtain x r
    where x: "run_id (x_run x) = rid" "held rid (\<Sum>k<x_clock x. n k) r (x_store x)"
      and fin: "finish_run env w trigger x = Finished run st'" by (metis in_progress_def)
  have rid: "run_id run = rid" using finish_run_Finished(1) [OF fin] x(1) by simp
  obtain now where st': "st' = mark_last_run now (wf_id w) (env_others env (Suc (x_clock x))
      (update_run rid run (env_others env (x_clock x) (x_store x))))"
    using finish_run_Finished(4) [OF fin] rid by auto
  have "held rid (\<Sum>k<Suc (Suc (x_clock x)). n k) run st'"
    unfolding st' held_edit [OF fs_runs_simps(3)]
    by (rule paced_held [OF n held_update_own [OF paced_held [OF n x(2)] rid]])
  from held_find [OF this] have "find (\<lambda>r. run_id r = rid) (fs_runs st') = Some run" .
  moreover have "run_state run \<noteq> Running"
    using finish_run_Finished(3) [OF fin] by (auto simp: final_status_def)
  ultimately show ?thesis by blast
qed

text \<open>A run during whose last observation 500 other runs are started has no record when it returns.\<close>

lemma fold_add_run_tail:
  "\<exists>d. fs_runs (fold add_run rs st) = drop d (fs_runs st @ rs) \<and> (rs \<noteq> [] \<longrightarrow> length (drop d (fs_runs st @ rs)) \<le> max_runs)"
proof (induction rs rule: rev_induct)
  case Nil
  show ?case by (intro exI [of _ 0]) simp
next
  case (snoc r rs)
  then obtain d where d: "fs_runs (fold add_run rs st) = drop d (fs_runs st @ rs)" by blast
  define xs where "xs = fs_runs st @ rs"
  have trim: "trim_runs ys = drop (length ys - max_runs) ys" for ys by (simp add: trim_runs_def)
  have "drop d xs @ [r] = drop (min d (length xs)) (xs @ [r])"
    by (cases "d \<le> length xs") simp_all
  then have "fs_runs (fold add_run (rs @ [r]) st) =
      drop (length (drop d xs @ [r]) - max_runs + min d (length xs)) (xs @ [r])"
    using d by (simp add: add_run_def trim flip: xs_def del: drop_append length_append)
  moreover have "length \<dots> \<le> max_runs" by (cases "d \<le> length xs") auto
  ultimately show ?case unfolding xs_def append_assoc by blast
qed

lemma fold_add_run_newest:
  assumes "max_runs \<le> length rs"
  shows "set (fs_runs (fold add_run rs st)) \<subseteq> set rs"
proof -
  obtain d where d: "fs_runs (fold add_run rs st) = drop d (fs_runs st @ rs)" "length (drop d (fs_runs st @ rs)) \<le> max_runs"
    using fold_add_run_tail [of rs st] assms by (auto simp: max_runs_def)
  then have "length (fs_runs st) \<le> d" using assms by simp
  with d(1) show ?thesis by (auto dest: in_set_dropD)
qed

theorem run_record_trimmed:
  assumes "execute_workflow fuel env rid w trigger st = Some (Finished run st')"
    and "\<And>k. env_others env k = fold add_run (started k)" "\<And>k. max_runs \<le> length (started k)"
    and "\<And>k. rid \<notin> run_id ` set (started k)"
  shows "find (\<lambda>r. run_id r = rid) (fs_runs st') = None"
proof -
  from assms(1) obtain x where "finish_run env w trigger x = Finished run st'" by (auto simp: execute_workflow_def)
  from finish_run_Finished(4) [OF this] obtain k st1 where
    st': "fs_runs st' = fs_runs (fold add_run (started k) st1)" by (auto simp: assms(2))
  have "set (fs_runs st') \<subseteq> set (started k)" unfolding st' by (rule fold_add_run_newest [OF assms(3)])
  with assms(4) [of k] show ?thesis by (fastforce simp: find_None_iff)
qed

text \<open>A run whose task panics leaves its record in the history as \<open>Running\<close>.\<close>

lemma panicked_run_stays_running:
  assumes "execute_workflow fuel env rid w trigger st = Some (Panicked st')"
    and "others_keep rid env" "find (\<lambda>r. run_id r = rid) (fs_runs st) = None"
  shows "\<exists>r. find (\<lambda>r. run_id r = rid) (fs_runs st') = Some r \<and> run_state r = Running"
proof -
  from assms(2) obtain n where n: "paced n rid env" by (auto simp: others_keep_paced)
  from stored.execute [OF assms(1)] start_run_in_progress [OF n assms(3)] n obtain x r
    where x: "held rid (\<Sum>k<x_clock x. n k) r (x_store x)" "run_state r = Running"
      and fin: "finish_run env w trigger x = Panicked st'" by (metis in_progress_def)
  from fin have "st' = x_store x" by (simp add: finish_run_def Let_def split: option.splits)
  with held_find [OF x(1)] x(2) show ?thesis by simp
qed

section \<open>The failure policy\<close>

text \<open>A step fails when it has no target, or when each of its attempts has a failed result.\<close>

fun attempts_fail ::
  "flow_env \<Rightarrow> workflow_step \<Rightarrow> wf_target \<Rightarrow> target_node list \<Rightarrow> nat \<Rightarrow> nat \<Rightarrow> bool" where
  "attempts_fail env step target targets 0 k = False"
| "attempts_fail env step target targets (Suc n) k =
     (any_failed (attempt_results env step target targets k) \<and>
      (n = 0 \<or> attempts_fail env step target targets n
         (k + length (attempt_results env step target targets k) + 1)))"

definition step_fails :: "flow_env \<Rightarrow> workflow \<Rightarrow> workflow_step \<Rightarrow> nat \<Rightarrow> bool" where
  "step_fails env w step k =
     (let targets = resolve_targets (env_nodes env k) (step_target w step) in
      targets = [] \<or> attempts_fail env step (step_target w step) targets (max_attempts step) k)"

lemma attempt_loop_policy:
  "x_had_failure (attempt_loop env step target targets a n x) =
     (x_had_failure x \<or> attempts_fail env step target targets n (x_clock x)) \<and>
   x_aborted (attempt_loop env step target targets a n x) =
     (x_aborted x \<or> attempts_fail env step target targets n (x_clock x) \<and> aborts (st_on_failure step))"
proof (induction env step target targets a n x rule: attempt_loop.induct)
  case (2 env step target targets a left x)
  show ?case
  proof (cases "any_failed (attempt_results env step target targets (x_clock x)) \<and> left \<noteq> 0")
    case True
    with 2 [OF refl refl refl] show ?thesis by (simp add: Let_def)
  next
    case False
    then show ?thesis by (auto simp: Let_def split: option.splits)
  qed
qed simp

text \<open>
  C21 (failure_policy_applied). An action step marks the run as failed exactly when it has no target or all its
  attempts fail, and it aborts the run exactly when in addition its policy is one of the two aborting
  ones; an aborted run executes no further step and ends as \<open>Failed\<close>.
\<close>

theorem failure_policy_applied:
  assumes "\<not> is_condition step" "\<not> x_had_failure x" "\<not> x_aborted x"
  shows "x_had_failure (exec_step env w step x) = step_fails env w step (x_clock x) \<and>
    x_aborted (exec_step env w step x) =
      (step_fails env w step (x_clock x) \<and> aborts (st_on_failure step)) \<and>
    (x_aborted (exec_step env w step x) \<longrightarrow>
      run_loop (Suc fuel) env w (exec_step env w step x) = Some (exec_step env w step x) \<and>
      final_status (exec_step env w step x) = Failed)"
proof -
  have "x_had_failure (exec_step env w step x) = step_fails env w step (x_clock x) \<and>
    x_aborted (exec_step env w step x) =
      (step_fails env w step (x_clock x) \<and> aborts (st_on_failure step))"
    using assms attempt_loop_policy
    by (simp add: exec_step_action step_fails_def no_target_step_def action_step_def Let_def)
  then show ?thesis by (simp add: final_status_def)
qed

end
