(* ===== verification/Flow_Schedule.thy ===== *)
theory Flow_Schedule
  imports Flow_Store
begin

text \<open>
  WolfFlow, part 5: the workflow store survives a restart and keeps at most 500 runs, and what the
  schedule poll promises: no minute is polled twice, but a minute can be missed, and the test for a
  run of the same minute never succeeds.
\<close>

section \<open>Durability and the bound on the history\<close>

definition on_disk :: "flow_state \<Rightarrow> bool" where
  "on_disk st = (fs_writable st \<and> fs_workflows st = unwrap_or [] (fs_disk_workflows st) \<and>
     fs_runs st = unwrap_or [] (fs_disk_runs st))"

definition flow_inv :: "flow_state \<Rightarrow> bool" where
  "flow_inv st = (on_disk st \<and> length (fs_runs st) \<le> max_runs)"

inductive flow_step :: "flow_state \<Rightarrow> flow_state \<Rightarrow> bool" where
  create: "flow_step st (snd (create_workflow w st))"
| update: "flow_step st (snd (update_workflow now i w st))"
| delete: "flow_step st (snd (delete_workflow i st))"
| mark: "flow_step st (mark_last_run now i st)"
| started: "flow_step st (add_run r st)"
| progress: "flow_step st (update_run i r st)"
| renamed: "flow_step st (snd (flow_rename_cluster a b st))"
| restart: "flow_step st (flow_new st)"

inductive flow_reach :: "flow_state \<Rightarrow> bool" where
  empty: "flow_reach \<lparr>fs_workflows = [], fs_runs = [], fs_disk_workflows = None, fs_disk_runs = None,
     fs_writable = True\<rparr>"
| step: "flow_reach st \<Longrightarrow> flow_step st st' \<Longrightarrow> flow_reach st'"

lemma flow_new_on_disk: "on_disk st \<Longrightarrow> flow_new st = st"
  by (cases st) (auto simp: on_disk_def flow_new_def load_workflows_def load_runs_def split: option.splits)

lemma save_workflows_inv:
  "flow_inv st \<Longrightarrow> flow_inv (save_workflows (st\<lparr>fs_workflows := ws\<rparr>))"
  by (auto simp: flow_inv_def on_disk_def save_workflows_def)

lemma save_runs_inv:
  "flow_inv st \<Longrightarrow> length rs \<le> max_runs \<Longrightarrow> flow_inv (save_runs (st\<lparr>fs_runs := rs\<rparr>))"
  by (simp add: flow_inv_def on_disk_def save_runs_def)

lemma length_trim_runs: "length (trim_runs rs) \<le> max_runs"
  by (simp add: trim_runs_def)

lemma last_trim_runs: "last (trim_runs (rs @ [r])) = r" "trim_runs (rs @ [r]) \<noteq> []"
  by (auto simp: trim_runs_def max_runs_def)

lemma rename_none: "filter (\<lambda>w. wf_cluster w = a) ws = [] \<Longrightarrow>
    map (\<lambda>w. if wf_cluster w = a then w\<lparr>wf_cluster := b\<rparr> else w) ws = ws"
  by (induction ws) (auto split: if_splits)

lemma flow_step_inv:
  assumes "flow_step st st'" "flow_inv st"
  shows "flow_inv st'"
  using assms
proof cases
  case (renamed a b)
  show ?thesis
  proof (cases "filter (\<lambda>w. wf_cluster w = a) (fs_workflows st) = []")
    case True
    with assms(2) show ?thesis unfolding renamed by (simp add: flow_rename_cluster_def rename_none)
  next
    case False
    with assms(2) show ?thesis unfolding renamed by (simp add: flow_rename_cluster_def save_workflows_inv)
  qed
next
  case restart
  with assms(2) show ?thesis by (simp add: flow_new_on_disk flow_inv_def)
next
  case (started r)
  with assms(2) show ?thesis by (simp add: add_run_def save_runs_inv length_trim_runs)
next
  case (progress i r)
  from assms(2) have "length (fs_runs st) \<le> max_runs" by (simp add: flow_inv_def)
  with progress assms(2) show ?thesis by (simp add: update_run_def save_runs_inv)
qed (use assms(2) in \<open>auto simp: create_workflow_def update_workflow_def delete_workflow_def
      mark_last_run_def Let_def save_workflows_inv split: option.splits\<close>)

lemma flow_reach_inv: "flow_reach st \<Longrightarrow> flow_inv st"
  by (induction rule: flow_reach.induct) (simp add: flow_inv_def on_disk_def, rule flow_step_inv)

text \<open>
  C23 (flow_store_durable). Whatever sequence of workflow and run operations and restarts has led to a
  state of the store, a restart gives the same state back, as long as the files can be written; and
  the history never holds more than 500 runs, the newest of them the run added last.
\<close>

theorem flow_store_durable:
  assumes "flow_reach st"
  shows "flow_new st = st \<and> length (fs_runs st) \<le> 500 \<and> last (fs_runs (add_run r st)) = r"
  using flow_reach_inv [OF assms]
  by (simp add: flow_inv_def flow_new_on_disk max_runs_def add_run_def save_runs_def last_trim_runs)

definition empty_flow :: flow_state where
  "empty_flow = \<lparr>fs_workflows = [], fs_runs = [], fs_disk_workflows = None, fs_disk_runs = None,
     fs_writable = True\<rparr>"

definition nightly :: workflow where
  "nightly = \<lparr>wf_id = ''wf-1'', wf_name = ''Nightly'', wf_description = [], wf_cluster = ''lab'',
     wf_steps = [], wf_target_scope = TargetLocal, wf_schedule = Some ''0 3 * * *'', wf_enabled = True,
     wf_created_at = ''c'', wf_updated_at = ''u'', wf_last_run = None, wf_email_results = None,
     wf_webhook = None, wf_max_runtime_secs = 0\<rparr>"

definition some_run :: "string \<Rightarrow> workflow_run" where
  "some_run started = \<lparr>run_id = ''run-1'', run_workflow_id = ''wf-1'', run_workflow_name = ''Nightly'',
     run_state = Running, run_trigger = ''scheduled'', run_steps = [], run_started_at = started,
     run_finished_at = None, run_duration_ms = 0, run_email_status = None\<rparr>"

theorem flow_store_durable_witness:
  "flow_new (add_run (some_run ''x'') (snd (create_workflow nightly empty_flow))) =
     add_run (some_run ''x'') (snd (create_workflow nightly empty_flow))"
  using flow_store_durable [OF flow_reach.step [OF flow_reach.step [OF flow_reach.empty
        flow_step.create] flow_step.started]]
  unfolding empty_flow_def by blast

section \<open>The schedule poll\<close>

lemma starts_with_nth: "starts_with p s \<Longrightarrow> n < length p \<Longrightarrow> p ! n = s ! n"
  by (auto simp: starts_with_iff nth_append)

text \<open>
  The poll compares the current minute, printed with a space between date and time,
  with the start times of runs, printed with a \<open>T\<close> between them: the test for a scheduled run in
  this same minute never succeeds, and whether a workflow is due does not depend on the history.
\<close>

theorem due_guard_inert:
  fixes date :: "'t \<Rightarrow> string"
  assumes "\<forall>t. length (date t) = 10"
    and "\<forall>t. \<exists>h. minute_text t = date t @ '' '' @ h"
    and "\<forall>t. \<exists>h. rfc3339 t = date t @ ''T'' @ h"
    and "\<forall>r \<in> set (fs_runs st). \<exists>t. run_started_at r = rfc3339 t"
  shows "get_due_workflows now (minute_text t) st =
    get_due_workflows now (minute_text t) (st\<lparr>fs_runs := []\<rparr>)"
proof -
  have "\<not> starts_with (minute_text t) (rfc3339 t')" for t t'
  proof
    assume sw: "starts_with (minute_text t) (rfc3339 t')"
    obtain h where h: "minute_text t = date t @ CHR '' '' # h" using assms(2) by auto
    obtain g where g: "rfc3339 t' = date t' @ CHR ''T'' # g" using assms(3) by auto
    from sw have "minute_text t ! 10 = rfc3339 t' ! 10"
      by (rule starts_with_nth) (use assms(1) h in simp)
    with assms(1) show False by (simp add: h g nth_append)
  qed
  with assms(4) have "\<not> already_ran (minute_text t) (fs_runs st) w" for w
    by (auto simp: already_ran_def list_ex_iff)
  then show ?thesis by (simp add: get_due_workflows_def already_ran_def cong: option.case_cong)
qed

theorem due_guard_inert_witness:
  "get_due_workflows (march_thursday\<lparr>dt_minute := 0, dt_hour := 3\<rparr>) ''2026-03-19 03:00''
     (add_run (some_run ''2026-03-19T03:00:00+00:00'') (snd (create_workflow nightly empty_flow))) =
   [nightly]"
proof -
  let ?st = "add_run (some_run ''2026-03-19T03:00:00+00:00'') (snd (create_workflow nightly empty_flow))"
  let ?now = "march_thursday\<lparr>dt_minute := 0, dt_hour := 3\<rparr>"
  have runs: "fs_runs ?st = [some_run ''2026-03-19T03:00:00+00:00'']"
    by (simp add: add_run_def save_runs_def trim_runs_def max_runs_def create_workflow_def
        save_workflows_def empty_flow_def)
  have "get_due_workflows ?now ''2026-03-19 03:00'' ?st =
      get_due_workflows ?now ''2026-03-19 03:00'' (?st\<lparr>fs_runs := []\<rparr>)"
    using due_guard_inert [of "\<lambda>_. ''2026-03-19''" "\<lambda>_. ''2026-03-19 03:00''"
        "\<lambda>_. ''2026-03-19T03:00:00+00:00''" ?st ?now "()"]
    by (simp add: runs) (simp add: some_run_def)
  also have "\<dots> = [nightly]"
  proof -
    have "fs_workflows ?st = [nightly]"
      by (simp add: add_run_def save_runs_def create_workflow_def save_workflows_def empty_flow_def)
    moreover have "cron_text [[At 0], [At 3], [Every], [Every], [Every]] = ''0 3 * * *''"
      by (simp add: cron_text_def field_text_def rust_eval)
    with cron_matches_text [of "[At 0]" "[At 3]" "[Every]" "[Every]" "[Every]" ?now]
    have "cron_matches ''0 3 * * *'' ?now" by (simp add: u32_seg_def)
    moreover have "wf_enabled nightly" "wf_schedule nightly = Some ''0 3 * * *''"
      by (simp_all add: nightly_def)
    ultimately show ?thesis by (simp add: get_due_workflows_def already_ran_def)
  qed
  finally show ?thesis .
qed

lemma poll_time_step: "poll_time start lag n + 60000 \<le> poll_time start lag (Suc n)"
  by simp

lemma poll_minute_step: "poll_minute start lag n < poll_minute start lag (Suc n)"
proof -
  have "(poll_time start lag n + 60000) div 60000 \<le> poll_time start lag (Suc n) div 60000"
    by (intro div_le_mono poll_time_step)
  then show ?thesis by (simp add: poll_minute_def)
qed

lemma poll_minute_mono: "i < j \<Longrightarrow> poll_minute start lag i < poll_minute start lag j"
  by (rule lift_Suc_mono_less [of "poll_minute start lag"]) (rule poll_minute_step)

text \<open>
  The scheduler polls no minute twice, so it does not start a scheduled
  workflow twice in the same minute.
\<close>

theorem scheduler_once_per_minute:
  "poll_minute start lag i = poll_minute start lag j \<longleftrightarrow> i = j"
  using poll_minute_mono [of i j start lag] poll_minute_mono [of j i start lag]
  by (cases i j rule: linorder_cases) auto

lemma poll_time_drift:
  assumes "\<forall>n. 1 \<le> lag n"
  shows "start + 60000 + n * 60001 \<le> poll_time start lag n"
proof (induction n)
  case (Suc n)
  with assms [rule_format, of n] show ?case by simp
qed simp

text \<open>
  C40 (scheduled_minute_missed). A poll happens sixty seconds and some lag after the one before. However
  small the lag, as long as every round has one, there is a minute after the first poll in which
  the scheduler does not poll at all: a workflow scheduled for it does not run.
\<close>

theorem scheduled_minute_missed:
  assumes "\<forall>n. 1 \<le> lag n"
  shows "\<exists>m > poll_minute start lag 0. \<forall>n. poll_minute start lag n \<noteq> m"
proof (rule ccontr)
  assume "\<not> ?thesis"
  then have hit: "\<exists>n. poll_minute start lag n = m" if "poll_minute start lag 0 < m" for m
    using that by blast
  have "poll_minute start lag n = poll_minute start lag 0 + n" for n
  proof (induction n)
    case (Suc n)
    have "poll_minute start lag 0 < poll_minute start lag 0 + Suc n" by simp
    from hit [OF this] obtain k where k: "poll_minute start lag k = poll_minute start lag 0 + Suc n" ..
    with Suc have "poll_minute start lag n < poll_minute start lag k" by simp
    then have "n < k" using poll_minute_mono [of k n start lag]
      by (cases k n rule: linorder_cases) auto
    then have "Suc n = k \<or> Suc n < k" by auto
    then have "poll_minute start lag (Suc n) \<le> poll_minute start lag k"
      using poll_minute_mono [of "Suc n" k start lag] by auto
    with poll_minute_step [of start lag n] k Suc show ?case by simp
  qed simp
  from this [of 60000] have "poll_minute start lag 60000 = poll_minute start lag 0 + 60000" .
  moreover have "(start + 60000 + 60000 * 60001) div 60000 \<le> poll_minute start lag 60000"
    unfolding poll_minute_def by (intro div_le_mono poll_time_drift assms)
  moreover have "start + 60000 + 60000 * 60001 = (start + 60000) + 60001 * (60000::nat)" by simp
  then have "(start + 60000 + 60000 * 60001) div 60000 = poll_minute start lag 0 + 60001"
    unfolding poll_minute_def poll_time.simps by (simp only: div_mult_self1 div_mult_self2 div_mult_self3 zero_neq_numeral not_False_eq_True)
  ultimately show False by simp
qed

theorem scheduled_minute_missed_witness:
  "\<exists>m > poll_minute 0 (\<lambda>_. 2) 0. \<forall>n. poll_minute 0 (\<lambda>_. 2) n \<noteq> m"
  by (rule scheduled_minute_missed) simp

end
