(* ===== verification/Flow_Progress.thy ===== *)
theory Flow_Progress
  imports Flow_Runs Flow_Schedule
begin

text \<open>
  WolfFlow, part 9: when a run ends, runs of one step, and concrete runs. A workflow whose branches
  all lead forward ends after at most one round per step; a workflow with a time limit ends because
  the clock moves on; a cycle of conditions in a workflow without a limit never ends. The
  scenarios compose the engine with the exec endpoints, the retry counter and the result mail.
\<close>

section \<open>When a run ends\<close>

definition forward_flow :: "workflow \<Rightarrow> bool" where
  "forward_flow w = list_all (\<lambda>(i, s). is_condition s \<longrightarrow>
     list_all (\<lambda>t. case t of None \<Rightarrow> True | Some j \<Rightarrow> i < j) [st_on_true s, st_on_false s])
     (enumerate 0 (wf_steps w))"

lemma forward_flowD:
  assumes "forward_flow w" "i < length (wf_steps w)" "is_condition (wf_steps w ! i)"
  shows "i < unwrap_or (i + 1) (if b then st_on_true (wf_steps w ! i) else st_on_false (wf_steps w ! i))"
proof -
  have "(i, wf_steps w ! i) \<in> set (enumerate 0 (wf_steps w))"
    using assms(2) by (auto simp: in_set_enumerate_eq)
  with assms(1,3) show ?thesis
    by (fastforce simp: forward_flow_def list_all_iff unwrap_or_def split: option.splits)
qed

lemma exec_step_forward:
  assumes "forward_flow w" "x_idx x < length (wf_steps w)"
  shows "x_idx x < x_idx (exec_step env w (wf_steps w ! x_idx x) x)"
proof (cases rule: exec_step_cases [of "wf_steps w ! x_idx x" env w x])
  case (condition e c p)
  then have "is_condition (wf_steps w ! x_idx x)" by (simp add: is_condition_def)
  from forward_flowD [OF assms this] condition show ?thesis
    by (simp add: condition_step_def Let_def)
next
  case no_target
  then show ?thesis by (simp add: no_target_step_def Let_def)
next
  case (action target targets)
  then show ?thesis by (simp add: action_step_def Let_def attempt_loop_frame)
qed

lemma run_loop_forward:
  assumes "forward_flow w" "length (wf_steps w) < x_idx x + fuel" "0 < fuel"
  shows "\<exists>x'. run_loop fuel env w x = Some x'"
  using assms(2,3)
proof (induction fuel arbitrary: x)
  case (Suc fuel)
  show ?case
  proof (cases "x_idx x < length (wf_steps w)")
    case True
    with Suc.prems exec_step_forward [OF assms(1) True, of env] show ?thesis
      by (auto intro!: Suc.IH)
  qed simp
qed simp

text \<open>
  C11 (forward_workflow_ends). A workflow in which every branch of a condition leads to a later step ends,
  whatever its actions answer, after at most one round per step.
\<close>

theorem forward_workflow_ends:
  assumes "forward_flow w"
  shows "\<exists>out. execute_workflow (length (wf_steps w) + 1) env rid w trigger st = Some out"
proof -
  have "length (wf_steps w) < x_idx (start_run env rid w trigger st) + (length (wf_steps w) + 1)" by simp
  from run_loop_forward [OF assms this] show ?thesis by (auto simp: execute_workflow_def)
qed

lemma run_loop_timed:
  assumes "\<And>k. N \<le> k \<Longrightarrow> unat (wf_max_runtime_secs w) * 1000000000 < env_elapsed_ns env k"
    and "0 < wf_max_runtime_secs w" "N \<le> x_clock x + fuel"
  shows "\<exists>x'. run_loop (Suc fuel) env w x = Some x'"
  using assms(3)
proof (induction fuel arbitrary: x)
  case 0
  with assms(1,2) show ?case by (simp add: over_time_def)
next
  case (Suc fuel)
  let ?x = "exec_step env w (wf_steps w ! x_idx x) x"
  have "N \<le> x_clock ?x + fuel" using Suc.prems exec_step_clock [of x env w "wf_steps w ! x_idx x"]
    by simp
  from Suc.IH [OF this] show ?case by (auto simp del: run_loop.simps(2) simp: run_loop.simps(2) [of "Suc fuel"])
qed

text \<open>
  C30 (limited_workflow_ends). A workflow with a maximal run time ends, whatever its branches and actions:
  there is a number of rounds after which the loop has left. The clock only has to pass the limit
  for good at some point.
\<close>

theorem limited_workflow_ends:
  assumes "0 < wf_max_runtime_secs w"
    and "\<forall>k \<ge> n. unat (wf_max_runtime_secs w) * 1000000000 < env_elapsed_ns env k"
  shows "\<exists>fuel out. execute_workflow fuel env rid w trigger st = Some out"
proof -
  have "\<exists>x. run_loop (Suc n) env w (start_run env rid w trigger st) = Some x"
    by (rule run_loop_timed) (use assms in auto)
  then show ?thesis by (auto simp: execute_workflow_def simp del: run_loop.simps)
qed

definition cycle_at :: "(json \<Rightarrow> string) \<Rightarrow> workflow \<Rightarrow> nat set \<Rightarrow> nat \<Rightarrow> bool" where
  "cycle_at js w L i = (i < length (wf_steps w) \<and> (case st_action (wf_steps w ! i) of
      Condition e c p \<Rightarrow> \<forall>ctx. unwrap_or (i + 1) (if evaluate_condition js e c p ctx
        then st_on_true (wf_steps w ! i) else st_on_false (wf_steps w ! i)) \<in> L
    | _ \<Rightarrow> False))"

lemma cycle_step:
  assumes "cycle_at (env_json_text env) w L (x_idx x)" "\<not> x_aborted x"
  shows "x_idx (exec_step env w (wf_steps w ! x_idx x) x) \<in> L"
    "\<not> x_aborted (exec_step env w (wf_steps w ! x_idx x) x)"
proof -
  obtain e c p where act: "st_action (wf_steps w ! x_idx x) = Condition e c p"
    using assms(1) by (auto simp: cycle_at_def split: action_type.splits)
  with assms(1) have "unwrap_or (x_idx x + 1) (if evaluate_condition (env_json_text env) e c p (x_ctx x)
      then st_on_true (wf_steps w ! x_idx x) else st_on_false (wf_steps w ! x_idx x)) \<in> L"
    unfolding cycle_at_def by simp
  then show "x_idx (exec_step env w (wf_steps w ! x_idx x) x) \<in> L"
    by (simp add: act exec_step_def condition_step_def Let_def)
  show "\<not> x_aborted (exec_step env w (wf_steps w ! x_idx x) x)"
    using assms(2) by (simp add: act exec_step_def condition_step_def Let_def)
qed

lemma run_loop_cycle:
  assumes "\<forall>i \<in> L. cycle_at (env_json_text env) w L i" "wf_max_runtime_secs w = 0"
    and "x_idx x \<in> L" "\<not> x_aborted x"
  shows "run_loop fuel env w x = None"
  using assms(3,4)
proof (induction fuel arbitrary: x)
  case (Suc fuel)
  from assms(1) Suc.prems have c: "cycle_at (env_json_text env) w L (x_idx x)" by blast
  then have "x_idx x < length (wf_steps w)" by (simp add: cycle_at_def)
  with Suc.IH [OF cycle_step [OF c Suc.prems(2)]] Suc.prems assms(2) show ?case
    by (simp add: over_time_def)
qed simp

text \<open>
  Without a maximal run time a cycle of conditions never ends: if from each
  condition of a set the branch that is taken stays in the set, a run that starts there returns for
  no number of rounds.
\<close>

theorem condition_cycle_never_ends:
  assumes "wf_max_runtime_secs w = 0" "0 \<in> L" "\<forall>i \<in> L. cycle_at (env_json_text env) w L i"
  shows "execute_workflow fuel env rid w trigger st = None"
  using run_loop_cycle [OF assms(3,1), of "start_run env rid w trigger st" fuel] assms(2)
  by (simp add: execute_workflow_def start_run_def Let_def)

section \<open>Runs of one step\<close>

definition single_step :: "flow_env \<Rightarrow> workflow \<Rightarrow> workflow_step \<Rightarrow> bool" where
  "single_step env w step = (wf_steps w = [step] \<and> \<not> is_condition step \<and> wf_max_runtime_secs w = 0 \<and>
     resolve_targets (env_nodes env 1) (step_target w step) \<noteq> [])"

lemma start_run_simps [simp]:
  "x_idx (start_run env rid w trigger st) = 0" "\<not> x_aborted (start_run env rid w trigger st)"
  "\<not> x_had_failure (start_run env rid w trigger st)" "x_clock (start_run env rid w trigger st) = 1"
  "run_steps (x_run (start_run env rid w trigger st)) = []"
  by (simp_all add: start_run_def new_run_def Let_def)

lemma run_loop_single:
  assumes "single_step env w step"
  shows "run_loop 2 env w (start_run env rid w trigger st) = Some (action_step env step
    (step_target w step) (resolve_targets (env_nodes env 1) (step_target w step))
    (start_run env rid w trigger st))"
proof -
  let ?x = "start_run env rid w trigger st"
  let ?y = "action_step env step (step_target w step)
    (resolve_targets (env_nodes env 1) (step_target w step)) ?x"
  from assms have "run_loop 2 env w ?x = run_loop 1 env w ?y"
    by (simp add: single_step_def numeral_2_eq_2 over_time_def exec_step_action)
  moreover have "x_idx ?y = 1" by (simp add: action_step_def Let_def attempt_loop_frame)
  ultimately show ?thesis using assms by (simp add: single_step_def)
qed

lemma execute_single:
  "single_step env w step \<Longrightarrow> execute_workflow 2 env rid w trigger st = Some (finish_run env w trigger
    (action_step env step (step_target w step) (resolve_targets (env_nodes env 1) (step_target w step))
      (start_run env rid w trigger st)))"
  by (simp add: execute_workflow_def run_loop_single)

lemma finish_run_no_mail:
  "wf_email_results w = None \<Longrightarrow> \<exists>run st'. finish_run env w trigger x = Finished run st' \<and>
     run_state run = final_status x \<and> run_steps run = run_steps (x_run x)"
  by (simp add: finish_run_def mail_results_def Let_def)

lemma attempt_loop_ok:
  assumes "\<not> any_failed (attempt_results env step target targets (x_clock x))" "0 < n"
  shows "x_had_failure (attempt_loop env step target targets a n x) = x_had_failure x"
    "x_aborted (attempt_loop env step target targets a n x) = x_aborted x"
  using assms by (cases n; auto simp: Let_def split: option.splits)+

text \<open>
  C38 (retry_count_overflow). A step with the largest retry count, \<open>4294967295\<close>, is never run: the number of
  attempts, the count plus one, wraps round to zero. The run ends as \<open>Completed\<close> without a result.
\<close>

theorem retry_count_overflow:
  assumes "single_step env w step" "wf_email_results w = None" "st_retry_count step = 4294967295"
  shows "\<exists>run st'. execute_workflow 2 env rid w trigger st = Some (Finished run st') \<and>
    run_state run = Completed \<and> run_steps run = []"
proof -
  have "max_attempts step = 0" by (simp add: max_attempts_def assms(3))
  with finish_run_no_mail [OF assms(2)] show ?thesis
    by (fastforce simp: execute_single [OF assms(1)] action_step_def Let_def final_status_def)
qed

lemma in_enumerateD: "(i, t) \<in> set (enumerate k ts) \<Longrightarrow> t \<in> set ts"
  by (auto simp: in_set_enumerate_eq)

lemma remote_results_ok:
  assumes "\<forall>k. env_task_panic env k = None" "\<forall>t \<in> set targets. \<not> snd (snd (snd (snd t)))"
    and "\<And>k addr port. is_ok (env_remote env k addr port (st_action step))"
  shows "\<not> any_failed (attempt_results env step (TargetNodes ids) targets k)"
proof
  assume "any_failed (attempt_results env step (TargetNodes ids) targets k)"
  then obtain i task where task: "(i, task) \<in> set (enumerate k (map NodeTask targets))"
    and fail: "sr_status (fst (await_task env step (i, task))) = Failed"
    by (auto simp: any_failed_def list_ex_iff attempt_results_def step_tasks_def)
  from in_enumerateD [OF task] obtain t where t: "t \<in> set targets" "task = NodeTask t" by auto
  with fail have f: "sr_status (fst (await_task env step (i, NodeTask t))) = Failed" by simp
  obtain nid host addr port self where [simp]: "t = (nid, host, addr, port, self)" by (cases t)
  from assms(2) t have "\<not> self" by force
  with f assms(1) assms(3) [of i addr port] show False
    by (auto simp: await_task_def run_task_def task_result_facts split: sum.splits)
qed

text \<open>
  C8 (remote_failure_completed). A workflow of one action step (with a retry count below the largest, and no
  result mail) whose targets are chosen nodes, the node that runs it not among them, and whose action fails on
  every one of them is recorded as completed, when the tasks do not panic and every node answers: the exec endpoint reports a failure under the key \<open>output\<close> with status 200,
  the caller looks for the key \<open>error\<close>. The run ends as \<open>Completed\<close>, no retry takes place and the
  failure policy is not applied.
\<close>

theorem remote_failure_completed:
  assumes "single_step env w step" "wf_email_results w = None" "st_retry_count step \<noteq> 4294967295"
    and "step_target w step = TargetNodes ids" "\<forall>n \<in> set (env_nodes env 1). fn_id n \<in> set ids \<longrightarrow> \<not> fn_is_self n"
    and "\<forall>k. env_task_panic env k = None"
    and "\<forall>k. exec k (st_action step) = Err e"
    and "env_remote env = (\<lambda>k address port action. execute_action_remote status_text wn
       (Some (\<lambda>url a. reply_of js (wolfflow_exec (Inr operator) (exec k) (Inr a)))) address port action)"
  shows "\<exists>run st'. execute_workflow 2 env rid w trigger st = Some (Finished run st') \<and>
    run_state run = Completed"
proof -
  let ?t = "resolve_targets (env_nodes env 1) (step_target w step)"
  have "st_retry_count step + 1 \<noteq> 0"
  proof
    assume "st_retry_count step + 1 = 0"
    then have "st_retry_count step = - 1" by (simp only: eq_neg_iff_add_eq_0)
    with assms(3) show False by simp
  qed
  then have attempts: "0 < max_attempts step" by (simp add: max_attempts_def unat_gt_0)
  have "\<not> any_failed (attempt_results env step (TargetNodes ids) ?t 1)"
    by (rule remote_results_ok) (use assms(4,5,6) in \<open>auto simp: assms(8) remote_exec_answer
        resolve_targets_def as_target_def\<close>)
  with attempt_loop_ok [of env step "TargetNodes ids" ?t "start_run env rid w trigger st"
      "max_attempts step" 0] attempts
  have "final_status (action_step env step (TargetNodes ids) ?t (start_run env rid w trigger st)) = Completed"
    by (simp add: action_step_def Let_def final_status_def)
  with finish_run_no_mail [OF assms(2)] show ?thesis
    by (fastforce simp: execute_single [OF assms(1)] assms(4))
qed

section \<open>The result mail\<close>

lemma mail_body_None:
  assumes "r \<in> set (run_steps run)" "mail_cell (sr_output r) = None"
  shows "mail_body w trigger run = None"
proof -
  from assms(2) have "mail_row r = None" by (simp add: mail_row_def)
  with assms(1) have "\<not> list_all (\<lambda>x. x \<noteq> None) (map mail_row (run_steps run))"
    by (auto simp: list_all_iff)
  then show ?thesis by (simp add: mail_body_def all_some_def)
qed

text \<open>
  C39 (mail_cut_leaves_running). A run that mails its results cuts an output of more than 500 bytes at byte
  500. If that byte lies inside a character, the task panics: the run is over, but its record in the
  history says \<open>Running\<close>, and nothing corrects it.
\<close>

theorem mail_cut_leaves_running:
  assumes "run_loop fuel env w (start_run env rid w trigger st) = Some x"
    and "wf_email_results w = Some (c # cs)" "env_smtp_host env \<noteq> []"
    and "r \<in> set (run_steps (x_run x))" "500 < length (sr_output r)"
      "is_continuation (sr_output r ! 500)"
    and "others_keep rid env" "find (\<lambda>r. run_id r = rid) (fs_runs st) = None"
  shows "\<exists>st' r'. execute_workflow fuel env rid w trigger st = Some (Panicked st') \<and>
    find (\<lambda>r. run_id r = rid) (fs_runs st') = Some r' \<and> run_state r' = Running"
proof -
  have "mail_cell (sr_output r) = None" using assms(5,6) by (simp add: mail_cell_def str_slice_to_def)
  then have "mail_results env w trigger ((x_run x)\<lparr>run_state := a, run_finished_at := b, run_duration_ms := d\<rparr>) =
      None" for a b d
    using assms(2,3,4) by (simp add: mail_results_def Let_def mail_body_None)
  then have "finish_run env w trigger x = Panicked (x_store x)" by (simp add: finish_run_def Let_def)
  then have ex: "execute_workflow fuel env rid w trigger st = Some (Panicked (x_store x))"
    using assms(1) by (simp add: execute_workflow_def)
  from panicked_run_stays_running [OF this assms(7,8)] ex show ?thesis by blast
qed

end
