(* ===== verification/Flow_Scenarios.thy ===== *)
theory Flow_Scenarios
  imports Flow_Progress
begin

text \<open>
  WolfFlow, part 10: concrete runs, which show that the theorems on runs apply: a one-step workflow on
  the local node and on a peer, a waiting loop with and without a time limit, and a result mail with
  an accented character at the place where the output is cut.
\<close>

definition lab_node :: flow_node where
  "lab_node = \<lparr>fn_id = ''n1'', fn_hostname = ''alpha'', fn_address = ''10.0.0.1'', fn_port = 8553,
     fn_online = True, fn_is_self = True, fn_node_type = ''wolfstack'', fn_cluster_name = None\<rparr>"

text \<open>While a run is in progress, another workflow is started.\<close>

definition lab_env :: "(nat \<Rightarrow> action_type \<Rightarrow> action_result) \<Rightarrow> flow_env" where
  "lab_env exec = \<lparr>env_nodes = (\<lambda>_. [lab_node]), env_now = (\<lambda>_. ''now''), env_elapsed_ns = (\<lambda>k. k * 1000000000),
     env_task_times = (\<lambda>_. (''s'', ''f'', 7)), env_task_panic = (\<lambda>_. None), env_local = exec,
     env_remote = (\<lambda>k address port action. execute_action_remote show_nat (\<lambda>_. None)
       (Some (\<lambda>url a. reply_of plain_js (wolfflow_exec (Inr ''op'') (exec k) (Inr a)))) address port action),
     env_container = (\<lambda>k a _. exec k a), env_container_remote = (\<lambda>k _ _ a _. exec k a),
     env_all_containers = exec, env_all_containers_remote = (\<lambda>k _ _ a. exec k a),
     env_others = (\<lambda>k st. if k = 3 then add_run (new_run ''run-2'' ''now'' nightly ''schedule'') st else st), env_json_text = plain_js, env_smtp_host = ''mail.lab'',
     env_send_mail = (\<lambda>_ _ _. Inr ())\<rparr>"

definition lab_step :: "action_type \<Rightarrow> u32 \<Rightarrow> workflow_step" where
  "lab_step action retries = \<lparr>st_name = ''Step'', st_action = action, st_on_failure = Abort,
     st_target_override = None, st_on_true = Some 0, st_on_false = None, st_retry_count = retries,
     st_retry_delay_secs = 0\<rparr>"

definition lab_flow :: "wf_target \<Rightarrow> workflow_step \<Rightarrow> workflow" where
  "lab_flow target step = nightly\<lparr>wf_steps := [step], wf_target_scope := target\<rparr>"

definition uptime :: action_type where "uptime = RunCommand ''uptime'' 60"

lemmas lab_simps = lab_env_def lab_step_def lab_flow_def lab_node_def nightly_def uptime_def

lemma lab_single: "single_step (lab_env exec) (lab_flow TargetLocal (lab_step uptime n)) (lab_step uptime n)"
  by (simp add: single_step_def is_condition_def resolve_targets_def step_target_def lab_simps)

lemma lab_no_mail: "wf_email_results (lab_flow t s) = None"
  by (simp add: lab_simps)

lemma lab_others: "others_keep ''run-1'' (lab_env exec)"
proof -
  let ?n = "\<lambda>k::nat. if k = 3 then 1 else (0::nat)"
  have "others_do ''run-1'' (?n k) (env_others (lab_env exec) k)" for k
    using others_do.nothing [of "''run-1''"] others_do.starts [OF others_do.nothing, of "new_run ''run-2'' ''now'' nightly ''schedule''" "''run-1''"]
    by (simp add: lab_env_def new_run_def)
  moreover have "(\<Sum>k<K. ?n k) < max_runs" for K by (simp add: max_runs_def sum.delta)
  ultimately show ?thesis unfolding others_keep_def by (intro exI [of _ ?n]) blast
qed

lemma empty_fresh: "find (\<lambda>r. run_id r = rid) (fs_runs empty_flow) = None"
  by (simp add: empty_flow_def)

lemma lab_env_simps [simp]:
  "env_nodes (lab_env exec) = (\<lambda>_. [lab_node])" "env_task_panic (lab_env exec) = (\<lambda>_. None)"
  "env_local (lab_env exec) = exec" "env_json_text (lab_env exec) = plain_js"
  "env_smtp_host (lab_env exec) = ''mail.lab''" "env_elapsed_ns (lab_env exec) k = k * 1000000000"
  by (simp_all add: lab_env_def)

lemma lab_target:
  "step_target (lab_flow target (lab_step a n)) (lab_step a n) = target"
  "resolve_targets [lab_node] TargetLocal = [(''n1'', ''alpha'', ''10.0.0.1'', 8553, True)]"
  by (simp_all add: step_target_def resolve_targets_def lab_simps)

lemma lab_results:
  "attempt_results (lab_env exec) s TargetLocal [(a, b, c, d, True)] k =
     [task_result (lab_env exec) k (st_name s) a b (exec k (st_action s))]"
  by (simp add: attempt_results_def step_tasks_def await_task_def run_task_def)

lemma lab_attempt:
  assumes "exec k uptime = Ok out" "x_clock x = k"
  shows "attempt_loop (lab_env exec) (lab_step uptime 0) TargetLocal [(a, b, c, d, True)] 0
      (max_attempts (lab_step uptime 0)) x =
    x\<lparr>x_run := push_results [fst (task_result (lab_env exec) k ''Step'' a b (Ok out))] (x_run x),
      x_clock := k + 2, x_ctx := ctx_insert ''Step'' out (x_ctx x)\<rparr>"
proof -
  have "max_attempts (lab_step uptime 0) = Suc 0" by (simp add: max_attempts_def lab_step_def)
  moreover have "st_name (lab_step uptime 0) = ''Step''" "st_action (lab_step uptime 0) = uptime"
    by (simp_all add: lab_step_def)
  moreover have "snd (task_result (lab_env exec) k ''Step'' a b (Ok out)) = Some out"
    by (simp add: task_result_def split: prod.splits)
  then have "last_output [task_result (lab_env exec) k ''Step'' a b (Ok out)] = Some out"
    by (simp add: last_output_def map_filter_simps)
  moreover have "sr_status (fst (task_result (lab_env exec) k ''Step'' a b (Ok out))) \<noteq> Failed"
    by (simp add: task_result_facts)
  then have "\<not> any_failed [task_result (lab_env exec) k ''Step'' a b (Ok out)]"
    by (simp add: any_failed_def case_prod_beta)
  ultimately show ?thesis
    using assms by (simp add: lab_results Let_def)
qed

lemma lab_run:
  "\<exists>run st'. execute_workflow 2 (lab_env (\<lambda>_ _. Ok (plain_output ''up''))) rid
     (lab_flow TargetLocal (lab_step uptime 0)) ''manual'' empty_flow = Some (Finished run st') \<and>
     run_state run = Completed \<and> length (run_steps run) = 1"
proof -
  let ?env = "lab_env (\<lambda>_ _. Ok (plain_output ''up''))" and ?w = "lab_flow TargetLocal (lab_step uptime 0)"
  let ?x = "action_step ?env (lab_step uptime 0) TargetLocal [(''n1'', ''alpha'', ''10.0.0.1'', 8553, True)]
    (start_run ?env rid ?w ''manual'' empty_flow)"
  have "final_status ?x = Completed \<and> length (run_steps (x_run ?x)) = 1"
    by (simp add: action_step_def Let_def lab_attempt final_status_def push_results_def)
  with finish_run_no_mail [OF lab_no_mail] show ?thesis
    by (fastforce simp: execute_single [OF lab_single] lab_target)
qed

theorem completed_run_clean_witness:
  "\<exists>run st'. execute_workflow 2 (lab_env (\<lambda>_ _. Ok (plain_output ''up''))) ''run-1''
     (lab_flow TargetLocal (lab_step uptime 0)) ''manual'' empty_flow = Some (Finished run st') \<and>
     map sr_status (run_steps run) = [Completed]"
proof -
  from lab_run obtain run st' where run: "execute_workflow 2 (lab_env (\<lambda>_ _. Ok (plain_output ''up'')))
      ''run-1'' (lab_flow TargetLocal (lab_step uptime 0)) ''manual'' empty_flow = Some (Finished run st')"
      "run_state run = Completed" "length (run_steps run) = 1" by blast
  from run(3) obtain r where r: "run_steps run = [r]" by (cases "run_steps run") auto
  from completed_run_clean [OF run(1,2), of r] r run(1) show ?thesis by auto
qed

theorem run_record_final_witness:
  "\<exists>run st'. execute_workflow 2 (lab_env (\<lambda>_ _. Ok (plain_output ''up''))) ''run-1''
     (lab_flow TargetLocal (lab_step uptime 0)) ''manual'' empty_flow = Some (Finished run st') \<and>
     find (\<lambda>r. run_id r = ''run-1'') (fs_runs st') = Some run"
  using lab_run run_record_final [OF _ lab_others empty_fresh] by blast

theorem failure_policy_applied_witness:
  "run_loop 1 (lab_env (\<lambda>_ _. Ok (plain_output []))) (lab_flow (TargetNodes []) (lab_step uptime 0))
     (exec_step (lab_env (\<lambda>_ _. Ok (plain_output []))) (lab_flow (TargetNodes []) (lab_step uptime 0))
       (lab_step uptime 0) (start_run (lab_env (\<lambda>_ _. Ok (plain_output []))) ''run-1'' nightly ''manual'' empty_flow)) =
   Some (exec_step (lab_env (\<lambda>_ _. Ok (plain_output []))) (lab_flow (TargetNodes []) (lab_step uptime 0))
       (lab_step uptime 0) (start_run (lab_env (\<lambda>_ _. Ok (plain_output []))) ''run-1'' nightly ''manual'' empty_flow))"
proof -
  let ?env = "lab_env (\<lambda>_ _. Ok (plain_output []))" and ?w = "lab_flow (TargetNodes []) (lab_step uptime 0)"
  have fails: "step_fails ?env ?w (lab_step uptime 0) 1"
    by (simp add: step_fails_def lab_target resolve_targets_def)
  have plain: "\<not> is_condition (lab_step uptime 0)" "aborts (st_on_failure (lab_step uptime 0))"
    by (simp_all add: is_condition_def lab_step_def uptime_def aborts_def)
  show ?thesis
    using failure_policy_applied [OF plain(1), of "start_run ?env ''run-1'' nightly ''manual'' empty_flow" ?env ?w 0]
      fails plain(2) by simp
qed

theorem retry_count_overflow_witness:
  "\<exists>run st'. execute_workflow 2 (lab_env (\<lambda>_ _. Err ''down'')) ''run-1''
     (lab_flow TargetLocal (lab_step uptime 4294967295)) ''manual'' empty_flow = Some (Finished run st') \<and>
     run_state run = Completed \<and> run_steps run = []"
  by (rule retry_count_overflow [OF lab_single lab_no_mail]) (simp add: lab_step_def)

text \<open>The node itself and one peer.\<close>

definition peer_env :: "(nat \<Rightarrow> action_type \<Rightarrow> action_result) \<Rightarrow> flow_env" where
  "peer_env exec = (lab_env exec)\<lparr>env_nodes := (\<lambda>_. [lab_node,
     lab_node\<lparr>fn_id := ''n2'', fn_hostname := ''beta'', fn_address := ''10.0.0.2'', fn_is_self := False\<rparr>])\<rparr>"

theorem remote_failure_completed_witness:
  "\<exists>run st'. execute_workflow 2 (peer_env (\<lambda>_ _. Err ''no such unit'')) ''run-1''
     (lab_flow (TargetNodes [''n2'']) (lab_step uptime 3)) ''manual'' empty_flow =
     Some (Finished run st') \<and> run_state run = Completed"
proof (rule remote_failure_completed [where ids = "[''n2'']" and step = "lab_step uptime 3"
      and exec = "\<lambda>_ _. Err ''no such unit''" and e = "''no such unit''" and status_text = show_nat
      and wn = "\<lambda>_. None" and js = plain_js and operator = "''op''"])
  show "single_step (peer_env (\<lambda>_ _. Err ''no such unit'')) (lab_flow (TargetNodes [''n2'']) (lab_step uptime 3))
      (lab_step uptime 3)"
    by (simp add: single_step_def is_condition_def resolve_targets_def lab_target peer_env_def)
      (simp add: lab_simps)
  show "\<forall>n \<in> set (env_nodes (peer_env (\<lambda>_ _. Err ''no such unit'')) 1). fn_id n \<in> set [''n2''] \<longrightarrow> \<not> fn_is_self n"
    by (simp add: peer_env_def lab_node_def)
qed (simp_all add: peer_env_def lab_no_mail lab_target, simp_all add: lab_env_def lab_step_def)

section \<open>A waiting loop\<close>

definition wait_flow :: "u64 \<Rightarrow> workflow" where
  "wait_flow limit = (lab_flow TargetLocal (lab_step (Condition ''busy'' ''busy'' ''eq'') 0))
     \<lparr>wf_max_runtime_secs := limit\<rparr>"

theorem condition_cycle_never_ends_witness:
  "execute_workflow 1000 (lab_env (\<lambda>_ _. Err ''x'')) ''run-1'' (wait_flow 0) ''manual'' empty_flow = None"
proof (rule condition_cycle_never_ends [of _ "{0}"])
  have "evaluate_condition plain_js ''busy'' ''busy'' ''eq'' ctx" for ctx
    by (simp add: evaluate_condition_def resolve_no_braces Let_def)
  then show "\<forall>i \<in> {0}. cycle_at (env_json_text (lab_env (\<lambda>_ _. Err ''x''))) (wait_flow 0) {0} i"
    by (simp add: cycle_at_def wait_flow_def lab_flow_def lab_step_def)
qed (simp_all add: wait_flow_def)

theorem limited_workflow_ends_witness:
  "\<exists>fuel out. execute_workflow fuel (lab_env (\<lambda>_ _. Err ''x'')) ''run-1'' (wait_flow 30) ''manual'' empty_flow =
     Some out"
  by (rule limited_workflow_ends [of _ 31]) (simp_all add: wait_flow_def)

theorem forward_workflow_ends_witness:
  "\<exists>out. execute_workflow 2 (lab_env (\<lambda>_ _. Err ''x'')) ''run-1'' (lab_flow TargetLocal (lab_step uptime 2))
     ''manual'' empty_flow = Some out"
proof -
  have "forward_flow (lab_flow TargetLocal (lab_step uptime 2))"
    by (simp add: forward_flow_def lab_flow_def is_condition_def lab_step_def uptime_def)
  moreover have "length (wf_steps (lab_flow TargetLocal (lab_step uptime 2))) + 1 = 2"
    by (simp add: lab_flow_def)
  ultimately show ?thesis using forward_workflow_ends by metis
qed

section \<open>A result mail\<close>

definition accent_text :: string where
  "accent_text = replicate 499 CHR ''a'' @ [CHR 0xC3, CHR 0xA9]"

definition mail_flow :: workflow where
  "mail_flow = (lab_flow TargetLocal (lab_step uptime 0))\<lparr>wf_email_results := Some ''ops@lab''\<rparr>"

lemma take_chars_all: "length s \<le> n \<Longrightarrow> take_chars n s = s"
  by (induction n s rule: take_chars.induct) (auto split: nat.splits)

theorem mail_cut_leaves_running_witness:
  "\<exists>st' r'. execute_workflow 2 (lab_env (\<lambda>_ _. Ok (plain_output accent_text))) ''run-1'' mail_flow ''manual''
     empty_flow = Some (Panicked st') \<and>
     find (\<lambda>r. run_id r = ''run-1'') (fs_runs st') = Some r' \<and> run_state r' = Running"
proof -
  let ?env = "lab_env (\<lambda>_ _. Ok (plain_output accent_text))" and ?s = "lab_step uptime 0"
  let ?t = "[(''n1'', ''alpha'', ''10.0.0.1'', 8553, True)]"
  let ?x = "action_step ?env ?s TargetLocal ?t (start_run ?env ''run-1'' mail_flow ''manual'' empty_flow)"
  let ?r = "fst (task_result ?env 1 ''Step'' ''n1'' ''alpha'' (Ok (plain_output accent_text)))"
  have target: "step_target mail_flow ?s = TargetLocal"
    by (simp add: step_target_def mail_flow_def lab_flow_def lab_step_def)
  have single: "single_step ?env mail_flow ?s"
    by (simp add: single_step_def mail_flow_def is_condition_def lab_flow_def nightly_def)
      (simp add: target [unfolded mail_flow_def] lab_target step_target_def lab_step_def uptime_def)
  have loop: "run_loop 2 ?env mail_flow (start_run ?env ''run-1'' mail_flow ''manual'' empty_flow) = Some ?x"
    using run_loop_single [OF single] by (simp add: target lab_target)
  have steps: "run_steps (x_run ?x) = [?r]"
    by (simp add: action_step_def Let_def lab_attempt push_results_def)
  have out: "sr_output ?r = accent_text"
    by (simp add: task_result_def lab_env_def plain_output_def take_chars_all accent_text_def)
  have cut: "500 < length (sr_output ?r)" "is_continuation (sr_output ?r ! 500)"
    unfolding out by (simp_all add: accent_text_def nth_append is_continuation_def)
  have mail: "wf_email_results mail_flow = Some (CHR ''o'' # ''ps@lab'')" "env_smtp_host ?env \<noteq> []"
    by (simp_all add: mail_flow_def)
  have "?r \<in> set (run_steps (x_run ?x))" unfolding steps by simp
  then show ?thesis by (rule mail_cut_leaves_running [OF loop mail _ cut lab_others empty_fresh])
qed

end
