(* ===== verification/Spec2Isabelle.thy ===== *)
theory Spec2Isabelle
  imports Rust_Prelude Vlan Proposals Oauth_Theorems Firewall Wolfrun Gateway_Files Ha_Blocks
    Ha_Theorems Ha_Vm_Scenarios Flow_Cond Flow_Scenarios
begin

text \<open>
  \<^bold>\<open>WolfStack.\<close> WolfStack is a server-management daemon written in Rust: every node of a cluster runs
  it, keeps its own state in memory and in JSON files, drives host tools, and exchanges state with
  its peers over HTTP. This development models the parts whose correctness is decided by the
  daemon's own logic: stores with lifecycles, merges of replicated state, an authorization server,
  allocators, and the compilers that write configuration for other programs.

  \<^bold>\<open>Conventions.\<close> A struct is a \<open>record\<close>, an enum a \<open>datatype\<close>, a fallible call a sum with the error on
  the left. Stateful code takes the state and returns it. A definition is one critical section of
  the code (one lock held); an operation that takes its lock twice is given as its two sections and
  their composition, so that what runs between them can be stated. Clocks, random ids, hashes, file
  contents and the results of host commands are arguments. A Rust panic is \<^term>\<open>None\<close>. A hash map is an
  association list with distinct keys, whose order is an arbitrary iteration order. Strings are byte
  lists. Integers keep their width where the code computes with them (addresses in \<open>Ip_Addr\<close>, \<open>Vlan\<close>
  and \<open>Firewall\<close> are 32-bit words); counters and times that are only compared are \<open>nat\<close> or \<open>int\<close>.

  \<^bold>\<open>Theories.\<close>

    \<^item> \<open>Rust_Prelude\<close>, \<open>Text_Lines\<close>, \<open>Ip_Addr\<close>: the part of the Rust library the code calls (results, vector
      updates, string splitting, numbers in text, IPv4 addresses and prefixes) and the lemmas about it.

    \<^item> \<open>Keyed_Store\<close>, \<open>Lww_Store\<close>: two interfaces as locales. \<open>keyed_store\<close> is a vector of records updated by
      key or extended; the findings store and the acknowledgements interpret it. \<open>lww_store\<close> is a store
      into which versions are merged by modification time; the share gateway interprets it.

    \<^item> \<open>Vlan\<close> models \<^verbatim>\<open>src/networking/vlan.rs\<close>: provider rules, interface names, validation, the attachment
      store and the next-free-address picker, whose scan ends because the address counter grows up to
      the broadcast address. Shown: a picked address is in the subnet and free; nothing is returned only
      when nothing is free; drawing repeatedly never repeats; reachable stores are valid.

    \<^item> \<open>Proposals\<close> models \<^verbatim>\<open>src/predictive/proposal.rs\<close> and \<^verbatim>\<open>ack.rs\<close> (findings and acknowledgements), the
      write sections of a tick in \<^verbatim>\<open>orchestrator.rs\<close> and alert selection in \<^verbatim>\<open>notify.rs\<close>. Shown: the effect
      of a tick on every entry, operator decisions survive any history, saving is skipped only when
      nothing changed, alerts are exact.

    \<^item> \<open>Oauth\<close>, \<open>Oauth_Safety\<close>, \<open>Oauth_Theorems\<close> model \<^verbatim>\<open>src/mcp/oauth.rs\<close>, the authorization server: clients,
      pending authorizations, codes, grants, access tokens and the state file. Exchange and refresh are
      two locked phases with a user check between them; \<open>oauth_step\<close> interleaves the phases of any number
      of requests with restarts. The locale \<open>oauth_invariant\<close> turns a property kept by every operation into
      one of every reachable state; it is interpreted for well-formedness, approval, revocation and
      spent codes.

    \<^item> \<open>Firewall\<close> models \<^verbatim>\<open>src/networking/router/firewall.rs\<close>, the rule types of \<^verbatim>\<open>router/mod.rs\<close> and the
      threat-intel lines: rules compiled to \<^verbatim>\<open>iptables-restore\<close> text and the pre-flight check of that text.
      Shown: the chains a ruleset acts on when its texts are single words, what a text with a line
      break does instead, and that the pre-flight check never reports anything.

    \<^item> \<open>Wolfrun\<close> models the state of \<^verbatim>\<open>src/wolfrun/mod.rs\<close>, the service orchestrator: services, failover
      events, deletion tombstones, the gossip merge, and leader election. The two locked sections of a merge are
      separate steps (\<open>section_step\<close>). Shown: a deleted service stays deleted through any interleaving within
      the retention window, unless a merge in flight had accepted it before; what a merge does per cluster, that
      nodes with the same registry facts elect one leader, and replica bounds.

    \<^item> \<open>Gateway\<close>, \<open>Gateway_Merge\<close>, \<open>Gateway_Files\<close> model \<^verbatim>\<open>src/gateway/\<close> and its handlers in \<^verbatim>\<open>src/api/mod.rs\<close>:
      share configuration and validation, the replicated store, and the NFS and Samba files written
      from it. The check of a request and its
      storing are separate steps of \<open>gw_reachable\<close>, as in the code. Shown: the outcome of a merge, that nodes agree
      with the owner of shares after its push, what the handlers keep of the node's own shares and how two
      overlapping creations break it, the shape of the export file and that its reader finds the path.

    \<^item> \<open>Wire_Bytes\<close>: little-endian integers, slices, UTF-8, and the locale \<open>frame_loop\<close>, the contract of a
      decoder that reads a buffer record by record; the two decoders below interpret it.

    \<^item> \<open>Rolling\<close>, \<open>Rolling_Delta\<close>, \<open>Rolling_Wire\<close> model \<^verbatim>\<open>src/wolfha/replication/rolling.rs\<close>: checksums, block
      signatures, the scan that computes a delta, its application, and the binary formats. Shown: the
      rolled checksum is exact, a delta rebuilds the file, an unchanged file travels as references
      only, and where the formats break. SHA-256 is a parameter; that it separates the two files at
      hand is the hypothesis \<open>no_collision\<close>.

    \<^item> \<open>Ha_Sync\<close>, \<open>Ha_Sync_Theorems\<close>, \<open>Ha_Blocks\<close> model a replication round of \<^verbatim>\<open>src/wolfha/mod.rs\<close> with the
      driver negotiation of \<^verbatim>\<open>src/wolfha/replication/mod.rs\<close> and the signature reply of \<^verbatim>\<open>src/api/mod.rs\<close>:
      manifests, their difference, the archive round and the block-delta round. Shown: an archive
      round leaves nothing to do unless an object changed its kind, a block round copies contents exactly, and the two situations in
      which a round defeats itself. The archive tool is a parameter.

    \<^item> \<open>Ha_Store\<close>, \<open>Ha_Failover\<close>, \<open>Ha_Handlers\<close> model the rest of \<^verbatim>\<open>src/wolfha/mod.rs\<close> for containers and its
      handlers in \<^verbatim>\<open>src/api/mod.rs\<close>: the store of protected subjects, promotion, demotion and seeds; the
      failover monitor with its witness, fencing, gates and failure clocks, and the boot guard; protecting,
      receiving rounds, dropping, disabling and the scheduler. A node is its store, what runs on it, and the
      markers on its disk; what hosts and peers answer is an argument of each step.

    \<^item> \<open>Timeout\<close> is the contract of a loop that acts once a condition has lasted, as a locale; fencing
      (\<open>Ha_Fencing\<close>) and promotion (\<open>Ha_Takeover\<close>) interpret it. \<open>Ha_Views\<close> shows that a monitor tick treats
      every subject as if it were the only one, which the proofs about one subject rest on.
      Shown: an isolated primary stops before a standby starts if the delay leaves room for two
      monitor periods; a standby with nothing in its way takes over; every start is behind the gates
      (\<open>Ha_Theorems\<close>); and over all interleavings of handlers, ticks and reboots WolfHA starts no
      standby (\<open>Ha_Steps\<close>): what else runs on the host may start one, and the invariant says which standbys
      it has started.

    \<^item> \<open>Ha_Vm\<close>, \<open>Ha_Vm_Chain\<close>, \<open>Ha_Vm_Faults\<close>, \<open>Ha_Vm_Stall\<close>, \<open>Ha_Vm_Scenarios\<close> model the replication of a virtual
      machine's disk: dirty blocks, deltas, full images, the chain of tokens, rounds over all peers,
      and the handover of a VM. Shown: under one primary a copy that holds its token agrees with its disk off
      the dirty blocks, through failed commits, lost replies and lost files; and the ways in which
      handovers, failovers and unanswered peers break that. QEMU is modelled by the behaviour the code
      documents: the bitmap records writes, an incremental clears it, a commit writes blocks.

    \<^item> \<open>Flow_Text\<close>, \<open>Flow_Cond\<close>, \<open>Flow_Cron\<close>, \<open>Flow_Store\<close>, \<open>Flow_Schedule\<close>, \<open>Flow_Remote\<close>, \<open>Flow_Engine\<close>, \<open>Flow_Runs\<close>,
      \<open>Flow_Progress\<close>, \<open>Flow_Scenarios\<close> model \<^verbatim>\<open>src/wolfflow/mod.rs\<close>, its handlers and exec endpoints in
      \<^verbatim>\<open>src/api/mod.rs\<close> and its scheduler task in \<^verbatim>\<open>src/main.rs\<close>: template references and conditions (with
      Rust's doubles), five-field schedules, the store of workflows and runs with its two files, running
      an action in a container, in all containers and on a peer, and the run of a workflow over its target
      nodes with retries, failure policies, branches, a time limit and a result mail. What an
      action answers, what the cluster looks like, the clock and what other tasks do to the store are the
      record \<open>flow_env\<close>. The locale \<open>run_invariant\<close> carries a property through the step loop. Shown: what
      references, patterns and schedules mean; the store survives restarts and is bounded; a
      completed run has no failed result, its record is final, the failure policy is applied as
      stated; which workflows end; and where a failure is reported as success.

  \<^bold>\<open>Errors.\<close> Some theorems state behaviour the code does not intend; each names the situation exactly.
  They cover panics on text cut inside a character, requests interleaved between two locked sections,
  replicated deletions that are undone, unchecked text reaching configuration files, lengths cut or
  wrapped in a wire format, routines that should agree and do not, two running copies of a protected
  container, disks that differ under one token, failed actions recorded as completed, and schedules that
  are missed.

  \<^bold>\<open>Bounds.\<close> Only \<open>run_loop\<close>, the step loop of a workflow, uses fuel, one unit per round, because it may run
  forever: one unit more than the workflow has steps is enough when branches lead forward, a time limit
  gives some sufficient amount, and a cycle of conditions without limit has none. Template resolution is
  bounded by the code itself, at 64 replacements. Other loops that are not structural (\<open>scan_free\<close>, \<open>drop_oldest\<close>,
  \<open>str_replace\<close>, \<open>show_nat\<close>, \<open>signatures_loop\<close>, \<open>delta_scan\<close>, \<open>decode_delta_loop\<close>, \<open>unpack_loop\<close>) are total
  functions with a measure. Block deltas assume fewer than \<open>2 ^ 32\<close> blocks and no stretch of new
  data of \<open>2 ^ 32\<close> bytes or more, the widths of the wire format, and buffers shorter than \<open>2 ^ 63\<close> bytes, the limit of
  a Rust vector. The failure clocks count whole seconds. The tombstone theorem assumes at most
  \<^term>\<open>TOMBSTONE_MAX\<close> remembered ids and times within \<^term>\<open>TOMBSTONE_RETENTION_SECS\<close>, the two limits
  at which the code forgets. A run keeps its record while fewer than \<^term>\<open>max_runs\<close> others start.

  \<^bold>\<open>Simplifications.\<close> Saving and loading the workflow files is the identity on their contents (\<open>flow_new\<close>), and
  an update of the workflow store and the write of its file, two lock sections in the code, are one step.
  \<open>wolfha_promote\<close> leaves out the final round of the old primary to the promoting node, which only sets
  its time of the last round and clears a staleness mark that the promotion clears too. \<open>vlan_ifname\<close> cuts bytes where the code cuts
  text, the same for ASCII names. Results of the primary's own saves during a VM round are assumed to be
  successes in \<open>vm_reach\<close>; \<open>unrecorded_delta_diverges\<close> shows what a failure does. The handlers of Proxmox subjects
  are not among the steps of \<open>ha_step\<close>.

  \<^bold>\<open>Not modelled.\<close> Reading and writing the JSON files (apart from the atomic state file of the
  authorization server), running host commands, HTTP and authentication of requests, sampling of
  metrics, the single actions of a workflow (\<^verbatim>\<open>execute_action_local\<close>), the Proxmox subjects of WolfHA (replicated by \<^verbatim>\<open>zfs send\<close>), alerts, and the subsystems
  that only drive external tools (containers, virtual machines, backup, storage, application
  catalogue, integrations, user interfaces).

  \<^bold>\<open>Plan.\<close> Next: port claims (\<^verbatim>\<open>ports.rs\<close>), site failover groups (\<^verbatim>\<open>site_failover/mod.rs\<close>), rotation of the
  cluster secret (\<^verbatim>\<open>secret_rotation.rs\<close>), sessions (\<^verbatim>\<open>auth/mod.rs\<close>), and the configuration text of VLANs
  (the rest of \<^verbatim>\<open>vlan.rs\<close>).
\<close>

end
